(* ===== verification/Prelude.thy ===== *)
theory Prelude
  imports Main
begin

text \<open>
  Shared vocabulary of the development.  Python exceptions become values of
  \<open>py_error\<close>, a fallible operation returns \<open>py_error + 'a\<close> (\<open>Inl\<close> the exception), and
  Python's statement sequence "do this, then that, the first exception wins" is
  \<open>bindR\<close>.  The theory also holds the generic facts on lists the components share, the
  first-occurrence de-duplication that the code writes \<open>list(dict.fromkeys(xs))\<close>, and the
  contract \<open>guarded_machine\<close> of a component whose operations either raise or move its state:
  an invariant that each accepted operation keeps holds after every accepted sequence of
  operations.
\<close>

named_theorems result_simps \<open>inversion of results built with bindR and ensure\<close>
named_theorems guard_defs \<open>validators and guards to unfold\<close>

subsection \<open>Exceptions as values\<close>

datatype py_error =
    ValueError string
  | TypeError string
  | KeyError string
  | RuntimeError string
  | FieldError string

type_synonym 'a result = "py_error + 'a"

definition bindR :: "('e + 'a) \<Rightarrow> ('a \<Rightarrow> 'e + 'b) \<Rightarrow> 'e + 'b" where
  "bindR r f = (case r of Inl e \<Rightarrow> Inl e | Inr x \<Rightarrow> f x)"

definition ensure :: "bool \<Rightarrow> 'e \<Rightarrow> 'e + unit" where
  "ensure b e = (if b then Inr () else Inl e)"

definition is_ok :: "'e + 'a \<Rightarrow> bool" where
  "is_ok r = (case r of Inl _ \<Rightarrow> False | Inr _ \<Rightarrow> True)"

lemma bindR_simps [simp]:
  "bindR (Inl e) f = Inl e"
  "bindR (Inr x) f = f x"
  by (simp_all add: bindR_def)

lemma bindR_eq_Inr [result_simps]: "bindR r f = Inr y \<longleftrightarrow> (\<exists>x. r = Inr x \<and> f x = Inr y)"
  by (auto simp: bindR_def split: sum.splits)

lemma bindR_eq_Inl [result_simps]:
  "bindR r f = Inl e \<longleftrightarrow> r = Inl e \<or> (\<exists>x. r = Inr x \<and> f x = Inl e)"
  by (auto simp: bindR_def split: sum.splits)

lemma ensure_eq_Inr [result_simps]: "ensure b e = Inr u \<longleftrightarrow> b"
  by (simp add: ensure_def)

lemma ensure_eq_Inl [result_simps]: "ensure b e = Inl e' \<longleftrightarrow> \<not> b \<and> e' = e"
  by (auto simp: ensure_def)

lemma ensure_simps [simp]: "ensure True e = Inr ()" "ensure False e = Inl e"
  by (simp_all add: ensure_def)

lemma is_ok_simps [simp]: "is_ok (Inr x)" "\<not> is_ok (Inl e)"
  by (simp_all add: is_ok_def)

lemma is_ok_iff: "is_ok r \<longleftrightarrow> (\<exists>x. r = Inr x)"
  by (auto simp: is_ok_def split: sum.splits)

lemma is_ok_bindR: "is_ok r \<Longrightarrow> (\<And>x. r = Inr x \<Longrightarrow> is_ok (f x)) \<Longrightarrow> is_ok (bindR r f)"
  by (cases r) auto

text \<open>A comprehension whose body may raise.\<close>

fun mapR :: "('a \<Rightarrow> 'e + 'b) \<Rightarrow> 'a list \<Rightarrow> 'e + 'b list" where
  "mapR f [] = Inr []"
| "mapR f (x # xs) = bindR (f x) (\<lambda>y. bindR (mapR f xs) (\<lambda>ys. Inr (y # ys)))"

lemma mapR_cong [fundef_cong]:
  assumes "xs = ys" and "\<And>x. x \<in> set ys \<Longrightarrow> f x = g x"
  shows "mapR f xs = mapR g ys"
  using assms(2) unfolding assms(1) by (induction ys) simp_all

lemma mapR_Inr [result_simps]: "mapR f xs = Inr ys \<longleftrightarrow> list_all2 (\<lambda>x y. f x = Inr y) xs ys"
  by (induction xs arbitrary: ys) (auto simp: result_simps list_all2_Cons1)

subsection \<open>First-occurrence de-duplication\<close>

text \<open>\<open>list(dict.fromkeys(xs))\<close> keeps the first occurrence of every element, in order.\<close>

fun fromkeys :: "'a list \<Rightarrow> 'a list" where
  "fromkeys [] = []"
| "fromkeys (x # xs) = x # filter (\<lambda>y. y \<noteq> x) (fromkeys xs)"

lemma set_fromkeys [simp]: "set (fromkeys xs) = set xs"
  by (induction xs) auto

lemma distinct_fromkeys [simp]: "distinct (fromkeys xs)"
  by (induction xs) auto

lemma fromkeys_eq_Nil [simp]: "fromkeys xs = [] \<longleftrightarrow> xs = []"
  by (cases xs) auto

lemma fromkeys_distinct: "distinct xs \<Longrightarrow> fromkeys xs = xs"
  by (induction xs) (auto simp: filter_id_conv)

lemma hd_fromkeys: "xs \<noteq> [] \<Longrightarrow> hd (fromkeys xs) = hd xs"
  by (cases xs) auto

text \<open>\<open>len(set(xs)) == len(xs)\<close>, the code's test for repeated entries.\<close>

definition no_repeats :: "'a list \<Rightarrow> bool" where
  "no_repeats xs \<longleftrightarrow> card (set xs) = length xs"

lemma no_repeats_iff_distinct [simp]: "no_repeats xs \<longleftrightarrow> distinct xs"
  unfolding no_repeats_def by (metis card_distinct distinct_card)

subsection \<open>First match\<close>

lemma find_append: "find P (xs @ ys) = (case find P xs of None \<Rightarrow> find P ys | Some x \<Rightarrow> Some x)"
  by (induction xs) auto

lemma find_snoc:
  "find P (xs @ [x]) = (case find P xs of Some y \<Rightarrow> Some y | None \<Rightarrow> if P x then Some x else None)"
  by (induction xs) auto

lemma find_map_same:
  "(\<And>x. P (f x) = P x) \<Longrightarrow> find P (map f xs) = map_option f (find P xs)"
  by (induction xs) auto

lemma set_map_filter: "set (List.map_filter f xs) = {y. \<exists>x\<in>set xs. f x = Some y}"
  by (induction xs) (auto simp: List.map_filter_simps split: option.splits)

subsection \<open>Machines whose operations may raise\<close>

text \<open>
  An operation that raises leaves the caller without a new state, so a run is the sequence
  of the operations that were accepted; \<open>run_steps\<close> stops at the first exception.
\<close>

fun run_steps :: "('s \<Rightarrow> 'a \<Rightarrow> 'e + 's) \<Rightarrow> 's \<Rightarrow> 'a list \<Rightarrow> 'e + 's" where
  "run_steps step s [] = Inr s"
| "run_steps step s (a # as) = bindR (step s a) (\<lambda>s'. run_steps step s' as)"

lemma run_steps_append:
  "run_steps step s (as @ bs) = bindR (run_steps step s as) (\<lambda>s'. run_steps step s' bs)"
proof (induction as arbitrary: s)
  case Nil
  then show ?case by simp
next
  case (Cons a as)
  then show ?case by (cases "step s a") simp_all
qed

text \<open>The contract: \<open>inv\<close> is what the component promises about its state, \<open>ok\<close> what it asks
  of the operations it is given.\<close>

locale guarded_machine =
  fixes step :: "'s \<Rightarrow> 'a \<Rightarrow> 'e + 's"
    and inv :: "'s \<Rightarrow> bool"
    and ok :: "'a \<Rightarrow> bool"
  assumes step_inv: "inv s \<Longrightarrow> ok a \<Longrightarrow> step s a = Inr s' \<Longrightarrow> inv s'"
begin

lemma run_inv:
  assumes "inv s" and "\<And>a. a \<in> set as \<Longrightarrow> ok a" and "run_steps step s as = Inr s'"
  shows "inv s'"
  using assms
proof (induction as arbitrary: s)
  case Nil
  then show ?case by simp
next
  case (Cons a as)
  from Cons.prems(3) obtain t where t: "step s a = Inr t" "run_steps step t as = Inr s'"
    by (auto simp: result_simps)
  have "inv t" using Cons.prems(1,2) t(1) by (auto intro: step_inv)
  then show ?case using Cons.IH Cons.prems(2) t(2) by simp
qed

end

text \<open>A stronger contract: an operation the caller is entitled to make never raises.\<close>

locale total_machine = guarded_machine +
  assumes step_total: "inv s \<Longrightarrow> ok a \<Longrightarrow> \<exists>s'. step s a = Inr s'"
begin

lemma run_total:
  assumes "inv s" and "\<And>a. a \<in> set as \<Longrightarrow> ok a"
  shows "\<exists>s'. run_steps step s as = Inr s' \<and> inv s'"
  using assms
proof (induction as arbitrary: s)
  case Nil
  then show ?case by simp
next
  case (Cons a as)
  from Cons.prems obtain t where t: "step s a = Inr t" using step_total by fastforce
  moreover have "inv t" using Cons.prems t by (auto intro: step_inv)
  ultimately show ?case using Cons.IH [of t] Cons.prems(2) by auto
qed

end

end
