(* ===== verification/HuntState.thy ===== *)
theory HuntState
  imports Prelude
begin

text \<open>
  The hunt workflow state machine of \<^verbatim>\<open>domain/state.py\<close>: the states, the transition table with
  its cancellation and failure rules, the mutable \<open>HuntStateMachine\<close> with its pause
  metadata, and reachability over the transitions it accepts.
\<close>

subsection \<open>States and the transition table\<close>

datatype HuntState =
    CREATED | DISCOVERING | PLAN_DRAFT | AWAITING_PLAN_REVIEW | APPROVED | QUEUED
  | RUNNING | PAUSED | SYNTHESIZING | REPORT_DRAFT | FINALIZED | CANCELLED | FAILED

datatype PausedResumeTarget = RESUME_RUNNING | RESUME_SYNTHESIZING

text \<open>The two enums share their string values; \<open>target_state.value == resume_target.value\<close>
  compares a state with a resume target through them.\<close>

fun resume_state :: "PausedResumeTarget \<Rightarrow> HuntState" where
  "resume_state RESUME_RUNNING = RUNNING"
| "resume_state RESUME_SYNTHESIZING = SYNTHESIZING"

datatype transition_error =
    InvalidStateTransition HuntState HuntState
  | ResumeMismatch
  | QueuedSynthesisTarget
  | ResumeTargetNotPaused

definition TERMINAL_STATES :: "HuntState list" where
  "TERMINAL_STATES = [FINALIZED, CANCELLED, FAILED]"

fun EXPLICIT_TRANSITIONS :: "HuntState \<Rightarrow> HuntState list" where
  "EXPLICIT_TRANSITIONS CREATED = [DISCOVERING]"
| "EXPLICIT_TRANSITIONS DISCOVERING = [PLAN_DRAFT]"
| "EXPLICIT_TRANSITIONS PLAN_DRAFT = [AWAITING_PLAN_REVIEW]"
| "EXPLICIT_TRANSITIONS AWAITING_PLAN_REVIEW = [APPROVED, PLAN_DRAFT]"
| "EXPLICIT_TRANSITIONS APPROVED = [QUEUED, PLAN_DRAFT]"
| "EXPLICIT_TRANSITIONS QUEUED = [PLAN_DRAFT, RUNNING, SYNTHESIZING]"
| "EXPLICIT_TRANSITIONS RUNNING = [SYNTHESIZING, PAUSED]"
| "EXPLICIT_TRANSITIONS PAUSED = [QUEUED]"
| "EXPLICIT_TRANSITIONS SYNTHESIZING = [REPORT_DRAFT, PAUSED]"
| "EXPLICIT_TRANSITIONS REPORT_DRAFT = [FINALIZED]"
| "EXPLICIT_TRANSITIONS FINALIZED = []"
| "EXPLICIT_TRANSITIONS CANCELLED = []"
| "EXPLICIT_TRANSITIONS FAILED = []"

definition ALLOWED_TRANSITIONS :: "HuntState \<Rightarrow> HuntState list" where
  "ALLOWED_TRANSITIONS state =
     EXPLICIT_TRANSITIONS state
     @ (if state \<notin> set TERMINAL_STATES then [CANCELLED] else [])
     @ (if state \<notin> set (CREATED # TERMINAL_STATES) then [FAILED] else [])"

definition is_terminal_state :: "HuntState \<Rightarrow> bool" where
  "is_terminal_state state \<longleftrightarrow> state \<in> set TERMINAL_STATES"

definition allowed_next_states :: "HuntState \<Rightarrow> HuntState set" where
  "allowed_next_states state = set (ALLOWED_TRANSITIONS state)"

definition can_transition :: "HuntState \<Rightarrow> HuntState \<Rightarrow> bool" where
  "can_transition current target \<longleftrightarrow>
     (if current = CANCELLED \<and> target = CANCELLED then True
      else target \<in> set (ALLOWED_TRANSITIONS current))"

definition validate_transition :: "HuntState \<Rightarrow> HuntState \<Rightarrow> transition_error + unit" where
  "validate_transition current target =
     (if \<not> can_transition current target then Inl (InvalidStateTransition current target)
      else Inr ())"

subsection \<open>The mutable machine\<close>

record HuntStateMachine =
  state :: HuntState
  resume_target :: "PausedResumeTarget option"

text \<open>The constructor with its \<open>__post_init__\<close> check.\<close>

definition mk_machine ::
  "HuntState \<Rightarrow> PausedResumeTarget option \<Rightarrow> transition_error + HuntStateMachine" where
  "mk_machine s r =
     (if s \<noteq> PAUSED \<and> r \<noteq> None then Inl ResumeTargetNotPaused
      else Inr \<lparr>state = s, resume_target = r\<rparr>)"

definition new_machine :: HuntStateMachine where
  "new_machine = \<lparr>state = CREATED, resume_target = None\<rparr>"

definition is_terminal :: "HuntStateMachine \<Rightarrow> bool" where
  "is_terminal m \<longleftrightarrow> is_terminal_state (state m)"

definition machine_can_transition :: "HuntStateMachine \<Rightarrow> HuntState \<Rightarrow> bool" where
  "machine_can_transition m target =
     (if \<not> can_transition (state m) target then False
      else if state m = QUEUED \<and> target \<in> {RUNNING, SYNTHESIZING} then
        (case resume_target m of
           Some r \<Rightarrow> target = resume_state r
         | None \<Rightarrow> target \<noteq> SYNTHESIZING)
      else True)"

text \<open>\<open>transition(target, resume_target=arg)\<close>: the branches in source order.  Only the last
  branch clears the pause metadata; the two branches that raise do so before the state moves.\<close>

definition transition ::
  "HuntStateMachine \<Rightarrow> HuntState \<Rightarrow> PausedResumeTarget option
     \<Rightarrow> transition_error + HuntStateMachine" where
  "transition m target arg =
     (if state m = CANCELLED \<and> target = CANCELLED then Inr m
      else if \<not> machine_can_transition m target
        then Inl (InvalidStateTransition (state m) target)
      else if state m = RUNNING \<and> target = PAUSED
        then Inr (m\<lparr>resume_target := Some RESUME_RUNNING, state := target\<rparr>)
      else if state m = SYNTHESIZING \<and> target = PAUSED
        then Inr (m\<lparr>resume_target := Some RESUME_SYNTHESIZING, state := target\<rparr>)
      else if state m = PAUSED \<and> target = QUEUED
        then (if arg \<noteq> None \<and> arg \<noteq> resume_target m then Inl ResumeMismatch
              else Inr (m\<lparr>state := target\<rparr>))
      else if state m = QUEUED \<and> target = SYNTHESIZING
        then (if arg \<noteq> None \<and> arg \<noteq> Some RESUME_SYNTHESIZING then Inl QueuedSynthesisTarget
              else Inr (m\<lparr>state := target\<rparr>))
      else if target \<in> set TERMINAL_STATES \<or> target \<in> {RUNNING, SYNTHESIZING}
        then Inr (m\<lparr>resume_target := None, state := target\<rparr>)
      else Inr (m\<lparr>state := target\<rparr>))"

lemmas state_table_defs = ALLOWED_TRANSITIONS_def TERMINAL_STATES_def can_transition_def
  machine_can_transition_def

subsection \<open>Accepted transitions\<close>

text \<open>One accepted call of \<open>transition\<close>, and the states a new hunt can reach.\<close>

inductive hunt_step :: "HuntStateMachine \<Rightarrow> HuntStateMachine \<Rightarrow> bool" where
  accepted: "transition m target arg = Inr m' \<Longrightarrow> hunt_step m m'"

inductive_simps hunt_step_iff: "hunt_step m m'"

text \<open>Reachability with the list of states the hunt has been in, latest first.\<close>

inductive hunt_history :: "HuntState list \<Rightarrow> HuntStateMachine \<Rightarrow> bool" where
  start: "hunt_history [CREATED] new_machine"
| move: "hunt_history h m \<Longrightarrow> hunt_step m m' \<Longrightarrow> hunt_history (state m' # h) m'"

lemma transition_target: "transition m target arg = Inr m' \<Longrightarrow> state m' = target"
  by (auto simp: transition_def split: if_splits)

lemma transition_allowed:
  "transition m target arg = Inr m' \<Longrightarrow> can_transition (state m) target"
  by (auto simp: transition_def can_transition_def machine_can_transition_def split: if_splits)

lemma transition_machine_can:
  "transition m target arg = Inr m' \<Longrightarrow> machine_can_transition m target"
  by (auto simp: transition_def machine_can_transition_def can_transition_def split: if_splits)

lemma terminal_no_exit:
  "is_terminal_state s \<Longrightarrow> can_transition s t \<Longrightarrow> s = CANCELLED \<and> t = CANCELLED"
  by (cases s) (auto simp: is_terminal_state_def state_table_defs split: if_splits)

lemma cancel_open_state: "\<not> is_terminal_state s \<Longrightarrow> can_transition s CANCELLED"
  by (cases s) (auto simp: is_terminal_state_def state_table_defs)

text \<open>Pause metadata: what every reachable machine keeps between its two fields.\<close>

definition pause_inv :: "HuntStateMachine \<Rightarrow> bool" where
  "pause_inv m \<longleftrightarrow>
     (state m = PAUSED \<longrightarrow> resume_target m \<noteq> None)
     \<and> (state m \<in> {RUNNING, FINALIZED, CANCELLED, FAILED, CREATED, DISCOVERING}
          \<longrightarrow> resume_target m = None)
     \<and> (state m = SYNTHESIZING \<longrightarrow> resume_target m \<noteq> Some RESUME_RUNNING)"

lemma pause_inv_new: "pause_inv new_machine"
  by (simp add: pause_inv_def new_machine_def)

lemma transition_pause_inv:
  assumes "pause_inv m" and "transition m target arg = Inr m'"
  shows "pause_inv m'"
proof -
  have "machine_can_transition m target" by (rule transition_machine_can [OF assms(2)])
  then show ?thesis using assms
    by (cases "state m"; cases target)
      (auto simp: pause_inv_def transition_def state_table_defs split: if_splits option.splits)
qed

interpretation hunt: guarded_machine
  "\<lambda>m (target, arg). transition m target arg" pause_inv "\<lambda>_. True"
  by unfold_locales (auto intro: transition_pause_inv)

lemma hunt_history_nonempty: "hunt_history h m \<Longrightarrow> state m \<in> set h"
  by (induction rule: hunt_history.induct) (simp_all add: new_machine_def)

lemma hunt_history_pause_inv: "hunt_history h m \<Longrightarrow> pause_inv m"
  by (induction rule: hunt_history.induct)
    (auto simp: pause_inv_new hunt_step_iff intro: transition_pause_inv)

text \<open>Which states a state implies in the past: the gates of the workflow.\<close>

fun gate :: "HuntState \<Rightarrow> HuntState list" where
  "gate CREATED = []"
| "gate DISCOVERING = [CREATED]"
| "gate PLAN_DRAFT = [DISCOVERING]"
| "gate AWAITING_PLAN_REVIEW = [DISCOVERING, PLAN_DRAFT]"
| "gate APPROVED = [DISCOVERING, PLAN_DRAFT, AWAITING_PLAN_REVIEW]"
| "gate QUEUED = [DISCOVERING, PLAN_DRAFT, AWAITING_PLAN_REVIEW, APPROVED]"
| "gate RUNNING = [DISCOVERING, PLAN_DRAFT, AWAITING_PLAN_REVIEW, APPROVED, QUEUED]"
| "gate PAUSED = [DISCOVERING, PLAN_DRAFT, AWAITING_PLAN_REVIEW, APPROVED, QUEUED, RUNNING]"
| "gate SYNTHESIZING =
     [DISCOVERING, PLAN_DRAFT, AWAITING_PLAN_REVIEW, APPROVED, QUEUED, RUNNING]"
| "gate REPORT_DRAFT =
     [DISCOVERING, PLAN_DRAFT, AWAITING_PLAN_REVIEW, APPROVED, QUEUED, RUNNING, SYNTHESIZING]"
| "gate FINALIZED =
     [DISCOVERING, PLAN_DRAFT, AWAITING_PLAN_REVIEW, APPROVED, QUEUED, RUNNING, SYNTHESIZING,
      REPORT_DRAFT]"
| "gate CANCELLED = []"
| "gate FAILED = []"

definition gate_inv :: "HuntState list \<Rightarrow> HuntStateMachine \<Rightarrow> bool" where
  "gate_inv h m \<longleftrightarrow>
     state m \<in> set h \<and> set (gate (state m)) \<subseteq> set h
     \<and> (resume_target m \<noteq> None \<longrightarrow> RUNNING \<in> set h)"

lemma transition_gate_inv:
  assumes "gate_inv h m" and "transition m target arg = Inr m'"
  shows "gate_inv (state m' # h) m'"
proof -
  have "machine_can_transition m target" by (rule transition_machine_can [OF assms(2)])
  then show ?thesis using assms
    by (cases "state m"; cases target)
      (auto simp: gate_inv_def transition_def state_table_defs split: if_splits option.splits)
qed

lemma hunt_history_gate: "hunt_history h m \<Longrightarrow> gate_inv h m"
proof (induction rule: hunt_history.induct)
  case start
  then show ?case by (simp add: gate_inv_def new_machine_def)
next
  case (move h m m')
  then show ?case by (auto simp: hunt_step_iff intro: transition_gate_inv)
qed


subsection \<open>Properties\<close>

text \<open>C2. The approval gate.  In every history the workflow accepts, a hunt that is running,
  paused, synthesizing, in report draft or finalized has earlier been through plan review and
  approval, and a finalized hunt has been through running, synthesis and a report draft.\<close>

theorem approval_gate:
  assumes "hunt_history h m"
  shows "(state m \<in> {QUEUED, RUNNING, PAUSED, SYNTHESIZING, REPORT_DRAFT, FINALIZED}
            \<longrightarrow> {DISCOVERING, PLAN_DRAFT, AWAITING_PLAN_REVIEW, APPROVED} \<subseteq> set h)
         \<and> (state m \<in> {REPORT_DRAFT, FINALIZED}
            \<longrightarrow> {QUEUED, RUNNING, SYNTHESIZING, REPORT_DRAFT} \<subseteq> set h)"
  using hunt_history_gate [OF assms] by (cases "state m") (auto simp: gate_inv_def)

definition example_run :: "(HuntState \<times> PausedResumeTarget option) list" where
  "example_run = [(DISCOVERING, None), (PLAN_DRAFT, None), (AWAITING_PLAN_REVIEW, None),
     (APPROVED, None), (QUEUED, None), (RUNNING, None)]"

lemma run_steps_history:
  assumes "hunt_history h m"
    and "run_steps (\<lambda>m (target, arg). transition m target arg) m as = Inr m'"
  shows "\<exists>h'. hunt_history (h' @ h) m'"
  using assms
proof (induction as arbitrary: h m)
  case Nil
  then show ?case by (auto intro: exI [of _ "[]"])
next
  case (Cons a as)
  obtain target arg where a: "a = (target, arg)" by force
  from Cons.prems(2) obtain t where t: "transition m target arg = Inr t"
      and run: "run_steps (\<lambda>m (target, arg). transition m target arg) t as = Inr m'"
    by (auto simp: a result_simps)
  have "hunt_history (state t # h) t"
    using Cons.prems(1) t by (blast intro: hunt_history.move hunt_step.accepted)
  from Cons.IH [OF this run] obtain h' where "hunt_history (h' @ state t # h) m'" by blast
  then show ?case by (intro exI [of _ "h' @ [state t]"]) simp
qed

lemma example_history: "\<exists>h. hunt_history h \<lparr>state = RUNNING, resume_target = None\<rparr>"
proof -
  have "run_steps (\<lambda>m (target, arg). transition m target arg) new_machine example_run
    = Inr \<lparr>state = RUNNING, resume_target = None\<rparr>"
    by (simp add: example_run_def new_machine_def transition_def state_table_defs)
  from run_steps_history [OF hunt_history.start this] show ?thesis by blast
qed

theorem approval_gate_witness:
  "\<exists>h. hunt_history h \<lparr>state = RUNNING, resume_target = None\<rparr> \<and> APPROVED \<in> set h"
proof -
  obtain h where h: "hunt_history h \<lparr>state = RUNNING, resume_target = None\<rparr>"
    using example_history by blast
  from approval_gate [OF h] h show ?thesis by auto
qed

lemma terminal_transition:
  assumes "is_terminal m"
  shows "transition m target arg =
    (if state m = CANCELLED \<and> target = CANCELLED then Inr m
     else Inl (InvalidStateTransition (state m) target))"
proof -
  have "machine_can_transition m target \<Longrightarrow> state m = CANCELLED \<and> target = CANCELLED"
    using terminal_no_exit [of "state m" target] assms
    by (auto simp: is_terminal_def machine_can_transition_def split: if_splits)
  then show ?thesis by (auto simp: transition_def)
qed

text \<open>Terminal states are absorbing.  From a machine in a terminal state, whatever sequence
  of transitions is accepted leaves the machine unchanged, and every target but a repeated
  cancellation raises \<open>InvalidStateTransition\<close>.\<close>

theorem terminal_absorbing:
  assumes "is_terminal m"
    and "run_steps (\<lambda>m (target, arg). transition m target arg) m as = Inr m'"
  shows "m' = m \<and> (\<forall>(target, arg) \<in> set as. state m = CANCELLED \<and> target = CANCELLED)"
  using assms
proof (induction as)
  case Nil
  then show ?case by simp
next
  case (Cons a as)
  obtain target arg where a: "a = (target, arg)" by force
  with Cons.prems have "state m = CANCELLED \<and> target = CANCELLED"
    by (simp add: terminal_transition split: if_splits)
  with a Cons show ?case by (simp add: terminal_transition)
qed

theorem terminal_absorbing_witness:
  "is_terminal \<lparr>state = CANCELLED, resume_target = None\<rparr>
   \<and> (\<exists>m'. run_steps (\<lambda>m (target, arg). transition m target arg)
         \<lparr>state = CANCELLED, resume_target = None\<rparr> [(CANCELLED, None), (CANCELLED, None)] = Inr m'
       \<and> m' = \<lparr>state = CANCELLED, resume_target = None\<rparr>)"
proof -
  let ?m = "\<lparr>state = CANCELLED, resume_target = None\<rparr>"
  have t: "is_terminal ?m"
    by (simp add: is_terminal_def is_terminal_state_def TERMINAL_STATES_def)
  obtain m' where r: "run_steps (\<lambda>m (target, arg). transition m target arg) ?m
      [(CANCELLED, None), (CANCELLED, None)] = Inr m'"
    by (simp add: transition_def)
  show ?thesis using terminal_absorbing [OF t r] t r by blast
qed

text \<open>Resuming goes back to the interrupted stage.  A hunt paused while running or
  synthesizing keeps that stage; once queued again it can enter that stage and cannot enter
  the other one.\<close>

theorem resume_returns_to_interrupted_stage:
  assumes "state m \<in> {RUNNING, SYNTHESIZING}"
    and "transition m PAUSED arg1 = Inr p" and "transition p QUEUED arg2 = Inr q"
  shows "(\<exists>r. transition q (state m) None = Inr r \<and> state r = state m)
         \<and> (\<forall>target \<in> {RUNNING, SYNTHESIZING} - {state m}.
              transition q target None = Inl (InvalidStateTransition QUEUED target))"
proof -
  obtain r where r: "resume_state r = state m"
    using assms(1) by (metis insertE resume_state.simps singletonD)
  have p: "p = \<lparr>state = PAUSED, resume_target = Some r\<rparr>"
    using assms(1,2) r by (cases m; cases r) (auto simp: transition_def state_table_defs)
  have q: "q = \<lparr>state = QUEUED, resume_target = Some r\<rparr>"
    using assms(3) unfolding p by (auto simp: transition_def state_table_defs split: if_splits)
  show ?thesis unfolding q r [symmetric]
    by (cases r) (auto simp: transition_def state_table_defs)
qed

theorem resume_returns_to_interrupted_stage_witness:
  "\<exists>p q. transition \<lparr>state = SYNTHESIZING, resume_target = None\<rparr> PAUSED None = Inr p
     \<and> transition p QUEUED None = Inr q
     \<and> transition q RUNNING None = Inl (InvalidStateTransition QUEUED RUNNING)"
proof -
  let ?m = "\<lparr>state = SYNTHESIZING, resume_target = None\<rparr>"
  let ?p = "\<lparr>state = PAUSED, resume_target = Some RESUME_SYNTHESIZING\<rparr>"
  let ?q = "\<lparr>state = QUEUED, resume_target = Some RESUME_SYNTHESIZING\<rparr>"
  have p: "transition ?m PAUSED None = Inr ?p" and q: "transition ?p QUEUED None = Inr ?q"
    by (simp_all add: transition_def state_table_defs)
  have "state ?m \<in> {RUNNING, SYNTHESIZING}" by simp
  from resume_returns_to_interrupted_stage [OF this p q] p q show ?thesis by auto
qed

text \<open>Pause metadata of reachable hunts, and that cancellation never gets stuck.  In every
  accepted history a paused hunt knows its resume target, a running or closed hunt has none;
  and a hunt that is not closed can be cancelled, which clears the target.\<close>

theorem reachable_pause_metadata:
  assumes "hunt_history h m"
  shows "(state m = PAUSED \<longrightarrow> resume_target m \<noteq> None)
    \<and> (state m \<in> {RUNNING, FINALIZED, CANCELLED, FAILED} \<longrightarrow> resume_target m = None)
    \<and> (\<not> is_terminal m \<longrightarrow>
         transition m CANCELLED None = Inr \<lparr>state = CANCELLED, resume_target = None\<rparr>)"
proof -
  have "can_transition (state m) CANCELLED" if "\<not> is_terminal m"
    using that cancel_open_state by (simp add: is_terminal_def)
  then show ?thesis using hunt_history_pause_inv [OF assms]
    by (cases m) (auto simp: pause_inv_def transition_def machine_can_transition_def
        TERMINAL_STATES_def is_terminal_def is_terminal_state_def)
qed

theorem reachable_pause_metadata_witness:
  "\<exists>h. hunt_history h \<lparr>state = RUNNING, resume_target = None\<rparr>
     \<and> transition \<lparr>state = RUNNING, resume_target = None\<rparr> CANCELLED None
         = Inr \<lparr>state = CANCELLED, resume_target = None\<rparr>"
proof -
  obtain h where h: "hunt_history h \<lparr>state = RUNNING, resume_target = None\<rparr>"
    using example_history by blast
  from reachable_pause_metadata [OF h] h show ?thesis
    by (auto simp: is_terminal_def is_terminal_state_def TERMINAL_STATES_def)
qed

definition replanned_run :: "(HuntState \<times> PausedResumeTarget option) list" where
  "replanned_run = example_run @ [(SYNTHESIZING, None), (PAUSED, None), (QUEUED, None),
     (PLAN_DRAFT, None), (AWAITING_PLAN_REVIEW, None), (APPROVED, None), (QUEUED, None)]"

text \<open>A resume target survives re-planning.  A hunt interrupted during synthesis, queued to
  resume and sent back to plan review instead keeps the old target through the new approval:
  the freshly approved and queued plan cannot start running, only synthesis can be entered;
  and the constructor refuses to rebuild that queued machine from its two fields.\<close>

theorem stale_resume_target:
  "\<exists>m. run_steps (\<lambda>m (target, arg). transition m target arg) new_machine replanned_run = Inr m
     \<and> state m = QUEUED
     \<and> transition m RUNNING None = Inl (InvalidStateTransition QUEUED RUNNING)
     \<and> is_ok (transition m SYNTHESIZING None)
     \<and> mk_machine (state m) (resume_target m) = Inl ResumeTargetNotPaused"
  by (simp add: replanned_run_def example_run_def new_machine_def transition_def
      state_table_defs mk_machine_def)

end
