(* ===== verification/Failures.thy ===== *)
theory Failures
  imports Prelude
begin

text \<open>
  Failure categories and bounded retries of \<^verbatim>\<open>domain/errors.py\<close>: the classification table,
  the retry limits and the audit-safe failure record with its validator.
\<close>

datatype FailureCategory =
    TEMPORARY_NETWORK | RATE_LIMITED | PROVIDER_QUOTA_EXHAUSTED | PROVIDER_SERVER_ERROR
  | INVALID_CREDENTIALS | PERMISSION_DENIED | INVALID_CONFIGURATION | TLS_CERTIFICATE_FAILURE
  | DATABASE_FAILURE | QUERY_POLICY_REJECTED | MODEL_OUTPUT_INVALID | HARD_TIMEOUT
  | BUDGET_EXHAUSTED | CANCELLED_FAILURE | VALIDATION_FAILURE | UNKNOWN_FAILURE

datatype RetryClassification = RETRYABLE | REPAIRABLE | NON_RETRYABLE

fun retry_classification :: "FailureCategory \<Rightarrow> RetryClassification" where
  "retry_classification TEMPORARY_NETWORK = RETRYABLE"
| "retry_classification RATE_LIMITED = RETRYABLE"
| "retry_classification PROVIDER_QUOTA_EXHAUSTED = NON_RETRYABLE"
| "retry_classification PROVIDER_SERVER_ERROR = RETRYABLE"
| "retry_classification MODEL_OUTPUT_INVALID = REPAIRABLE"
| "retry_classification INVALID_CREDENTIALS = NON_RETRYABLE"
| "retry_classification PERMISSION_DENIED = NON_RETRYABLE"
| "retry_classification INVALID_CONFIGURATION = NON_RETRYABLE"
| "retry_classification TLS_CERTIFICATE_FAILURE = NON_RETRYABLE"
| "retry_classification DATABASE_FAILURE = NON_RETRYABLE"
| "retry_classification QUERY_POLICY_REJECTED = NON_RETRYABLE"
| "retry_classification HARD_TIMEOUT = NON_RETRYABLE"
| "retry_classification BUDGET_EXHAUSTED = NON_RETRYABLE"
| "retry_classification CANCELLED_FAILURE = NON_RETRYABLE"
| "retry_classification VALIDATION_FAILURE = NON_RETRYABLE"
| "retry_classification UNKNOWN_FAILURE = NON_RETRYABLE"

definition max_retries_for :: "FailureCategory \<Rightarrow> int" where
  "max_retries_for category =
     (let classification = retry_classification category in
      if classification = RETRYABLE then 1
      else if classification = REPAIRABLE then 2
      else 0)"

text \<open>\<open>attempt\<close> is a Python integer; a negative one raises.\<close>

definition should_retry :: "FailureCategory \<Rightarrow> int \<Rightarrow> bool result" where
  "should_retry category attempt =
     (if attempt < 0 then Inl (ValueError ''attempt must be a non-negative integer'')
      else Inr (attempt < max_retries_for category))"

record FailureRecord =
  fr_category :: FailureCategory
  fr_retry_classification :: RetryClassification
  fr_message :: string
  fr_retry_number :: int

text \<open>The field constraints (\<open>min_length=1\<close>, \<open>ge=0\<close>) run before the model validator.\<close>

definition mk_FailureRecord ::
  "FailureCategory \<Rightarrow> RetryClassification \<Rightarrow> string \<Rightarrow> int \<Rightarrow> FailureRecord result" where
  "mk_FailureRecord category classification message retry_number =
     (if message = [] then Inl (FieldError ''message'')
      else if retry_number < 0 then Inl (FieldError ''retry_number'')
      else if retry_classification category \<noteq> classification
        then Inl (ValueError ''must use retry classification'')
      else if retry_number > max_retries_for category
        then Inl (ValueError ''retry_number exceeds the category retry limit'')
      else Inr \<lparr>fr_category = category, fr_retry_classification = classification,
                fr_message = message, fr_retry_number = retry_number\<rparr>)"

text \<open>The classification a failure is recorded under: an exception whose \<open>category\<close> is
  missing or is not one of the enum's values is unknown; only 100 characters of the type name
  are kept, and nothing of the exception text.\<close>

definition failure_metadata :: "FailureCategory option \<Rightarrow> string \<Rightarrow> FailureCategory \<times> string" where
  "failure_metadata category type_name =
     ((case category of Some c \<Rightarrow> c | None \<Rightarrow> UNKNOWN_FAILURE), take 100 type_name)"

text \<open>The loop every caller of \<open>should_retry\<close> writes: attempt, and again while it may.  It is
  the reference reading of the retry rule; \<open>outcomes n\<close> is the failure of attempt \<open>n\<close>, or
  \<open>None\<close> when it succeeds.\<close>

function attempts_made :: "(nat \<Rightarrow> FailureCategory option) \<Rightarrow> nat \<Rightarrow> nat" where
  "attempts_made outcomes n =
     (case outcomes n of
        None \<Rightarrow> Suc n
      | Some c \<Rightarrow>
          if should_retry c (int n) = Inr True then attempts_made outcomes (Suc n) else Suc n)"
  by pat_completeness auto
termination
proof (relation "measure (\<lambda>(_, n). 3 - n)")
  fix outcomes :: "nat \<Rightarrow> FailureCategory option" and n c
  assume "should_retry c (int n) = Inr True"
  then have "int n < 2"
    by (cases "retry_classification c") (auto simp: should_retry_def max_retries_for_def)
  then show "((outcomes, Suc n), (outcomes, n)) \<in> measure (\<lambda>(_, n). 3 - n)" by simp
qed simp

declare attempts_made.simps [simp del]

lemma max_retries_bounds: "0 \<le> max_retries_for c" "max_retries_for c \<le> 2"
  by (simp_all add: max_retries_for_def Let_def)

lemma attempts_made_bound:
  "n \<le> 2 \<Longrightarrow> attempts_made outcomes n \<le> 3"
proof (induction outcomes n rule: attempts_made.induct)
  case (1 outcomes n)
  show ?case
  proof (cases "outcomes n")
    case None
    with 1 show ?thesis by (simp add: attempts_made.simps [of outcomes n])
  next
    case (Some c)
    have "int n < 2" if "should_retry c (int n) = Inr True"
      using that max_retries_bounds [of c] by (auto simp: should_retry_def)
    with 1 Some show ?thesis by (auto simp: attempts_made.simps [of outcomes n])
  qed
qed

lemma attempts_made_transport:
  assumes "\<And>k. outcomes k \<noteq> Some MODEL_OUTPUT_INVALID" and "n \<le> 1"
  shows "attempts_made outcomes n \<le> 2"
  using assms
proof (induction outcomes n rule: attempts_made.induct)
  case (1 outcomes n)
  show ?case
  proof (cases "outcomes n")
    case None
    with 1 show ?thesis by (simp add: attempts_made.simps [of outcomes n])
  next
    case (Some c)
    have "c \<noteq> MODEL_OUTPUT_INVALID" using "1.prems"(1) [of n] Some by blast
    then have "max_retries_for c \<le> 1" by (cases c) (auto simp: max_retries_for_def)
    then have "int n < 1" if "should_retry c (int n) = Inr True"
      using that by (auto simp: should_retry_def)
    with 1 Some show ?thesis by (auto simp: attempts_made.simps [of outcomes n])
  qed
qed

text \<open>Retries are bounded by category.  Starting from attempt 0, whatever the failures are,
  at most three requests are made; if no failure is a repairable model output, at most two;
  and if the first failure is not retryable at all, exactly one.\<close>

theorem retries_bounded:
  "attempts_made outcomes 0 \<le> 3
   \<and> ((\<forall>k. outcomes k \<noteq> Some MODEL_OUTPUT_INVALID) \<longrightarrow> attempts_made outcomes 0 \<le> 2)
   \<and> (\<forall>c. outcomes 0 = Some c \<and> retry_classification c = NON_RETRYABLE
          \<longrightarrow> attempts_made outcomes 0 = 1)"
proof -
  have "attempts_made outcomes 0 = 1"
    if "outcomes 0 = Some c" "retry_classification c = NON_RETRYABLE" for c
    using that by (simp add: attempts_made.simps [of outcomes 0] should_retry_def max_retries_for_def)
  then show ?thesis
    using attempts_made_bound [of 0 outcomes] attempts_made_transport [of outcomes 0] by auto
qed

theorem retries_bounded_witness:
  "attempts_made (\<lambda>k. Some RATE_LIMITED) 0 \<le> 2 \<and> attempts_made (\<lambda>k. Some HARD_TIMEOUT) 0 = 1"
  using retries_bounded [of "\<lambda>k. Some RATE_LIMITED"] retries_bounded [of "\<lambda>k. Some HARD_TIMEOUT"]
  by simp

text \<open>A failure record cannot claim an unsafe retry.  Every record the constructor accepts
  carries its category's own classification and a retry number within that category's limit,
  and conversely any such record with a message is accepted.\<close>

theorem failure_record_safe:
  "mk_FailureRecord category classification message retry_number = Inr r \<longleftrightarrow>
     message \<noteq> [] \<and> 0 \<le> retry_number \<and> retry_number \<le> max_retries_for category
     \<and> classification = retry_classification category
     \<and> r = \<lparr>fr_category = category, fr_retry_classification = retry_classification category,
             fr_message = message, fr_retry_number = retry_number\<rparr>"
  by (auto simp: mk_FailureRecord_def)

end
