(* ===== verification/Budgets.thy ===== *)
theory Budgets
  imports Prelude
begin

text \<open>
  Hunt limits and the usage ledger of \<^verbatim>\<open>domain/budgets.py\<close>.  Integers are Python's unbounded
  ones.  The ledger's model has \<open>validate_assignment\<close> set, so every \<open>+=\<close> on a field re-runs the
  field bound and the ledger's relational validator; the operations below make the same
  sequence of checked assignments.
\<close>

subsection \<open>Limits\<close>

record BudgetLimits =
  hard_hunt_seconds :: int
  query_start_cutoff_seconds :: int
  max_inflight_query_seconds_after_cutoff :: int
  synthesis_allowance_seconds :: int
  max_agent_cycles :: int
  max_splunk_queries :: int
  max_concurrent_splunk_jobs :: int
  max_active_hunts :: int
  max_deployment_splunk_jobs :: int
  splunk_query_timeout_seconds :: int
  splunk_transport_timeout_seconds :: int
  max_model_calls :: int
  max_context_characters :: int
  max_model_input_tokens :: int
  max_model_output_tokens :: int
  max_model_output_tokens_per_call :: int
  max_model_call_timeout_seconds :: int
  max_cached_rows_per_query :: int
  max_cached_bytes_per_query :: int
  max_cached_rows_per_hunt :: int
  max_cached_bytes_per_hunt :: int
  max_representative_events :: int
  max_targeted_events :: int
  max_model_repair_attempts :: int
  max_transport_retries :: int
  max_report_render_retries :: int

definition default_limits :: BudgetLimits where
  "default_limits = \<lparr>
     hard_hunt_seconds = 1200, query_start_cutoff_seconds = 960,
     max_inflight_query_seconds_after_cutoff = 120, synthesis_allowance_seconds = 120,
     max_agent_cycles = 8, max_splunk_queries = 50, max_concurrent_splunk_jobs = 2,
     max_active_hunts = 1, max_deployment_splunk_jobs = 2, splunk_query_timeout_seconds = 120,
     splunk_transport_timeout_seconds = 120, max_model_calls = 12,
     max_context_characters = 500000, max_model_input_tokens = 500000,
     max_model_output_tokens = 96000, max_model_output_tokens_per_call = 8000,
     max_model_call_timeout_seconds = 120, max_cached_rows_per_query = 10000,
     max_cached_bytes_per_query = 262144000, max_cached_rows_per_hunt = 50000,
     max_cached_bytes_per_hunt = 1073741824, max_representative_events = 500,
     max_targeted_events = 500, max_model_repair_attempts = 2, max_transport_retries = 1,
     max_report_render_retries = 1\<rparr>"

text \<open>\<open>PositiveInt\<close> and \<open>NonNegativeInt\<close> on the fields.\<close>

definition limits_fields_ok :: "BudgetLimits \<Rightarrow> bool" where
  "limits_fields_ok l \<longleftrightarrow>
     list_all (\<lambda>v. 0 < v)
       [hard_hunt_seconds l, query_start_cutoff_seconds l,
        max_inflight_query_seconds_after_cutoff l, synthesis_allowance_seconds l,
        max_agent_cycles l, max_splunk_queries l, max_concurrent_splunk_jobs l,
        max_active_hunts l, max_deployment_splunk_jobs l, splunk_query_timeout_seconds l,
        splunk_transport_timeout_seconds l, max_model_calls l, max_context_characters l,
        max_model_input_tokens l, max_model_output_tokens l, max_model_output_tokens_per_call l,
        max_model_call_timeout_seconds l, max_cached_rows_per_query l,
        max_cached_bytes_per_query l, max_cached_rows_per_hunt l, max_cached_bytes_per_hunt l,
        max_representative_events l, max_targeted_events l]
     \<and> list_all (\<lambda>v. 0 \<le> v)
       [max_model_repair_attempts l, max_transport_retries l, max_report_render_retries l]"

definition validate_relationships :: "BudgetLimits \<Rightarrow> BudgetLimits result" where
  "validate_relationships l =
     (if query_start_cutoff_seconds l \<ge> hard_hunt_seconds l
        then Inl (ValueError ''query_start_cutoff_seconds must be below hard_hunt_seconds'')
      else if synthesis_allowance_seconds l > hard_hunt_seconds l
        then Inl (ValueError ''synthesis_allowance_seconds cannot exceed hard_hunt_seconds'')
      else if max_inflight_query_seconds_after_cutoff l > splunk_query_timeout_seconds l
        then Inl (ValueError ''max_inflight_query_seconds_after_cutoff cannot exceed splunk_query_timeout_seconds'')
      else if max_model_output_tokens_per_call l > max_model_output_tokens l
        then Inl (ValueError ''per-call output limit cannot exceed total output limit'')
      else if max_cached_rows_per_query l > max_cached_rows_per_hunt l
        then Inl (ValueError ''per-query row limit cannot exceed per-hunt row limit'')
      else if max_cached_bytes_per_query l > max_cached_bytes_per_hunt l
        then Inl (ValueError ''per-query byte limit cannot exceed per-hunt byte limit'')
      else if max_targeted_events l < max_representative_events l
        then Inl (ValueError ''targeted event limit cannot be below representative limit'')
      else Inr l)"

definition mk_BudgetLimits :: "BudgetLimits \<Rightarrow> BudgetLimits result" where
  "mk_BudgetLimits l =
     (if limits_fields_ok l then validate_relationships l else Inl (FieldError ''BudgetLimits''))"

definition valid_limits :: "BudgetLimits \<Rightarrow> bool" where
  "valid_limits l \<longleftrightarrow> mk_BudgetLimits l = Inr l"

subsection \<open>The usage ledger\<close>

datatype validation_error_code =
  SchemaCode | JsonCode | ReferenceLabel | CitationRelationship | QueryCoverage | StructureCode

record ModelOutputCheck =
  moc_contract :: string
  moc_repair :: bool
  moc_contract_valid :: "bool option"
  moc_grounding_valid :: "bool option"
  moc_validation_error_code :: "validation_error_code option"
  moc_context_characters :: "int option"
  moc_estimated_input_tokens :: "int option"
  moc_input_tokens :: "int option"
  moc_output_tokens :: "int option"

record BudgetCounters =
  model_calls :: int
  model_output_checks :: "ModelOutputCheck list"
  failed_model_calls :: int
  model_repair_attempts :: int
  model_input_tokens :: int
  model_output_tokens :: int
  splunk_queries :: int
  failed_splunk_queries :: int
  agent_cycles :: int
  cached_rows :: int
  cached_bytes :: int
  transport_retries :: int
  report_render_retries :: int

definition new_counters :: BudgetCounters where
  "new_counters = \<lparr>model_calls = 0, model_output_checks = [], failed_model_calls = 0,
     model_repair_attempts = 0, model_input_tokens = 0, model_output_tokens = 0,
     splunk_queries = 0, failed_splunk_queries = 0, agent_cycles = 0, cached_rows = 0,
     cached_bytes = 0, transport_retries = 0, report_render_retries = 0\<rparr>"

definition counters_fields_ok :: "BudgetCounters \<Rightarrow> bool" where
  "counters_fields_ok c \<longleftrightarrow>
     list_all (\<lambda>v. 0 \<le> v)
       [model_calls c, failed_model_calls c, model_repair_attempts c, model_input_tokens c,
        model_output_tokens c, splunk_queries c, failed_splunk_queries c, agent_cycles c,
        cached_rows c, cached_bytes c, transport_retries c, report_render_retries c]"

definition validate_counter_relationships :: "BudgetCounters \<Rightarrow> BudgetCounters result" where
  "validate_counter_relationships c =
     (if failed_model_calls c > model_calls c
        then Inl (ValueError ''failed_model_calls cannot exceed model_calls'')
      else if model_repair_attempts c > model_calls c
        then Inl (ValueError ''model_repair_attempts cannot exceed model_calls'')
      else if failed_splunk_queries c > splunk_queries c
        then Inl (ValueError ''failed_splunk_queries cannot exceed splunk_queries'')
      else Inr c)"

text \<open>One assignment to a field under \<open>validate_assignment\<close>: the new value is checked against
  its bound, then the whole ledger against its relations.\<close>

definition assign :: "BudgetCounters \<Rightarrow> BudgetCounters result" where
  "assign c =
     (if counters_fields_ok c then validate_counter_relationships c
      else Inl (FieldError ''BudgetCounters''))"

definition check_usage :: "int \<Rightarrow> string \<Rightarrow> py_error + unit" where
  "check_usage value field_name =
     (if value < 0 then Inl (ValueError (field_name @ '' must be a non-negative integer''))
      else Inr ())"

definition record_model_call ::
  "BudgetCounters \<Rightarrow> int \<Rightarrow> int \<Rightarrow> bool \<Rightarrow> bool \<Rightarrow> BudgetCounters result" where
  "record_model_call c input_tokens output_tokens failed repair =
     bindR (check_usage input_tokens ''input_tokens'') (\<lambda>_.
     bindR (check_usage output_tokens ''output_tokens'') (\<lambda>_.
     bindR (assign (c\<lparr>model_calls := model_calls c + 1\<rparr>)) (\<lambda>c.
     bindR (assign (c\<lparr>model_input_tokens := model_input_tokens c + input_tokens\<rparr>)) (\<lambda>c.
     bindR (assign (c\<lparr>model_output_tokens := model_output_tokens c + output_tokens\<rparr>)) (\<lambda>c.
     bindR (if failed then assign (c\<lparr>failed_model_calls := failed_model_calls c + 1\<rparr>) else Inr c)
       (\<lambda>c. if repair then assign (c\<lparr>model_repair_attempts := model_repair_attempts c + 1\<rparr>)
            else Inr c))))))"

definition record_splunk_query :: "BudgetCounters \<Rightarrow> bool \<Rightarrow> BudgetCounters result" where
  "record_splunk_query c failed =
     bindR (assign (c\<lparr>splunk_queries := splunk_queries c + 1\<rparr>)) (\<lambda>c.
       if failed then assign (c\<lparr>failed_splunk_queries := failed_splunk_queries c + 1\<rparr>) else Inr c)"

definition record_result :: "BudgetCounters \<Rightarrow> int \<Rightarrow> int \<Rightarrow> BudgetCounters result" where
  "record_result c rows bytes =
     bindR (check_usage rows ''rows'') (\<lambda>_.
     bindR (check_usage bytes ''bytes_'') (\<lambda>_.
     bindR (assign (c\<lparr>cached_rows := cached_rows c + rows\<rparr>)) (\<lambda>c.
       assign (c\<lparr>cached_bytes := cached_bytes c + bytes\<rparr>))))"

definition record_cycle :: "BudgetCounters \<Rightarrow> BudgetCounters result" where
  "record_cycle c = assign (c\<lparr>agent_cycles := agent_cycles c + 1\<rparr>)"

definition record_transport_retry :: "BudgetCounters \<Rightarrow> BudgetCounters result" where
  "record_transport_retry c = assign (c\<lparr>transport_retries := transport_retries c + 1\<rparr>)"

definition record_report_render_retry :: "BudgetCounters \<Rightarrow> BudgetCounters result" where
  "record_report_render_retry c =
     assign (c\<lparr>report_render_retries := report_render_retries c + 1\<rparr>)"

definition can_start_model_call :: "BudgetCounters \<Rightarrow> BudgetLimits \<Rightarrow> bool" where
  "can_start_model_call c l \<longleftrightarrow> model_calls c < max_model_calls l"

definition can_start_query :: "BudgetCounters \<Rightarrow> BudgetLimits \<Rightarrow> bool" where
  "can_start_query c l \<longleftrightarrow> splunk_queries c < max_splunk_queries l"

definition exhausted :: "BudgetCounters \<Rightarrow> BudgetLimits \<Rightarrow> bool" where
  "exhausted c l \<longleftrightarrow>
     model_calls c \<ge> max_model_calls l
     \<or> model_input_tokens c \<ge> max_model_input_tokens l
     \<or> model_output_tokens c \<ge> max_model_output_tokens l
     \<or> splunk_queries c \<ge> max_splunk_queries l
     \<or> agent_cycles c \<ge> max_agent_cycles l
     \<or> cached_rows c \<ge> max_cached_rows_per_hunt l
     \<or> cached_bytes c \<ge> max_cached_bytes_per_hunt l"

subsection \<open>The ledger's invariant\<close>

definition valid_counters :: "BudgetCounters \<Rightarrow> bool" where
  "valid_counters c \<longleftrightarrow>
     counters_fields_ok c \<and> failed_model_calls c \<le> model_calls c
     \<and> model_repair_attempts c \<le> model_calls c \<and> failed_splunk_queries c \<le> splunk_queries c"

lemma assign_iff: "assign c = Inr c' \<longleftrightarrow> c' = c \<and> valid_counters c"
  by (auto simp: assign_def validate_counter_relationships_def valid_counters_def)

lemma assign_valid [simp]: "valid_counters c \<Longrightarrow> assign c = Inr c"
  by (simp add: assign_iff)

lemma check_usage_ok [simp]: "0 \<le> v \<Longrightarrow> check_usage v f = Inr ()"
  by (simp add: check_usage_def)

lemma check_usage_neg: "v < 0 \<Longrightarrow> \<exists>e. check_usage v f = Inl e"
  by (simp add: check_usage_def)

lemmas ledger_defs = valid_counters_def counters_fields_ok_def

text \<open>The operations as one type, for runs of the ledger.\<close>

datatype ledger_op =
    ModelCall int int bool bool
  | SplunkQuery bool
  | Result int int
  | Cycle
  | TransportRetry
  | RenderRetry

fun ledger_step :: "BudgetCounters \<Rightarrow> ledger_op \<Rightarrow> BudgetCounters result" where
  "ledger_step c (ModelCall i out failed repair) = record_model_call c i out failed repair"
| "ledger_step c (SplunkQuery failed) = record_splunk_query c failed"
| "ledger_step c (Result rows bytes) = record_result c rows bytes"
| "ledger_step c Cycle = record_cycle c"
| "ledger_step c TransportRetry = record_transport_retry c"
| "ledger_step c RenderRetry = record_report_render_retry c"

fun ledger_op_ok :: "ledger_op \<Rightarrow> bool" where
  "ledger_op_ok (ModelCall i out failed repair) \<longleftrightarrow> 0 \<le> i \<and> 0 \<le> out"
| "ledger_op_ok (Result rows bytes) \<longleftrightarrow> 0 \<le> rows \<and> 0 \<le> bytes"
| "ledger_op_ok _ \<longleftrightarrow> True"

lemma record_model_call_eq:
  assumes "valid_counters c" and "0 \<le> i" and "0 \<le> out"
  shows "record_model_call c i out failed repair = Inr (c\<lparr>
      model_calls := model_calls c + 1,
      model_input_tokens := model_input_tokens c + i,
      model_output_tokens := model_output_tokens c + out,
      failed_model_calls := failed_model_calls c + of_bool failed,
      model_repair_attempts := model_repair_attempts c + of_bool repair\<rparr>)"
  using assms by (cases failed; cases repair) (simp_all add: record_model_call_def ledger_defs)

lemma record_splunk_query_eq:
  assumes "valid_counters c"
  shows "record_splunk_query c failed = Inr (c\<lparr>
      splunk_queries := splunk_queries c + 1,
      failed_splunk_queries := failed_splunk_queries c + of_bool failed\<rparr>)"
  using assms by (cases failed) (simp_all add: record_splunk_query_def ledger_defs)

lemma record_result_eq:
  assumes "valid_counters c" and "0 \<le> rows" and "0 \<le> bytes"
  shows "record_result c rows bytes = Inr (c\<lparr>
      cached_rows := cached_rows c + rows, cached_bytes := cached_bytes c + bytes\<rparr>)"
  using assms by (simp add: record_result_def ledger_defs)

lemma record_small_eqs:
  assumes "valid_counters c"
  shows "record_cycle c = Inr (c\<lparr>agent_cycles := agent_cycles c + 1\<rparr>)"
    and "record_transport_retry c = Inr (c\<lparr>transport_retries := transport_retries c + 1\<rparr>)"
    and "record_report_render_retry c
           = Inr (c\<lparr>report_render_retries := report_render_retries c + 1\<rparr>)"
  using assms
  by (simp_all add: record_cycle_def record_transport_retry_def record_report_render_retry_def
      ledger_defs)

lemmas record_eqs = record_model_call_eq record_splunk_query_eq record_result_eq record_small_eqs

lemma ledger_step_total:
  assumes "valid_counters c" and "ledger_op_ok a"
  shows "\<exists>c'. ledger_step c a = Inr c' \<and> valid_counters c'"
  using assms by (cases a) (auto simp: record_eqs ledger_defs)

interpretation ledger: total_machine ledger_step valid_counters ledger_op_ok
proof unfold_locales
  fix c a c'
  assume "valid_counters c" "ledger_op_ok a" "ledger_step c a = Inr c'"
  then show "valid_counters c'" using ledger_step_total [of c a] by auto
next
  fix c a
  assume "valid_counters c" "ledger_op_ok a"
  then show "\<exists>c'. ledger_step c a = Inr c'" using ledger_step_total by blast
qed

text \<open>Totals of a run: how often each kind of request appears in it.\<close>

definition count_ops :: "(ledger_op \<Rightarrow> bool) \<Rightarrow> ledger_op list \<Rightarrow> int" where
  "count_ops p ops = int (length (filter p ops))"

fun is_model_call :: "ledger_op \<Rightarrow> bool" where
  "is_model_call (ModelCall _ _ _ _) = True"
| "is_model_call _ = False"

fun is_failed_call :: "ledger_op \<Rightarrow> bool" where
  "is_failed_call (ModelCall _ _ failed _) = failed"
| "is_failed_call _ = False"

fun is_repair_call :: "ledger_op \<Rightarrow> bool" where
  "is_repair_call (ModelCall _ _ _ repair) = repair"
| "is_repair_call _ = False"

fun is_query :: "ledger_op \<Rightarrow> bool" where
  "is_query (SplunkQuery _) = True"
| "is_query _ = False"

lemma ledger_step_counts:
  assumes "valid_counters c" and "ledger_op_ok a" and "ledger_step c a = Inr c'"
  shows "model_calls c' = model_calls c + of_bool (is_model_call a)"
    and "failed_model_calls c' = failed_model_calls c + of_bool (is_failed_call a)"
    and "model_repair_attempts c' = model_repair_attempts c + of_bool (is_repair_call a)"
    and "splunk_queries c' = splunk_queries c + of_bool (is_query a)"
  using assms by (cases a; auto simp: record_eqs)+

subsection \<open>Properties\<close>

lemma ledger_run_counts:
  assumes "valid_counters c" and "\<And>a. a \<in> set ops \<Longrightarrow> ledger_op_ok a"
    and "run_steps ledger_step c ops = Inr c'"
  shows "model_calls c' = model_calls c + count_ops is_model_call ops
    \<and> failed_model_calls c' = failed_model_calls c + count_ops is_failed_call ops
    \<and> model_repair_attempts c' = model_repair_attempts c + count_ops is_repair_call ops
    \<and> splunk_queries c' = splunk_queries c + count_ops is_query ops"
  using assms
proof (induction ops arbitrary: c)
  case Nil
  then show ?case by (simp add: count_ops_def)
next
  case (Cons a ops)
  from Cons.prems(3) obtain t where t: "ledger_step c a = Inr t"
    and run: "run_steps ledger_step t ops = Inr c'" by (auto simp: result_simps)
  have ok: "ledger_op_ok a" using Cons.prems(2) by simp
  have "valid_counters t" using ledger.step_inv [OF Cons.prems(1) ok t] .
  with Cons.IH [OF this] Cons.prems(2) run ledger_step_counts [OF Cons.prems(1) ok t]
  show ?case by (simp add: count_ops_def)
qed

text \<open>The ledger is total and exact.  From a valid ledger, any sequence of record operations
  with non-negative usage is accepted, leaves a valid ledger, and the request counters grow by
  exactly the number of requests in the sequence: failed and repair requests are model calls
  like any other.\<close>

theorem ledger_total_and_exact:
  assumes "valid_counters c" and "\<And>a. a \<in> set ops \<Longrightarrow> ledger_op_ok a"
  shows "\<exists>c'. run_steps ledger_step c ops = Inr c' \<and> valid_counters c'
    \<and> model_calls c' = model_calls c + count_ops is_model_call ops
    \<and> failed_model_calls c' = failed_model_calls c + count_ops is_failed_call ops
    \<and> model_repair_attempts c' = model_repair_attempts c + count_ops is_repair_call ops
    \<and> splunk_queries c' = splunk_queries c + count_ops is_query ops"
proof -
  obtain c' where c': "run_steps ledger_step c ops = Inr c'" "valid_counters c'"
    using ledger.run_total [of c ops] assms by blast
  then show ?thesis using ledger_run_counts [of c ops c'] assms by blast
qed

theorem ledger_total_and_exact_witness:
  "valid_counters new_counters
   \<and> (\<exists>c'. run_steps ledger_step new_counters [ModelCall 10 5 True False, SplunkQuery False] = Inr c'
        \<and> model_calls c' = 1 \<and> failed_model_calls c' = 1)"
proof -
  have v: "valid_counters new_counters" by (simp add: ledger_defs new_counters_def)
  have ok: "a \<in> set [ModelCall 10 5 True False, SplunkQuery False] \<Longrightarrow> ledger_op_ok a" for a
    by auto
  from ledger_total_and_exact [OF v ok] v show ?thesis
    by (fastforce simp: count_ops_def new_counters_def)
qed

definition guarded_op :: "BudgetLimits \<Rightarrow> BudgetCounters \<Rightarrow> ledger_op \<Rightarrow> BudgetCounters result" where
  "guarded_op l c a =
     (if is_model_call a \<and> \<not> can_start_model_call c l then Inl (RuntimeError ''model call budget exhausted'')
      else if is_query a \<and> \<not> can_start_query c l then Inl (RuntimeError ''Splunk query budget exhausted'')
      else ledger_step c a)"

definition within_requests :: "BudgetLimits \<Rightarrow> BudgetCounters \<Rightarrow> bool" where
  "within_requests l c \<longleftrightarrow>
     valid_counters c \<and> model_calls c \<le> max_model_calls l \<and> splunk_queries c \<le> max_splunk_queries l"

lemma guarded_op_within:
  assumes "within_requests l c" and "ledger_op_ok a" and "guarded_op l c a = Inr c'"
  shows "within_requests l c'"
proof -
  have s: "ledger_step c a = Inr c'" using assms(3) by (auto simp: guarded_op_def split: if_splits)
  moreover have "valid_counters c" using assms(1) by (simp add: within_requests_def)
  moreover note assms(2)
  ultimately show ?thesis
    using ledger_step_counts [of c a c'] ledger.step_inv [of c a c'] assms
    by (cases a) (auto simp: guarded_op_def within_requests_def can_start_model_call_def
        can_start_query_def split: if_splits)
qed

interpretation guarded: guarded_machine "guarded_op l" "within_requests l" ledger_op_ok
  by unfold_locales (rule guarded_op_within)

lemma ledger_step_mono:
  assumes "valid_counters c" and "ledger_op_ok a" and "ledger_step c a = Inr c'"
    and "exhausted c l"
  shows "exhausted c' l"
  using assms by (cases a) (auto simp: record_eqs exhausted_def)

lemma guarded_run_exhausted:
  assumes "within_requests l c" and "\<And>a. a \<in> set ops \<Longrightarrow> ledger_op_ok a"
    and "run_steps (guarded_op l) c ops = Inr c'" and "exhausted c l"
  shows "exhausted c' l"
  using assms
proof (induction ops arbitrary: c)
  case Nil
  then show ?case by simp
next
  case (Cons a ops)
  from Cons.prems(3) obtain t where t: "guarded_op l c a = Inr t"
    and run: "run_steps (guarded_op l) t ops = Inr c'" by (auto simp: result_simps)
  have ok: "ledger_op_ok a" using Cons.prems(2) by simp
  have "ledger_step c a = Inr t" using t by (auto simp: guarded_op_def split: if_splits)
  then have "exhausted t l"
    using ledger_step_mono Cons.prems(1,4) ok by (auto simp: within_requests_def)
  moreover have "within_requests l t" by (rule guarded_op_within [OF Cons.prems(1) ok t])
  ultimately show ?case using Cons.IH run Cons.prems(2) by simp
qed



end
