(* ===== verification/Jobs.thy ===== *)
theory Jobs
  imports Prelude
begin

text \<open>
  The durable queue with expiring worker leases of \<^verbatim>\<open>services/jobs.py\<close>.  The table is the list
  of its rows in insertion order, a transaction is one function from table to table, and an
  exception leaves the table as it was.  Times are integer instants and the clock reading
  \<open>now\<close> is an argument, as it is in the code; identifiers that the code draws with \<open>uuid4\<close> are
  arguments too.  Rows with the same creation time are taken in insertion order (the database
  leaves that order open; nothing below depends on it).  Transactions are serialised, which
  is what the row locks and the admission lock of \<open>claim\<close> provide.
\<close>

subsection \<open>Rows, leases and the service\<close>

record job =
  j_job_id :: string
  j_hunt_id :: string
  j_owner_id :: string
  j_scope :: string
  j_status :: string
  j_worker_id :: "string option"
  j_lease_expires :: "int option"
  j_heartbeat :: "int option"
  j_attempts :: int
  j_key :: string
  j_payload :: string
  j_cancel_requested :: bool
  j_last_error :: "string option"
  j_created :: int
  j_updated :: int

record JobLease =
  l_job_id :: string
  l_hunt_id :: string
  l_owner_id :: string
  l_scope :: string
  l_worker_id :: string
  l_generation :: int
  l_expires :: int

record JobService =
  s_lease_seconds :: int
  s_scope :: string
  s_max_active :: "int option"

datatype job_error = JobConflict string | JobValueError string | IntegrityError string

type_synonym table = "job list"

definition mk_JobService :: "int \<Rightarrow> string \<Rightarrow> int option \<Rightarrow> job_error + JobService" where
  "mk_JobService lease_seconds scope max_active =
     (if lease_seconds \<le> 0 then Inl (JobValueError ''lease_seconds must be positive'')
      else if scope = [] \<or> length scope > 200
        then Inl (JobValueError ''deployment_scope_id must contain 1 to 200 characters'')
      else if (case max_active of None \<Rightarrow> False | Some k \<Rightarrow> k \<le> 0)
        then Inl (JobValueError ''max_active_hunts must be positive'')
      else Inr \<lparr>s_lease_seconds = lease_seconds, s_scope = scope, s_max_active = max_active\<rparr>)"

text \<open>Python's \<open>given or default\<close> on an optional string.\<close>

definition or_default :: "string option \<Rightarrow> string \<Rightarrow> string" where
  "or_default given d = (case given of None \<Rightarrow> d | Some s \<Rightarrow> if s = [] then d else s)"

text \<open>\<open>UPDATE ... WHERE p SET f\<close> and its row count.\<close>

definition update_where :: "(job \<Rightarrow> bool) \<Rightarrow> (job \<Rightarrow> job) \<Rightarrow> table \<Rightarrow> table" where
  "update_where p f = map (\<lambda>r. if p r then f r else r)"

definition rowcount :: "(job \<Rightarrow> bool) \<Rightarrow> table \<Rightarrow> nat" where
  "rowcount p t = length (filter p t)"

text \<open>\<open>ORDER BY key LIMIT 1\<close>: the first row with the least key.\<close>

fun first_by :: "(job \<Rightarrow> int) \<Rightarrow> table \<Rightarrow> job option" where
  "first_by k [] = None"
| "first_by k (r # rs) =
     (case first_by k rs of
        None \<Rightarrow> Some r
      | Some r' \<Rightarrow> if k r' < k r then Some r' else Some r)"

subsection \<open>Operations\<close>

definition enqueue ::
  "JobService \<Rightarrow> table \<Rightarrow> string \<Rightarrow> string \<Rightarrow> string \<Rightarrow> string \<Rightarrow> string option \<Rightarrow> string \<Rightarrow> int
     \<Rightarrow> job_error + table \<times> job" where
  "enqueue svc t owner hunt key payload scope new_id now =
     (case find (\<lambda>r. j_key r = key) t of
        Some existing \<Rightarrow> Inr (t, existing)
      | None \<Rightarrow>
          if new_id \<in> j_job_id ` set t then Inl (IntegrityError ''job_id'')
          else
            let row = \<lparr>j_job_id = new_id, j_hunt_id = hunt, j_owner_id = owner,
                       j_scope = or_default scope (s_scope svc), j_status = ''queued'',
                       j_worker_id = None, j_lease_expires = None, j_heartbeat = None,
                       j_attempts = 0, j_key = key, j_payload = payload,
                       j_cancel_requested = False, j_last_error = None, j_created = now,
                       j_updated = now\<rparr>
            in Inr (t @ [row], row))"

text \<open>The hunts a scope has claimed, the set the admission cap counts.\<close>

definition active_hunts :: "table \<Rightarrow> string \<Rightarrow> string set" where
  "active_hunts t scope = j_hunt_id ` {r \<in> set t. j_status r = ''claimed'' \<and> j_scope r = scope}"

lemma active_hunts_code [code]:
  "active_hunts t scope
     = set (map j_hunt_id (filter (\<lambda>r. j_status r = ''claimed'' \<and> j_scope r = scope) t))"
  by (auto simp: active_hunts_def)

definition claimable :: "string \<Rightarrow> job \<Rightarrow> bool" where
  "claimable scope r \<longleftrightarrow>
     j_status r = ''queued'' \<and> \<not> j_cancel_requested r \<and> j_scope r = scope"

definition at_capacity :: "JobService \<Rightarrow> table \<Rightarrow> string \<Rightarrow> bool" where
  "at_capacity svc t scope =
     (case s_max_active svc of
        None \<Rightarrow> False
      | Some k \<Rightarrow> int (card (active_hunts t scope)) \<ge> k)"

definition claim ::
  "JobService \<Rightarrow> table \<Rightarrow> string \<Rightarrow> string option \<Rightarrow> int \<Rightarrow> table \<times> JobLease option" where
  "claim svc t worker scope now =
     (let expiry = now + s_lease_seconds svc; sc = or_default scope (s_scope svc) in
      if at_capacity svc t sc then (t, None)
      else case first_by j_created (filter (claimable sc) t) of
        None \<Rightarrow> (t, None)
      | Some row \<Rightarrow>
          let p = (\<lambda>r. j_job_id r = j_job_id row \<and> claimable sc r);
              f = (\<lambda>r. r\<lparr>j_status := ''claimed'', j_worker_id := Some worker,
                         j_lease_expires := Some expiry, j_heartbeat := Some now,
                         j_attempts := j_attempts row + 1, j_updated := now\<rparr>)
          in if rowcount p t \<noteq> 1 then (update_where p f t, None)
             else (update_where p f t,
                   Some \<lparr>l_job_id = j_job_id row, l_hunt_id = j_hunt_id row,
                         l_owner_id = j_owner_id row, l_scope = j_scope row,
                         l_worker_id = worker, l_generation = j_attempts row + 1,
                         l_expires = expiry\<rparr>))"

definition require_lease ::
  "table \<Rightarrow> string \<Rightarrow> string \<Rightarrow> int option \<Rightarrow> string option \<Rightarrow> int \<Rightarrow> job_error + job" where
  "require_lease t job worker generation scope now =
     (case find (\<lambda>r. j_job_id r = job) t of
        None \<Rightarrow> Inl (JobConflict ''job lease is missing or owned by another worker'')
      | Some row \<Rightarrow>
          if j_status row \<noteq> ''claimed'' \<or> j_worker_id row \<noteq> Some worker \<or> j_cancel_requested row
            then Inl (JobConflict ''job lease is missing or owned by another worker'')
          else if (case generation of None \<Rightarrow> False | Some g \<Rightarrow> j_attempts row \<noteq> g)
            then Inl (JobConflict ''job lease generation is fenced'')
          else if (case scope of None \<Rightarrow> False | Some s \<Rightarrow> j_scope row \<noteq> s)
            then Inl (JobConflict ''job deployment scope does not match worker scope'')
          else if (case j_lease_expires row of None \<Rightarrow> True | Some e \<Rightarrow> e \<le> now)
            then Inl (JobConflict ''job lease has expired'')
          else Inr row)"

text \<open>The fence both lease-bound updates share: the row is still claimed by this worker under
  this generation, and the lease has not run out (\<open>NULL > now\<close> is not true).\<close>

definition fence :: "JobLease \<Rightarrow> int \<Rightarrow> job \<Rightarrow> bool" where
  "fence lease now r \<longleftrightarrow>
     j_job_id r = l_job_id lease \<and> j_worker_id r = Some (l_worker_id lease)
     \<and> j_status r = ''claimed'' \<and> \<not> j_cancel_requested r
     \<and> j_attempts r = l_generation lease \<and> j_scope r = l_scope lease
     \<and> (case j_lease_expires r of None \<Rightarrow> False | Some e \<Rightarrow> now < e)"

definition heartbeat :: "JobService \<Rightarrow> table \<Rightarrow> JobLease \<Rightarrow> int \<Rightarrow> job_error + table \<times> JobLease" where
  "heartbeat svc t lease now =
     (let expiry = now + s_lease_seconds svc in
      if rowcount (fence lease now) t \<noteq> 1
        then Inl (JobConflict ''job lease is missing, expired, or cancelled'')
      else Inr (update_where (fence lease now)
                  (\<lambda>r. r\<lparr>j_lease_expires := Some expiry, j_heartbeat := Some now,
                         j_updated := now\<rparr>) t,
                lease\<lparr>l_expires := expiry\<rparr>))"

definition complete ::
  "table \<Rightarrow> JobLease \<Rightarrow> string \<Rightarrow> string option \<Rightarrow> int \<Rightarrow> job_error + table" where
  "complete t lease status error now =
     (if status \<notin> {''completed'', ''failed'', ''cancelled''}
        then Inl (JobValueError ''invalid terminal job status'')
      else if rowcount (fence lease now) t \<noteq> 1
        then Inl (JobConflict ''job is no longer owned by this worker'')
      else Inr (update_where (fence lease now)
                  (\<lambda>r. r\<lparr>j_status := status, j_worker_id := None, j_lease_expires := None,
                         j_heartbeat := None, j_last_error := error, j_updated := now\<rparr>) t))"

definition get_for_owner :: "table \<Rightarrow> string \<Rightarrow> string \<Rightarrow> job option" where
  "get_for_owner t owner hunt =
     first_by (\<lambda>r. - j_created r) (filter (\<lambda>r. j_owner_id r = owner \<and> j_hunt_id r = hunt) t)"

definition request_cancel :: "table \<Rightarrow> string \<Rightarrow> string \<Rightarrow> int \<Rightarrow> table \<times> nat" where
  "request_cancel t owner hunt now =
     (let p = (\<lambda>r. j_owner_id r = owner \<and> j_hunt_id r = hunt
                   \<and> j_status r \<in> {''queued'', ''claimed''})
      in (update_where p
            (\<lambda>r. r\<lparr>j_cancel_requested := True, j_status := ''cancelled'', j_worker_id := None,
                   j_lease_expires := None, j_heartbeat := None, j_updated := now\<rparr>) t,
          rowcount p t))"

definition recover_expired :: "table \<Rightarrow> int \<Rightarrow> table \<times> nat" where
  "recover_expired t now =
     (let p = (\<lambda>r. j_status r = ''claimed'' \<and> \<not> j_cancel_requested r
                   \<and> (case j_lease_expires r of None \<Rightarrow> False | Some e \<Rightarrow> e \<le> now))
      in (update_where p
            (\<lambda>r. r\<lparr>j_status := ''queued'', j_worker_id := None, j_lease_expires := None,
                   j_heartbeat := None, j_updated := now\<rparr>) t,
          rowcount p t))"

subsection \<open>Runs of the queue\<close>

datatype job_op =
    Enqueue string string string string "string option" string int
  | Claim string "string option" int
  | Heartbeat JobLease int
  | Complete JobLease string "string option" int
  | RequestCancel string string int
  | RecoverExpired int

fun job_step :: "JobService \<Rightarrow> table \<Rightarrow> job_op \<Rightarrow> table" where
  "job_step svc t (Enqueue owner hunt key payload scope new_id now) =
     (case enqueue svc t owner hunt key payload scope new_id now of Inl _ \<Rightarrow> t | Inr (t', _) \<Rightarrow> t')"
| "job_step svc t (Claim worker scope now) = fst (claim svc t worker scope now)"
| "job_step svc t (Heartbeat lease now) =
     (case heartbeat svc t lease now of Inl _ \<Rightarrow> t | Inr (t', _) \<Rightarrow> t')"
| "job_step svc t (Complete lease status error now) =
     (case complete t lease status error now of Inl _ \<Rightarrow> t | Inr t' \<Rightarrow> t')"
| "job_step svc t (RequestCancel owner hunt now) = fst (request_cancel t owner hunt now)"
| "job_step svc t (RecoverExpired now) = fst (recover_expired t now)"

text \<open>Every operation may come from a different worker process, hence from a service object of
  its own.\<close>

abbreviation run_jobs :: "table \<Rightarrow> (JobService \<times> job_op) list \<Rightarrow> table" where
  "run_jobs \<equiv> foldl (\<lambda>t (svc, a). job_step svc t a)"

subsection \<open>The table's invariant\<close>

definition row_ok :: "job \<Rightarrow> bool" where
  "row_ok r \<longleftrightarrow>
     j_status r \<in> {''queued'', ''claimed'', ''completed'', ''failed'', ''cancelled''}
     \<and> (j_status r = ''claimed'' \<longleftrightarrow> j_worker_id r \<noteq> None)
     \<and> (j_status r = ''claimed'' \<longleftrightarrow> j_lease_expires r \<noteq> None)
     \<and> (j_cancel_requested r \<longrightarrow> j_status r = ''cancelled'')
     \<and> 0 \<le> j_attempts r"

definition table_ok :: "table \<Rightarrow> bool" where
  "table_ok t \<longleftrightarrow>
     distinct (map j_job_id t) \<and> distinct (map j_key t) \<and> (\<forall>r \<in> set t. row_ok r)"

lemma update_where_keeps:
  assumes "\<And>r. j_job_id (f r) = j_job_id r" and "\<And>r. j_key (f r) = j_key r"
  shows "map j_job_id (update_where p f t) = map j_job_id t"
    and "map j_key (update_where p f t) = map j_key t"
  using assms by (simp_all add: update_where_def comp_def if_distrib cong: if_cong)

lemma set_update_where:
  "r' \<in> set (update_where p f t) \<longleftrightarrow>
     (\<exists>r \<in> set t. (p r \<and> r' = f r) \<or> (\<not> p r \<and> r' = r))"
  by (auto simp: update_where_def)

lemma update_where_table_ok:
  assumes "table_ok t" and "\<And>r. j_job_id (f r) = j_job_id r" and "\<And>r. j_key (f r) = j_key r"
    and "\<And>r. r \<in> set t \<Longrightarrow> row_ok r \<Longrightarrow> p r \<Longrightarrow> row_ok (f r)"
  shows "table_ok (update_where p f t)"
  using assms by (auto simp: table_ok_def update_where_keeps set_update_where)

lemma first_by_None: "first_by k t = None \<longleftrightarrow> t = []"
  by (cases t) (auto split: option.splits if_splits)

lemma first_by_Some:
  "first_by k t = Some r \<Longrightarrow> r \<in> set t \<and> (\<forall>r' \<in> set t. k r \<le> k r')"
proof (induction t arbitrary: r)
  case Nil
  then show ?case by simp
next
  case (Cons a t)
  then show ?case by (cases "first_by k t") (force simp: first_by_None split: if_splits)+
qed

lemma job_id_unique:
  assumes "table_ok t" and "x \<in> set t" and "y \<in> set t" and "j_job_id x = j_job_id y"
  shows "x = y"
  using assms by (metis distinct_map inj_onD table_ok_def)

lemma rowcount_one:
  assumes "table_ok t" and "r \<in> set t" and "p r" and "\<And>x. p x \<Longrightarrow> j_job_id x = j_job_id r"
  shows "rowcount p t = 1"
proof -
  have "distinct t" using assms(1) by (simp add: table_ok_def distinct_map)
  have "x = r" if "x \<in> set t" "p x" for x
    using job_id_unique [OF assms(1) that(1) assms(2)] assms(4) [OF that(2)] by blast
  then have "set (filter p t) \<subseteq> {r}" by (simp only: set_filter) blast
  moreover have "r \<in> set (filter p t)" using assms(2,3) by simp
  ultimately have "set (filter p t) = {r}" by blast
  moreover have "rowcount p t = card (set (filter p t))"
    using \<open>distinct t\<close> by (metis distinct_card distinct_filter rowcount_def)
  ultimately show ?thesis by simp
qed

text \<open>A successful claim in closed form: which row it takes, and what it does to it.\<close>

lemma claim_cases [consumes 1, case_names none some]:
  assumes "table_ok t"
  obtains (none) "claim svc t worker scope now = (t, None)"
      "at_capacity svc t (or_default scope (s_scope svc))
       \<or> (\<forall>r \<in> set t. \<not> claimable (or_default scope (s_scope svc)) r)"
  | (some) row where
      "row \<in> set t" "claimable (or_default scope (s_scope svc)) row"
      "\<forall>r \<in> set t. claimable (or_default scope (s_scope svc)) r \<longrightarrow> j_created row \<le> j_created r"
      "\<not> at_capacity svc t (or_default scope (s_scope svc))"
      "claim svc t worker scope now =
         (update_where (\<lambda>r. j_job_id r = j_job_id row \<and> claimable (or_default scope (s_scope svc)) r)
            (\<lambda>r. r\<lparr>j_status := ''claimed'', j_worker_id := Some worker,
                   j_lease_expires := Some (now + s_lease_seconds svc), j_heartbeat := Some now,
                   j_attempts := j_attempts row + 1, j_updated := now\<rparr>) t,
          Some \<lparr>l_job_id = j_job_id row, l_hunt_id = j_hunt_id row, l_owner_id = j_owner_id row,
                l_scope = j_scope row, l_worker_id = worker, l_generation = j_attempts row + 1,
                l_expires = now + s_lease_seconds svc\<rparr>)"
proof (cases "at_capacity svc t (or_default scope (s_scope svc))
    \<or> filter (claimable (or_default scope (s_scope svc))) t = []")
  case True
  then have "claim svc t worker scope now = (t, None)" by (auto simp: claim_def Let_def)
  then show ?thesis using True by (intro none) (auto simp only: filter_empty_conv)
next
  case False
  let ?sc = "or_default scope (s_scope svc)"
  obtain row where row: "first_by j_created (filter (claimable ?sc) t) = Some row"
    using False first_by_None by (metis not_None_eq)
  have r: "row \<in> set t" "claimable ?sc row"
    and least: "\<forall>r \<in> set t. claimable ?sc r \<longrightarrow> j_created row \<le> j_created r"
    using first_by_Some [OF row] by auto
  have one: "rowcount (\<lambda>r. j_job_id r = j_job_id row \<and> claimable ?sc r) t = 1"
    by (rule rowcount_one [OF assms r(1)]) (use r in auto)
  show ?thesis using False row one by (intro some [OF r least]) (auto simp: claim_def Let_def)
qed

lemma claim_table_ok:
  assumes ok: "table_ok t"
  shows "table_ok (fst (claim svc t worker scope now))"
  using ok
proof (cases rule: claim_cases [where svc = svc and worker = worker and scope = scope and now = now])
  case none
  then show ?thesis using ok by simp
next
  case (some row)
  have "0 \<le> j_attempts row" using some(1) ok by (simp add: table_ok_def row_ok_def)
  then show ?thesis unfolding some(5)
    by (auto intro!: update_where_table_ok [OF ok] simp: row_ok_def claimable_def)
qed

lemma enqueue_table_ok:
  "table_ok t \<Longrightarrow> enqueue svc t owner hunt key payload scope new_id now = Inr (t', r) \<Longrightarrow> table_ok t'"
  by (auto simp: enqueue_def table_ok_def row_ok_def Let_def find_None_iff
      split: option.splits if_splits)

lemma heartbeat_table_ok:
  "table_ok t \<Longrightarrow> heartbeat svc t lease now = Inr (t', l') \<Longrightarrow> table_ok t'"
  by (auto simp: heartbeat_def Let_def row_ok_def fence_def intro!: update_where_table_ok
      split: if_splits)

lemma complete_table_ok:
  "table_ok t \<Longrightarrow> complete t lease status error now = Inr t' \<Longrightarrow> table_ok t'"
  by (auto simp: complete_def row_ok_def fence_def intro!: update_where_table_ok split: if_splits)

lemma cancel_table_ok: "table_ok t \<Longrightarrow> table_ok (fst (request_cancel t owner hunt now))"
  by (auto simp: request_cancel_def Let_def row_ok_def intro!: update_where_table_ok)

lemma recover_table_ok: "table_ok t \<Longrightarrow> table_ok (fst (recover_expired t now))"
  by (auto simp: recover_expired_def Let_def row_ok_def intro!: update_where_table_ok)

lemma job_step_table_ok: "table_ok t \<Longrightarrow> table_ok (job_step svc t a)"
  by (cases a) (auto simp: claim_table_ok cancel_table_ok recover_table_ok
      dest: enqueue_table_ok heartbeat_table_ok complete_table_ok split: sum.splits prod.splits)

lemma run_jobs_table_ok: "table_ok t \<Longrightarrow> table_ok (run_jobs t ops)"
  by (induction ops arbitrary: t) (auto simp: job_step_table_ok split: prod.splits)

subsection \<open>Fencing\<close>

text \<open>What a worker relies on: the generation of a job never goes down, and whatever accepts a
  lease compares its token with the current generation.  A lease with an older token is
  therefore refused for good.\<close>

locale fencing =
  fixes step :: "'t \<Rightarrow> 'a \<Rightarrow> 't"
    and ok :: "'t \<Rightarrow> bool"
    and gen :: "'t \<Rightarrow> 'j \<Rightarrow> int"
    and accepts :: "'t \<Rightarrow> 'l \<Rightarrow> int \<Rightarrow> bool"
    and job_of :: "'l \<Rightarrow> 'j"
    and token :: "'l \<Rightarrow> int"
  assumes step_ok: "ok t \<Longrightarrow> ok (step t a)"
    and gen_mono: "ok t \<Longrightarrow> gen t j \<le> gen (step t a) j"
    and accepts_gen: "ok t \<Longrightarrow> accepts t l now \<Longrightarrow> gen t (job_of l) = token l"
begin

lemma run_ok: "ok t \<Longrightarrow> ok (foldl step t ops)"
  by (induction ops arbitrary: t) (auto simp: step_ok)

lemma run_gen_mono: "ok t \<Longrightarrow> gen t j \<le> gen (foldl step t ops) j"
proof (induction ops arbitrary: t)
  case Nil
  then show ?case by simp
next
  case (Cons a ops)
  then show ?case using gen_mono [of t j a] step_ok [of t a] by fastforce
qed

lemma superseded_never_accepted:
  assumes "ok t" and "token l < gen t (job_of l)"
  shows "\<not> accepts (foldl step t ops) l now"
  using run_gen_mono [OF assms(1), of "job_of l" ops] accepts_gen [OF run_ok [OF assms(1)]] assms(2)
  by force

end

definition generation :: "table \<Rightarrow> string \<Rightarrow> int" where
  "generation t job = (case find (\<lambda>r. j_job_id r = job) t of None \<Rightarrow> 0 | Some r \<Rightarrow> j_attempts r)"

definition accepts_lease :: "table \<Rightarrow> JobLease \<Rightarrow> int \<Rightarrow> bool" where
  "accepts_lease t lease now \<longleftrightarrow> (\<exists>r \<in> set t. fence lease now r)"

lemma find_update_where:
  assumes "\<And>r. j_job_id (f r) = j_job_id r"
  shows "find (\<lambda>r. j_job_id r = job) (update_where p f t)
    = map_option (\<lambda>r. if p r then f r else r) (find (\<lambda>r. j_job_id r = job) t)"
  using assms by (induction t) (auto simp: update_where_def)

lemma find_job:
  assumes "table_ok t" and "r \<in> set t"
  shows "find (\<lambda>x. j_job_id x = j_job_id r) t = Some r"
proof -
  have "find (\<lambda>x. j_job_id x = j_job_id r) t \<noteq> None"
    using assms(2) unfolding find_None_iff by blast
  then obtain x where x: "find (\<lambda>x. j_job_id x = j_job_id r) t = Some x" by blast
  then have "x \<in> set t" and "j_job_id x = j_job_id r"
    unfolding find_Some_iff using nth_mem by blast+
  then have "x = r" using assms by (blast intro: job_id_unique)
  with x show ?thesis by simp
qed

lemma generation_row: "table_ok t \<Longrightarrow> r \<in> set t \<Longrightarrow> generation t (j_job_id r) = j_attempts r"
  by (simp add: generation_def find_job)

lemma generation_update_mono:
  assumes "\<And>r. j_job_id (f r) = j_job_id r"
    and "\<And>r. r \<in> set t \<Longrightarrow> p r \<Longrightarrow> j_attempts r \<le> j_attempts (f r)"
  shows "generation t job \<le> generation (update_where p f t) job"
proof (cases "find (\<lambda>r. j_job_id r = job) t")
  case None
  then show ?thesis by (simp add: generation_def find_update_where [OF assms(1)])
next
  case (Some r)
  then have "r \<in> set t" by (auto simp: find_Some_iff)
  with Some assms(2) show ?thesis
    by (simp add: generation_def find_update_where [OF assms(1)])
qed

lemma claim_generation_mono:
  assumes ok: "table_ok t"
  shows "generation t job \<le> generation (fst (claim svc t worker scope now)) job"
  using ok
proof (cases rule: claim_cases [where svc = svc and worker = worker and scope = scope and now = now])
  case none
  then show ?thesis by simp
next
  case (some row)
  have "j_attempts r \<le> j_attempts row + 1" if "r \<in> set t" "j_job_id r = j_job_id row" for r
    using job_id_unique [OF ok that(1) some(1) that(2)] by simp
  then show ?thesis unfolding some(5) by (auto intro!: generation_update_mono)
qed

lemma enqueue_generation_mono:
  assumes "table_ok t" and "enqueue svc t owner hunt key payload scope new_id now = Inr (t', r)"
  shows "generation t job \<le> generation t' job"
  using assms
  by (auto simp: enqueue_def generation_def Let_def find_snoc split: option.splits if_splits)

lemma job_step_generation_mono:
  assumes ok: "table_ok t"
  shows "generation t job \<le> generation (job_step svc t a) job"
proof (cases a)
  case (Enqueue owner hunt key payload scope new_id now)
  then show ?thesis using enqueue_generation_mono [OF ok] by (auto split: sum.splits)
next
  case (Claim worker scope now)
  then show ?thesis using claim_generation_mono [OF ok] by simp
qed (auto simp: heartbeat_def complete_def request_cancel_def recover_expired_def Let_def
    intro!: generation_update_mono)

lemma accepts_generation:
  "table_ok t \<Longrightarrow> accepts_lease t lease now \<Longrightarrow> generation t (l_job_id lease) = l_generation lease"
  by (auto simp: accepts_lease_def fence_def dest: generation_row)

interpretation queue: fencing "\<lambda>t (svc, a). job_step svc t a" table_ok generation accepts_lease
    l_job_id l_generation
  by unfold_locales
    (auto simp: job_step_table_ok job_step_generation_mono accepts_generation split: prod.splits)

lemma fence_rowcount: "\<not> accepts_lease t lease now \<Longrightarrow> rowcount (fence lease now) t = 0"
  by (auto simp: accepts_lease_def rowcount_def filter_empty_conv)

lemma require_lease_accepts:
  assumes "require_lease t (l_job_id lease) (l_worker_id lease) (Some (l_generation lease)) scope now
      = Inr r" and "l_scope lease = j_scope r"
  shows "accepts_lease t lease now"
  using assms by (force simp: require_lease_def accepts_lease_def fence_def find_Some_iff
      split: option.splits if_splits)

lemma require_lease_generation:
  assumes "table_ok t" and "require_lease t job worker (Some g) scope now = Inr r"
  shows "generation t job = g"
  using assms by (auto simp: require_lease_def generation_def split: option.splits if_splits)

subsection \<open>Properties\<close>

lemma claim_lease_generation:
  assumes ok: "table_ok t" and c: "claim svc t worker scope now = (t', Some lease)"
  shows "l_generation lease = generation t (l_job_id lease) + 1
    \<and> generation t' (l_job_id lease) = l_generation lease"
  using ok
proof (cases rule: claim_cases [where svc = svc and worker = worker and scope = scope and now = now])
  case none
  then show ?thesis using c by simp
next
  case (some row)
  have "generation t (j_job_id row) = j_attempts row" by (rule generation_row [OF ok some(1)])
  then show ?thesis using c some find_job [OF ok some(1)]
    by (auto simp: generation_def find_update_where)
qed

text \<open>C3. Fencing.  When a job is claimed and, after any operations by any workers, claimed
  again, the second lease has a higher generation, and from then on, whatever else happens,
  the first lease can neither be renewed, nor complete the job, nor pass \<open>require_lease\<close>.\<close>

theorem superseded_lease_is_fenced:
  assumes "table_ok t"
    and "claim svc t worker scope now = (t1, Some lease)"
    and "claim svc' (run_jobs t1 ops) worker' scope' now' = (t2, Some lease')"
    and "l_job_id lease' = l_job_id lease"
  shows "l_generation lease < l_generation lease'
    \<and> \<not> is_ok (heartbeat svc'' (run_jobs t2 ops') lease now'')
    \<and> \<not> is_ok (complete (run_jobs t2 ops') lease status error now'')
    \<and> \<not> is_ok (require_lease (run_jobs t2 ops') (l_job_id lease) worker''
                (Some (l_generation lease)) scope'' now'')"
proof -
  have ok1: "table_ok t1" using claim_table_ok [OF assms(1), of svc worker scope now] assms(2) by simp
  have ok1': "table_ok (run_jobs t1 ops)" by (rule run_jobs_table_ok [OF ok1])
  have ok2: "table_ok t2"
    using claim_table_ok [OF ok1', of svc' worker' scope' now'] assms(3) by simp
  have g1: "generation t1 (l_job_id lease) = l_generation lease"
    using claim_lease_generation [OF assms(1,2)] by simp
  have g2: "l_generation lease' = generation (run_jobs t1 ops) (l_job_id lease) + 1"
    "generation t2 (l_job_id lease) = l_generation lease'"
    using claim_lease_generation [OF ok1' assms(3)] assms(4) by simp_all
  have lt: "l_generation lease < l_generation lease'"
    using queue.run_gen_mono [OF ok1, of "l_job_id lease" ops] g1 g2(1) by simp
  then have old: "l_generation lease < generation t2 (l_job_id lease)" using g2(2) by simp
  let ?t = "run_jobs t2 ops'"
  have "\<not> accepts_lease ?t lease now''"
    using queue.superseded_never_accepted [OF ok2 old] .
  then have "rowcount (fence lease now'') ?t = 0" by (rule fence_rowcount)
  moreover have "generation ?t (l_job_id lease) \<noteq> l_generation lease"
    using queue.run_gen_mono [OF ok2, of "l_job_id lease" ops'] old by simp
  ultimately show ?thesis using lt require_lease_generation [OF run_jobs_table_ok [OF ok2]]
    by (auto simp: heartbeat_def complete_def is_ok_iff Let_def)
qed

text \<open>A concrete queue for the witnesses: one queued job, leased for 60 seconds.\<close>

definition ex_service :: JobService where
  "ex_service = \<lparr>s_lease_seconds = 60, s_scope = ''default'', s_max_active = Some 1\<rparr>"

definition ex_table :: table where
  "ex_table = [\<lparr>j_job_id = ''j1'', j_hunt_id = ''h1'', j_owner_id = ''o1'', j_scope = ''default'',
     j_status = ''queued'', j_worker_id = None, j_lease_expires = None, j_heartbeat = None,
     j_attempts = 0, j_key = ''k1'', j_payload = [], j_cancel_requested = False,
     j_last_error = None, j_created = 0, j_updated = 0\<rparr>]"

lemma ex_table_ok: "table_ok ex_table"
  by (simp add: table_ok_def row_ok_def ex_table_def)

lemma claim_witness: "snd (claim svc t w sc now) \<noteq> None
    \<Longrightarrow> claim svc t w sc now = (fst (claim svc t w sc now), Some (the (snd (claim svc t w sc now))))"
  by (cases "claim svc t w sc now") auto

theorem superseded_lease_is_fenced_witness:
  "let (t1, l1) = claim ex_service ex_table ''w1'' None 0;
       (t2, l2) = claim ex_service (run_jobs t1 [(ex_service, RecoverExpired 100)]) ''w2'' None 100
   in l1 \<noteq> None \<and> l2 \<noteq> None \<and> \<not> is_ok (complete t2 (the l1) ''completed'' None 101)"
proof -
  let ?c1 = "claim ex_service ex_table ''w1'' None 0"
  let ?c2 = "claim ex_service (run_jobs (fst ?c1) [(ex_service, RecoverExpired 100)]) ''w2'' None 100"
  have n1: "snd ?c1 \<noteq> None" and n2: "snd ?c2 \<noteq> None"
    and same: "l_job_id (the (snd ?c2)) = l_job_id (the (snd ?c1))" by code_simp+
  have "\<not> is_ok (complete (run_jobs (fst ?c2) []) (the (snd ?c1)) ''completed'' None 101)"
    using superseded_lease_is_fenced [OF ex_table_ok claim_witness [OF n1] claim_witness [OF n2] same]
    by blast
  then show ?thesis using n1 n2 by (simp add: case_prod_beta Let_def)
qed

text \<open>A claim has one holder.  Right after a claim, the lease passes \<open>require_lease\<close> under its
  generation at every moment before it expires, at no later moment, and no other worker passes
  for that job; before the claim nobody held the job.\<close>

theorem claim_gives_exclusive_lease:
  assumes ok: "table_ok t" and c: "claim svc t worker scope now = (t', Some lease)"
  shows "(is_ok (require_lease t' (l_job_id lease) worker (Some (l_generation lease))
              (Some (l_scope lease)) at) \<longleftrightarrow> at < l_expires lease)
    \<and> (is_ok (require_lease t' (l_job_id lease) other g sc at) \<longrightarrow> other = worker)
    \<and> \<not> is_ok (require_lease t (l_job_id lease) other g sc at)"
  using ok
proof (cases rule: claim_cases [where svc = svc and worker = worker and scope = scope and now = now])
  case none
  then show ?thesis using c by simp
next
  case (some row)
  note found = find_job [OF ok some(1)]
  have row: "j_status row = ''queued''" "\<not> j_cancel_requested row"
    using some(2) by (simp_all add: claimable_def)
  let ?row' = "row\<lparr>j_status := ''claimed'', j_worker_id := Some worker,
      j_lease_expires := Some (now + s_lease_seconds svc), j_heartbeat := Some now,
      j_attempts := j_attempts row + 1, j_updated := now\<rparr>"
  have t': "find (\<lambda>x. j_job_id x = j_job_id row) t' = Some ?row'"
    and lease: "l_job_id lease = j_job_id row" "l_generation lease = j_attempts row + 1"
      "l_scope lease = j_scope row" "l_expires lease = now + s_lease_seconds svc"
    using c some(2,5) by (auto simp: find_update_where found)
  have "is_ok (require_lease t' (l_job_id lease) worker (Some (l_generation lease))
      (Some (l_scope lease)) at) \<longleftrightarrow> at < l_expires lease"
    using row by (simp add: require_lease_def t' lease is_ok_def not_le)
  moreover have "is_ok (require_lease t' (l_job_id lease) other g sc at) \<longrightarrow> other = worker"
    by (simp add: require_lease_def t' lease is_ok_def)
  moreover have "\<not> is_ok (require_lease t (l_job_id lease) other g sc at)"
    using row by (simp add: require_lease_def found lease is_ok_def)
  ultimately show ?thesis by blast
qed

theorem claim_gives_exclusive_lease_witness:
  "let (t1, l1) = claim ex_service ex_table ''w1'' None 0
   in l1 \<noteq> None \<and> is_ok (require_lease t1 ''j1'' ''w1'' (Some 1) (Some ''default'') 59)
      \<and> \<not> is_ok (require_lease t1 ''j1'' ''w1'' (Some 1) (Some ''default'') 60)"
proof -
  let ?c1 = "claim ex_service ex_table ''w1'' None 0"
  have n1: "snd ?c1 \<noteq> None"
    and l: "the (snd ?c1) = \<lparr>l_job_id = ''j1'', l_hunt_id = ''h1'', l_owner_id = ''o1'',
      l_scope = ''default'', l_worker_id = ''w1'', l_generation = 1, l_expires = 60\<rparr>"
    by code_simp+
  show ?thesis
    using claim_gives_exclusive_lease [OF ex_table_ok claim_witness [OF n1], of 59]
      claim_gives_exclusive_lease [OF ex_table_ok claim_witness [OF n1], of 60] n1
    by (simp add: l case_prod_beta Let_def)
qed

definition closed :: "job \<Rightarrow> bool" where
  "closed r \<longleftrightarrow> j_status r \<in> {''completed'', ''failed'', ''cancelled''}"

lemma update_where_closed:
  assumes "r \<in> set t" and "\<And>x. p x \<Longrightarrow> \<not> closed x" and "closed r"
  shows "r \<in> set (update_where p f t)"
proof -
  have "\<not> p r" using assms(2,3) by blast
  have "(\<lambda>r. if p r then f r else r) r \<in> (\<lambda>r. if p r then f r else r) ` set t"
    using assms(1) by (rule imageI)
  then show ?thesis using \<open>\<not> p r\<close> by (simp add: update_where_def)
qed

lemma job_step_closed:
  assumes ok: "table_ok t" and r: "r \<in> set t" "closed r"
  shows "r \<in> set (job_step svc t a)"
proof (cases a)
  case (Enqueue owner hunt key payload scope new_id now)
  then show ?thesis using r
    by (simp add: enqueue_def Let_def split: option.splits if_splits sum.splits)
next
  case (Claim worker scope now)
  from ok show ?thesis
  proof (cases rule: claim_cases
      [where svc = svc and worker = worker and scope = scope and now = now])
    case none
    then show ?thesis using Claim r by simp
  next
    case (some row)
    have "r \<in> set (fst (claim svc t worker scope now))" unfolding some(5) fst_conv
      by (rule update_where_closed [OF r(1) _ r(2)]) (auto simp: claimable_def closed_def)
    then show ?thesis using Claim by simp
  qed
next
  case (Heartbeat lease now)
  have "r \<in> set (update_where (fence lease now) f t)" for f
    by (rule update_where_closed [OF r(1) _ r(2)]) (auto simp: fence_def closed_def)
  then show ?thesis using Heartbeat r(1) by (simp add: heartbeat_def Let_def)
next
  case (Complete lease status error now)
  have "r \<in> set (update_where (fence lease now) f t)" for f
    by (rule update_where_closed [OF r(1) _ r(2)]) (auto simp: fence_def closed_def)
  then show ?thesis using Complete r(1) by (simp add: complete_def)
next
  case (RequestCancel owner hunt now)
  then show ?thesis
    by (auto simp: request_cancel_def Let_def closed_def intro!: update_where_closed [OF r(1) _ r(2)])
next
  case (RecoverExpired now)
  then show ?thesis
    by (auto simp: recover_expired_def Let_def closed_def intro!: update_where_closed [OF r(1) _ r(2)])
qed

text \<open>Closed jobs stay closed.  A completed, failed or cancelled row is never written again
  by any sequence of operations of any workers; in particular a cancelled job is never
  claimed, renewed or completed afterwards.\<close>

theorem closed_jobs_stay_closed:
  assumes "table_ok t" and "r \<in> set t" and "closed r"
  shows "r \<in> set (run_jobs t ops)
    \<and> \<not> is_ok (require_lease (run_jobs t ops) (j_job_id r) worker g scope now)"
proof -
  have mem: "r \<in> set (run_jobs t ops)" using assms(1,2)
  proof (induction ops arbitrary: t)
    case Nil
    then show ?case by simp
  next
    case (Cons a ops)
    obtain svc b where a: "a = (svc, b)" by force
    show ?case using Cons.IH [OF job_step_table_ok job_step_closed] Cons.prems assms(3) a by simp
  qed
  have "find (\<lambda>x. j_job_id x = j_job_id r) (run_jobs t ops) = Some r"
    by (rule find_job [OF run_jobs_table_ok [OF assms(1)] mem])
  with mem show ?thesis using assms(3) by (auto simp: require_lease_def is_ok_def closed_def)
qed

theorem closed_jobs_stay_closed_witness:
  "\<exists>r. r \<in> set (fst (request_cancel ex_table ''o1'' ''h1'' 5)) \<and> closed r
     \<and> \<not> is_ok (require_lease (run_jobs (fst (request_cancel ex_table ''o1'' ''h1'' 5))
             [(ex_service, Claim ''w1'' None 6)]) (j_job_id r) ''w1'' None None 7)"
proof -
  let ?t = "fst (request_cancel ex_table ''o1'' ''h1'' 5)"
  let ?r = "hd ?t"
  have r: "?r \<in> set ?t" and c: "closed ?r" by code_simp+
  from closed_jobs_stay_closed [OF cancel_table_ok [OF ex_table_ok] r c] r c show ?thesis by blast
qed

lemma active_update_subset:
  assumes "\<And>r. r \<in> set t \<Longrightarrow> p r \<Longrightarrow> j_status (f r) = ''claimed'' \<Longrightarrow> j_status r = ''claimed''"
    and "\<And>r. j_hunt_id (f r) = j_hunt_id r" and "\<And>r. j_scope (f r) = j_scope r"
  shows "active_hunts (update_where p f t) sc \<subseteq> active_hunts t sc"
proof
  fix h
  assume "h \<in> active_hunts (update_where p f t) sc"
  then obtain r where r: "r \<in> set t" "h = j_hunt_id (if p r then f r else r)"
      "j_status (if p r then f r else r) = ''claimed''" "j_scope (if p r then f r else r) = sc"
    unfolding active_hunts_def update_where_def by force
  then have "j_status r = ''claimed''" "j_scope r = sc" "h = j_hunt_id r"
    using assms by (auto split: if_splits)
  with r(1) show "h \<in> active_hunts t sc" unfolding active_hunts_def by blast
qed

lemma active_claim_subset:
  assumes ok: "table_ok t" and c: "claim svc t worker scope now = (t', l)"
  shows "active_hunts t' sc \<subseteq> active_hunts t sc
    \<or> (\<exists>h. active_hunts t' sc \<subseteq> insert h (active_hunts t sc)
          \<and> sc = or_default scope (s_scope svc) \<and> \<not> at_capacity svc t sc)"
  using ok
proof (cases rule: claim_cases [where svc = svc and worker = worker and scope = scope and now = now])
  case none
  then show ?thesis using c by simp
next
  case (some row)
  let ?sc = "or_default scope (s_scope svc)"
  have t': "t' = update_where (\<lambda>r. j_job_id r = j_job_id row \<and> claimable ?sc r)
      (\<lambda>r. r\<lparr>j_status := ''claimed'', j_worker_id := Some worker,
             j_lease_expires := Some (now + s_lease_seconds svc), j_heartbeat := Some now,
             j_attempts := j_attempts row + 1, j_updated := now\<rparr>) t" (is "_ = update_where ?p ?f t")
    using c some(5) by simp
  have "h = j_hunt_id row \<and> sc = ?sc \<or> h \<in> active_hunts t sc" if h: "h \<in> active_hunts t' sc" for h
  proof -
    from h obtain r where r: "r \<in> set t" "h = j_hunt_id (if ?p r then ?f r else r)"
        "j_status (if ?p r then ?f r else r) = ''claimed''" "j_scope (if ?p r then ?f r else r) = sc"
      unfolding active_hunts_def t' update_where_def by force
    show ?thesis
    proof (cases "?p r")
      case True
      then have "r = row" using job_id_unique [OF ok r(1) some(1)] by blast
      then show ?thesis using True r(2,4) by (auto simp: claimable_def)
    next
      case False
      then have "j_status r = ''claimed''" "j_scope r = sc" "h = j_hunt_id r"
        using r(2,3,4) by (simp_all only: if_False)
      then show ?thesis using r(1) unfolding active_hunts_def by blast
    qed
  qed
  then show ?thesis using some(4) by (cases "sc = ?sc") blast+
qed

lemma finite_active [simp]: "finite (active_hunts t sc)"
  by (simp add: active_hunts_def)

lemma active_subset_cap:
  assumes "A \<subseteq> active_hunts t sc" and "int (card (active_hunts t sc)) \<le> k"
  shows "int (card A) \<le> k"
  using card_mono [OF finite_active assms(1)] assms(2) by linarith

lemma job_step_cap:
  assumes ok: "table_ok t" and cap: "s_max_active svc = Some k"
    and "int (card (active_hunts t sc)) \<le> k"
  shows "int (card (active_hunts (job_step svc t a) sc)) \<le> k"
proof (cases a)
  case (Enqueue owner hunt key payload scope new_id now)
  then have "active_hunts (job_step svc t a) sc = active_hunts t sc"
    by (auto simp: enqueue_def Let_def active_hunts_def split: option.splits if_splits)
  then show ?thesis using assms(3) by simp
next
  case (Claim worker scope now)
  obtain t' l where c: "claim svc t worker scope now = (t', l)" by force
  have below: "int (card (active_hunts t sc)) < k" if "\<not> at_capacity svc t sc"
    using that cap by (simp add: at_capacity_def)
  from active_claim_subset [OF ok c, of sc]
  consider "active_hunts t' sc \<subseteq> active_hunts t sc"
    | h where "active_hunts t' sc \<subseteq> insert h (active_hunts t sc)" "\<not> at_capacity svc t sc" by blast
  then have "int (card (active_hunts t' sc)) \<le> k"
  proof cases
    case 1
    then show ?thesis using assms(3) by (rule active_subset_cap)
  next
    case (2 h)
    have "card (active_hunts t' sc) \<le> Suc (card (active_hunts t sc))"
      using card_mono [OF _ 2(1)] card_insert_le_m1 [of "Suc (card (active_hunts t sc))"]
      by (metis card_insert_if finite_active finite_insert le_SucI)
    then show ?thesis using below [OF 2(2)] by linarith
  qed
  then show ?thesis using Claim c by simp
next
  case (Heartbeat lease now)
  have "active_hunts (job_step svc t a) sc \<subseteq> active_hunts t sc"
    unfolding Heartbeat using active_update_subset [of t "fence lease now"
        "\<lambda>r. r\<lparr>j_lease_expires := Some (now + s_lease_seconds svc), j_heartbeat := Some now,
               j_updated := now\<rparr>" sc]
    by (simp add: heartbeat_def Let_def)
  then show ?thesis using assms(3) by (rule active_subset_cap)
next
  case (Complete lease status error now)
  have "active_hunts (job_step svc t a) sc \<subseteq> active_hunts t sc"
    unfolding Complete using active_update_subset [of t "fence lease now"
        "\<lambda>r. r\<lparr>j_status := status, j_worker_id := None, j_lease_expires := None,
               j_heartbeat := None, j_last_error := error, j_updated := now\<rparr>" sc]
    by (auto simp: complete_def fence_def)
  then show ?thesis using assms(3) by (rule active_subset_cap)
next
  case (RequestCancel owner hunt now)
  have "active_hunts (job_step svc t a) sc \<subseteq> active_hunts t sc"
    unfolding RequestCancel job_step.simps request_cancel_def Let_def fst_conv
    by (rule active_update_subset) simp_all
  then show ?thesis using assms(3) by (rule active_subset_cap)
next
  case (RecoverExpired now)
  have "active_hunts (job_step svc t a) sc \<subseteq> active_hunts t sc"
    unfolding RecoverExpired job_step.simps recover_expired_def Let_def fst_conv
    by (rule active_update_subset) simp_all
  then show ?thesis using assms(3) by (rule active_subset_cap)
qed

text \<open>C18. Admission.  If every worker of a deployment scope is configured with the same cap on
  active hunts, then along any sequence of operations the number of distinct hunts claimed in
  that scope never exceeds the cap.\<close>

theorem active_hunts_within_cap:
  assumes "table_ok t" and "int (card (active_hunts t sc)) \<le> k"
    and "\<And>svc a. (svc, a) \<in> set ops \<Longrightarrow> s_max_active svc = Some k"
  shows "int (card (active_hunts (run_jobs t ops) sc)) \<le> k"
  using assms
proof (induction ops arbitrary: t)
  case Nil
  then show ?case by simp
next
  case (Cons a ops)
  obtain svc b where a: "a = (svc, b)" by force
  have "s_max_active svc = Some k" using Cons.prems(3) [of svc b] a by simp
  then show ?case
    using Cons.IH [OF job_step_table_ok job_step_cap, of t svc b] Cons.prems a
    by (simp, meson)
qed

theorem active_hunts_within_cap_witness:
  "int (card (active_hunts (run_jobs ex_table
     [(ex_service, Claim ''w1'' None 0), (ex_service, Claim ''w2'' None 1)]) ''default'')) \<le> 1"
proof (rule active_hunts_within_cap [OF ex_table_ok])
  show "int (card (active_hunts ex_table ''default'')) \<le> 1" by code_simp
qed (auto simp: ex_service_def)

definition waiting :: "string \<Rightarrow> int \<Rightarrow> job \<Rightarrow> bool" where
  "waiting sc now r \<longleftrightarrow>
     \<not> j_cancel_requested r \<and> j_scope r = sc
     \<and> (j_status r = ''queued''
        \<or> j_status r = ''claimed'' \<and> (case j_lease_expires r of None \<Rightarrow> False | Some e \<Rightarrow> e \<le> now))"

lemma recover_claimable:
  assumes "r \<in> set t" and "waiting sc now r"
  shows "\<exists>r' \<in> set (fst (recover_expired t now)).
    claimable sc r' \<and> j_job_id r' = j_job_id r \<and> j_created r' = j_created r"
proof -
  let ?p = "\<lambda>r. j_status r = ''claimed'' \<and> \<not> j_cancel_requested r
    \<and> (case j_lease_expires r of None \<Rightarrow> False | Some e \<Rightarrow> e \<le> now)"
  let ?f = "\<lambda>r. r\<lparr>j_status := ''queued'', j_worker_id := None, j_lease_expires := None,
    j_heartbeat := None, j_updated := now\<rparr>"
  let ?r = "if ?p r then ?f r else r"
  have "?r \<in> set (fst (recover_expired t now))"
    unfolding recover_expired_def Let_def fst_conv update_where_def set_map
    using assms(1) by (rule imageI)
  moreover have "claimable sc ?r \<and> j_job_id ?r = j_job_id r \<and> j_created ?r = j_created r"
    using assms(2) by (auto simp: waiting_def claimable_def)
  ultimately show ?thesis by blast
qed



end
