(* ===== verification/PyStr.thy ===== *)
theory PyStr
  imports Prelude
begin

text \<open>
  Python strings as the SPL policy reads them.  A \<open>char\<close> stands for one code point, so the
  model covers strings over the code points 0 to 255 (Latin-1); the character classes below
  are Python's \<open>str.isspace\<close>, \<open>\s\<close> and \<open>\w\<close> on that range.  Case folding changes ASCII letters
  only: on this range that decides every comparison the code makes, all of them against ASCII
  keywords.
\<close>

subsection \<open>Character classes\<close>

abbreviation code :: "char \<Rightarrow> nat" where
  "code c \<equiv> of_char c"

definition py_isspace :: "char \<Rightarrow> bool" where
  "py_isspace c \<longleftrightarrow>
     (9 \<le> code c \<and> code c \<le> 13) \<or> (28 \<le> code c \<and> code c \<le> 32) \<or> code c = 133 \<or> code c = 160"

definition ascii_upper :: "char \<Rightarrow> bool" where
  "ascii_upper c \<longleftrightarrow> 65 \<le> code c \<and> code c \<le> 90"

definition ascii_alpha :: "char \<Rightarrow> bool" where
  "ascii_alpha c \<longleftrightarrow> ascii_upper c \<or> (97 \<le> code c \<and> code c \<le> 122)"

definition ascii_digit :: "char \<Rightarrow> bool" where
  "ascii_digit c \<longleftrightarrow> 48 \<le> code c \<and> code c \<le> 57"

text \<open>\<open>[A-Za-z0-9_]\<close>, and Python's \<open>\w\<close>, which adds the Latin-1 letters and numerals.\<close>

definition ascii_word :: "char \<Rightarrow> bool" where
  "ascii_word c \<longleftrightarrow> ascii_alpha c \<or> ascii_digit c \<or> code c = 95"

definition py_word :: "char \<Rightarrow> bool" where
  "py_word c \<longleftrightarrow>
     ascii_word c \<or> code c \<in> {170, 178, 179, 181, 185, 186, 188, 189, 190}
     \<or> (192 \<le> code c \<and> code c \<le> 214) \<or> (216 \<le> code c \<and> code c \<le> 246) \<or> 248 \<le> code c"

definition lower_char :: "char \<Rightarrow> char" where
  "lower_char c = (if ascii_upper c then char_of (code c + 32) else c)"

definition upper_char :: "char \<Rightarrow> char" where
  "upper_char c = (if 97 \<le> code c \<and> code c \<le> 122 then char_of (code c - 32) else c)"

abbreviation lower :: "string \<Rightarrow> string" where
  "lower \<equiv> map lower_char"

abbreviation upper :: "string \<Rightarrow> string" where
  "upper \<equiv> map upper_char"

abbreviation dquote :: char where "dquote \<equiv> CHR 0x22"

abbreviation squote :: char where "squote \<equiv> CHR 0x27"

abbreviation backslash :: char where "backslash \<equiv> CHR 0x5C"

abbreviation newline :: char where "newline \<equiv> CHR 0x0A"

abbreviation backtick :: char where "backtick \<equiv> CHR 0x60"

lemma word_not_space: "py_word c \<Longrightarrow> \<not> py_isspace c"
  by (auto simp: py_word_def py_isspace_def ascii_word_def ascii_alpha_def ascii_upper_def
      ascii_digit_def)

subsection \<open>String methods\<close>

definition lstrip :: "string \<Rightarrow> string" where
  "lstrip s = dropWhile py_isspace s"

definition rstrip :: "string \<Rightarrow> string" where
  "rstrip s = rev (dropWhile py_isspace (rev s))"

definition strip :: "string \<Rightarrow> string" where
  "strip s = rstrip (lstrip s)"

definition strip_chars :: "char list \<Rightarrow> string \<Rightarrow> string" where
  "strip_chars cs s = rev (dropWhile (\<lambda>c. c \<in> set cs) (rev (dropWhile (\<lambda>c. c \<in> set cs) s)))"

definition lstrip_chars :: "char list \<Rightarrow> string \<Rightarrow> string" where
  "lstrip_chars cs s = dropWhile (\<lambda>c. c \<in> set cs) s"

text \<open>\<open>s.split(c)\<close> for one separator character: never empty.\<close>

fun split_on :: "char \<Rightarrow> string \<Rightarrow> string list" where
  "split_on c [] = [[]]"
| "split_on c (x # xs) =
     (if x = c then [] # split_on c xs
      else case split_on c xs of [] \<Rightarrow> [[x]] | w # ws \<Rightarrow> (x # w) # ws)"

text \<open>\<open>re.findall\<close> of a maximal run of characters in a class; \<open>s.split()\<close> is the runs of
  non-space characters.\<close>

fun runs_acc :: "(char \<Rightarrow> bool) \<Rightarrow> string \<Rightarrow> string \<Rightarrow> string list" where
  "runs_acc p acc [] = (if acc = [] then [] else [rev acc])"
| "runs_acc p acc (c # cs) =
     (if p c then runs_acc p (c # acc) cs
      else (if acc = [] then [] else [rev acc]) @ runs_acc p [] cs)"

definition runs :: "(char \<Rightarrow> bool) \<Rightarrow> string \<Rightarrow> string list" where
  "runs p s = runs_acc p [] s"

definition split_ws :: "string \<Rightarrow> string list" where
  "split_ws s = runs (\<lambda>c. \<not> py_isspace c) s"

fun join :: "string \<Rightarrow> string list \<Rightarrow> string" where
  "join sep [] = []"
| "join sep [x] = x"
| "join sep (x # y # ys) = x @ sep @ join sep (y # ys)"

lemma runs_acc_nonempty: "w \<in> set (runs_acc p acc s) \<Longrightarrow> w \<noteq> []"
  by (induction p acc s rule: runs_acc.induct) (auto split: if_splits)

lemma split_ws_nonempty: "w \<in> set (split_ws s) \<Longrightarrow> w \<noteq> []"
  by (simp add: split_ws_def runs_def runs_acc_nonempty)

lemma split_on_nonempty [simp]: "split_on c s \<noteq> []"
  by (induction s) (auto split: list.splits)

lemma join_eq_Nil: "(\<And>w. w \<in> set ws \<Longrightarrow> w \<noteq> []) \<Longrightarrow> join sep ws = [] \<longleftrightarrow> ws = []"
  by (cases ws rule: remdups_adj.cases) auto

text \<open>Shell-style patterns of \<open>fnmatch.fnmatchcase\<close>: \<open>*\<close> and \<open>?\<close>.  Bracket expressions do not occur,
  since the parser refuses brackets in SPL text.\<close>

fun fnmatch :: "string \<Rightarrow> string \<Rightarrow> bool" where
  "fnmatch name [] = (name = [])"
| "fnmatch [] (p # ps) = (p = CHR ''*'' \<and> fnmatch [] ps)"
| "fnmatch (c # cs) (p # ps) =
     (if p = CHR ''*'' then fnmatch (c # cs) ps \<or> fnmatch cs (p # ps)
      else (p = CHR ''?'' \<or> p = c) \<and> fnmatch cs ps)"

lemma fnmatch_literal:
  "CHR ''*'' \<notin> set p \<Longrightarrow> CHR ''?'' \<notin> set p \<Longrightarrow> fnmatch name p \<longleftrightarrow> name = p"
  by (induction name p rule: fnmatch.induct) auto

lemma fnmatch_star: "fnmatch name [CHR ''*'']"
  by (induction name) auto

subsection \<open>Quoted strings\<close>

text \<open>\<open>q(?:\\.|[^q\\])*q\<close>: the consumed text and the rest.  A backslash takes the next character
  with it unless that is a newline, which \<open>.\<close> does not match.\<close>

fun quoted_body :: "char \<Rightarrow> string \<Rightarrow> (string \<times> string) option" where
  "quoted_body q [] = None"
| "quoted_body q (c # cs) =
     (if c = q then Some ([c], cs)
      else if c = backslash then
        (case cs of
           [] \<Rightarrow> None
         | d # ds \<Rightarrow>
             if d = newline then None
             else map_option (\<lambda>(t, r). (c # d # t, r)) (quoted_body q ds))
      else map_option (\<lambda>(t, r). (c # t, r)) (quoted_body q cs))"

definition quoted :: "string \<Rightarrow> (string \<times> string) option" where
  "quoted s =
     (case s of
        [] \<Rightarrow> None
      | c # cs \<Rightarrow>
          if c = dquote \<or> c = squote then map_option (\<lambda>(t, r). (c # t, r)) (quoted_body c cs)
          else None)"

lemma quoted_body_append: "quoted_body q s = Some (t, r) \<Longrightarrow> s = t @ r \<and> t \<noteq> []"
proof (induction q s arbitrary: t r rule: quoted_body.induct)
  case (1 q)
  then show ?case by simp
next
  case (2 q c cs)
  consider "c = q" | "c \<noteq> q" "c = backslash" | "c \<noteq> q" "c \<noteq> backslash" by blast
  then show ?case
  proof cases
    case 1
    then show ?thesis using "2.prems" by auto
  next
    case 2
    then obtain d ds where cs: "cs = d # ds" and d: "d \<noteq> newline"
      using "2.prems" by (cases cs) (simp_all split: if_splits)
    obtain t' where t': "quoted_body q ds = Some (t', r)" "t = c # d # t'"
      using "2.prems" 2 cs d by (cases "quoted_body q ds") auto
    then have "ds = t' @ r" using "2.IH"(1) [OF 2 cs d] by blast
    then show ?thesis using t' cs by simp
  next
    case 3
    obtain t' where t': "quoted_body q cs = Some (t', r)" "t = c # t'"
      using "2.prems" 3 by (cases "quoted_body q cs") auto
    then have "cs = t' @ r" using "2.IH"(2) [OF 3] by blast
    then show ?thesis using t' by simp
  qed
qed

lemma quoted_append: "quoted s = Some (t, r) \<Longrightarrow> s = t @ r \<and> t \<noteq> []"
  by (cases s) (force simp: quoted_def split: if_splits dest: quoted_body_append)+

lemma quoted_shorter: "quoted s = Some (t, r) \<Longrightarrow> length r < length s"
  using quoted_append by fastforce

end
