(* ===== verification/SPLText.thy ===== *)
theory SPLText
  imports PyStr
begin

text \<open>
  The text layer of \<^verbatim>\<open>domain/spl_policy.py\<close>: the pipeline parser \<open>parse_spl\<close>, the provenance
  rewrite \<open>_preserve_raw_source_fields\<close>, and the scope predicates that the policy reads off the
  first command.  Each regular expression of the source is written as the scanner it denotes;
  all of them are deterministic once the longest run of a class is taken, since what must
  follow a run is never in its class.
\<close>

subsection \<open>Pipeline parser\<close>

definition POLICY_VERSION :: string where "POLICY_VERSION = ''1.5''"

definition SOURCE_FIELDS :: "string list" where
  "SOURCE_FIELDS = [''index'', ''sourcetype'', ''_time'', ''_cd'']"

definition BUILTIN_FIELDS :: "string list" where
  "BUILTIN_FIELDS = [''_time'', ''_raw'', ''host'', ''source'', ''sourcetype'', ''index'']"

definition ALLOWED_COMMANDS :: "string list" where
  "ALLOWED_COMMANDS = [''search'', ''where'', ''fields'', ''table'', ''stats'', ''timechart'',
     ''sort'', ''head'', ''dedup'', ''rename'', ''eval'', ''regex'']"

record ParsedSPL =
  normalized :: string
  command_segments :: "(string \<times> string) list"

definition aggregates_events :: "ParsedSPL \<Rightarrow> bool" where
  "aggregates_events parsed \<longleftrightarrow>
     list_ex (\<lambda>(command, _). command \<in> {''stats'', ''timechart''}) (command_segments parsed)"

text \<open>\<open>\b\<close> after a run of word characters.\<close>

definition boundary :: "string \<Rightarrow> bool" where
  "boundary rest \<longleftrightarrow> (case rest of [] \<Rightarrow> True | c # _ \<Rightarrow> \<not> py_word c)"

text \<open>\<open>^\s*([A-Za-z][A-Za-z0-9_]*)\b(.*)$\<close>\<close>

definition match_command :: "string \<Rightarrow> (string \<times> string) option" where
  "match_command part =
     (case lstrip part of
        [] \<Rightarrow> None
      | c # cs \<Rightarrow>
          if ascii_alpha c \<and> boundary (dropWhile ascii_word cs)
            then Some (c # takeWhile ascii_word cs, dropWhile ascii_word cs)
          else None)"

definition parse_segment :: "nat \<Rightarrow> string \<Rightarrow> (string \<times> string) result" where
  "parse_segment index part =
     (if index = 0 \<and> take 1 part = ''('' then Inr (''search'', part)
      else case match_command part of
        None \<Rightarrow> Inl (ValueError ''SPL command is malformed'')
      | Some (word, rest) \<Rightarrow>
          let command = lower word; args = strip rest in
          bindR (if index = 0 \<and> command \<noteq> ''search''
                 then (if CHR ''='' \<in> set part then Inr (''search'', part)
                       else Inl (ValueError ''SPL must begin with search''))
                 else Inr (command, args))
            (\<lambda>(command, args).
               if command \<notin> set ALLOWED_COMMANDS
                 then Inl (ValueError (''SPL command is not allowed: '' @ command))
               else Inr (command, args)))"

fun parse_segments :: "nat \<Rightarrow> string list \<Rightarrow> (string \<times> string) list result" where
  "parse_segments index [] = Inr []"
| "parse_segments index (part # parts) =
     bindR (parse_segment index part) (\<lambda>seg.
     bindR (parse_segments (Suc index) parts) (\<lambda>segs. Inr (seg # segs)))"

definition render_segment :: "string \<times> string \<Rightarrow> string" where
  "render_segment seg = rstrip (fst seg @ '' '' @ snd seg)"

definition parse_spl :: "string \<Rightarrow> ParsedSPL result" where
  "parse_spl value =
     (if strip value = [] then Inl (ValueError ''SPL must be non-empty'')
      else if length value > 20000 \<or> backtick \<in> set value \<or> CHR ''['' \<in> set value
              \<or> CHR '']'' \<in> set value \<or> CHR 0x00 \<in> set value
        then Inl (ValueError ''SPL contains unsupported syntax'')
      else
        let parts = map strip (split_on (CHR ''|'') value) in
        if [] \<in> set parts then Inl (ValueError ''SPL contains an empty command'')
        else bindR (parse_segments 0 parts) (\<lambda>segments.
          Inr \<lparr>normalized = join '' | '' (map render_segment segments),
               command_segments = segments\<rparr>))"

subsection \<open>Provenance fields\<close>

text \<open>\<open>(?:^|,)\s*["']?([A-Za-z_][A-Za-z0-9_]*)["']?\s*=\<close> in an \<open>eval\<close>: the assigned names.\<close>

definition skip_quote :: "string \<Rightarrow> string" where
  "skip_quote s = (case s of c # cs \<Rightarrow> if c = dquote \<or> c = squote then cs else s | [] \<Rightarrow> [])"

definition match_assignment :: "string \<Rightarrow> (string \<times> string) option" where
  "match_assignment s =
     (case skip_quote (lstrip s) of
        [] \<Rightarrow> None
      | c # cs \<Rightarrow>
          if ascii_alpha c \<or> c = CHR ''_'' then
            (case lstrip (skip_quote (dropWhile ascii_word cs)) of
               d # rest \<Rightarrow> if d = CHR ''='' then Some (c # takeWhile ascii_word cs, rest) else None
             | [] \<Rightarrow> None)
          else None)"

fun eval_names_after_comma :: "string \<Rightarrow> string list" where
  "eval_names_after_comma [] = []"
| "eval_names_after_comma (c # cs) =
     (if c = CHR '','' then
        (case match_assignment cs of
           Some (name, _) \<Rightarrow> name # eval_names_after_comma cs
         | None \<Rightarrow> eval_names_after_comma cs)
      else eval_names_after_comma cs)"

text \<open>A match never contains a second comma, so scanning on from its first character finds the
  same further matches as scanning on from its end.\<close>

definition eval_names :: "string \<Rightarrow> string list" where
  "eval_names args =
     (case match_assignment args of Some (name, _) \<Rightarrow> [name] | None \<Rightarrow> [])
     @ eval_names_after_comma args"

text \<open>\<open>(\S+)\s+as\s+(\S+)\<close> over the words of a \<open>rename\<close>.\<close>

fun rename_pairs :: "string list \<Rightarrow> (string \<times> string) list" where
  "rename_pairs (x # a # y # rest) =
     (if lower a = ''as'' then (x, y) # rename_pairs rest else rename_pairs (a # y # rest))"
| "rename_pairs _ = []"

definition quotes :: "char list" where "quotes = [dquote, squote]"

definition modified_fields :: "string \<Rightarrow> string \<Rightarrow> string list" where
  "modified_fields command args =
     (let fields = runs (\<lambda>c. \<not> py_isspace c \<and> c \<noteq> CHR '','') args in
      if command = ''fields'' \<and> take 1 args = ''-''
        then map (\<lambda>f. strip_chars quotes (lstrip_chars ''-'' f)) (filter (\<lambda>f. f \<noteq> ''-'') fields)
      else if command \<in> {''table'', ''fields''} then []
      else if command = ''eval'' then eval_names args
      else if command = ''rename''
        then concat (map (\<lambda>(a, b). [strip_chars quotes a, strip_chars quotes b])
                       (rename_pairs (split_ws args)))
      else [])"

definition projected_args :: "string \<Rightarrow> string \<Rightarrow> string" where
  "projected_args command args =
     (let fields = runs (\<lambda>c. \<not> py_isspace c \<and> c \<noteq> CHR '','') args in
      if command = ''fields'' \<and> take 1 args = ''-'' then args
      else if command \<in> {''table'', ''fields''} then
        (let selected = map (strip_chars quotes) fields in
         args @ concat (map (\<lambda>f. '' '' @ f) (filter (\<lambda>f. f \<notin> set selected) SOURCE_FIELDS)))
      else args)"

fun preserve_segments :: "(string \<times> string) list \<Rightarrow> string list result" where
  "preserve_segments [] = Inr []"
| "preserve_segments ((command, args) # segs) =
     (if list_ex (\<lambda>f. list_ex (fnmatch f) (modified_fields command args)) SOURCE_FIELDS
        then Inl (ValueError ''source_metadata_modified'')
      else bindR (preserve_segments segs) (\<lambda>rest.
        Inr (render_segment (command, projected_args command args) # rest)))"

definition preserve_raw_source_fields :: "ParsedSPL \<Rightarrow> string result" where
  "preserve_raw_source_fields parsed =
     (if aggregates_events parsed then Inr (normalized parsed)
      else bindR (preserve_segments (command_segments parsed)) (\<lambda>segs. Inr (join '' | '' segs)))"

subsection \<open>Scope predicates\<close>

text \<open>The keyword \<open>index\<close> or \<open>sourcetype\<close>, in any case, at the start of a string; its lower-case
  name and what follows it.\<close>

definition match_keyword :: "string \<Rightarrow> (string \<times> string) option" where
  "match_keyword s =
     (if lower (take 5 s) = ''index'' then Some (''index'', drop 5 s)
      else if lower (take 10 s) = ''sourcetype'' then Some (''sourcetype'', drop 10 s)
      else None)"

text \<open>\<open>_SCOPE_FIELD\<close>: the keyword as a word of its own, with the text it starts.  Positions
  inside a match are preceded by a letter, so the scan may step one character at a time.\<close>

definition starts_word :: "char option \<Rightarrow> bool" where
  "starts_word prev \<longleftrightarrow> (case prev of None \<Rightarrow> True | Some c \<Rightarrow> \<not> ascii_word c)"

fun scope_fields :: "char option \<Rightarrow> string \<Rightarrow> (string \<times> string) list" where
  "scope_fields prev [] = []"
| "scope_fields prev (c # cs) =
     (case match_keyword (c # cs) of
        Some (field, rest) \<Rightarrow>
          (if starts_word prev \<and> boundary rest then [(field, c # cs)] else [])
      | None \<Rightarrow> [])
     @ scope_fields (Some c) cs"

definition value_char :: "char \<Rightarrow> bool" where
  "value_char c \<longleftrightarrow> ascii_word c \<or> c \<in> {CHR ''.'', CHR '':'', CHR ''-''}"

text \<open>\<open>(?=$|[\s|)])\<close>\<close>

definition ends_predicate :: "string \<Rightarrow> bool" where
  "ends_predicate rest \<longleftrightarrow>
     (case rest of [] \<Rightarrow> True | c # _ \<Rightarrow> py_isspace c \<or> c \<in> {CHR ''|'', CHR '')''})"

text \<open>The value of a predicate, bare or in either kind of quotes, and the rest.\<close>

definition match_value :: "string \<Rightarrow> (string \<times> string) option" where
  "match_value s =
     (case s of
        [] \<Rightarrow> None
      | c # cs \<Rightarrow>
          if c = dquote \<or> c = squote then
            (case dropWhile value_char cs of
               d # rest \<Rightarrow>
                 if d = c \<and> takeWhile value_char cs \<noteq> [] \<and> ends_predicate rest
                   then Some (takeWhile value_char cs, rest) else None
             | [] \<Rightarrow> None)
          else if value_char c \<and> ends_predicate (dropWhile value_char s)
            then Some (takeWhile value_char s, dropWhile value_char s)
          else None)"

text \<open>\<open>_SCOPE_PREDICATE.match\<close>: field, value, and the rest of the string.\<close>

definition match_predicate :: "string \<Rightarrow> (string \<times> string \<times> string) option" where
  "match_predicate s =
     (case match_keyword s of
        None \<Rightarrow> None
      | Some (field, after) \<Rightarrow>
          (case lstrip after of
             [] \<Rightarrow> None
           | e # value \<Rightarrow>
               if e = CHR ''='' then map_option (\<lambda>(v, rest). (field, v, rest)) (match_value (lstrip value))
               else None))"

text \<open>\<open>_SCOPE_PREDICATE.fullmatch\<close>\<close>

definition full_predicate :: "string \<Rightarrow> (string \<times> string) option" where
  "full_predicate s =
     (case match_predicate s of
        Some (field, v, rest) \<Rightarrow> if rest = [] then Some (field, v) else None
      | None \<Rightarrow> None)"

text \<open>\<open>_NEGATED_SCOPE\<close>: \<open>NOT\<close> with any spaces and opening parentheses, or a minus sign, right
  before the keyword.\<close>

fun skip_open :: "string \<Rightarrow> string" where
  "skip_open [] = []"
| "skip_open (c # cs) = (if py_isspace c \<or> c = CHR ''('' then skip_open cs else c # cs)"

definition negated_here :: "char option \<Rightarrow> string \<Rightarrow> string option" where
  "negated_here prev s =
     (let word_start = (case prev of None \<Rightarrow> True | Some c \<Rightarrow> \<not> py_word c);
          target = (if word_start \<and> upper (take 3 s) = ''NOT'' then Some (skip_open (drop 3 s))
                    else if starts_word prev \<and> take 1 s = ''-'' then Some (lstrip (drop 1 s))
                    else None)
      in case target of
           None \<Rightarrow> None
         | Some t \<Rightarrow>
             (case match_keyword t of
                Some (field, rest) \<Rightarrow> if boundary rest then Some field else None
              | None \<Rightarrow> None))"

fun negated_fields :: "char option \<Rightarrow> string \<Rightarrow> string list" where
  "negated_fields prev [] = []"
| "negated_fields prev (c # cs) =
     (case negated_here prev (c # cs) of Some field \<Rightarrow> [field] | None \<Rightarrow> [])
     @ negated_fields (Some c) cs"

text \<open>\<open>_scope_values\<close>: the exact values a field is compared with, and whether any mention of the
  field is not such a comparison.\<close>

definition scope_values :: "string \<Rightarrow> string \<Rightarrow> string list \<times> bool" where
  "scope_values value field =
     (let occurrences = filter (\<lambda>(f, _). f = field) (scope_fields None value) in
      (concat (map (\<lambda>(_, text). case match_predicate text of
                       Some (_, v, _) \<Rightarrow> [v] | None \<Rightarrow> []) occurrences),
       field \<in> set (negated_fields None value)
       \<or> list_ex (\<lambda>(_, text). match_predicate text = None) occurrences))"

text \<open>\<open>_INLINE_TIME.search\<close>: \<open>(?:^|\s)(?:earliest|latest)\s*=\<close>\<close>

definition inline_time_here :: "string \<Rightarrow> bool" where
  "inline_time_here s \<longleftrightarrow>
     (lower (take 8 s) = ''earliest'' \<and> take 1 (lstrip (drop 8 s)) = ''='')
     \<or> (lower (take 6 s) = ''latest'' \<and> take 1 (lstrip (drop 6 s)) = ''='')"

fun inline_time_after_space :: "string \<Rightarrow> bool" where
  "inline_time_after_space [] \<longleftrightarrow> False"
| "inline_time_after_space (c # cs) \<longleftrightarrow>
     (py_isspace c \<and> inline_time_here cs) \<or> inline_time_after_space cs"

definition inline_time :: "string \<Rightarrow> bool" where
  "inline_time s \<longleftrightarrow> inline_time_here s \<or> inline_time_after_space s"

subsection \<open>Facts about scope predicates\<close>

lemma lower_keyword_chars:
  "lower_char c \<in> set ''indexsourcetype'' \<Longrightarrow> ascii_word c"
proof -
  assume a: "lower_char c \<in> set ''indexsourcetype''"
  show ?thesis
  proof (cases "ascii_upper c")
    case True
    then show ?thesis by (simp add: ascii_word_def ascii_alpha_def)
  next
    case False
    then have "c \<in> set ''indexsourcetype''" using a by (simp add: lower_char_def)
    then show ?thesis by (auto simp: ascii_word_def ascii_alpha_def)
  qed
qed

definition scope_keyword :: "string \<Rightarrow> bool" where
  "scope_keyword f \<longleftrightarrow> f = ''index'' \<or> f = ''sourcetype''"

lemma match_keyword_split:
  assumes "match_keyword s = Some (f, r)"
  shows "\<exists>kw. s = kw @ r \<and> lower kw = f \<and> scope_keyword f"
proof (cases "lower (take 5 s) = ''index''")
  case True
  then have "f = ''index''" "r = drop 5 s"
    using assms unfolding match_keyword_def by (simp_all only: if_True option.inject prod.inject simp_thms)
  with True show ?thesis unfolding scope_keyword_def
    by (intro exI [of _ "take 5 s"]) (simp only: append_take_drop_id simp_thms)
next
  case False
  then have t: "lower (take 10 s) = ''sourcetype''"
    using assms unfolding match_keyword_def by (simp only: if_False option.distinct split: if_splits)
  with False have "f = ''sourcetype''" "r = drop 10 s"
    using assms unfolding match_keyword_def by (simp_all only: if_False if_True option.inject prod.inject simp_thms)
  with t show ?thesis unfolding scope_keyword_def
    by (intro exI [of _ "take 10 s"]) (simp only: append_take_drop_id simp_thms)
qed

lemma match_keyword_append:
  assumes "lower kw = f" and "scope_keyword f"
  shows "match_keyword (kw @ r) = Some (f, r)"
proof -
  have len: "length kw = length f" using assms(1) by (metis length_map)
  from assms(2) show ?thesis unfolding scope_keyword_def
  proof
    assume f: "f = ''index''"
    then have n: "length kw = 5" using len by simp
    have t: "take 5 (kw @ r) = kw" and d: "drop 5 (kw @ r) = r" using n by simp_all
    show ?thesis unfolding match_keyword_def t d assms(1) f by (simp only: if_True simp_thms)
  next
    assume f: "f = ''sourcetype''"
    then have n: "length kw = 10" using len by simp
    have t: "take 10 (kw @ r) = kw" and d: "drop 10 (kw @ r) = r" using n by simp_all
    have "take 5 (kw @ r) = take 5 kw" using n by simp
    then have "lower (take 5 (kw @ r)) = take 5 f" using assms(1) by (metis take_map)
    then have "lower (take 5 (kw @ r)) \<noteq> ''index''" using f by simp
    then show ?thesis unfolding match_keyword_def t d assms(1) f by (simp only: if_True if_False simp_thms)
  qed
qed

lemma lstrip_split: "\<exists>sp. s = sp @ lstrip s \<and> list_all py_isspace sp"
  unfolding lstrip_def
  by (metis Ball_set set_takeWhileD takeWhile_dropWhile_id)

lemma lstrip_skip: "list_all py_isspace sp \<Longrightarrow> lstrip (sp @ r) = lstrip r"
  unfolding lstrip_def by (induction sp) auto

lemma lstrip_nonspace: "\<not> py_isspace c \<Longrightarrow> lstrip (c # r) = c # r"
  by (simp add: lstrip_def)

text \<open>A value as it is written: bare or quoted.\<close>

definition value_text :: "string \<Rightarrow> string \<Rightarrow> bool" where
  "value_text v body \<longleftrightarrow>
     v \<noteq> [] \<and> list_all value_char v
     \<and> (body = v \<or> body = dquote # v @ [dquote] \<or> body = squote # v @ [squote])"

lemma value_char_plain:
  assumes "value_char c"
  shows "c \<noteq> dquote" "c \<noteq> squote" "\<not> py_isspace c" "c \<noteq> CHR ''|''" "c \<noteq> CHR '')''"
  using assms
  by (auto simp: value_char_def ascii_word_def ascii_alpha_def ascii_upper_def ascii_digit_def
      py_isspace_def)

lemma takeWhile_run:
  assumes "list_all p v" and "case rest of [] \<Rightarrow> True | c # _ \<Rightarrow> \<not> p c"
  shows "takeWhile p (v @ rest) = v" and "dropWhile p (v @ rest) = rest"
  using assms by (induction v) (auto split: list.splits)

lemma ends_predicate_stops: "ends_predicate rest \<Longrightarrow> (case rest of [] \<Rightarrow> True | c # _ \<Rightarrow> \<not> value_char c)"
  by (auto simp: ends_predicate_def dest: value_char_plain split: list.splits)

lemma match_value_split:
  assumes "match_value s = Some (v, rest)"
  shows "\<exists>body. s = body @ rest \<and> value_text v body \<and> ends_predicate rest"
proof -
  obtain c cs where s: "s = c # cs" using assms by (cases s) (simp_all add: match_value_def)
  have tw: "list_all value_char (takeWhile value_char x)" for x
    by (metis Ball_set set_takeWhileD)
  show ?thesis
  proof (cases "c = dquote \<or> c = squote")
    case True
    then obtain d where d: "dropWhile value_char cs = d # rest" "d = c"
        "v = takeWhile value_char cs" "v \<noteq> []" "ends_predicate rest"
      using assms s by (auto simp: match_value_def split: list.splits if_splits)
    have "cs = v @ c # rest" using d by (metis takeWhile_dropWhile_id)
    then show ?thesis using True d s tw
      by (intro exI [of _ "c # v @ [c]"]) (auto simp: value_text_def)
  next
    case False
    then have v: "value_char c" "v = takeWhile value_char s" "rest = dropWhile value_char s"
        "ends_predicate rest"
      using assms s by (auto simp: match_value_def split: if_splits)
    then show ?thesis using s tw
      by (intro exI [of _ v]) (auto simp: value_text_def)
  qed
qed

abbreviation value_stops :: "string \<Rightarrow> bool" where
  "value_stops rest \<equiv> (case rest of [] \<Rightarrow> True | c # _ \<Rightarrow> \<not> value_char c)"

lemma match_value_append:
  assumes "value_text v body" and "value_stops rest"
  shows "match_value (body @ rest) = (if ends_predicate rest then Some (v, rest) else None)"
proof -
  have v: "v \<noteq> []" "list_all value_char v" using assms(1) by (simp_all add: value_text_def)
  from assms(1) consider "body = v" | q where "q = dquote \<or> q = squote" "body = q # v @ [q]"
    unfolding value_text_def by blast
  then show ?thesis
  proof cases
    case 1
    obtain c cs where c: "v = c # cs" using v(1) by (cases v) auto
    have "value_char c" using v(2) c by simp
    moreover have "takeWhile value_char (c # cs @ rest) = v" "dropWhile value_char (c # cs @ rest) = rest"
      using takeWhile_run [OF v(2) assms(2)] c by simp_all
    ultimately show ?thesis using 1 c value_char_plain [of c] by (simp add: match_value_def)
  next
    case (2 q)
    have stop: "value_stops (q # rest)" using 2(1) value_char_plain by auto
    show ?thesis using 2 takeWhile_run [OF v(2) stop] v(1) by (simp add: match_value_def)
  qed
qed

lemma value_text_start:
  "value_text v body \<Longrightarrow> \<exists>c cs. body = c # cs \<and> \<not> py_isspace c"
proof -
  assume t: "value_text v body"
  have q: "\<not> py_isspace dquote" "\<not> py_isspace squote" by (simp_all add: py_isspace_def)
  obtain c cs where v: "v = c # cs" using t by (cases v) (simp_all add: value_text_def)
  then have "\<not> py_isspace c" using t value_char_plain(3) by (simp add: value_text_def)
  then show ?thesis using t v q unfolding value_text_def by blast
qed

text \<open>What a predicate is, as text: keyword, spaces, equals sign, spaces, value.\<close>

definition predicate_text :: "string \<Rightarrow> string \<Rightarrow> string \<Rightarrow> bool" where
  "predicate_text f v tok \<longleftrightarrow>
     scope_keyword f
     \<and> (\<exists>kw sp1 sp2 body. tok = kw @ sp1 @ CHR ''='' # sp2 @ body \<and> lower kw = f
          \<and> list_all py_isspace sp1 \<and> list_all py_isspace sp2 \<and> value_text v body)"

lemma match_predicate_split:
  assumes "match_predicate s = Some (f, v, rest)"
  shows "\<exists>tok. s = tok @ rest \<and> predicate_text f v tok \<and> ends_predicate rest"
proof -
  obtain after where k: "match_keyword s = Some (f, after)"
    and a: "\<exists>w. lstrip after = CHR ''='' # w \<and> match_value (lstrip w) = Some (v, rest)"
    using assms unfolding match_predicate_def
    by (fastforce split: option.splits list.splits if_splits)
  obtain w where w: "lstrip after = CHR ''='' # w" "match_value (lstrip w) = Some (v, rest)"
    using a by blast
  obtain kw where kw: "s = kw @ after" "lower kw = f" "scope_keyword f"
    using match_keyword_split [OF k] by blast
  obtain sp1 where sp1: "after = sp1 @ CHR ''='' # w" "list_all py_isspace sp1"
    using lstrip_split [of after] w(1) by auto
  obtain sp2 where sp2: "w = sp2 @ lstrip w" "list_all py_isspace sp2"
    using lstrip_split by blast
  obtain body where body: "lstrip w = body @ rest" "value_text v body" "ends_predicate rest"
    using match_value_split [OF w(2)] by blast
  have "s = (kw @ sp1 @ CHR ''='' # sp2 @ body) @ rest" using kw(1) sp1(1) sp2(1) body(1) by simp
  then show ?thesis using kw sp1 sp2 body unfolding predicate_text_def by blast
qed

lemma match_predicate_append:
  assumes "predicate_text f v tok" and "value_stops rest"
  shows "match_predicate (tok @ rest) = (if ends_predicate rest then Some (f, v, rest) else None)"
proof -
  obtain kw sp1 sp2 body where t: "tok = kw @ sp1 @ CHR ''='' # sp2 @ body" "lower kw = f"
      "list_all py_isspace sp1" "list_all py_isspace sp2" "value_text v body"
      "scope_keyword f"
    using assms(1) unfolding predicate_text_def by blast
  have k: "match_keyword (tok @ rest) = Some (f, sp1 @ CHR ''='' # sp2 @ body @ rest)"
    using match_keyword_append [OF t(2,6)] t(1) by simp
  have e: "lstrip (sp1 @ CHR ''='' # sp2 @ body @ rest) = CHR ''='' # sp2 @ body @ rest"
    using t(3) by (simp add: lstrip_skip lstrip_nonspace py_isspace_def)
  have "lstrip (sp2 @ body @ rest) = body @ rest"
    using t(4) value_text_start [OF t(5)] by (auto simp: lstrip_skip lstrip_nonspace)
  then show ?thesis using k e match_value_append [OF t(5) assms(2)]
    by (simp add: match_predicate_def)
qed

lemma full_predicate_iff: "full_predicate tok = Some (f, v) \<longleftrightarrow> predicate_text f v tok"
proof
  assume "full_predicate tok = Some (f, v)"
  then have "match_predicate tok = Some (f, v, [])"
    by (auto simp: full_predicate_def split: option.splits if_splits)
  then show "predicate_text f v tok" using match_predicate_split by fastforce
next
  assume "predicate_text f v tok"
  then have "match_predicate (tok @ []) = Some (f, v, [])"
    by (subst match_predicate_append) (simp_all add: ends_predicate_def)
  then show "full_predicate tok = Some (f, v)" by (simp add: full_predicate_def)
qed

lemma predicate_text_keyword:
  assumes "predicate_text f v tok"
  shows "\<exists>r. match_keyword (tok @ rest) = Some (f, r) \<and> boundary r"
proof -
  obtain kw sp1 sp2 body where t: "tok = kw @ sp1 @ CHR ''='' # sp2 @ body" "lower kw = f"
      "list_all py_isspace sp1" "scope_keyword f"
    using assms unfolding predicate_text_def by blast
  have "match_keyword (tok @ rest) = Some (f, sp1 @ CHR ''='' # sp2 @ body @ rest)"
    using match_keyword_append [OF t(2,4)] t(1) by simp
  moreover have "boundary (sp1 @ CHR ''='' # x)" for x
    using t(3) word_not_space
    by (cases sp1) (auto simp: boundary_def py_word_def ascii_word_def ascii_alpha_def
        ascii_upper_def ascii_digit_def)
  ultimately show ?thesis by blast
qed

lemma scope_fields_mem:
  assumes "starts_word (if pre = [] then prev else Some (last pre))"
    and "match_keyword suf = Some (f, r)" and "boundary r"
  shows "(f, suf) \<in> set (scope_fields prev (pre @ suf))"
  using assms
proof (induction pre arbitrary: prev)
  case Nil
  moreover obtain c cs where "suf = c # cs"
    using Nil.prems(2) by (cases suf) (auto simp: match_keyword_def)
  ultimately show ?case by simp
next
  case (Cons a pre)
  have "starts_word (if pre = [] then Some a else Some (last pre))"
    using Cons.prems(1) by (simp split: if_splits)
  then show ?case using Cons.IH [of "Some a"] Cons.prems(2,3) by simp
qed

text \<open>The link to \<open>scope_values\<close>: an exact predicate that starts a word contributes its value, and
  a predicate text followed by anything else makes the scope inexact.\<close>

lemma scope_values_mem:
  assumes "starts_word (if pre = [] then None else Some (last pre))"
    and "predicate_text f v tok" and "value_stops rest"
    and "\<not> snd (scope_values (pre @ tok @ rest) f)"
  shows "v \<in> set (fst (scope_values (pre @ tok @ rest) f))"
proof -
  obtain r where "match_keyword (tok @ rest) = Some (f, r)" "boundary r"
    using predicate_text_keyword [OF assms(2)] by blast
  then have occ: "(f, tok @ rest) \<in> set (scope_fields None (pre @ tok @ rest))"
    by (intro scope_fields_mem [OF assms(1)])
  then have "match_predicate (tok @ rest) \<noteq> None"
    using assms(4) by (auto simp: scope_values_def Let_def list_ex_iff)
  then have "match_predicate (tok @ rest) = Some (f, v, rest)"
    using match_predicate_append [OF assms(2,3)] by (simp split: if_splits)
  then show ?thesis using occ by (force simp: scope_values_def Let_def)
qed

end
