(* ===== verification/SPLSource.thy ===== *)
theory SPLSource
  imports SPLText
begin

text \<open>
  The source-scope analysis of \<^verbatim>\<open>domain/spl_policy.py\<close>: the token scanner and the recursive-descent
  reading of \<open>_source_branches\<close>, which computes the index/sourcetype alternatives that a search
  expression can match, and \<open>source_pairs\<close>.  The three mutually recursive closures of the code
  share the position in the token list; here each takes the remaining tokens and returns the
  rest.  They recurse on a fuel argument, and \<open>4 * length tokens + 3\<close> is always enough
  (\<open>enough_fuel\<close>).  The expressions are given a grammar and a semantics of their own, and
  the branches are shown to cover every event the expression can match.
\<close>

subsection \<open>Tokens\<close>

definition plain_char :: "char \<Rightarrow> bool" where
  "plain_char c \<longleftrightarrow> \<not> py_isspace c \<and> c \<notin> {CHR ''('', CHR '')'', dquote, squote}"

text \<open>\<open>(?:[^\s()"']+|"..."|'...')+\<close>: the consumed text and the rest.\<close>

function search_pieces :: "string \<Rightarrow> string \<times> string" where
  "search_pieces s =
     (case s of
        [] \<Rightarrow> ([], [])
      | c # cs \<Rightarrow>
          if plain_char c then (let (t, r) = search_pieces cs in (c # t, r))
          else (case quoted s of
                  None \<Rightarrow> ([], s)
                | Some (q, rest) \<Rightarrow> (let (t, r) = search_pieces rest in (q @ t, r))))"
  by pat_completeness auto
termination
  by (relation "measure length") (auto dest: quoted_shorter)

declare search_pieces.simps [simp del]

definition match_search_token :: "string \<Rightarrow> (string \<times> string) option" where
  "match_search_token s =
     (case s of
        [] \<Rightarrow> None
      | c # cs \<Rightarrow>
          if c = CHR ''('' \<or> c = CHR '')'' then Some ([c], cs)
          else (let (t, r) = search_pieces s in if t = [] then None else Some (t, r)))"

lemma search_pieces_cases:
  assumes "search_pieces s = (t, r)"
  obtains (nil) "s = []" "t = []" "r = []"
    | (plain) c cs t' where "s = c # cs" "plain_char c" "search_pieces cs = (t', r)" "t = c # t'"
    | (quote) c cs q rest t' where "s = c # cs" "\<not> plain_char c" "quoted s = Some (q, rest)"
        "search_pieces rest = (t', r)" "t = q @ t'"
    | (stuck) c cs where "s = c # cs" "\<not> plain_char c" "t = []" "r = s"
  using assms
  by (subst (asm) search_pieces.simps)
    (auto split: list.splits if_splits option.splits prod.splits)

lemma search_pieces_append: "search_pieces s = (t, r) \<Longrightarrow> s = t @ r"
proof (induction "length s" arbitrary: s t r rule: less_induct)
  case less
  from less.prems show ?case
  proof (cases rule: search_pieces_cases)
    case (plain c cs t')
    then show ?thesis using less.hyps [of cs] by simp
  next
    case (quote c cs q rest t')
    then show ?thesis using less.hyps [of rest] quoted_append quoted_shorter by fastforce
  qed simp_all
qed

text \<open>A token ends where the next character is white space, a parenthesis or a quote.\<close>

definition token_stops :: "string \<Rightarrow> bool" where
  "token_stops r \<longleftrightarrow> (case r of [] \<Rightarrow> True | c # _ \<Rightarrow> \<not> plain_char c)"

lemma search_pieces_stops: "search_pieces s = (t, r) \<Longrightarrow> token_stops r"
proof (induction "length s" arbitrary: s t r rule: less_induct)
  case less
  from less.prems show ?case
  proof (cases rule: search_pieces_cases)
    case (plain c cs t')
    then show ?thesis using less.hyps [of cs] by simp
  next
    case (quote c cs q rest t')
    then show ?thesis using less.hyps [of rest] quoted_shorter by blast
  qed (simp_all add: token_stops_def)
qed

lemma match_search_token_split:
  assumes "match_search_token s = Some (t, r)"
  shows "s = t @ r \<and> t \<noteq> [] \<and> (t = ''('' \<or> t = '')'' \<or> token_stops r)"
proof -
  obtain c cs where s: "s = c # cs" using assms by (cases s) (simp_all add: match_search_token_def)
  show ?thesis
  proof (cases "c = CHR ''('' \<or> c = CHR '')''")
    case True
    then show ?thesis using assms s by (auto simp: match_search_token_def)
  next
    case False
    then have "search_pieces s = (t, r)" "t \<noteq> []"
      using assms s by (auto simp: match_search_token_def split: prod.splits if_splits)
    then show ?thesis using search_pieces_append search_pieces_stops by blast
  qed
qed

lemma match_predicate_shorter: "match_predicate s = Some (f, v, r) \<Longrightarrow> length r < length s"
proof -
  assume "match_predicate s = Some (f, v, r)"
  then obtain tok where "s = tok @ r" "predicate_text f v tok" using match_predicate_split by blast
  then show ?thesis unfolding predicate_text_def by auto
qed

datatype source_error = SourceError string | OutOfFuel

text \<open>The scanning loop of \<open>_source_branches\<close>; \<open>n\<close> counts the tokens found so far.\<close>

function source_tokens :: "nat \<Rightarrow> string \<Rightarrow> source_error + string list" where
  "source_tokens n s =
     (case s of
        [] \<Rightarrow> Inr []
      | c # cs \<Rightarrow>
          if py_isspace c then source_tokens n cs
          else
            (case (case match_predicate s of
                     Some (_, _, rest) \<Rightarrow> Some (take (length s - length rest) s, rest)
                   | None \<Rightarrow> match_search_token s) of
               None \<Rightarrow> Inl (SourceError ''unsupported source expression'')
             | Some (token, rest) \<Rightarrow>
                 if n \<ge> 2000 then Inl (SourceError ''unsupported source expression'')
                 else bindR (source_tokens (Suc n) rest) (\<lambda>ts. Inr (token # ts))))"
  by pat_completeness auto
termination
proof (relation "measure (\<lambda>(_, s). length s)")
  fix n s c cs x token rest
  assume "s = c # cs" "(case match_predicate s of
                     Some (_, _, rest) \<Rightarrow> Some (take (length s - length rest) s, rest)
                   | None \<Rightarrow> match_search_token s) = Some x" "(token, rest) = x"
  then have "length rest < length s"
    using match_predicate_shorter match_search_token_split
    by (fastforce split: option.splits prod.splits)
  then show "((Suc n, rest), (n, s)) \<in> measure (\<lambda>(_, s). length s)" by simp
qed auto

declare source_tokens.simps [simp del]

subsection \<open>Branches\<close>

type_synonym branch = "string option \<times> string option"

text \<open>\<open>left or right\<close> on optional names, and whether two branches can hold of one event.\<close>

definition or_name :: "string option \<Rightarrow> string option \<Rightarrow> string option" where
  "or_name a b = (case a of None \<Rightarrow> b | Some _ \<Rightarrow> a)"

definition clash :: "string option \<Rightarrow> string option \<Rightarrow> bool" where
  "clash a b \<longleftrightarrow> a \<noteq> None \<and> b \<noteq> None \<and> a \<noteq> b"

definition combine :: "branch list \<Rightarrow> branch list \<Rightarrow> branch list" where
  "combine left right =
     remdups (concat (map (\<lambda>(li, ls). concat (map (\<lambda>(ri, rs).
        if clash li ri \<or> clash ls rs then [] else [(or_name li ri, or_name ls rs)]) right)) left))"

definition union_branches :: "branch list \<Rightarrow> branch list \<Rightarrow> branch list" where
  "union_branches a b = remdups (a @ b)"

text \<open>\<open>atom\<close>, \<open>disjunction\<close> and its loop, \<open>conjunction\<close> and its loop.  A Python set of branches is
  a list without repetitions here, so \<open>len\<close> is \<open>length\<close>; raising as soon as the set passes 128
  is raising when the complete set does.\<close>

type_synonym parse = "source_error + branch list \<times> string list"

definition atom_step ::
  "(nat \<Rightarrow> string list \<Rightarrow> parse) \<Rightarrow> (nat \<Rightarrow> string list \<Rightarrow> parse) \<Rightarrow> nat \<Rightarrow> string list \<Rightarrow> parse" where
  "atom_step atom_rec conjunction_rec depth ts =
     (case ts of
        [] \<Rightarrow> Inl (SourceError ''incomplete or deeply nested source expression'')
      | token # rest \<Rightarrow>
          if depth > 32 then Inl (SourceError ''incomplete or deeply nested source expression'')
          else if token = ''NOT'' then
            bindR (atom_rec (Suc depth) rest) (\<lambda>(_, rest').
              if list_ex (\<lambda>t. full_predicate t \<noteq> None) (take (length rest - length rest') rest)
                then Inl (SourceError ''negated source expression'')
              else Inr ([(None, None)], rest'))
          else if token = ''('' then
            bindR (conjunction_rec (Suc depth) rest) (\<lambda>(branches, rest').
              case rest' of
                [] \<Rightarrow> Inl (SourceError ''unbalanced source expression'')
              | t # rest'' \<Rightarrow>
                  if t \<noteq> '')'' then Inl (SourceError ''unbalanced source expression'')
                  else Inr (branches, rest''))
          else if token = ''AND'' \<or> token = ''OR'' \<or> token = ''XOR'' \<or> token = '')''
            then Inl (SourceError ''unexpected Boolean operator'')
          else (case full_predicate token of
                  None \<Rightarrow> Inr ([(None, None)], rest)
                | Some (field, v) \<Rightarrow>
                    Inr ([if field = ''index'' then (Some v, None) else (None, Some v)], rest)))"

definition disj_loop_step ::
  "(nat \<Rightarrow> string list \<Rightarrow> parse) \<Rightarrow> (nat \<Rightarrow> branch list \<Rightarrow> string list \<Rightarrow> parse) \<Rightarrow>
   nat \<Rightarrow> branch list \<Rightarrow> string list \<Rightarrow> parse" where
  "disj_loop_step atom_rec loop_rec depth branches ts =
     (case ts of
        [] \<Rightarrow> Inr (branches, ts)
      | t # rest \<Rightarrow>
          if t = ''OR'' then
            bindR (atom_rec depth rest) (\<lambda>(right, rest').
              if length (union_branches branches right) > 128
                then Inl (SourceError ''too many source alternatives'')
              else loop_rec depth (union_branches branches right) rest')
          else Inr (branches, ts))"

definition conj_loop_step ::
  "(nat \<Rightarrow> string list \<Rightarrow> parse) \<Rightarrow> (nat \<Rightarrow> branch list \<Rightarrow> string list \<Rightarrow> parse) \<Rightarrow>
   nat \<Rightarrow> branch list \<Rightarrow> string list \<Rightarrow> parse" where
  "conj_loop_step disjunction_rec loop_rec depth branches ts =
     (case ts of
        [] \<Rightarrow> Inr (branches, ts)
      | t # rest \<Rightarrow>
          if t = '')'' then Inr (branches, ts)
          else
            bindR (disjunction_rec depth (if t = ''AND'' then rest else ts)) (\<lambda>(right, rest').
              if length (combine branches right) > 128
                then Inl (SourceError ''too many source alternatives'')
              else loop_rec depth (combine branches right) rest'))"

fun atom :: "nat \<Rightarrow> nat \<Rightarrow> string list \<Rightarrow> parse"
  and disjunction :: "nat \<Rightarrow> nat \<Rightarrow> string list \<Rightarrow> parse"
  and disj_loop :: "nat \<Rightarrow> nat \<Rightarrow> branch list \<Rightarrow> string list \<Rightarrow> parse"
  and conjunction :: "nat \<Rightarrow> nat \<Rightarrow> string list \<Rightarrow> parse"
  and conj_loop :: "nat \<Rightarrow> nat \<Rightarrow> branch list \<Rightarrow> string list \<Rightarrow> parse" where
  "atom 0 = (\<lambda>depth ts. Inl OutOfFuel)"
| "atom (Suc n) = atom_step (atom n) (conjunction n)"
| "disjunction 0 = (\<lambda>depth ts. Inl OutOfFuel)"
| "disjunction (Suc n) =
     (\<lambda>depth ts. bindR (atom n depth ts) (\<lambda>(branches, rest). disj_loop n depth branches rest))"
| "disj_loop 0 = (\<lambda>depth branches ts. Inl OutOfFuel)"
| "disj_loop (Suc n) = disj_loop_step (atom n) (disj_loop n)"
| "conjunction 0 = (\<lambda>depth ts. Inl OutOfFuel)"
| "conjunction (Suc n) =
     (\<lambda>depth ts. bindR (disjunction n depth ts) (\<lambda>(branches, rest). conj_loop n depth branches rest))"
| "conj_loop 0 = (\<lambda>depth branches ts. Inl OutOfFuel)"
| "conj_loop (Suc n) = conj_loop_step (disjunction n) (conj_loop n)"

definition parse_fuel :: "string list \<Rightarrow> nat" where
  "parse_fuel ts = 4 * length ts + 3"

definition token_branches :: "string list \<Rightarrow> source_error + branch list" where
  "token_branches ts =
     bindR (conjunction (parse_fuel ts) 0 ts) (\<lambda>(branches, rest).
       if rest \<noteq> [] then Inl (SourceError ''unexpected closing parenthesis'') else Inr branches)"

definition source_branches :: "string \<Rightarrow> source_error + branch list" where
  "source_branches value = bindR (source_tokens 0 value) token_branches"

definition unbounded :: "branch list \<Rightarrow> bool" where
  "unbounded branches \<longleftrightarrow> list_ex (\<lambda>(i, s). i = None \<or> s = None) branches"

text \<open>\<open>OutOfFuel\<close> never occurs (\<open>enough_fuel\<close>); the other errors are the code's \<open>ValueError\<close>s.\<close>

fun source_exception :: "source_error \<Rightarrow> py_error" where
  "source_exception (SourceError m) = ValueError m"
| "source_exception OutOfFuel = RuntimeError ''fuel''"

definition source_pairs :: "string \<Rightarrow> (string \<times> string) list result" where
  "source_pairs spl =
     bindR (parse_spl spl) (\<lambda>parsed.
       let expression = snd (hd (command_segments parsed)) in
       if snd (scope_values expression ''index'') \<or> snd (scope_values expression ''sourcetype'')
         then Inl (ValueError ''source scope is not exact'')
       else case source_branches expression of
         Inl e \<Rightarrow> Inl (source_exception e)
       | Inr branches \<Rightarrow>
           if branches = [] \<or> unbounded branches
             then Inl (ValueError ''source scope is contradictory or unbounded'')
           else Inr (concat (map (\<lambda>b. case b of (Some i, Some s) \<Rightarrow> [(i, s)] | _ \<Rightarrow> []) branches)))"

declare atom.simps [simp del] disjunction.simps [simp del] disj_loop.simps [simp del]
  conjunction.simps [simp del] conj_loop.simps [simp del]

lemmas source_parser_simps = atom.simps disjunction.simps disj_loop.simps conjunction.simps
  conj_loop.simps atom_step_def disj_loop_step_def conj_loop_step_def

subsection \<open>Consumption and fuel\<close>

definition word_token :: "string \<Rightarrow> bool" where
  "word_token t \<longleftrightarrow>
     t \<noteq> ''NOT'' \<and> t \<noteq> ''('' \<and> t \<noteq> '')'' \<and> t \<noteq> ''AND'' \<and> t \<noteq> ''OR'' \<and> t \<noteq> ''XOR''"

definition predicate_branch :: "string \<Rightarrow> string \<Rightarrow> branch" where
  "predicate_branch field v = (if field = ''index'' then (Some v, None) else (None, Some v))"

lemma atom_step_word:
  assumes "word_token token"
  shows "atom_step A C d (token # rest) =
    (if d > 32 then Inl (SourceError ''incomplete or deeply nested source expression'')
     else case full_predicate token of
       None \<Rightarrow> Inr ([(None, None)], rest)
     | Some (field, v) \<Rightarrow> Inr ([predicate_branch field v], rest))"
  using assms unfolding atom_step_def word_token_def predicate_branch_def
  by (simp only: list.case if_False simp_thms)

lemma atom_step_not:
  "atom_step A C d (''NOT'' # rest) =
    (if d > 32 then Inl (SourceError ''incomplete or deeply nested source expression'')
     else bindR (A (Suc d) rest) (\<lambda>(_, rest').
              if list_ex (\<lambda>t. full_predicate t \<noteq> None) (take (length rest - length rest') rest)
                then Inl (SourceError ''negated source expression'')
              else Inr ([(None, None)], rest')))"
  unfolding atom_step_def by (simp only: list.case if_True simp_thms)

lemma atom_step_group:
  "atom_step A C d (''('' # rest) =
    (if d > 32 then Inl (SourceError ''incomplete or deeply nested source expression'')
     else bindR (C (Suc d) rest) (\<lambda>(branches, rest').
              case rest' of
                [] \<Rightarrow> Inl (SourceError ''unbalanced source expression'')
              | t # rest'' \<Rightarrow>
                  if t \<noteq> '')'' then Inl (SourceError ''unbalanced source expression'')
                  else Inr (branches, rest'')))"
  unfolding atom_step_def by simp

lemma atom_step_operator:
  assumes "\<not> word_token t" and "t \<noteq> ''NOT''" and "t \<noteq> ''(''"
  shows "\<exists>m. atom_step A C d (t # rest) = Inl (SourceError m)"
  using assms unfolding atom_step_def word_token_def by auto

lemma atom_step_Nil: "\<exists>m. atom_step A C d [] = Inl (SourceError m)"
  by (simp add: atom_step_def)

lemma atom_step_cases [consumes 1, case_names negation group predicate word]:
  assumes ok: "atom_step A C d ts = Inr (B, r)"
  obtains (negation) rest B' where "ts = ''NOT'' # rest" "A (Suc d) rest = Inr (B', r)"
      "\<not> list_ex (\<lambda>t. full_predicate t \<noteq> None) (take (length rest - length r) rest)"
      "B = [(None, None)]"
    | (group) rest where "ts = ''('' # rest" "C (Suc d) rest = Inr (B, '')'' # r)"
    | (predicate) token f v where "ts = token # r" "word_token token"
        "full_predicate token = Some (f, v)" "B = [predicate_branch f v]"
    | (word) token where "ts = token # r" "word_token token" "full_predicate token = None"
        "B = [(None, None)]"
proof -
  obtain token rest where ts: "ts = token # rest"
    using ok atom_step_Nil [of A C d] by (cases ts) auto
  consider "token = ''NOT''" | "token = ''(''" | "word_token token"
    using ok ts atom_step_operator by (metis Inl_Inr_False)
  then show ?thesis
  proof cases
    case 1
    then show ?thesis using ok ts negation
      by (simp add: atom_step_not result_simps split: if_splits) blast
  next
    case 2
    have "C (Suc d) rest = Inr (B, '')'' # r)"
    proof -
      obtain B' r' where c: "C (Suc d) rest = Inr (B', r')"
        using ok ts 2 by (auto simp: atom_step_group bindR_def split: if_splits sum.splits)
      then show ?thesis using ok ts 2
        by (cases r') (simp_all add: atom_step_group split: if_splits)
    qed
    then show ?thesis using group ts 2 by simp
  next
    case 3
    show ?thesis
    proof (cases "full_predicate token")
      case None
      then show ?thesis using ok word ts 3 by (simp add: atom_step_word split: if_splits)
    next
      case (Some a)
      obtain f v where "a = (f, v)" by force
      then show ?thesis using ok predicate ts 3 Some by (simp add: atom_step_word split: if_splits)
    qed
  qed
qed

lemma atom_step_fuel:
  assumes "atom_step A C d ts = Inl OutOfFuel"
  shows "\<exists>t rest. ts = t # rest \<and> (A (Suc d) rest = Inl OutOfFuel \<or> C (Suc d) rest = Inl OutOfFuel)"
proof -
  obtain token rest where ts: "ts = token # rest"
    using assms atom_step_Nil [of A C d] by (cases ts) auto
  consider "token = ''NOT''" | "token = ''(''" | "word_token token"
    using assms ts atom_step_operator by (metis source_error.distinct(1) sum.inject(1))
  then show ?thesis
  proof cases
    case 1
    then show ?thesis using assms ts
      by (auto simp: atom_step_not bindR_def split: if_splits sum.splits)
  next
    case 2
    then show ?thesis using assms ts
      by (auto simp: atom_step_group bindR_def split: if_splits sum.splits list.splits)
  next
    case 3
    then show ?thesis using assms ts
      by (auto simp: atom_step_word split: if_splits option.splits)
  qed
qed

lemma disj_loop_step_cases [consumes 1, case_names finish alternative]:
  assumes "disj_loop_step A L d B ts = Inr (B', r)"
  obtains (finish) "B' = B" "r = ts"
    | (alternative) rest C rest' where "ts = ''OR'' # rest" "A d rest = Inr (C, rest')"
        "L d (union_branches B C) rest' = Inr (B', r)"
proof (cases "\<exists>rest. ts = ''OR'' # rest")
  case True
  then obtain rest where ts: "ts = ''OR'' # rest" by blast
  then show ?thesis using assms alternative
    by (auto simp: disj_loop_step_def result_simps split: if_splits)
next
  case False
  then have "disj_loop_step A L d B ts = Inr (B, ts)"
    by (auto simp: disj_loop_step_def split: list.splits)
  then show ?thesis using assms finish by simp
qed

lemma conj_loop_step_cases [consumes 1, case_names finish factor]:
  assumes "conj_loop_step D L d B ts = Inr (B', r)"
  obtains (finish) "B' = B" "r = ts" "ts = [] \<or> (\<exists>rest. ts = '')'' # rest)"
    | (factor) t rest C rest' where "ts = t # rest" "t \<noteq> '')''"
        "D d (if t = ''AND'' then rest else ts) = Inr (C, rest')"
        "L d (combine B C) rest' = Inr (B', r)"
proof (cases "ts = [] \<or> (\<exists>rest. ts = '')'' # rest)")
  case True
  then have "conj_loop_step D L d B ts = Inr (B, ts)" by (auto simp: conj_loop_step_def)
  then show ?thesis using assms finish True by simp
next
  case False
  then obtain t rest where ts: "ts = t # rest" and t: "t \<noteq> '')''" by (cases ts) auto
  then have "bindR (D d (if t = ''AND'' then rest else ts)) (\<lambda>(right, rest').
              if length (combine B right) > 128
                then Inl (SourceError ''too many source alternatives'')
              else L d (combine B right) rest') = Inr (B', r)"
    using assms by (simp only: conj_loop_step_def list.case if_False)
  then obtain C rest' where "D d (if t = ''AND'' then rest else ts) = Inr (C, rest')"
      "L d (combine B C) rest' = Inr (B', r)"
    by (cases "D d (if t = ''AND'' then rest else ts)") (auto split: if_splits)
  then show ?thesis using factor ts t by blast
qed

lemma parser_shortens:
  "(\<forall>d ts B r. atom n d ts = Inr (B, r) \<longrightarrow> length r < length ts)
   \<and> (\<forall>d ts B r. disjunction n d ts = Inr (B, r) \<longrightarrow> length r < length ts)
   \<and> (\<forall>d A ts B r. disj_loop n d A ts = Inr (B, r) \<longrightarrow> length r \<le> length ts)
   \<and> (\<forall>d ts B r. conjunction n d ts = Inr (B, r) \<longrightarrow> length r < length ts)
   \<and> (\<forall>d A ts B r. conj_loop n d A ts = Inr (B, r) \<longrightarrow> length r \<le> length ts)"
proof (induction n)
  case 0
  then show ?case by (simp add: source_parser_simps)
next
  case (Suc n)
  note atom = Suc.IH [THEN conjunct1, rule_format]
    and disj = Suc.IH [THEN conjunct2, THEN conjunct1, rule_format]
    and dl = Suc.IH [THEN conjunct2, THEN conjunct2, THEN conjunct1, rule_format]
    and conj = Suc.IH [THEN conjunct2, THEN conjunct2, THEN conjunct2, THEN conjunct1, rule_format]
    and cl = Suc.IH [THEN conjunct2, THEN conjunct2, THEN conjunct2, THEN conjunct2, rule_format]
  have "length r < length ts" if "atom (Suc n) d ts = Inr (B, r)" for d ts B r
    using that unfolding atom.simps by (cases rule: atom_step_cases) (auto dest!: atom conj)
  moreover have "length r < length ts" if "disjunction (Suc n) d ts = Inr (B, r)" for d ts B r
    using that by (fastforce simp: disjunction.simps result_simps dest!: atom dl)
  moreover have "length r \<le> length ts" if "disj_loop (Suc n) d A ts = Inr (B, r)" for d A ts B r
    using that unfolding disj_loop.simps
    by (cases rule: disj_loop_step_cases) (auto dest!: atom dl)
  moreover have "length r < length ts" if "conjunction (Suc n) d ts = Inr (B, r)" for d ts B r
    using that by (fastforce simp: conjunction.simps result_simps dest!: disj cl)
  moreover have "length r \<le> length ts" if "conj_loop (Suc n) d A ts = Inr (B, r)" for d A ts B r
    using that unfolding conj_loop.simps
    by (cases rule: conj_loop_step_cases) (auto dest!: disj cl split: if_splits)
  ultimately show ?case by blast
qed

lemmas atom_shortens = parser_shortens [THEN conjunct1, rule_format]
lemmas disjunction_shortens = parser_shortens [THEN conjunct2, THEN conjunct1, rule_format]

lemma parser_enough_fuel:
  "(\<forall>d ts. 4 * length ts + 1 \<le> n \<longrightarrow> atom n d ts \<noteq> Inl OutOfFuel)
   \<and> (\<forall>d ts. 4 * length ts + 2 \<le> n \<longrightarrow> disjunction n d ts \<noteq> Inl OutOfFuel)
   \<and> (\<forall>d A ts. 4 * length ts + 1 \<le> n \<longrightarrow> disj_loop n d A ts \<noteq> Inl OutOfFuel)
   \<and> (\<forall>d ts. 4 * length ts + 3 \<le> n \<longrightarrow> conjunction n d ts \<noteq> Inl OutOfFuel)
   \<and> (\<forall>d A ts. 4 * length ts + 3 \<le> n \<longrightarrow> conj_loop n d A ts \<noteq> Inl OutOfFuel)"
proof (induction n)
  case 0
  then show ?case by simp
next
  case (Suc n)
  note atom = Suc.IH [THEN conjunct1, rule_format]
    and disj = Suc.IH [THEN conjunct2, THEN conjunct1, rule_format]
    and dl = Suc.IH [THEN conjunct2, THEN conjunct2, THEN conjunct1, rule_format]
    and conj = Suc.IH [THEN conjunct2, THEN conjunct2, THEN conjunct2, THEN conjunct1, rule_format]
    and cl = Suc.IH [THEN conjunct2, THEN conjunct2, THEN conjunct2, THEN conjunct2, rule_format]
  have "atom (Suc n) d ts \<noteq> Inl OutOfFuel" if "4 * length ts + 1 \<le> Suc n" for d ts
  proof
    assume "atom (Suc n) d ts = Inl OutOfFuel"
    then obtain t rest where "ts = t # rest"
        "atom n (Suc d) rest = Inl OutOfFuel \<or> conjunction n (Suc d) rest = Inl OutOfFuel"
      unfolding atom.simps using atom_step_fuel by blast
    then show False using atom [of rest "Suc d"] conj [of rest "Suc d"] that by auto
  qed
  moreover have "disjunction (Suc n) d ts \<noteq> Inl OutOfFuel" if "4 * length ts + 2 \<le> Suc n" for d ts
  proof -
    have "disj_loop n d B r \<noteq> Inl OutOfFuel" if "atom n d ts = Inr (B, r)" for B r
      using atom_shortens [OF that] \<open>4 * length ts + 2 \<le> Suc n\<close> by (intro dl) simp
    then show ?thesis using atom [of ts d] that
      by (auto simp: disjunction.simps bindR_def split: sum.splits)
  qed
  moreover have "disj_loop (Suc n) d A ts \<noteq> Inl OutOfFuel" if "4 * length ts + 1 \<le> Suc n" for d A ts
  proof (cases ts)
    case Nil
    then show ?thesis by (simp add: source_parser_simps)
  next
    case (Cons t rest)
    have "disj_loop n d B r \<noteq> Inl OutOfFuel" if "atom n d rest = Inr (C, r)" for B C r
      using atom_shortens [OF that] \<open>4 * length ts + 1 \<le> Suc n\<close> Cons by (intro dl) simp
    moreover have "atom n d rest \<noteq> Inl OutOfFuel" using that Cons by (intro atom) simp
    ultimately show ?thesis using Cons
      by (auto simp: disj_loop.simps disj_loop_step_def bindR_def split: if_splits sum.splits)
  qed
  moreover have "conjunction (Suc n) d ts \<noteq> Inl OutOfFuel" if "4 * length ts + 3 \<le> Suc n" for d ts
  proof -
    have "conj_loop n d B r \<noteq> Inl OutOfFuel" if "disjunction n d ts = Inr (B, r)" for B r
      using disjunction_shortens [OF that] \<open>4 * length ts + 3 \<le> Suc n\<close> by (intro cl) simp
    then show ?thesis using disj [of ts d] that
      by (auto simp: conjunction.simps bindR_def split: sum.splits)
  qed
  moreover have "conj_loop (Suc n) d A ts \<noteq> Inl OutOfFuel" if "4 * length ts + 3 \<le> Suc n" for d A ts
  proof (cases ts)
    case Nil
    then show ?thesis by (simp add: source_parser_simps)
  next
    case (Cons t rest)
    define us where "us = (if t = ''AND'' then rest else ts)"
    have us: "length us \<le> length ts" using Cons by (simp add: us_def)
    have "conj_loop n d B r \<noteq> Inl OutOfFuel" if "disjunction n d us = Inr (C, r)" for B C r
      using disjunction_shortens [OF that] \<open>4 * length ts + 3 \<le> Suc n\<close> us by (intro cl) simp
    moreover have "disjunction n d us \<noteq> Inl OutOfFuel" using that us by (intro disj) simp
    ultimately show ?thesis using Cons us_def
      by (auto simp: conj_loop.simps conj_loop_step_def bindR_def split: if_splits sum.splits)
  qed
  ultimately show ?case by blast
qed

lemma enough_fuel: "token_branches ts \<noteq> Inl OutOfFuel"
  using parser_enough_fuel [of "parse_fuel ts"]
  by (auto simp: token_branches_def parse_fuel_def bindR_def split: if_splits sum.splits)

subsection \<open>What a search expression means\<close>

text \<open>
  An event has an index, a sourcetype and a set of other search terms it satisfies.  The grammar
  is that of the search command: juxtaposition and AND conjoin, OR binds tighter than both, NOT
  applies to the following atom.
\<close>

datatype sexp =
    Pred string string
  | Term string
  | Neg sexp
  | Conj sexp sexp
  | Disj sexp sexp

record event =
  ev_index :: string
  ev_sourcetype :: string
  ev_terms :: "string \<Rightarrow> bool"

primrec holds :: "event \<Rightarrow> sexp \<Rightarrow> bool" where
  "holds ev (Pred f v) \<longleftrightarrow> (if f = ''index'' then ev_index ev = v else ev_sourcetype ev = v)"
| "holds ev (Term t) \<longleftrightarrow> ev_terms ev t"
| "holds ev (Neg e) \<longleftrightarrow> \<not> holds ev e"
| "holds ev (Conj e f) \<longleftrightarrow> holds ev e \<and> holds ev f"
| "holds ev (Disj e f) \<longleftrightarrow> holds ev e \<or> holds ev f"

inductive atom_g :: "string list \<Rightarrow> sexp \<Rightarrow> bool"
  and disj_g :: "string list \<Rightarrow> sexp \<Rightarrow> bool"
  and conj_g :: "string list \<Rightarrow> sexp \<Rightarrow> bool" where
  g_predicate: "word_token t \<Longrightarrow> full_predicate t = Some (f, v) \<Longrightarrow> atom_g [t] (Pred f v)"
| g_term: "word_token t \<Longrightarrow> full_predicate t = None \<Longrightarrow> atom_g [t] (Term t)"
| g_not: "atom_g ts e \<Longrightarrow> atom_g (''NOT'' # ts) (Neg e)"
| g_group: "conj_g ts e \<Longrightarrow> atom_g (''('' # ts @ ['')'']) e"
| g_atom: "atom_g ts e \<Longrightarrow> disj_g ts e"
| g_or: "disj_g ts e \<Longrightarrow> atom_g us f \<Longrightarrow> disj_g (ts @ ''OR'' # us) (Disj e f)"
| g_disj: "disj_g ts e \<Longrightarrow> conj_g ts e"
| g_juxt: "conj_g ts e \<Longrightarrow> disj_g us f \<Longrightarrow> conj_g (ts @ us) (Conj e f)"
| g_and: "conj_g ts e \<Longrightarrow> disj_g us f \<Longrightarrow> conj_g (ts @ ''AND'' # us) (Conj e f)"

text \<open>A branch bounds an event when it names no other index and no other sourcetype.\<close>

definition bounds_event :: "branch \<Rightarrow> event \<Rightarrow> bool" where
  "bounds_event b ev \<longleftrightarrow>
     (fst b = None \<or> fst b = Some (ev_index ev)) \<and> (snd b = None \<or> snd b = Some (ev_sourcetype ev))"

definition covers :: "branch list \<Rightarrow> sexp \<Rightarrow> bool" where
  "covers B e \<longleftrightarrow> (\<forall>ev. holds ev e \<longrightarrow> (\<exists>b \<in> set B. bounds_event b ev))"

text \<open>The names in the branches come from predicate tokens.\<close>

definition named_in :: "string \<Rightarrow> string list \<Rightarrow> string \<Rightarrow> bool" where
  "named_in f ts v \<longleftrightarrow> (\<exists>t \<in> set ts. full_predicate t = Some (f, v))"

definition from_tokens :: "branch list \<Rightarrow> string list \<Rightarrow> bool" where
  "from_tokens B ts \<longleftrightarrow>
     (\<forall>b \<in> set B. \<forall>v. (fst b = Some v \<longrightarrow> named_in ''index'' ts v)
        \<and> (snd b = Some v \<longrightarrow> named_in ''sourcetype'' ts v))"

lemma covers_unbounded: "covers [(None, None)] e"
  by (simp add: covers_def bounds_event_def)

lemma covers_union: "covers A e \<Longrightarrow> covers B f \<Longrightarrow> covers (union_branches A B) (Disj e f)"
  unfolding covers_def union_branches_def by auto

lemma bounds_event_or_name:
  assumes "bounds_event a ev" and "bounds_event b ev"
  shows "\<not> clash (fst a) (fst b)" "\<not> clash (snd a) (snd b)"
    "bounds_event (or_name (fst a) (fst b), or_name (snd a) (snd b)) ev"
  using assms by (auto simp: bounds_event_def clash_def or_name_def split: option.splits)

lemma combine_mem:
  "c \<in> set (combine A B) \<longleftrightarrow>
     (\<exists>a \<in> set A. \<exists>b \<in> set B. \<not> clash (fst a) (fst b) \<and> \<not> clash (snd a) (snd b)
        \<and> c = (or_name (fst a) (fst b), or_name (snd a) (snd b)))"
proof -
  have if_mem: "c \<in> set (if P then [] else [x]) \<longleftrightarrow> \<not> P \<and> c = x" for P x by simp
  show ?thesis unfolding combine_def case_prod_unfold
    by (simp only: set_remdups set_concat set_map UN_iff bex_simps if_mem de_Morgan_disj conj_assoc)
qed

lemma or_name_Some: "or_name a b = Some v \<Longrightarrow> a = Some v \<or> b = Some v"
  by (simp add: or_name_def split: option.splits)

lemma covers_combine: "covers A e \<Longrightarrow> covers B f \<Longrightarrow> covers (combine A B) (Conj e f)"
  unfolding covers_def using bounds_event_or_name combine_mem by (metis holds.simps(4))

lemma from_tokens_mono: "from_tokens B ts \<Longrightarrow> set ts \<subseteq> set us \<Longrightarrow> from_tokens B us"
  unfolding from_tokens_def named_in_def by blast

lemma from_tokens_union:
  "from_tokens A ts \<Longrightarrow> from_tokens B ts \<Longrightarrow> from_tokens (union_branches A B) ts"
  unfolding from_tokens_def union_branches_def by auto

lemma from_tokens_combine:
  "from_tokens A ts \<Longrightarrow> from_tokens B ts \<Longrightarrow> from_tokens (combine A B) ts"
  unfolding from_tokens_def combine_mem
proof (intro ballI allI)
  fix c v
  assume A: "\<forall>b \<in> set A. \<forall>v. (fst b = Some v \<longrightarrow> named_in ''index'' ts v)
      \<and> (snd b = Some v \<longrightarrow> named_in ''sourcetype'' ts v)"
    and B: "\<forall>b \<in> set B. \<forall>v. (fst b = Some v \<longrightarrow> named_in ''index'' ts v)
      \<and> (snd b = Some v \<longrightarrow> named_in ''sourcetype'' ts v)"
    and c: "c \<in> set (combine A B)"
  obtain a b where ab: "a \<in> set A" "b \<in> set B"
      and c': "fst c = or_name (fst a) (fst b)" "snd c = or_name (snd a) (snd b)"
    using c unfolding combine_mem by auto
  show "(fst c = Some v \<longrightarrow> named_in ''index'' ts v) \<and> (snd c = Some v \<longrightarrow> named_in ''sourcetype'' ts v)"
    unfolding c' using bspec [OF A ab(1)] bspec [OF B ab(2)] or_name_Some by blast
qed

subsection \<open>The branches cover the expression\<close>

definition parsed_as ::
  "(string list \<Rightarrow> sexp \<Rightarrow> bool) \<Rightarrow> string list \<Rightarrow> branch list \<Rightarrow> bool" where
  "parsed_as G us B \<longleftrightarrow> (\<exists>e. G us e \<and> covers B e \<and> from_tokens B us)"

lemma from_tokens_unbounded: "from_tokens [(None, None)] ts"
  by (simp add: from_tokens_def)

lemma full_predicate_keyword: "full_predicate t = Some (f, v) \<Longrightarrow> f = ''index'' \<or> f = ''sourcetype''"
  unfolding full_predicate_iff predicate_text_def scope_keyword_def by blast

lemma covers_predicate: "covers [predicate_branch f v] (Pred f v)"
  by (simp add: covers_def predicate_branch_def bounds_event_def)

lemma from_tokens_predicate:
  assumes "full_predicate t = Some (f, v)"
  shows "from_tokens [predicate_branch f v] [t]"
proof -
  have n: "named_in f [t] v" using assms by (simp add: named_in_def)
  have f: "f \<noteq> ''index'' \<Longrightarrow> f = ''sourcetype''" using full_predicate_keyword [OF assms] by blast
  show ?thesis
  proof (cases "f = ''index''")
    case True
    then have "predicate_branch f v = (Some v, None)" by (simp add: predicate_branch_def)
    then show ?thesis using n True by (simp add: from_tokens_def)
  next
    case False
    then have "predicate_branch f v = (None, Some v)" by (simp add: predicate_branch_def)
    then show ?thesis using n f [OF False] by (simp add: from_tokens_def)
  qed
qed

lemma parsed_predicate:
  "word_token t \<Longrightarrow> full_predicate t = Some (f, v) \<Longrightarrow> parsed_as atom_g [t] [predicate_branch f v]"
  unfolding parsed_as_def
  using g_predicate covers_predicate from_tokens_predicate by blast

lemma parsed_term:
  "word_token t \<Longrightarrow> full_predicate t = None \<Longrightarrow> parsed_as atom_g [t] [(None, None)]"
  unfolding parsed_as_def using g_term covers_unbounded from_tokens_unbounded by blast

lemma parsed_not: "parsed_as atom_g us B \<Longrightarrow> parsed_as atom_g (''NOT'' # us) [(None, None)]"
  unfolding parsed_as_def using g_not covers_unbounded from_tokens_unbounded by blast

lemma parsed_group:
  assumes "parsed_as conj_g us B"
  shows "parsed_as atom_g (''('' # us @ ['')'']) B"
proof -
  obtain e where e: "conj_g us e" "covers B e" "from_tokens B us"
    using assms unfolding parsed_as_def by blast
  have "from_tokens B (''('' # us @ ['')''])" by (rule from_tokens_mono [OF e(3)]) auto
  then show ?thesis unfolding parsed_as_def using g_group [OF e(1)] e(2) by blast
qed

lemma parsed_atom: "parsed_as atom_g us B \<Longrightarrow> parsed_as disj_g us B"
  unfolding parsed_as_def using g_atom by blast

lemma parsed_disj: "parsed_as disj_g us B \<Longrightarrow> parsed_as conj_g us B"
  unfolding parsed_as_def using g_disj by blast

lemma parsed_or:
  assumes "parsed_as disj_g us A" and "parsed_as atom_g vs B"
  shows "parsed_as disj_g (us @ ''OR'' # vs) (union_branches A B)"
proof -
  obtain e f where e: "disj_g us e" "covers A e" "from_tokens A us"
    and f: "atom_g vs f" "covers B f" "from_tokens B vs"
    using assms unfolding parsed_as_def by blast
  have "from_tokens A (us @ ''OR'' # vs)" "from_tokens B (us @ ''OR'' # vs)"
    by (rule from_tokens_mono [OF e(3)], auto) (rule from_tokens_mono [OF f(3)], auto)
  then show ?thesis unfolding parsed_as_def
    using g_or [OF e(1) f(1)] covers_union [OF e(2) f(2)] from_tokens_union by blast
qed

lemma parsed_conj:
  assumes "parsed_as conj_g us A" and "parsed_as disj_g vs B"
  shows "parsed_as conj_g (us @ vs) (combine A B)" "parsed_as conj_g (us @ ''AND'' # vs) (combine A B)"
proof -
  obtain e f where e: "conj_g us e" "covers A e" "from_tokens A us"
    and f: "disj_g vs f" "covers B f" "from_tokens B vs"
    using assms unfolding parsed_as_def by blast
  have "from_tokens (combine A B) ws" if "set us \<subseteq> set ws" "set vs \<subseteq> set ws" for ws
    using from_tokens_combine from_tokens_mono e(3) f(3) that by blast
  from this [of "us @ vs"] this [of "us @ ''AND'' # vs"]
  have "from_tokens (combine A B) (us @ vs)" "from_tokens (combine A B) (us @ ''AND'' # vs)"
    by auto
  then show "parsed_as conj_g (us @ vs) (combine A B)"
      "parsed_as conj_g (us @ ''AND'' # vs) (combine A B)"
    unfolding parsed_as_def
    using g_juxt [OF e(1) f(1)] g_and [OF e(1) f(1)] covers_combine [OF e(2) f(2)] by blast+
qed

lemma parser_sound:
  "(\<forall>d ts B r. atom n d ts = Inr (B, r) \<longrightarrow> (\<exists>us. ts = us @ r \<and> parsed_as atom_g us B))
   \<and> (\<forall>d ts B r. disjunction n d ts = Inr (B, r) \<longrightarrow> (\<exists>us. ts = us @ r \<and> parsed_as disj_g us B))
   \<and> (\<forall>d A ts B r pre. disj_loop n d A ts = Inr (B, r) \<longrightarrow> parsed_as disj_g pre A \<longrightarrow>
        (\<exists>us. ts = us @ r \<and> parsed_as disj_g (pre @ us) B))
   \<and> (\<forall>d ts B r. conjunction n d ts = Inr (B, r) \<longrightarrow> (\<exists>us. ts = us @ r \<and> parsed_as conj_g us B))
   \<and> (\<forall>d A ts B r pre. conj_loop n d A ts = Inr (B, r) \<longrightarrow> parsed_as conj_g pre A \<longrightarrow>
        (\<exists>us. ts = us @ r \<and> parsed_as conj_g (pre @ us) B))"
proof (induction n)
  case 0
  then show ?case by (simp add: source_parser_simps)
next
  case (Suc n)
  note atom = Suc.IH [THEN conjunct1, rule_format]
    and disj = Suc.IH [THEN conjunct2, THEN conjunct1, rule_format]
    and dl = Suc.IH [THEN conjunct2, THEN conjunct2, THEN conjunct1, rule_format]
    and conj = Suc.IH [THEN conjunct2, THEN conjunct2, THEN conjunct2, THEN conjunct1, rule_format]
    and cl = Suc.IH [THEN conjunct2, THEN conjunct2, THEN conjunct2, THEN conjunct2, rule_format]
  have "\<exists>us. ts = us @ r \<and> parsed_as atom_g us B" if "atom (Suc n) d ts = Inr (B, r)" for d ts B r
    using that unfolding atom.simps
  proof (cases rule: atom_step_cases)
    case (negation rest B')
    obtain us where "rest = us @ r" "parsed_as atom_g us B'" using atom [OF negation(2)] by blast
    then show ?thesis using negation(1,4) parsed_not by (metis append_Cons)
  next
    case (group rest)
    obtain us where "rest = us @ '')'' # r" "parsed_as conj_g us B" using conj [OF group(2)] by blast
    then show ?thesis using group(1) parsed_group
      by (intro exI [of _ "''('' # us @ ['')'']"]) simp
  next
    case (predicate token f v)
    then show ?thesis using parsed_predicate by (intro exI [of _ "[token]"]) simp
  next
    case (word token)
    then show ?thesis using parsed_term by (intro exI [of _ "[token]"]) simp
  qed
  moreover have "\<exists>us. ts = us @ r \<and> parsed_as disj_g us B"
    if ok: "disjunction (Suc n) d ts = Inr (B, r)" for d ts B r
  proof -
    obtain A r' where a: "atom n d ts = Inr (A, r')" "disj_loop n d A r' = Inr (B, r)"
      using ok by (auto simp: disjunction.simps result_simps)
    obtain us where "ts = us @ r'" "parsed_as disj_g us A" using atom [OF a(1)] parsed_atom by blast
    then show ?thesis using dl [OF a(2)] by force
  qed
  moreover have "\<exists>us. ts = us @ r \<and> parsed_as disj_g (pre @ us) B"
    if "disj_loop (Suc n) d A ts = Inr (B, r)" and p: "parsed_as disj_g pre A" for d A ts B r pre
    using that(1) unfolding disj_loop.simps
  proof (cases rule: disj_loop_step_cases)
    case finish
    then show ?thesis using p by simp
  next
    case (alternative rest C rest')
    obtain vs where "rest = vs @ rest'" "parsed_as atom_g vs C" using atom [OF alternative(2)] by blast
    moreover from this obtain us where "rest' = us @ r" "parsed_as disj_g ((pre @ ''OR'' # vs) @ us) B"
      using dl [OF alternative(3) parsed_or [OF p]] by blast
    ultimately show ?thesis using alternative(1) by (intro exI [of _ "''OR'' # vs @ us"]) simp
  qed
  moreover have "\<exists>us. ts = us @ r \<and> parsed_as conj_g us B"
    if ok: "conjunction (Suc n) d ts = Inr (B, r)" for d ts B r
  proof -
    obtain A r' where a: "disjunction n d ts = Inr (A, r')" "conj_loop n d A r' = Inr (B, r)"
      using ok by (auto simp: conjunction.simps result_simps)
    obtain us where "ts = us @ r'" "parsed_as conj_g us A" using disj [OF a(1)] parsed_disj by blast
    then show ?thesis using cl [OF a(2)] by force
  qed
  moreover have "\<exists>us. ts = us @ r \<and> parsed_as conj_g (pre @ us) B"
    if "conj_loop (Suc n) d A ts = Inr (B, r)" and p: "parsed_as conj_g pre A" for d A ts B r pre
    using that(1) unfolding conj_loop.simps
  proof (cases rule: conj_loop_step_cases)
    case finish
    then show ?thesis using p by simp
  next
    case (factor t rest C rest')
    obtain vs where vs: "(if t = ''AND'' then rest else ts) = vs @ rest'" "parsed_as disj_g vs C"
      using disj [OF factor(3)] by blast
    define ws where "ws = (if t = ''AND'' then ''AND'' # vs else vs)"
    have ws: "ts = ws @ rest'" using vs(1) factor(1) by (auto simp: ws_def split: if_splits)
    have "parsed_as conj_g (pre @ ws) (combine A C)" using parsed_conj [OF p vs(2)] by (simp add: ws_def)
    from cl [OF factor(4) this] obtain us where "rest' = us @ r" "parsed_as conj_g ((pre @ ws) @ us) B"
      by blast
    then show ?thesis using ws by (intro exI [of _ "ws @ us"]) simp
  qed
  ultimately show ?case by blast
qed

lemmas conjunction_sound =
  parser_sound [THEN conjunct2, THEN conjunct2, THEN conjunct2, THEN conjunct1, rule_format]

lemma token_branches_sound:
  assumes "token_branches ts = Inr B"
  shows "\<exists>e. conj_g ts e \<and> covers B e \<and> from_tokens B ts"
proof -
  have "conjunction (parse_fuel ts) 0 ts = Inr (B, [])"
    using assms by (auto simp: token_branches_def result_simps split: if_splits)
  then obtain us where "ts = us @ []" "parsed_as conj_g us B"
    using conjunction_sound by blast
  then show ?thesis by (simp add: parsed_as_def)
qed

subsection \<open>Predicate tokens and scope values\<close>

lemma match_keyword_nonword: "\<not> ascii_word c \<Longrightarrow> match_keyword (c # cs) = None"
proof (rule ccontr)
  assume c: "\<not> ascii_word c" and "match_keyword (c # cs) \<noteq> None"
  then obtain a where "match_keyword (c # cs) = Some a" by blast
  then obtain f r where "match_keyword (c # cs) = Some (f, r)" by (cases a) simp
  then obtain kw where k: "c # cs = kw @ r" "lower kw = f" "scope_keyword f"
    using match_keyword_split by blast
  have "f \<noteq> [] \<and> hd f \<in> set ''indexsourcetype''" using k(3) unfolding scope_keyword_def by auto
  moreover from this have "kw \<noteq> []" using k(2) by auto
  then have "hd kw = c" "hd f = lower_char (hd kw)" using k(1,2) by (cases kw, auto)+
  ultimately show False using c lower_keyword_chars by metis
qed

text \<open>The scanner's invariant: where a scope keyword could be read, a word starts.\<close>

definition scan_point :: "string \<Rightarrow> string \<Rightarrow> bool" where
  "scan_point pre s \<longleftrightarrow>
     starts_word (if pre = [] then None else Some (last pre)) \<or> match_keyword s = None"

lemma nonplain_char:
  "\<not> plain_char c \<Longrightarrow> \<not> ascii_word c" "\<not> plain_char c \<Longrightarrow> \<not> value_char c"
  by (auto simp: plain_char_def value_char_def ascii_word_def ascii_alpha_def ascii_upper_def
      ascii_digit_def py_isspace_def)

lemma match_keyword_Nil: "match_keyword [] = None"
  by (simp add: match_keyword_def)

lemma token_stops_scan: "token_stops r \<Longrightarrow> match_keyword r = None"
  using match_keyword_nonword nonplain_char match_keyword_Nil
  by (cases r) (auto simp: token_stops_def)

lemma token_stops_value: "token_stops r \<Longrightarrow> value_stops r"
  using nonplain_char by (auto simp: token_stops_def split: list.splits)

lemma ends_predicate_scan: "ends_predicate r \<Longrightarrow> match_keyword r = None"
proof (cases r)
  case (Cons c cs)
  assume "ends_predicate r"
  then have "py_isspace c \<or> c = CHR ''|'' \<or> c = CHR '')''" using Cons by (simp add: ends_predicate_def)
  then have "\<not> ascii_word c"
    by (auto simp: ascii_word_def ascii_alpha_def ascii_upper_def ascii_digit_def py_isspace_def)
  then show ?thesis using Cons match_keyword_nonword by simp
qed (simp add: match_keyword_Nil)

lemma predicate_text_long: "predicate_text f v tok \<Longrightarrow> 5 \<le> length tok"
proof -
  assume "predicate_text f v tok"
  then obtain kw x where "tok = kw @ x" "lower kw = f" "scope_keyword f"
    unfolding predicate_text_def by blast
  moreover from this have "5 \<le> length f" unfolding scope_keyword_def by auto
  ultimately show ?thesis by auto
qed

text \<open>One step of the scanner, with what the next step needs.\<close>

definition next_token :: "string \<Rightarrow> (string \<times> string) option" where
  "next_token s =
     (case match_predicate s of
        Some (_, _, rest) \<Rightarrow> Some (take (length s - length rest) s, rest)
      | None \<Rightarrow> match_search_token s)"

lemma next_token_step:
  assumes "next_token s = Some (token, rest)"
  shows "s = token @ rest" "token \<noteq> []" "scan_point (pre @ token) rest"
    "predicate_text f v token \<Longrightarrow> value_stops rest"
proof -
  have "s = token @ rest \<and> token \<noteq> [] \<and> (token = ''('' \<or> token = '')'' \<or> token_stops rest \<or> ends_predicate rest)"
  proof (cases "match_predicate s")
    case None
    then show ?thesis using assms match_search_token_split by (fastforce simp: next_token_def)
  next
    case (Some a)
    obtain f v r where a: "a = (f, v, r)" by (cases a)
    obtain tok where "s = tok @ r" "predicate_text f v tok" "ends_predicate r"
      using match_predicate_split Some a by blast
    then show ?thesis using assms Some a predicate_text_long [of f v tok]
      by (auto simp: next_token_def)
  qed
  then have s: "s = token @ rest" and ne: "token \<noteq> []"
    and c: "token = ''('' \<or> token = '')'' \<or> token_stops rest \<or> ends_predicate rest" by blast+
  show "s = token @ rest" "token \<noteq> []" by fact+
  show "scan_point (pre @ token) rest"
    using c token_stops_scan ends_predicate_scan
    by (auto simp: scan_point_def starts_word_def ascii_word_def ascii_alpha_def ascii_upper_def
        ascii_digit_def)
  show "predicate_text f v token \<Longrightarrow> value_stops rest"
    using c predicate_text_long [of f v token] token_stops_value ends_predicate_stops by auto
qed

lemma source_tokens_cases [consumes 1, case_names nil space token]:
  assumes "source_tokens n s = Inr ts"
  obtains (nil) "s = []" "ts = []"
    | (space) c cs where "s = c # cs" "py_isspace c" "source_tokens n cs = Inr ts"
    | (token) t rest ts' where "next_token s = Some (t, rest)" "n < 2000"
        "source_tokens (Suc n) rest = Inr ts'" "ts = t # ts'"
proof (cases s)
  case Nil
  then show ?thesis using assms nil by (simp add: source_tokens.simps [of n "[]"])
next
  case (Cons c cs)
  show ?thesis
  proof (cases "py_isspace c")
    case True
    then show ?thesis using assms Cons space by (simp add: source_tokens.simps [of n "c # cs"])
  next
    case False
    then have step: "source_tokens n s = (case next_token s of
               None \<Rightarrow> Inl (SourceError ''unsupported source expression'')
             | Some (token, rest) \<Rightarrow>
                 if n \<ge> 2000 then Inl (SourceError ''unsupported source expression'')
                 else bindR (source_tokens (Suc n) rest) (\<lambda>ts. Inr (token # ts)))"
      using Cons unfolding next_token_def by (subst source_tokens.simps) (simp only: list.case if_False)
    obtain t rest where nt: "next_token s = Some (t, rest)"
      using step assms by (cases "next_token s") auto
    then have "n < 2000" "bindR (source_tokens (Suc n) rest) (\<lambda>ts. Inr (t # ts)) = Inr ts"
      using step assms by (simp_all split: if_splits)
    then show ?thesis using token [OF nt] by (auto simp: bindR_eq_Inr)
  qed
qed

lemma source_tokens_values:
  assumes "source_tokens n s = Inr ts" and "scan_point pre s" and "t \<in> set ts"
    and "full_predicate t = Some (f, v)" and "\<not> snd (scope_values (pre @ s) f)"
  shows "v \<in> set (fst (scope_values (pre @ s) f))"
  using assms
proof (induction "length s" arbitrary: n s ts pre rule: less_induct)
  case less
  from less.prems(1) show ?case
  proof (cases rule: source_tokens_cases)
    case nil
    then show ?thesis using less.prems by simp
  next
    case (space c cs)
    have "scan_point (pre @ [c]) cs"
      using space(2) word_not_space by (auto simp: scan_point_def starts_word_def py_word_def)
    then show ?thesis
      using less.hyps [of cs n ts "pre @ [c]"] space less.prems(3-5) by simp
  next
    case (token t' rest ts')
    note st = next_token_step [OF token(1)]
    show ?thesis
    proof (cases "t = t'")
      case True
      then have p: "predicate_text f v t'" using less.prems(4) full_predicate_iff by simp
      have "match_keyword s \<noteq> None" using predicate_text_keyword [OF p, of rest] st(1) by auto
      then have "starts_word (if pre = [] then None else Some (last pre))"
        using less.prems(2) unfolding scan_point_def by metis
      then show ?thesis
        using scope_values_mem [OF _ p st(4) [OF p]] less.prems(5) st(1) by simp
    next
      case False
      have "length rest < length s" using st(1,2) by simp
      then show ?thesis
        using less.hyps [OF _ token(3) st(3) [of pre]] False token(4) less.prems(3-5) st(1) by simp
    qed
  qed
qed

text \<open>Put together: the alternatives that the policy reads off a search expression.\<close>

lemma source_branches_sound:
  assumes "source_branches value = Inr B"
  shows "\<exists>ts e. source_tokens 0 value = Inr ts \<and> conj_g ts e \<and> covers B e \<and> from_tokens B ts"
  using assms token_branches_sound by (auto simp: source_branches_def result_simps)

lemma branch_values_in_scope:
  assumes "source_tokens 0 value = Inr ts" and "from_tokens B ts" and "b \<in> set B"
    and "\<not> snd (scope_values value ''index'')" and "\<not> snd (scope_values value ''sourcetype'')"
  shows "\<And>i. fst b = Some i \<Longrightarrow> i \<in> set (fst (scope_values value ''index''))"
    and "\<And>s. snd b = Some s \<Longrightarrow> s \<in> set (fst (scope_values value ''sourcetype''))"
proof -
  have start: "scan_point [] value" by (simp add: scan_point_def starts_word_def)
  have link: "v \<in> set (fst (scope_values value f))"
    if "named_in f ts v" "\<not> snd (scope_values value f)" for f v
    using source_tokens_values [OF assms(1) start] that by (auto simp: named_in_def)
  show "i \<in> set (fst (scope_values value ''index''))" if "fst b = Some i" for i
    using link assms(2-4) that unfolding from_tokens_def by blast
  show "s \<in> set (fst (scope_values value ''sourcetype''))" if "snd b = Some s" for s
    using link assms(2,3,5) that unfolding from_tokens_def by blast
qed

lemma source_branches_no_fuel: "source_branches value \<noteq> Inl OutOfFuel"
proof -
  have "source_tokens n s \<noteq> Inl OutOfFuel" for n s
  proof (induction n s rule: source_tokens.induct)
    case (1 n s)
    then show ?case
      by (subst source_tokens.simps) (auto simp: bindR_def split: list.splits option.splits
          prod.splits sum.splits if_splits)
  qed
  then show ?thesis using enough_fuel by (auto simp: source_branches_def bindR_def split: sum.splits)
qed

end
