(* ===== verification/SPLFields.thy ===== *)
theory SPLFields
  imports SPLText
begin

text \<open>
  \<open>_validate_field_references\<close> of \<^verbatim>\<open>domain/spl_policy.py\<close>: every command's field references are
  checked against the fields discovered so far, and \<open>eval\<close>, \<open>rename\<close> and the aggregations
  change that set for the commands after them.  The mutable set \<open>known\<close> is a list that each
  command takes and returns; the closures take it as their first argument.  The two token
  patterns are the scanners \<open>field_tokens\<close> and \<open>expression_tokens\<close>.
\<close>

definition ALLOWED_EVAL_FUNCTIONS :: "string list" where
  "ALLOWED_EVAL_FUNCTIONS =
    [''abs'', ''case'', ''ceil'', ''cidrmatch'', ''coalesce'', ''cos'', ''exact'', ''exp'',
     ''false'', ''floor'', ''if'', ''in'', ''isbool'', ''isint'', ''isnotnull'', ''isnull'',
     ''isnum'', ''isstr'', ''len'', ''like'', ''log'', ''lower'', ''ltrim'', ''match'', ''max'',
     ''min'', ''mvappend'', ''mvcount'', ''mvdedup'', ''mvfilter'', ''mvfind'', ''mvindex'',
     ''mvjoin'', ''mvmap'', ''mvsort'', ''mvzip'', ''now'', ''null'', ''nullif'', ''pow'',
     ''replace'', ''round'', ''rtrim'', ''sin'', ''split'', ''sqrt'', ''strftime'', ''strptime'',
     ''substr'', ''tan'', ''tonumber'', ''tostring'', ''trim'', ''true'', ''upper'', ''validate'']"

definition ALLOWED_STATS_FUNCTIONS :: "string list" where
  "ALLOWED_STATS_FUNCTIONS =
    [''avg'', ''c'', ''count'', ''dc'', ''distinct_count'', ''earliest'', ''earliest_time'',
     ''estdc'', ''estdc_error'', ''first'', ''last'', ''latest'', ''latest_time'', ''list'',
     ''max'', ''mean'', ''median'', ''min'', ''mode'', ''range'', ''rate'', ''stdev'', ''stdevp'',
     ''sum'', ''sumsq'', ''values'', ''var'', ''varp'']"

definition AGGREGATE_OPTIONS :: "string list" where
  "AGGREGATE_OPTIONS = [''allnum'', ''partitions'', ''delim'', ''dedup_splitvals'']"

definition CHART_OPTIONS :: "string list" where
  "CHART_OPTIONS = AGGREGATE_OPTIONS @
    [''span'', ''minspan'', ''bins'', ''limit'', ''useother'', ''usenull'', ''cont'',
     ''fixedrange'', ''partial'', ''sep'', ''format'', ''nullstr'', ''otherstr'', ''start'',
     ''end'', ''aligntime'']"

abbreviation syntax_error :: py_error where
  "syntax_error \<equiv> ValueError ''field_syntax_not_supported''"

subsection \<open>Tokens\<close>

definition field_char :: "char \<Rightarrow> bool" where
  "field_char c \<longleftrightarrow> \<not> py_isspace c \<and> c \<notin> set ''(),=<>!'' \<and> c \<noteq> dquote \<and> c \<noteq> squote"

text \<open>\<open>_FIELD_TOKEN\<close> at the first character that is not white space.\<close>

definition match_field_token :: "string \<Rightarrow> (string \<times> string) option" where
  "match_field_token s =
     (case quoted s of
        Some (q, rest) \<Rightarrow> Some (q, rest)
      | None \<Rightarrow>
          if take 2 s \<in> {''<='', ''>='', ''!='', ''<>''} then Some (take 2 s, drop 2 s)
          else if take 1 s \<in> {''('', '')'', '','', ''='', ''<'', ''>'', ''!''}
            then Some (take 1 s, drop 1 s)
          else if takeWhile field_char s = [] then None
          else Some (takeWhile field_char s, dropWhile field_char s))"

lemma match_field_token_shorter:
  "match_field_token s = Some (t, r) \<Longrightarrow> length r < length s"
  unfolding match_field_token_def
  by (cases s) (auto split: option.splits if_splits prod.splits
      dest!: quoted_shorter simp: le_imp_less_Suc length_dropWhile_le)

text \<open>\<open>finditer\<close> with the check that nothing but white space lies between two matches.\<close>

function field_tokens :: "string \<Rightarrow> string list option" where
  "field_tokens s =
     (case s of
        [] \<Rightarrow> Some []
      | c # cs \<Rightarrow>
          if py_isspace c then field_tokens cs
          else case match_field_token s of
                 None \<Rightarrow> None
               | Some (token, rest) \<Rightarrow> map_option (\<lambda>ts. token # ts) (field_tokens rest))"
  by pat_completeness auto
termination
  by (relation "measure length") (auto dest: match_field_token_shorter)

declare field_tokens.simps [simp del]

text \<open>\<open>\d+(?:\.\d+)?(?:[eE][+-]?\d+)?\<close>\<close>

definition match_fraction :: "string \<Rightarrow> string" where
  "match_fraction r =
     (case r of
        [] \<Rightarrow> []
      | c # cs \<Rightarrow>
          if c = CHR ''.'' \<and> takeWhile ascii_digit cs \<noteq> [] then c # takeWhile ascii_digit cs else [])"

definition match_exponent :: "string \<Rightarrow> string" where
  "match_exponent r =
     (case r of
        [] \<Rightarrow> []
      | c # cs \<Rightarrow>
          if c = CHR ''e'' \<or> c = CHR ''E'' then
            (let sign = (if take 1 cs \<in> {''+'', ''-''} then take 1 cs else []);
                 ds = takeWhile ascii_digit (drop (length sign) cs)
             in if ds = [] then [] else c # sign @ ds)
          else [])"

definition match_number :: "string \<Rightarrow> string" where
  "match_number s =
     (let ds = takeWhile ascii_digit s;
          fr = match_fraction (drop (length ds) s);
          ex = match_exponent (drop (length ds + length fr) s)
      in ds @ fr @ ex)"

text \<open>The length of \<open>_EXPRESSION_TOKEN\<close>'s match at a character that is not white space.\<close>

definition expression_token_length :: "string \<Rightarrow> nat" where
  "expression_token_length s =
     (case quoted s of
        Some (q, _) \<Rightarrow> length q
      | None \<Rightarrow>
          (case s of
             [] \<Rightarrow> 1
           | c # cs \<Rightarrow>
               if ascii_digit c then length (match_number s)
               else if ascii_alpha c \<or> c = CHR ''_'' then 1 + length (takeWhile py_word cs)
               else 1))"

lemma expression_token_length_pos: "0 < expression_token_length s"
  using quoted_append
  by (fastforce simp: expression_token_length_def match_number_def Let_def
      split: option.splits list.splits)

function expression_tokens :: "string \<Rightarrow> string list" where
  "expression_tokens s =
     (case s of
        [] \<Rightarrow> []
      | c # cs \<Rightarrow>
          if py_isspace c then expression_tokens cs
          else take (expression_token_length s) s
                 # expression_tokens (drop (expression_token_length s) s))"
  by pat_completeness auto
termination
  by (relation "measure length") (auto simp: expression_token_length_pos)

declare expression_tokens.simps [simp del]

subsection \<open>Names\<close>

text \<open>\<open>re.sub(r"\\(["'\\])", r"\1", ...)\<close>\<close>

fun unescape :: "string \<Rightarrow> string" where
  "unescape [] = []"
| "unescape [c] = [c]"
| "unescape (c # d # ds) =
     (if c = backslash \<and> d \<in> {dquote, squote, backslash} then d # unescape ds
      else c # unescape (d # ds))"

definition starts_quoted :: "string \<Rightarrow> bool" where
  "starts_quoted token \<longleftrightarrow> (case token of [] \<Rightarrow> False | c # _ \<Rightarrow> c = dquote \<or> c = squote)"

definition field_name :: "string \<Rightarrow> string result" where
  "field_name token =
     (if starts_quoted token then
        (if length token < 2 \<or> last token \<noteq> hd token then Inl syntax_error
         else Inr (unescape (butlast (tl token))))
      else Inr token)"

definition require_field :: "string list \<Rightarrow> bool \<Rightarrow> string \<Rightarrow> unit result" where
  "require_field known wildcard token =
     bindR (field_name token) (\<lambda>name.
       ensure (name \<in> set known \<or> (wildcard \<and> list_ex (\<lambda>field. fnmatch field name) known))
         (ValueError ''field_not_discovered''))"

definition is_identifier :: "string \<Rightarrow> bool" where
  "is_identifier token \<longleftrightarrow>
     (case token of [] \<Rightarrow> False | c # cs \<Rightarrow> (ascii_alpha c \<or> c = CHR ''_'') \<and> list_all py_word cs)"

definition EXPRESSION_KEYWORDS :: "string list" where
  "EXPRESSION_KEYWORDS =
    [''AND'', ''OR'', ''NOT'', ''XOR'', ''IN'', ''LIKE'', ''TRUE'', ''FALSE'', ''NULL'']"

definition expression_step ::
  "string list \<Rightarrow> bool \<Rightarrow> string \<Rightarrow> string list \<Rightarrow> unit result" where
  "expression_step known aggregate token rest =
     (if take 1 token = [squote] then require_field known False token
      else if is_identifier token then
        (if upper token \<in> set EXPRESSION_KEYWORDS then Inr ()
         else if take 1 rest = [''(''] then
           ensure (lower token \<in> set ALLOWED_EVAL_FUNCTIONS \<or> (aggregate \<and> lower token = ''eval''))
             (ValueError ''function_not_allowed'')
         else require_field known False token)
      else Inr ())"

fun expression_loop :: "string list \<Rightarrow> bool \<Rightarrow> string list \<Rightarrow> unit result" where
  "expression_loop known aggregate [] = Inr ()"
| "expression_loop known aggregate (token # rest) =
     bindR (expression_step known aggregate token rest)
       (\<lambda>_. expression_loop known aggregate rest)"

definition expression :: "string list \<Rightarrow> bool \<Rightarrow> string \<Rightarrow> unit result" where
  "expression known aggregate value = expression_loop known aggregate (expression_tokens value)"

subsection \<open>Wildcard renames\<close>

text \<open>The text that each star of the pattern takes, longest first; \<open>next\<close> without a result is
  Python's \<open>StopIteration\<close>.\<close>

fun captures :: "string \<Rightarrow> nat \<Rightarrow> string list \<Rightarrow> string list result" where
  "captures name cursor [] = Inr []"
| "captures name cursor (part # parts) =
     (case List.find (\<lambda>stop. fnmatch (drop stop name) (join ''*'' (part # parts)))
             (rev [cursor ..< Suc (length name)]) of
        None \<Rightarrow> Inl (RuntimeError ''StopIteration'')
      | Some stop \<Rightarrow>
          bindR (captures name (stop + length part) parts) (\<lambda>cs.
            Inr (drop cursor (take stop name) # cs)))"

definition renamed_to :: "string list \<Rightarrow> string list \<Rightarrow> string \<Rightarrow> string result" where
  "renamed_to source_parts target_parts name =
     bindR (captures name (length (hd source_parts)) (tl source_parts)) (\<lambda>cs.
       Inr (hd target_parts @ concat (map (\<lambda>(v, suffix). v @ suffix) (zip cs (tl target_parts)))))"

fun map_result :: "('a \<Rightarrow> 'e + 'b) \<Rightarrow> 'a list \<Rightarrow> 'e + 'b list" where
  "map_result f [] = Inr []"
| "map_result f (x # xs) = bindR (f x) (\<lambda>y. bindR (map_result f xs) (\<lambda>ys. Inr (y # ys)))"

definition aliases ::
  "string list \<Rightarrow> string \<Rightarrow> string \<Rightarrow> (string list \<times> string list) result" where
  "aliases known source target =
     (if count_list source (CHR ''*'') \<noteq> count_list target (CHR ''*'')
         \<or> count_list source (CHR ''*'') > 32
        then Inl syntax_error
      else
        let matched = filter (\<lambda>name. fnmatch name source) known in
        bindR (map_result (renamed_to (split_on (CHR ''*'') source) (split_on (CHR ''*'') target)) matched)
          (\<lambda>renamed. Inr (matched, renamed)))"

subsection \<open>Commands\<close>

text \<open>\<open>str.isdigit\<close> on Latin-1: the superscripts one, two and three are digits too.\<close>

definition py_isdigit :: "string \<Rightarrow> bool" where
  "py_isdigit s \<longleftrightarrow> s \<noteq> [] \<and> list_all (\<lambda>c. ascii_digit c \<or> code c \<in> {178, 179, 185}) s"

text \<open>\<open>options\<close> is empty where the code passes \<open>None\<close>; \<open>first\<close> says that the token is the first
  of the list.\<close>

fun field_list ::
  "string list \<Rightarrow> string list \<Rightarrow> bool \<Rightarrow> bool \<Rightarrow> bool \<Rightarrow> string list \<Rightarrow> unit result" where
  "field_list known options sorting wildcard first [] = Inr ()"
| "field_list known options sorting wildcard first (token # rest) =
     (if lower token \<in> set options \<and> 2 \<le> length rest \<and> hd rest = ''=''
        then field_list known options sorting wildcard False (drop 2 rest)
      else if token \<in> {'','', ''+'', ''-'', ''('', '')''} \<or> (sorting \<and> first \<and> py_isdigit token)
        then field_list known options sorting wildcard False rest
      else if sorting \<and> lower token \<in> {''asc'', ''desc'', ''sortby''}
        then field_list known options sorting wildcard False rest
      else if sorting \<and> lower token \<in> {''auto'', ''ip'', ''num'', ''str''} \<and> take 1 rest = [''('']
        then field_list known options sorting wildcard False rest
      else bindR (require_field known wildcard (lstrip_chars ''+-'' token))
             (\<lambda>_. field_list known options sorting wildcard False rest))"

definition comparison :: "string \<Rightarrow> bool" where
  "comparison token \<longleftrightarrow>
     token \<in> {''='', ''!='', ''<>'', ''<'', ''>'', ''<='', ''>=''} \<or> upper token = ''IN''"

fun search_fields :: "string list \<Rightarrow> string list \<Rightarrow> unit result" where
  "search_fields known (token # after # rest) =
     bindR (if comparison after then require_field known False token else Inr ())
       (\<lambda>_. search_fields known (after # rest))"
| "search_fields known _ = Inr ()"

definition eval_assignment :: "string list \<Rightarrow> string list \<Rightarrow> string list result" where
  "eval_assignment known assignment =
     (if length assignment < 3 \<or> assignment ! 1 \<noteq> ''='' then Inl syntax_error
      else if \<not> starts_quoted (hd assignment) \<and> \<not> is_identifier (hd assignment) then Inl syntax_error
      else bindR (expression known False (join '' '' (drop 2 assignment))) (\<lambda>_.
           bindR (field_name (hd assignment)) (\<lambda>name. Inr (name # known))))"

text \<open>The loop over \<open>[*tokens, ","]\<close>; \<open>assignment\<close> is \<open>tokens[start:index]\<close>.\<close>

fun eval_loop :: "string list \<Rightarrow> int \<Rightarrow> string list \<Rightarrow> string list \<Rightarrow> string list result" where
  "eval_loop known depth assignment [] = (if depth \<noteq> 0 then Inl syntax_error else Inr known)"
| "eval_loop known depth assignment (token # rest) =
     (let depth' = (if token = ''('' then depth + 1 else if token = '')'' then depth - 1 else depth) in
      if depth' < 0 \<or> depth' > 32 then Inl syntax_error
      else if token \<noteq> '','' \<or> depth' \<noteq> 0
        then eval_loop known depth' (assignment @ [token]) rest
      else bindR (eval_assignment known assignment) (\<lambda>known'. eval_loop known' depth' [] rest))"

definition rename_step ::
  "string list \<Rightarrow> string \<Rightarrow> string \<Rightarrow> (string list \<times> string list) result" where
  "rename_step known source target =
     bindR (field_name source) (\<lambda>s.
     bindR (field_name target) (\<lambda>t.
     bindR (require_field known True source) (\<lambda>_. aliases known s t)))"

fun rename_loop ::
  "string list \<Rightarrow> string list \<Rightarrow> string list \<Rightarrow> string list \<Rightarrow> string list result" where
  "rename_loop known removed renamed [] =
     Inr (filter (\<lambda>f. f \<notin> set removed) known @ renamed)"
| "rename_loop known removed renamed (token # rest) =
     (if token = '','' then rename_loop known removed renamed rest
      else if length rest < 2 \<or> lower (hd rest) \<noteq> ''as'' then Inl syntax_error
      else bindR (rename_step known token (rest ! 1)) (\<lambda>(matched, replacements).
             rename_loop known (removed @ matched) (renamed @ replacements) (drop 2 rest)))"

text \<open>\<open>(?:p|perc|exactperc|upperperc)(\d{1,3})\<close> with a value of at most 100.\<close>

definition digits_value :: "string \<Rightarrow> nat" where
  "digits_value ds = foldl (\<lambda>n c. 10 * n + (code c - 48)) 0 ds"

definition percentile :: "string \<Rightarrow> bool" where
  "percentile token \<longleftrightarrow>
     list_ex (\<lambda>p. let ds = drop (length p) token in
         take (length p) token = p \<and> list_all ascii_digit ds
         \<and> 1 \<le> length ds \<and> length ds \<le> 3 \<and> digits_value ds \<le> 100)
       [''p'', ''perc'', ''exactperc'', ''upperperc'']"

text \<open>The arguments up to the closing parenthesis at depth zero, and the rest.\<close>

fun split_call :: "nat \<Rightarrow> string list \<Rightarrow> (string list \<times> string list) option" where
  "split_call depth [] = None"
| "split_call depth (t # ts) =
     (let depth' = (if t = ''('' then depth + 1 else if t = '')'' then depth - 1 else depth) in
      if depth' = 0 then Some ([], ts)
      else map_option (\<lambda>(arguments, rest). (t # arguments, rest)) (split_call depth' ts))"

text \<open>The output name, the wildcard source and the rest, after the optional argument list.\<close>

definition stats_call ::
  "string list \<Rightarrow> string \<Rightarrow> string list \<Rightarrow> (string \<times> string option \<times> string list) result" where
  "stats_call known token rest =
     (if take 1 rest = [''(''] then
        (case split_call 1 (tl rest) of
           None \<Rightarrow> Inl syntax_error
         | Some (arguments, rest') \<Rightarrow>
             bindR (if length arguments = 1 then
                      bindR (require_field known True (hd arguments)) (\<lambda>_.
                      bindR (field_name (hd arguments)) (\<lambda>name.
                        Inr (if CHR ''*'' \<in> set name then Some name else None)))
                    else bindR (expression known True (join '' '' arguments)) (\<lambda>_. Inr None))
               (\<lambda>wildcard_source.
                  Inr (token @ ''('' @ concat arguments @ '')'', wildcard_source, rest')))
      else if lower token \<notin> {''count'', ''c''} then Inl syntax_error
      else Inr (token, None, rest))"

definition stats_alias ::
  "string \<Rightarrow> string list \<Rightarrow> (bool \<times> string \<times> string list) result" where
  "stats_alias output rest =
     (case rest of
        [] \<Rightarrow> Inr (False, output, rest)
      | t # rest' \<Rightarrow>
          if lower t \<noteq> ''as'' then Inr (False, output, rest)
          else (case rest' of
                  [] \<Rightarrow> Inl syntax_error
                | name # rest'' \<Rightarrow> bindR (field_name name) (\<lambda>n. Inr (True, n, rest''))))"

definition stats_item ::
  "string list \<Rightarrow> string \<Rightarrow> string list \<Rightarrow> (string list \<times> string list) result" where
  "stats_item known token rest =
     (if lower token \<notin> set ALLOWED_STATS_FUNCTIONS \<and> \<not> percentile (lower token)
        then Inl (ValueError ''function_not_allowed'')
      else
        bindR (stats_call known token rest) (\<lambda>(output, wildcard_source, rest1).
        bindR (stats_alias output rest1) (\<lambda>(aliased, output', rest2).
          case wildcard_source of
            None \<Rightarrow> Inr ([output'], rest2)
          | Some w \<Rightarrow>
              if aliased then bindR (aliases known w output') (\<lambda>(_, renamed). Inr (renamed, rest2))
              else Inr (map (\<lambda>name. token @ ''('' @ name @ '')'') (filter (\<lambda>name. fnmatch name w) known),
                        rest2))))"

lemma split_call_shorter: "split_call d ts = Some (a, r) \<Longrightarrow> length r < length ts"
proof (induction d ts arbitrary: a r rule: split_call.induct)
  case (2 d t ts)
  obtain d' where d': "d' = (if t = ''('' then d + 1 else if t = '')'' then d - 1 else d)" by blast
  show ?case
  proof (cases "d' = 0")
    case True
    then show ?thesis using "2.prems" d' by (simp add: Let_def)
  next
    case False
    then obtain a' where "split_call d' ts = Some (a', r)"
      using "2.prems" unfolding split_call.simps Let_def d' [symmetric] by auto
    then show ?thesis using "2.IH" [OF d' False] by fastforce
  qed
qed simp

lemma stats_item_shorter:
  assumes "stats_item known token rest = Inr (g, r)"
  shows "length r \<le> length rest"
proof -
  obtain o1 w r1 where c: "stats_call known token rest = Inr (o1, w, r1)"
    using assms by (cases "stats_call known token rest") (auto simp: stats_item_def split: if_splits)
  obtain al o2 r2 where a: "stats_alias o1 r1 = Inr (al, o2, r2)"
    using assms c by (cases "stats_alias o1 r1") (auto simp: stats_item_def split: if_splits)
  have r: "r = r2"
    using assms c a by (cases w) (auto simp: stats_item_def result_simps split: if_splits)
  have "length r1 \<le> length rest"
    using c split_call_shorter
    by (cases rest) (fastforce simp: stats_call_def result_simps split: if_splits option.splits prod.splits)+
  moreover have "length r \<le> length r1"
    using a r by (auto simp: stats_alias_def result_simps split: list.splits if_splits)
  ultimately show ?thesis by simp
qed

function stats_loop ::
  "string list \<Rightarrow> string list \<Rightarrow> string list \<Rightarrow> string list \<Rightarrow> string list result" where
  "stats_loop known options generated tokens =
     (case tokens of
        [] \<Rightarrow> Inr (known @ generated)
      | token # rest \<Rightarrow>
          if token = '','' then stats_loop known options generated rest
          else if lower token \<in> set options \<and> 2 \<le> length rest \<and> hd rest = ''=''
            then stats_loop known options generated (drop 2 rest)
          else if lower token = ''by''
            then bindR (field_list known options False False True rest) (\<lambda>_. Inr (known @ generated))
          else (case stats_item known token rest of
                  Inl e \<Rightarrow> Inl e
                | Inr (g, rest') \<Rightarrow> stats_loop known options (generated @ g) rest'))"
  by pat_completeness auto
termination
  by (relation "measure (\<lambda>(_, _, _, tokens). length tokens)")
    (auto dest!: stats_item_shorter)

declare stats_loop.simps [simp del]

fun head_predicate :: "string list \<Rightarrow> string list" where
  "head_predicate [] = []"
| "head_predicate (token # rest) =
     (if lower token \<in> {''limit'', ''keeplast'', ''null''} \<and> 2 \<le> length rest \<and> hd rest = ''=''
        then head_predicate (drop 2 rest)
      else token # head_predicate rest)"

text \<open>One command: the fields known after it.\<close>

definition command_fields :: "string list \<Rightarrow> string \<Rightarrow> string \<Rightarrow> string list result" where
  "command_fields known command args =
     (case field_tokens args of
        None \<Rightarrow> Inl syntax_error
      | Some tokens \<Rightarrow>
          let unchanged = (\<lambda>r. bindR r (\<lambda>_. Inr known)) in
          if command = ''search'' then unchanged (search_fields known tokens)
          else if command = ''where'' then unchanged (expression known False args)
          else if command = ''eval'' then eval_loop known 0 [] (tokens @ ['',''])
          else if command = ''rename'' then rename_loop known [] [] tokens
          else if command = ''stats'' then stats_loop known AGGREGATE_OPTIONS [] tokens
          else if command = ''timechart'' then stats_loop known CHART_OPTIONS [] tokens
          else if command = ''table'' \<or> command = ''fields''
            then unchanged (field_list known [] False True True tokens)
          else if command = ''sort'' then unchanged (field_list known [] True False True tokens)
          else if command = ''dedup''
            then unchanged (field_list known [''keepevents'', ''keepempty'', ''consecutive''] True False True tokens)
          else if command = ''regex''
            then unchanged (if 1 < length tokens \<and> tokens ! 1 \<in> {''='', ''!=''}
                            then require_field known False (hd tokens) else Inr ())
          else if command = ''head'' \<and> \<not> py_isdigit args
            then unchanged (expression known False (join '' '' (head_predicate tokens)))
          else Inr known)"

fun validate_segments :: "string list \<Rightarrow> (string \<times> string) list \<Rightarrow> string list result" where
  "validate_segments known [] = Inr known"
| "validate_segments known ((command, args) # segs) =
     bindR (command_fields known command args) (\<lambda>known'. validate_segments known' segs)"

definition validate_field_references :: "ParsedSPL \<Rightarrow> string list \<Rightarrow> unit result" where
  "validate_field_references parsed discovered =
     bindR (validate_segments (discovered @ BUILTIN_FIELDS) (command_segments parsed)) (\<lambda>_. Inr ())"

subsection \<open>Wildcard renames succeed and are consistent\<close>

abbreviation star :: char where "star \<equiv> CHR ''*''"

lemma fnmatch_star_iff: "fnmatch name (star # ps) \<longleftrightarrow> (\<exists>k \<le> length name. fnmatch (drop k name) ps)"
proof (induction name)
  case Nil
  then show ?case by simp
next
  case (Cons c cs)
  have "(\<exists>k \<le> Suc (length cs). fnmatch (drop k (c # cs)) ps)
      \<longleftrightarrow> fnmatch (c # cs) ps \<or> (\<exists>k \<le> length cs. fnmatch (drop k cs) ps)" (is "?l \<longleftrightarrow> ?r")
  proof
    assume ?l
    then obtain k where "k \<le> Suc (length cs)" "fnmatch (drop k (c # cs)) ps" by blast
    then show ?r by (cases k) auto
  next
    assume ?r
    then show ?l
    proof
      assume "fnmatch (c # cs) ps"
      then show ?l by (intro exI [of _ 0]) simp
    next
      assume "\<exists>k \<le> length cs. fnmatch (drop k cs) ps"
      then obtain k where "k \<le> length cs" "fnmatch (drop k cs) ps" by blast
      then show ?l by (intro exI [of _ "Suc k"]) simp
    qed
  qed
  then show ?case using Cons by simp
qed

lemma fnmatch_part:
  assumes "star \<notin> set p"
  shows "fnmatch name (p @ q) \<longleftrightarrow>
    length p \<le> length name \<and> fnmatch (take (length p) name) p \<and> fnmatch (drop (length p) name) q"
  using assms
proof (induction p arbitrary: name)
  case Nil
  then show ?case by simp
next
  case (Cons c p)
  then show ?case by (cases name) auto
qed

lemma fnmatch_part_length: "star \<notin> set p \<Longrightarrow> fnmatch name p \<Longrightarrow> length name = length p"
  by (induction name p rule: fnmatch.induct) auto

lemma split_on_no_sep: "p \<in> set (split_on c s) \<Longrightarrow> c \<notin> set p"
  by (induction s arbitrary: p) (auto split: list.splits if_splits)

lemma join_split_on: "join [c] (split_on c s) = s"
proof (induction s)
  case Nil
  then show ?case by simp
next
  case (Cons x xs)
  obtain w ws where w: "split_on c xs = w # ws" by (cases "split_on c xs") auto
  then show ?case using Cons by (cases ws) auto
qed

lemma set_join_part: "p \<in> set parts \<Longrightarrow> set p \<subseteq> set (join sep parts)"
  by (induction sep parts rule: join.induct) auto

lemma length_split_on: "length (split_on c s) = Suc (count_list s c)"
  by (induction s) (auto split: list.splits)

text \<open>What the stars took, put back between the literal parts.\<close>

definition fill :: "string list \<Rightarrow> string list \<Rightarrow> string" where
  "fill parts cs = hd parts @ concat (map (\<lambda>(v, suffix). v @ suffix) (zip cs (tl parts)))"

definition glob_rest :: "string \<Rightarrow> nat \<Rightarrow> string list \<Rightarrow> bool" where
  "glob_rest name cursor parts \<longleftrightarrow>
     cursor \<le> length name
     \<and> (if parts = [] then cursor = length name else fnmatch (drop cursor name) (star # join [star] parts))"

lemma glob_rest_step:
  assumes "star \<notin> set part" and "stop \<le> length name"
    and "fnmatch (drop stop name) (join [star] (part # parts))"
  shows "glob_rest name (stop + length part) parts
    \<and> fnmatch (take (length part) (drop stop name)) part"
proof (cases parts)
  case Nil
  then have m: "fnmatch (drop stop name) part" using assms(3) by simp
  moreover have "stop + length part = length name"
    using fnmatch_part_length [OF assms(1) m] assms(2) by simp
  ultimately show ?thesis using assms(2) Nil by (simp add: glob_rest_def)
next
  case (Cons q qs)
  then have "fnmatch (drop stop name) (part @ star # join [star] parts)" using assms(3) by simp
  then show ?thesis using assms(1,2) Cons
    by (auto simp: fnmatch_part glob_rest_def add.commute simp del: join.simps)
qed

lemma captures_ok:
  assumes "\<forall>p \<in> set parts. star \<notin> set p" and "glob_rest name cursor parts"
  shows "\<exists>cs. captures name cursor parts = Inr cs \<and> length cs = length parts
    \<and> ((\<forall>p \<in> set parts. CHR ''?'' \<notin> set p) \<longrightarrow>
        drop cursor name = concat (map (\<lambda>(v, suffix). v @ suffix) (zip cs parts)))"
  using assms
proof (induction name cursor parts rule: captures.induct)
  case (1 name cursor)
  then show ?case by (simp add: glob_rest_def)
next
  case (2 name cursor part parts)
  let ?P = "\<lambda>stop. fnmatch (drop stop name) (join [star] (part # parts))"
  have "fnmatch (drop cursor name) (star # join [star] (part # parts))" and cur: "cursor \<le> length name"
    using "2.prems"(2) by (simp_all add: glob_rest_def del: join.simps)
  then obtain k where "k \<le> length (drop cursor name)" "?P (k + cursor)"
    unfolding fnmatch_star_iff by (auto simp: drop_drop)
  then have "\<exists>x \<in> set (rev [cursor ..< Suc (length name)]). ?P x"
    using cur by (intro bexI [of _ "k + cursor"]) auto
  then obtain stop where st: "List.find ?P (rev [cursor ..< Suc (length name)]) = Some stop"
    by (metis find_None_iff not_Some_eq)
  then have "stop \<in> set (rev [cursor ..< Suc (length name)])" and P: "?P stop"
    unfolding find_Some_iff by (metis nth_mem)+
  then have stop: "cursor \<le> stop" "stop \<le> length name" "?P stop" by (auto simp del: join.simps)
  have ns: "star \<notin> set part" using "2.prems"(1) by simp
  note step = glob_rest_step [OF ns stop(2,3)]
  obtain cs where cs: "captures name (stop + length part) parts = Inr cs" "length cs = length parts"
    "(\<forall>p \<in> set parts. CHR ''?'' \<notin> set p) \<longrightarrow>
      drop (stop + length part) name = concat (map (\<lambda>(v, suffix). v @ suffix) (zip cs parts))"
    using "2.IH" [OF st] "2.prems"(1) step by auto
  have whole: "drop cursor name = drop cursor (take stop name) @ take (length part) (drop stop name)
      @ drop (stop + length part) name"
    using stop(1,2) by (metis append_take_drop_id drop_append drop_drop add.commute length_take
        min.absorb2 diff_is_0_eq drop_0)
  have "CHR ''?'' \<notin> set part \<Longrightarrow> take (length part) (drop stop name) = part"
    using step ns fnmatch_literal by blast
  then show ?case using cs st whole by (simp del: join.simps)
qed

text \<open>The patterns are \<open>join\<close>s of their literal parts.\<close>

lemma renamed_to_ok:
  assumes "fnmatch name source" and "count_list target star = count_list source star"
  shows "\<exists>cs. renamed_to (split_on star source) (split_on star target) name
        = Inr (fill (split_on star target) cs)
      \<and> length cs = count_list source star
      \<and> (CHR ''?'' \<notin> set source \<longrightarrow> name = fill (split_on star source) cs)"
proof -
  obtain p ps where sp: "split_on star source = p # ps" by (cases "split_on star source") auto
  have np: "star \<notin> set p" "\<forall>q \<in> set ps. star \<notin> set q"
    using split_on_no_sep [of _ star source] sp by auto
  have src: "join [star] (p # ps) = source" using join_split_on [of star source] sp by simp
  have g: "glob_rest name (0 + length p) ps \<and> fnmatch (take (length p) (drop 0 name)) p"
    by (rule glob_rest_step) (use np src assms(1) in \<open>simp_all del: join.simps\<close>)
  have q: "CHR ''?'' \<notin> set source \<Longrightarrow> \<forall>q \<in> set (p # ps). CHR ''?'' \<notin> set q"
    using set_join_part [of _ "p # ps" "[star]"] src by blast
  obtain cs where cs: "captures name (length p) ps = Inr cs" "length cs = length ps"
    "(\<forall>q \<in> set ps. CHR ''?'' \<notin> set q) \<longrightarrow>
        drop (length p) name = concat (map (\<lambda>(v, suffix). v @ suffix) (zip cs ps))"
    using captures_ok [OF np(2), of name "length p"] g by auto
  have "CHR ''?'' \<notin> set source \<Longrightarrow> name = fill (split_on star source) cs"
    using q cs(3) g np(1) fnmatch_literal [of p "take (length p) name"] sp
    by (simp add: fill_def) (metis append_take_drop_id)
  moreover have "length cs = count_list source star"
    using cs(2) length_split_on [of star source] sp by simp
  ultimately show ?thesis using cs(1) sp by (auto simp: renamed_to_def fill_def)
qed

lemma map_result_ok:
  "(\<And>x. x \<in> set xs \<Longrightarrow> f x = Inr (g x)) \<Longrightarrow> map_result f xs = Inr (map g xs)"
  by (induction xs) auto

lemma map_result_total: "(\<And>x. x \<in> set xs \<Longrightarrow> \<exists>y. f x = Inr y) \<Longrightarrow> \<exists>ys. map_result f xs = Inr ys"
  by (induction xs) (auto, fastforce)

text \<open>A wildcard rename never runs out of positions: the \<open>next(...)\<close> of the code always finds a
  split, so the only error of \<open>aliases\<close> is its own syntax error, raised exactly when the two
  patterns have different numbers of stars or more than 32.\<close>

theorem aliases_total:
  "aliases known source target =
     (if count_list source star = count_list target star \<and> count_list source star \<le> 32
      then Inr (filter (\<lambda>name. fnmatch name source) known,
                map (\<lambda>name. projr (renamed_to (split_on star source) (split_on star target) name))
                  (filter (\<lambda>name. fnmatch name source) known))
      else Inl syntax_error)"
proof (cases "count_list source star \<noteq> count_list target star \<or> count_list source star > 32")
  case True
  then show ?thesis by (auto simp: aliases_def)
next
  case False
  have "renamed_to (split_on star source) (split_on star target) name
      = Inr (projr (renamed_to (split_on star source) (split_on star target) name))"
    if "name \<in> set (filter (\<lambda>name. fnmatch name source) known)" for name
    using renamed_to_ok [of name source target] False that by auto
  from map_result_ok [of "filter (\<lambda>name. fnmatch name source) known", OF this]
  show ?thesis using False by (simp add: aliases_def Let_def)
qed

text \<open>Renaming by wildcards keeps what the stars matched: when the source pattern has no
  question mark, a name is its source pattern filled with some texts, one per star, and its new
  name is the target pattern filled with the same texts.\<close>

theorem rename_keeps_star_texts:
  assumes "fnmatch name source" and "count_list target star = count_list source star"
    and "CHR ''?'' \<notin> set source"
  shows "\<exists>cs. length cs = count_list source star
      \<and> name = fill (split_on star source) cs
      \<and> renamed_to (split_on star source) (split_on star target) name
          = Inr (fill (split_on star target) cs)"
  using renamed_to_ok [OF assms(1,2)] assms(3) by blast

theorem rename_keeps_star_texts_witness:
  "\<exists>cs. length cs = count_list ''src_*'' star
      \<and> ''src_ip'' = fill (split_on star ''src_*'') cs
      \<and> renamed_to (split_on star ''src_*'') (split_on star ''*_source'') ''src_ip''
          = Inr (fill (split_on star ''*_source'') cs)"
  by (rule rename_keeps_star_texts) (code_simp+)

end
