(* ===== verification/SPLNormal.thy ===== *)
theory SPLNormal
  imports SPLFields
begin

text \<open>
  Normal forms of SPL pipelines: what \<open>parse_spl\<close> guarantees of its segments, that printing the
  segments and parsing again gives them back, and what \<open>_preserve_raw_source_fields\<close> adds.
\<close>

subsection \<open>Stripping\<close>

lemma rstrip_Nil [simp]: "rstrip [] = []"
  by (simp add: rstrip_def)

lemma lstrip_Nil [simp]: "lstrip [] = []"
  by (simp add: lstrip_def)

lemma rstrip_snoc_space: "py_isspace c \<Longrightarrow> rstrip (s @ [c]) = rstrip s"
  by (simp add: rstrip_def)

lemma rstrip_snoc: "\<not> py_isspace c \<Longrightarrow> rstrip (s @ [c]) = s @ [c]"
  by (simp add: rstrip_def)

lemma rstrip_append: "rstrip (a @ b) = (if rstrip b = [] then rstrip a else a @ rstrip b)"
proof (induction b rule: rev_induct)
  case (snoc c b)
  show ?case
  proof (cases "py_isspace c")
    case True
    have "rstrip ((a @ b) @ [c]) = rstrip (a @ b)" by (rule rstrip_snoc_space [OF True])
    then show ?thesis using snoc rstrip_snoc_space [OF True, of b] by simp
  next
    case False
    have "rstrip ((a @ b) @ [c]) = (a @ b) @ [c]" by (rule rstrip_snoc [OF False])
    then show ?thesis using rstrip_snoc [OF False, of b] by simp
  qed
qed simp

lemma rstrip_idem [simp]: "rstrip (rstrip s) = rstrip s"
  by (simp add: rstrip_def dropWhile_idem)

lemma rstrip_all_space: "list_all py_isspace s \<Longrightarrow> rstrip s = []"
  by (simp add: rstrip_def list_all_iff)

lemma rstrip_Nil_iff: "rstrip s = [] \<longleftrightarrow> list_all py_isspace s"
  by (auto simp: rstrip_def list_all_iff dropWhile_eq_Nil_conv)

lemma lstrip_Nil_iff: "lstrip s = [] \<longleftrightarrow> list_all py_isspace s"
  by (auto simp: lstrip_def list_all_iff dropWhile_eq_Nil_conv)

lemma lstrip_idem [simp]: "lstrip (lstrip s) = lstrip s"
  by (simp add: lstrip_def)

lemma rstrip_prefix: "\<exists>t. s = rstrip s @ t \<and> list_all py_isspace t"
proof (induction s rule: rev_induct)
  case (snoc c s)
  then obtain t where t: "s = rstrip s @ t" "list_all py_isspace t" by blast
  show ?case
  proof (cases "py_isspace c")
    case True
    have "s @ [c] = rstrip (s @ [c]) @ (t @ [c])"
      using t(1) rstrip_snoc_space [OF True, of s] by (metis append_assoc)
    moreover have "list_all py_isspace (t @ [c])" using t(2) True by simp
    ultimately show ?thesis by blast
  next
    case False
    then show ?thesis using rstrip_snoc [OF False, of s] by (intro exI [of _ "[]"]) simp
  qed
qed simp

lemma lstrip_rstrip: "lstrip (rstrip s) = rstrip (lstrip s)"
proof (cases "list_all py_isspace s")
  case True
  then show ?thesis by (simp add: rstrip_all_space lstrip_Nil_iff [THEN iffD2])
next
  case False
  obtain sp where sp: "s = sp @ lstrip s" "list_all py_isspace sp" using lstrip_split by blast
  have ne: "rstrip (lstrip s) \<noteq> []"
    using False sp by (metis list_all_append rstrip_Nil_iff)
  have "rstrip s = sp @ rstrip (lstrip s)" using rstrip_append [of sp "lstrip s"] ne sp(1) by simp
  moreover obtain c cs where c: "lstrip s = c # cs" using ne by (cases "lstrip s") auto
  moreover have "\<not> py_isspace c"
    using c unfolding lstrip_def by (metis dropWhile_eq_Cons_conv)
  moreover obtain t where "lstrip s = rstrip (lstrip s) @ t" using rstrip_prefix by blast
  then have "hd (rstrip (lstrip s)) = c" using c ne by (metis hd_append2 list.sel(1))
  ultimately show ?thesis using sp(2) ne
    by (cases "rstrip (lstrip s)") (auto simp: lstrip_skip lstrip_nonspace)
qed

lemma strip_idem [simp]: "strip (strip s) = strip s"
  by (simp add: strip_def lstrip_rstrip)

lemma strip_rstrip [simp]: "strip (rstrip s) = strip s"
  by (simp add: strip_def lstrip_rstrip)

lemma strip_space_left: "py_isspace c \<Longrightarrow> strip (c # s) = strip s"
  by (simp add: strip_def lstrip_def)

lemma strip_space_right: "py_isspace c \<Longrightarrow> strip (s @ [c]) = strip s"
  by (metis rstrip_snoc_space strip_rstrip)

lemma set_strip: "set (strip s) \<subseteq> set s"
proof -
  have "set (rstrip t) \<subseteq> set t" for t using rstrip_prefix [of t] by (metis Un_upper1 set_append)
  moreover have "set (lstrip t) \<subseteq> set t" for t unfolding lstrip_def by (meson set_dropWhileD subsetI)
  ultimately show ?thesis unfolding strip_def by blast
qed

lemma space_chars: "py_isspace (CHR '' '')" "\<not> py_isspace (CHR ''|'')"
  by (simp_all add: py_isspace_def)

subsection \<open>Rendered segments\<close>

definition command_word :: "string \<Rightarrow> bool" where
  "command_word c \<longleftrightarrow> c \<noteq> [] \<and> list_all ascii_alpha c \<and> lower c = c"

lemma allowed_command_word: "c \<in> set ALLOWED_COMMANDS \<Longrightarrow> command_word c"
proof -
  have "list_all command_word ALLOWED_COMMANDS" by code_simp
  then show "c \<in> set ALLOWED_COMMANDS \<Longrightarrow> command_word c" by (simp add: list_all_iff)
qed

lemma alpha_word: "ascii_alpha c \<Longrightarrow> ascii_word c" "ascii_alpha c \<Longrightarrow> \<not> py_isspace c"
  by (auto simp: ascii_word_def ascii_alpha_def ascii_upper_def py_isspace_def)

lemma rstrip_word: "list_all ascii_alpha c \<Longrightarrow> rstrip c = c"
  by (cases c rule: rev_cases) (auto simp: rstrip_snoc alpha_word)

lemma render_segment_form:
  assumes "command_word c"
  shows "render_segment (c, a) = (if strip a = [] then c else c @ CHR '' '' # rstrip a)"
proof -
  have sp: "rstrip (CHR '' '' # a) = (if rstrip a = [] then [] else CHR '' '' # rstrip a)"
    using rstrip_append [of "'' ''" a] by (simp add: rstrip_all_space space_chars)
  have "strip a = [] \<longleftrightarrow> rstrip a = []"
    unfolding strip_def lstrip_rstrip [symmetric] lstrip_Nil_iff by (metis rstrip_Nil_iff rstrip_idem)
  then show ?thesis
    using rstrip_append [of c "CHR '' '' # a"] sp rstrip_word assms
    by (simp add: render_segment_def command_word_def)
qed

lemma match_command_rendered:
  assumes "command_word c"
  shows "match_command (render_segment (c, a))
    = Some (c, if strip a = [] then [] else CHR '' '' # rstrip a)"
proof -
  obtain x xs where c: "c = x # xs" using assms by (cases c) (auto simp: command_word_def)
  have x: "ascii_alpha x" "list_all ascii_word xs"
    using assms c alpha_word by (auto simp: command_word_def list_all_iff)
  have sp: "\<not> ascii_word (CHR '' '')" "\<not> py_word (CHR '' '')"
    by (simp_all add: ascii_word_def ascii_alpha_def ascii_upper_def ascii_digit_def py_word_def)
  have tw: "takeWhile ascii_word (xs @ r) = xs" "dropWhile ascii_word (xs @ r) = r"
    if "case r of [] \<Rightarrow> True | d # _ \<Rightarrow> \<not> ascii_word d" for r
    using takeWhile_run [OF x(2) that] by simp_all
  have "match_command (c @ r) = Some (c, r)" if "r = [] \<or> (\<exists>t. r = CHR '' '' # t)" for r
    using that
  proof
    assume r: "r = []"
    have m: "takeWhile ascii_word xs = xs" "dropWhile ascii_word xs = []"
      using tw [of "[]"] by (simp_all only: append_Nil2 list.case)
    show ?thesis using r x(1) c alpha_word(2) [OF x(1)]
      by (simp add: match_command_def lstrip_nonspace boundary_def m)
  next
    assume "\<exists>t. r = CHR '' '' # t"
    then show ?thesis using tw [of r] x(1) sp c alpha_word(2) [OF x(1)]
      by (auto simp: match_command_def lstrip_nonspace boundary_def)
  qed
  from this [of "[]"] this [of "CHR '' '' # rstrip a"] show ?thesis
    by (simp add: render_segment_form [OF assms])
qed

definition strip_args :: "string \<times> string \<Rightarrow> string \<times> string" where
  "strip_args seg = (fst seg, strip (snd seg))"

lemma parse_segment_rendered:
  assumes "c \<in> set ALLOWED_COMMANDS" and "i = 0 \<Longrightarrow> c = ''search''"
  shows "parse_segment i (render_segment (c, a)) = Inr (c, strip a)"
proof -
  have w: "command_word c" by (rule allowed_command_word [OF assms(1)])
  obtain x xs where c: "c = x # xs" "ascii_alpha x" using w by (cases c) (auto simp: command_word_def)
  have "take 1 (render_segment (c, a)) = [x]" unfolding render_segment_form [OF w] using c by simp
  then have np: "take 1 (render_segment (c, a)) \<noteq> ''(''"
    using c(2) by (auto simp: ascii_alpha_def ascii_upper_def)
  have rest: "strip (if strip a = [] then [] else CHR '' '' # rstrip a) = strip a"
    by (simp add: strip_space_left space_chars strip_def [of "[]"])
  have low: "lower c = c" using w by (simp add: command_word_def)
  have first: "\<not> (i = 0 \<and> c \<noteq> ''search'')" using assms(2) by blast
  have np': "\<not> (i = 0 \<and> take 1 (render_segment (c, a)) = ''('')" using np by blast
  show ?thesis unfolding parse_segment_def match_command_rendered [OF w] if_not_P [OF np']
    using first assms(1) rest low by (cases "i = 0") (simp_all add: Let_def)
qed

lemma parse_segments_rendered:
  assumes "\<And>seg. seg \<in> set segs \<Longrightarrow> fst seg \<in> set ALLOWED_COMMANDS"
    and "i = 0 \<Longrightarrow> segs \<noteq> [] \<Longrightarrow> fst (hd segs) = ''search''"
  shows "parse_segments i (map render_segment segs) = Inr (map strip_args segs)"
  using assms
proof (induction segs arbitrary: i)
  case (Cons seg segs)
  obtain c a where seg: "seg = (c, a)" by force
  have "parse_segment i (render_segment seg) = Inr (strip_args seg)"
    using parse_segment_rendered [of c i a] Cons.prems(1) [of seg] Cons.prems(2) seg
    by (simp add: strip_args_def)
  then show ?case using Cons.IH [of "Suc i"] Cons.prems(1) by simp
qed simp

subsection \<open>Splitting a rendered pipeline\<close>

lemma split_on_append: "c \<notin> set a \<Longrightarrow> split_on c (a @ c # b) = a # split_on c b"
  by (induction a) auto

lemma split_on_single: "c \<notin> set a \<Longrightarrow> split_on c a = [a]"
  by (induction a) auto

lemma split_joined:
  assumes "xs \<noteq> []" and "\<And>x. x \<in> set xs \<Longrightarrow> CHR ''|'' \<notin> set x \<and> strip x = x"
    and "pre = [] \<or> pre = '' ''"
  shows "map strip (split_on (CHR ''|'') (pre @ join '' | '' xs)) = xs"
  using assms
proof (induction xs arbitrary: pre)
  case (Cons x xs)
  have x: "CHR ''|'' \<notin> set x" "strip x = x" and p: "CHR ''|'' \<notin> set pre" using Cons.prems(2,3) by auto
  have sp: "strip (pre @ x @ t) = strip (x @ t)" for t
    using Cons.prems(3) by (auto simp: strip_space_left space_chars)
  show ?case
  proof (cases xs)
    case Nil
    then show ?thesis using split_on_single [of "CHR ''|''" "pre @ x"] x p sp [of "[]"] by simp
  next
    case (Cons y ys)
    have j: "pre @ join '' | '' (x # xs) = (pre @ x @ '' '') @ CHR ''|'' # ('' '' @ join '' | '' xs)"
      using Cons by simp
    have "map strip (split_on (CHR ''|'') ('' '' @ join '' | '' xs)) = xs"
      by (rule Cons.IH) (use Cons.prems(2) Cons in auto)
    moreover have "strip (pre @ x @ '' '') = x"
      using sp [of "'' ''"] strip_space_right [OF space_chars(1), of x] x(2) by simp
    ultimately show ?thesis unfolding j using x p split_on_append [of "CHR ''|''" "pre @ x @ '' ''"] by simp
  qed
qed simp

definition plain_text :: "string \<Rightarrow> bool" where
  "plain_text a \<longleftrightarrow>
     list_all (\<lambda>c. c \<noteq> backtick \<and> c \<noteq> CHR ''['' \<and> c \<noteq> CHR '']'' \<and> c \<noteq> CHR 0x00 \<and> c \<noteq> CHR ''|'') a"

lemma plain_subset: "plain_text a \<Longrightarrow> set b \<subseteq> set a \<Longrightarrow> plain_text b"
  unfolding plain_text_def list_all_iff by blast

lemma word_plain: "command_word c \<Longrightarrow> plain_text c"
proof -
  assume "command_word c"
  then have a: "\<forall>x \<in> set c. ascii_alpha x" by (simp add: command_word_def list_all_iff)
  have "\<not> ascii_alpha backtick" "\<not> ascii_alpha (CHR ''['')" "\<not> ascii_alpha (CHR '']'')"
      "\<not> ascii_alpha (CHR 0x00)" "\<not> ascii_alpha (CHR ''|'')"
    by (simp_all add: ascii_alpha_def ascii_upper_def)
  then show ?thesis using a unfolding plain_text_def list_all_iff by blast
qed

lemma render_plain:
  assumes "command_word c" and "plain_text a"
  shows "plain_text (render_segment (c, a))"
proof -
  have "set (rstrip a) \<subseteq> set a" using rstrip_prefix [of a] by (metis Un_upper1 set_append)
  then have "plain_text (rstrip a)" using plain_subset assms(2) by blast
  then show ?thesis using word_plain [OF assms(1)]
    by (simp add: render_segment_form [OF assms(1)] plain_text_def)
qed

lemma render_stripped:
  assumes "command_word c"
  shows "strip (render_segment (c, a)) = render_segment (c, a) \<and> render_segment (c, a) \<noteq> []"
proof -
  obtain x xs where c: "c = x # xs" "ascii_alpha x" using assms by (cases c) (auto simp: command_word_def)
  obtain y where y: "render_segment (c, a) = x # y"
    using c render_segment_form [OF assms, of a] by (cases "strip a = []") auto
  have "rstrip (render_segment (c, a)) = render_segment (c, a)" by (simp add: render_segment_def)
  moreover have "lstrip (render_segment (c, a)) = render_segment (c, a)"
    unfolding y by (rule lstrip_nonspace [OF alpha_word(2) [OF c(2)]])
  ultimately show ?thesis using y by (simp add: strip_def)
qed

lemma set_join: "set (join sep xs) \<subseteq> set sep \<union> \<Union> (set (map set xs))"
  by (induction sep xs rule: join.induct) auto

lemma plain_strip_value:
  "join '' | '' (x # xs) \<noteq> [] \<Longrightarrow> hd (join '' | '' (x # xs)) = c \<Longrightarrow> \<not> py_isspace c
    \<Longrightarrow> strip (join '' | '' (x # xs)) \<noteq> []"
  by (cases "join '' | '' (x # xs)")
    (auto simp: strip_def lstrip_nonspace rstrip_Nil_iff simp del: join.simps)

definition allowed_segments :: "(string \<times> string) list \<Rightarrow> bool" where
  "allowed_segments segs \<longleftrightarrow>
     segs \<noteq> [] \<and> fst (hd segs) = ''search''
     \<and> list_all (\<lambda>seg. fst seg \<in> set ALLOWED_COMMANDS \<and> plain_text (snd seg)) segs"

lemma parse_rendered:
  assumes "allowed_segments segs"
    and "length (join '' | '' (map render_segment segs)) \<le> 20000"
  shows "parse_spl (join '' | '' (map render_segment segs)) =
    Inr \<lparr>normalized = join '' | '' (map render_segment (map strip_args segs)),
         command_segments = map strip_args segs\<rparr>"
proof -
  let ?xs = "map render_segment segs"
  have seg: "fst s \<in> set ALLOWED_COMMANDS" "plain_text (snd s)" if "s \<in> set segs" for s
    using assms(1) that by (auto simp: allowed_segments_def list_all_iff)
  have cw: "command_word (fst s)" if "s \<in> set segs" for s using seg(1) allowed_command_word that by blast
  have pl: "plain_text (render_segment s)" if "s \<in> set segs" for s
    using render_plain [of "fst s" "snd s"] cw seg(2) that by simp
  have st: "strip (render_segment s) = render_segment s \<and> render_segment s \<noteq> []" if "s \<in> set segs" for s
    using render_stripped [of "fst s" "snd s"] cw that by simp
  have ne: "?xs \<noteq> []" using assms(1) by (simp add: allowed_segments_def)
  have bad: "backtick \<notin> set (join '' | '' ?xs)" "CHR ''['' \<notin> set (join '' | '' ?xs)"
      "CHR '']'' \<notin> set (join '' | '' ?xs)" "CHR 0x00 \<notin> set (join '' | '' ?xs)"
  proof -
    have out: "x \<notin> set (join '' | '' ?xs)"
      if "x \<noteq> CHR '' ''" "x \<noteq> CHR ''|''" "\<And>s. s \<in> set segs \<Longrightarrow> x \<notin> set (render_segment s)" for x
      using set_join [of "'' | ''" ?xs] that by auto
    show "backtick \<notin> set (join '' | '' ?xs)" "CHR ''['' \<notin> set (join '' | '' ?xs)"
      "CHR '']'' \<notin> set (join '' | '' ?xs)" "CHR 0x00 \<notin> set (join '' | '' ?xs)"
      by (rule out; use pl in \<open>auto simp: plain_text_def list_all_iff\<close>)+
  qed
  have parts: "map strip (split_on (CHR ''|'') (join '' | '' ?xs)) = ?xs"
  proof -
    have "CHR ''|'' \<notin> set x \<and> strip x = x" if "x \<in> set ?xs" for x
      using that pl st by (auto simp: plain_text_def list_all_iff)
    from split_joined [OF ne this, of "[]"] show ?thesis by simp
  qed
  have non: "[] \<notin> set ?xs" using st by (metis imageE list.set_map)
  have nonempty: "strip (join '' | '' ?xs) \<noteq> []"
  proof
    assume z: "strip (join '' | '' ?xs) = []"
    obtain s ss where ss: "segs = s # ss" using ne by (cases segs) auto
    have "set (render_segment s) \<subseteq> set (join '' | '' ?xs)"
      using ss by (cases ss) auto
    moreover have "list_all py_isspace (join '' | '' ?xs)"
      using z unfolding strip_def rstrip_Nil_iff by (metis lstrip_split list_all_append)
    ultimately have "list_all py_isspace (render_segment s)" by (auto simp: list_all_iff)
    then have "strip (render_segment s) = []"
      by (metis lstrip_Nil_iff rstrip_Nil strip_def)
    then show False using st [of s] ss by simp
  qed
  have segs: "parse_segments 0 ?xs = Inr (map strip_args segs)"
    by (rule parse_segments_rendered) (use seg(1) assms(1) in \<open>auto simp: allowed_segments_def\<close>)
  have join': "join '' | '' (map render_segment (map strip_args segs)) = join '' | '' ?xs" if
    "\<And>s. s \<in> set segs \<Longrightarrow> strip (snd s) = snd s"
    using that by (metis (no_types, lifting) map_idI strip_args_def prod.collapse)
  show ?thesis unfolding parse_spl_def
    using nonempty assms(2) bad parts non segs by (simp add: Let_def)
qed

subsection \<open>What the parser returns\<close>

lemma set_split_on: "p \<in> set (split_on c s) \<Longrightarrow> set p \<subseteq> set s - {c}"
  using set_join_part [of p "split_on c s" "[c]"] join_split_on [of c s] split_on_no_sep [of p c s]
  by auto

lemma parse_segment_ok:
  assumes "parse_segment i part = Inr (c, a)" and "strip part = part"
  shows "c \<in> set ALLOWED_COMMANDS \<and> set a \<subseteq> set part \<and> strip a = a \<and> (i = 0 \<longrightarrow> c = ''search'')"
proof -
  have search: "''search'' \<in> set ALLOWED_COMMANDS" by (simp add: ALLOWED_COMMANDS_def)
  show ?thesis
  proof (cases "i = 0 \<and> take 1 part = ''(''")
    case True
    then have "c = ''search''" "a = part" using assms(1) by (simp_all add: parse_segment_def)
    then show ?thesis using search assms(2) by simp
  next
    case False
    then obtain w r where m: "match_command part = Some (w, r)"
      using assms(1) unfolding parse_segment_def if_not_P [OF False]
      by (cases "match_command part") auto
    have "set r \<subseteq> set (lstrip part)"
      using m set_dropWhileD by (fastforce simp: match_command_def split: list.splits if_splits)
    then have r: "set (strip r) \<subseteq> set part"
      using set_strip [of r] set_dropWhileD unfolding lstrip_def by fastforce
    show ?thesis using assms m r search unfolding parse_segment_def if_not_P [OF False]
      by (auto simp: Let_def split: if_splits)
  qed
qed

lemma parse_segments_ok:
  assumes "parse_segments i parts = Inr segs" and "\<And>p. p \<in> set parts \<Longrightarrow> strip p = p \<and> plain_text p"
  shows "length segs = length parts
    \<and> list_all (\<lambda>s. fst s \<in> set ALLOWED_COMMANDS \<and> plain_text (snd s) \<and> strip (snd s) = snd s) segs
    \<and> (i = 0 \<longrightarrow> segs \<noteq> [] \<longrightarrow> fst (hd segs) = ''search'')"
  using assms
proof (induction i parts arbitrary: segs rule: parse_segments.induct)
  case (2 i part parts)
  obtain seg rest where s: "parse_segment i part = Inr seg" "parse_segments (Suc i) parts = Inr rest"
      "segs = seg # rest"
    using "2.prems"(1) by (auto simp: result_simps)
  obtain c a where seg: "seg = (c, a)" by force
  have p: "strip part = part" "plain_text part" using "2.prems"(2) by simp_all
  from parse_segment_ok [OF s(1) [unfolded seg] p(1)]
  have h: "c \<in> set ALLOWED_COMMANDS" "set a \<subseteq> set part" "strip a = a" "i = 0 \<longrightarrow> c = ''search''"
    by blast+
  from "2.IH" [OF s(2)] "2.prems"(2) have t: "length rest = length parts
    \<and> list_all (\<lambda>s. fst s \<in> set ALLOWED_COMMANDS \<and> plain_text (snd s) \<and> strip (snd s) = snd s) rest"
    by simp
  have "plain_text a" using plain_subset [OF p(2) h(2)] .
  then show ?case using s(3) seg h t by simp
qed simp

lemma parse_spl_ok:
  assumes "parse_spl value = Inr p"
  shows "allowed_segments (command_segments p)
    \<and> list_all (\<lambda>s. strip (snd s) = snd s) (command_segments p)
    \<and> normalized p = join '' | '' (map render_segment (command_segments p))"
proof -
  let ?parts = "map strip (split_on (CHR ''|'') value)"
  have v: "backtick \<notin> set value" "CHR ''['' \<notin> set value" "CHR '']'' \<notin> set value" "CHR 0x00 \<notin> set value"
    and seg: "parse_segments 0 ?parts = Inr (command_segments p)"
    and n: "normalized p = join '' | '' (map render_segment (command_segments p))"
    using assms by (auto simp: parse_spl_def Let_def result_simps split: if_splits)
  have parts: "strip q = q \<and> plain_text q" if q: "q \<in> set ?parts" for q
  proof -
    obtain w where w: "w \<in> set (split_on (CHR ''|'') value)" "q = strip w" using q by auto
    have "set q \<subseteq> set value - {CHR ''|''}" using set_split_on [OF w(1)] set_strip [of w] w(2) by blast
    then have "plain_text q" using v unfolding plain_text_def list_all_iff by blast
    then show ?thesis using w(2) by simp
  qed
  note all_ok = parse_segments_ok [OF seg parts]
  from all_ok have "length (command_segments p) = length ?parts"
    and all: "list_all (\<lambda>s. fst s \<in> set ALLOWED_COMMANDS \<and> plain_text (snd s) \<and> strip (snd s) = snd s)
      (command_segments p)"
    and h: "command_segments p \<noteq> [] \<longrightarrow> fst (hd (command_segments p)) = ''search''" by blast+
  then have "command_segments p \<noteq> []" using split_on_nonempty [of "CHR ''|''" "value"] by auto
  then show ?thesis using all h n by (simp add: allowed_segments_def list_all_iff)
qed

lemma strip_args_id: "list_all (\<lambda>s. strip (snd s) = snd s) segs \<Longrightarrow> map strip_args segs = segs"
  by (induction segs) (auto simp: strip_args_def)

text \<open>C22. Normalisation is a round trip: printing a parsed pipeline and parsing it again gives the same
  commands and arguments and the same text, provided the text is within the parser's length limit.\<close>

theorem normalized_round_trip:
  assumes "parse_spl value = Inr p" and "length (normalized p) \<le> 20000"
  shows "parse_spl (normalized p) = Inr p"
proof -
  have ok: "allowed_segments (command_segments p)" "map strip_args (command_segments p) = command_segments p"
    and n: "normalized p = join '' | '' (map render_segment (command_segments p))"
    using parse_spl_ok [OF assms(1)] strip_args_id by blast+
  have "parse_spl (normalized p) = Inr \<lparr>normalized = normalized p, command_segments = command_segments p\<rparr>"
    using parse_rendered [OF ok(1)] assms(2) ok(2) n by simp
  then show ?thesis by simp
qed

definition example_spl :: string where
  "example_spl = ''index=main  sourcetype=web|TABLE user''"

theorem normalized_round_trip_witness:
  "\<exists>p. parse_spl example_spl = Inr p \<and> normalized p = ''search index=main  sourcetype=web | table user''
     \<and> parse_spl (normalized p) = Inr p"
proof -
  have p: "parse_spl example_spl =
      Inr \<lparr>normalized = ''search index=main  sourcetype=web | table user'',
           command_segments = [(''search'', ''index=main  sourcetype=web''), (''table'', ''user'')]\<rparr>"
    by code_simp
  show ?thesis using p normalized_round_trip [OF p] by simp
qed

subsection \<open>Provenance fields\<close>

lemma runs_acc_sep: "\<not> p c \<Longrightarrow> runs_acc p acc (xs @ c # ys) = runs_acc p acc xs @ runs_acc p [] ys"
  by (induction p acc xs rule: runs_acc.induct) auto

lemma runs_acc_word: "list_all p w \<Longrightarrow> runs_acc p acc w = (if w = [] \<and> acc = [] then [] else [rev acc @ w])"
  by (induction p acc w rule: runs_acc.induct) auto

lemma runs_acc_skip: "list_all (\<lambda>c. \<not> p c) sp \<Longrightarrow> runs_acc p [] (sp @ s) = runs_acc p [] s"
  by (induction sp) auto

lemma runs_acc_skip_end: "list_all (\<lambda>c. \<not> p c) sp \<Longrightarrow> runs_acc p acc (s @ sp) = runs_acc p acc s"
proof (induction p acc s rule: runs_acc.induct)
  case (1 p acc)
  then show ?case using runs_acc_skip [of p "tl sp" "[]"] by (cases sp) auto
qed auto

abbreviation field_sep_char :: "char \<Rightarrow> bool" where
  "field_sep_char \<equiv> (\<lambda>c. \<not> py_isspace c \<and> c \<noteq> CHR '','')"

lemma runs_strip: "runs field_sep_char (strip s) = runs field_sep_char s"
proof -
  obtain sp where sp: "s = sp @ lstrip s" "list_all py_isspace sp" using lstrip_split by blast
  obtain t where t: "lstrip s = rstrip (lstrip s) @ t" "list_all py_isspace t" using rstrip_prefix by blast
  have ns: "list_all py_isspace u \<Longrightarrow> list_all (\<lambda>c. \<not> field_sep_char c) u" for u
    by (simp add: list_all_iff)
  have "runs field_sep_char s = runs field_sep_char (lstrip s)"
    using runs_acc_skip [OF ns [OF sp(2)], of "lstrip s"] sp(1) by (simp add: runs_def)
  also have "\<dots> = runs field_sep_char (strip s)"
    using runs_acc_skip_end [OF ns [OF t(2)], of "[]" "rstrip (lstrip s)"] t(1)
    by (simp add: runs_def strip_def)
  finally show ?thesis by simp
qed

definition selected_fields :: "string \<Rightarrow> string list" where
  "selected_fields args = map (strip_chars quotes) (runs field_sep_char args)"

definition spaced :: "string list \<Rightarrow> string" where
  "spaced fs = concat (map (\<lambda>f. '' '' @ f) fs)"

lemma spaced_simps: "spaced [] = []" "spaced (f # fs) = '' '' @ f @ spaced fs"
  by (simp_all add: spaced_def)

lemma runs_appended:
  assumes "\<And>f. f \<in> set fs \<Longrightarrow> list_all field_sep_char f \<and> f \<noteq> []"
  shows "runs field_sep_char (args @ spaced fs) = runs field_sep_char args @ fs"
  using assms
proof (induction fs arbitrary: args)
  case (Cons f fs)
  have sep: "\<not> field_sep_char (CHR '' '')" by (simp add: space_chars)
  have "runs field_sep_char (args @ spaced (f # fs))
      = runs field_sep_char ((args @ '' '' @ f) @ spaced fs)" by (simp add: spaced_simps)
  also have "\<dots> = runs field_sep_char (args @ '' '' @ f) @ fs" using Cons by (intro Cons.IH) auto
  also have "runs field_sep_char (args @ '' '' @ f) = runs field_sep_char args @ [f]"
    using runs_acc_sep [of field_sep_char, OF sep, of "[]" args f] Cons.prems [of f]
    by (simp add: runs_def runs_acc_word)
  finally show ?case by simp
qed (simp add: spaced_simps)

lemma source_field_words:
  "f \<in> set SOURCE_FIELDS \<Longrightarrow> list_all field_sep_char f \<and> f \<noteq> [] \<and> strip_chars quotes f = f \<and> plain_text f"
proof -
  have "list_all (\<lambda>f. list_all field_sep_char f \<and> f \<noteq> [] \<and> strip_chars quotes f = f \<and> plain_text f)
      SOURCE_FIELDS" by code_simp
  then show "f \<in> set SOURCE_FIELDS \<Longrightarrow> ?thesis" by (simp add: list_all_iff)
qed

definition projection :: "string \<Rightarrow> string \<Rightarrow> bool" where
  "projection command args \<longleftrightarrow> command = ''table'' \<or> (command = ''fields'' \<and> take 1 args \<noteq> ''-'')"

lemma projected_args_cases:
  "projected_args c a =
     (if projection c a then a @ spaced (filter (\<lambda>f. f \<notin> set (selected_fields a)) SOURCE_FIELDS) else a)"
  unfolding projected_args_def projection_def spaced_def selected_fields_def Let_def
  by (auto simp del: append_Cons append_Nil)

lemma projected_selects:
  assumes "projection c a" and "f \<in> set SOURCE_FIELDS"
  shows "f \<in> set (selected_fields (projected_args c a))"
proof -
  let ?sel = "selected_fields a"
  have "projected_args c a = a @ spaced (filter (\<lambda>f. f \<notin> set ?sel) SOURCE_FIELDS)"
    using assms(1) by (simp add: projected_args_cases)
  then have "runs field_sep_char (projected_args c a)
      = runs field_sep_char a @ filter (\<lambda>f. f \<notin> set ?sel) SOURCE_FIELDS"
    using runs_appended [of "filter (\<lambda>f. f \<notin> set ?sel) SOURCE_FIELDS" a] source_field_words by simp
  then have "set (selected_fields (projected_args c a))
      = set ?sel \<union> strip_chars quotes ` set (filter (\<lambda>f. f \<notin> set ?sel) SOURCE_FIELDS)"
    by (simp add: selected_fields_def)
  then show ?thesis using assms(2) source_field_words [OF assms(2)] by (cases "f \<in> set ?sel") force+
qed

definition project :: "string \<times> string \<Rightarrow> string \<times> string" where
  "project seg = (fst seg, projected_args (fst seg) (snd seg))"

lemma preserve_segments_ok:
  "preserve_segments segs = Inr out \<Longrightarrow> out = map render_segment (map project segs)"
  by (induction segs arbitrary: out rule: preserve_segments.induct)
    (auto simp: result_simps project_def split: if_splits)

lemma projected_args_plain: "plain_text a \<Longrightarrow> plain_text (projected_args c a)"
proof -
  assume a: "plain_text a"
  have "plain_text (spaced fs)" if "set fs \<subseteq> set SOURCE_FIELDS" for fs
    using that source_field_words by (induction fs) (auto simp: plain_text_def spaced_simps)
  from this [of "filter (\<lambda>f. f \<notin> set (selected_fields a)) SOURCE_FIELDS"]
  have "plain_text (spaced (filter (\<lambda>f. f \<notin> set (selected_fields a)) SOURCE_FIELDS))" by auto
  then show ?thesis using a by (simp add: projected_args_cases plain_text_def)
qed

lemma project_allowed:
  assumes "allowed_segments segs"
  shows "allowed_segments (map project segs) \<and> project (hd segs) = hd segs"
proof -
  have "fst (hd segs) = ''search''" "segs \<noteq> []" using assms by (simp_all add: allowed_segments_def)
  then have "project (hd segs) = hd segs"
    by (cases "hd segs") (simp add: project_def projected_args_def Let_def)
  then show ?thesis using assms projected_args_plain
    by (auto simp: allowed_segments_def project_def list_all_iff hd_map)
qed

text \<open>Provenance: the text executed for a query that keeps events parses to the same commands in
  the same order with the same search expression, and each of its projections (\<open>table\<close>, or
  \<open>fields\<close> without a leading minus) selects \<open>index\<close>, \<open>sourcetype\<close>, \<open>_time\<close> and \<open>_cd\<close>.\<close>

theorem provenance_preserved:
  assumes "parse_spl spl = Inr p" and "\<not> aggregates_events p"
    and "preserve_raw_source_fields p = Inr nspl" and "length nspl \<le> 20000"
  shows "\<exists>p'. parse_spl nspl = Inr p'
    \<and> map fst (command_segments p') = map fst (command_segments p)
    \<and> hd (command_segments p') = hd (command_segments p)
    \<and> (\<forall>k < length (command_segments p). projection (fst (command_segments p ! k)) (snd (command_segments p ! k))
         \<longrightarrow> set SOURCE_FIELDS \<subseteq> set (selected_fields (snd (command_segments p' ! k))))"
proof -
  let ?segs = "command_segments p"
  have ok: "allowed_segments ?segs" "list_all (\<lambda>s. strip (snd s) = snd s) ?segs"
    using parse_spl_ok [OF assms(1)] by blast+
  note pr = project_allowed [OF ok(1)]
  have n: "nspl = join '' | '' (map render_segment (map project ?segs))"
    using assms(2,3) preserve_segments_ok by (auto simp: preserve_raw_source_fields_def result_simps)
  let ?out = "map strip_args (map project ?segs)"
  have p': "parse_spl nspl = Inr \<lparr>normalized = join '' | '' (map render_segment ?out), command_segments = ?out\<rparr>"
    using parse_rendered [of "map project ?segs"] pr assms(4) n by simp
  have ne: "?segs \<noteq> []" using ok(1) by (simp add: allowed_segments_def)
  have "strip_args (hd ?segs) = hd ?segs"
    using ok(2) ne by (cases ?segs) (auto simp: strip_args_def)
  then have h: "hd ?out = hd ?segs" using pr ne by (simp add: hd_map)
  have "set SOURCE_FIELDS \<subseteq> set (selected_fields (snd (?out ! k)))"
    if "k < length ?segs" "projection (fst (?segs ! k)) (snd (?segs ! k))" for k
    using projected_selects [OF that(2)] that(1)
    by (auto simp: strip_args_def project_def selected_fields_def runs_strip)
  moreover have "map fst ?out = map fst ?segs" by (simp add: strip_args_def project_def)
  ultimately show ?thesis using p' h by (intro exI [of _ "\<lparr>normalized = join '' | '' (map render_segment ?out),
      command_segments = ?out\<rparr>"]) simp
qed

theorem provenance_preserved_witness:
  "\<exists>p nspl p'. parse_spl example_spl = Inr p \<and> preserve_raw_source_fields p = Inr nspl
    \<and> parse_spl nspl = Inr p' \<and> hd (command_segments p') = (''search'', ''index=main  sourcetype=web'')"
proof -
  define p where "p = \<lparr>normalized = ''search index=main  sourcetype=web | table user'',
           command_segments = [(''search'', ''index=main  sourcetype=web''), (''table'', ''user'')]\<rparr>"
  have p: "parse_spl example_spl = Inr p" unfolding p_def by code_simp
  have a: "\<not> aggregates_events p" unfolding p_def by code_simp
  have n: "preserve_raw_source_fields p
      = Inr ''search index=main  sourcetype=web | table user index sourcetype _time _cd''"
    unfolding p_def by code_simp
  from provenance_preserved [OF p a n] obtain p' where
    "parse_spl ''search index=main  sourcetype=web | table user index sourcetype _time _cd'' = Inr p'"
    "hd (command_segments p') = hd (command_segments p)" by auto
  moreover have "hd (command_segments p) = (''search'', ''index=main  sourcetype=web'')"
    by (simp add: p_def)
  ultimately show ?thesis using p n by metis
qed

end
