(* ===== verification/Sha256.thy ===== *)
theory Sha256
  imports PyStr "HOL-Library.Word"
begin

text \<open>
  \<open>hashlib.sha256(...).hexdigest()\<close>, which the program uses for cache keys, snapshot and content
  digests, on 32-bit words.  Messages are byte lists; \<open>str.encode()\<close> is UTF-8 on the Latin-1
  range.  The only fact the components rely on is the form of the digest, 64 lower-case
  hexadecimal digits (\<open>hexdigest_form\<close>).
\<close>

unbundle bit_operations_syntax

type_synonym w32 = "32 word"

definition rotr :: "nat \<Rightarrow> w32 \<Rightarrow> w32" where
  "rotr n x = drop_bit n x OR push_bit (32 - n) x"

text \<open>The constants are the first 32 bits of the fractional parts of roots of primes: square roots of
  the first eight, cube roots of the first sixty-four.  \<open>int_root\<close> is the integer part of a root,
  built from its highest bit down; \<open>2 ^ 32\<close> times a fractional part is what the word type keeps of
  the root of \<open>p * 2 ^ (32 * k)\<close>.\<close>

definition int_root :: "nat \<Rightarrow> nat \<Rightarrow> nat" where
  "int_root k n = fold (\<lambda>bit r. if (r + 2 ^ bit) ^ k \<le> n then r + 2 ^ bit else r) (rev [0..<40]) 0"

definition primes_below :: "nat \<Rightarrow> nat list" where
  "primes_below m = filter (\<lambda>p. list_all (\<lambda>d. p mod d \<noteq> 0) [2..<p]) [2..<m]"

definition root_words :: "nat \<Rightarrow> nat \<Rightarrow> w32 list" where
  "root_words k m = map (\<lambda>p. word_of_nat (int_root k (p * 2 ^ (32 * k)))) (primes_below m)"

definition round_constants :: "w32 list" where
  "round_constants = root_words 3 312"

record sha_state =
  sa :: w32
  sb :: w32
  sc :: w32
  sd :: w32
  se :: w32
  sf :: w32
  sg :: w32
  sh :: w32

definition initial_state :: sha_state where
  "initial_state =
     (case root_words 2 20 of
        [a, b, c, d, e, f, g, h] \<Rightarrow> \<lparr>sa = a, sb = b, sc = c, sd = d, se = e, sf = f, sg = g, sh = h\<rparr>
      | _ \<Rightarrow> \<lparr>sa = 0, sb = 0, sc = 0, sd = 0, se = 0, sf = 0, sg = 0, sh = 0\<rparr>)"

text \<open>The message schedule is kept as a window of the last sixteen words.\<close>

definition next_word :: "w32 list \<Rightarrow> w32" where
  "next_word w =
     (let x = w ! 1; y = w ! 14;
          s0 = rotr 7 x XOR rotr 18 x XOR drop_bit 3 x;
          s1 = rotr 17 y XOR rotr 19 y XOR drop_bit 10 y
      in w ! 0 + s0 + w ! 9 + s1)"

definition sha_round :: "w32 \<Rightarrow> w32 \<Rightarrow> sha_state \<Rightarrow> sha_state" where
  "sha_round k w s =
     (let s1 = rotr 6 (se s) XOR rotr 11 (se s) XOR rotr 25 (se s);
          ch = (se s AND sf s) XOR (NOT (se s) AND sg s);
          t1 = sh s + s1 + ch + k + w;
          s0 = rotr 2 (sa s) XOR rotr 13 (sa s) XOR rotr 22 (sa s);
          maj = (sa s AND sb s) XOR (sa s AND sc s) XOR (sb s AND sc s);
          t2 = s0 + maj
      in \<lparr>sa = t1 + t2, sb = sa s, sc = sb s, sd = sc s, se = sd s + t1, sf = se s, sg = sf s,
          sh = sg s\<rparr>)"

fun sha_rounds :: "w32 list \<Rightarrow> w32 list \<Rightarrow> sha_state \<Rightarrow> sha_state" where
  "sha_rounds [] window s = s"
| "sha_rounds (k # ks) window s =
     (case window of
        [] \<Rightarrow> s
      | w # ws \<Rightarrow> sha_rounds ks (ws @ [next_word window]) (sha_round k w s))"

definition compress :: "sha_state \<Rightarrow> w32 list \<Rightarrow> sha_state" where
  "compress s block =
     (let t = sha_rounds round_constants block s
      in \<lparr>sa = sa s + sa t, sb = sb s + sb t, sc = sc s + sc t, sd = sd s + sd t,
          se = se s + se t, sf = sf s + sf t, sg = sg s + sg t, sh = sh s + sh t\<rparr>)"

definition big_endian :: "nat \<Rightarrow> nat \<Rightarrow> nat list" where
  "big_endian k n = map (\<lambda>i. n div 256 ^ i mod 256) (rev [0..<k])"

definition padding :: "nat \<Rightarrow> nat list" where
  "padding n = 128 # replicate ((119 - n mod 64) mod 64) 0 @ big_endian 8 (8 * n)"

fun words_of :: "nat list \<Rightarrow> w32 list" where
  "words_of (a # b # c # d # rest) =
     word_of_nat (((a * 256 + b) * 256 + c) * 256 + d) # words_of rest"
| "words_of _ = []"

function blocks_of :: "w32 list \<Rightarrow> w32 list list" where
  "blocks_of ws = (if ws = [] then [] else take 16 ws # blocks_of (drop 16 ws))"
  by pat_completeness auto
termination
  by (relation "measure length") (simp_all add: length_greater_0_conv [symmetric] del: length_greater_0_conv)

declare blocks_of.simps [simp del]

definition state_words :: "sha_state \<Rightarrow> w32 list" where
  "state_words s = [sa s, sb s, sc s, sd s, se s, sf s, sg s, sh s]"

definition hex_digit :: "nat \<Rightarrow> char" where
  "hex_digit n = (if n < 10 then char_of (48 + n) else char_of (87 + n))"

definition hex_word :: "w32 \<Rightarrow> string" where
  "hex_word w = map (\<lambda>i. hex_digit (unat w div 16 ^ i mod 16)) (rev [0..<8])"

definition sha256_hex :: "nat list \<Rightarrow> string" where
  "sha256_hex msg =
     concat (map hex_word (state_words
       (foldl compress initial_state (blocks_of (words_of (msg @ padding (length msg)))))))"

text \<open>\<open>str.encode()\<close>\<close>

definition utf8_char :: "char \<Rightarrow> nat list" where
  "utf8_char c = (if code c < 128 then [code c] else [192 + code c div 64, 128 + code c mod 64])"

definition encode :: "string \<Rightarrow> nat list" where
  "encode s = concat (map utf8_char s)"

subsection \<open>The form of a digest\<close>

definition lower_hex :: "char \<Rightarrow> bool" where
  "lower_hex c \<longleftrightarrow> c \<in> set ''0123456789abcdef''"

lemma hex_digit_lower: "n < 16 \<Longrightarrow> lower_hex (hex_digit n)"
proof -
  assume "n < 16"
  then have "n \<in> set [0..<16]" by simp
  moreover have "list_all (\<lambda>n. lower_hex (hex_digit n)) [0..<16]" by code_simp
  ultimately show ?thesis unfolding list_all_iff by blast
qed

lemma hex_word_form: "length (hex_word w) = 8" "list_all lower_hex (hex_word w)"
  by (simp_all add: hex_word_def list_all_iff hex_digit_lower)

lemma hexdigest_form: "length (sha256_hex msg) = 64 \<and> list_all lower_hex (sha256_hex msg)"
proof -
  have h: "length (concat (map hex_word ws)) = 8 * length ws \<and> list_all lower_hex (concat (map hex_word ws))"
    for ws by (induction ws) (simp_all add: hex_word_form)
  show ?thesis using h [of "state_words s" for s] by (simp add: sha256_hex_def state_words_def)
qed

end
