(* ===== verification/Json.thy ===== *)
theory Json
  imports Sha256 "HOL-Library.Char_ord" "HOL-Library.List_Lexorder" "HOL-Library.Multiset"
begin

text \<open>
  \<open>json.dumps(value, sort_keys=True, separators=(",", ":"))\<close>, the canonical text that the
  program hashes for cache keys, configuration snapshots and content digests.  Keys are sorted
  by code point; text outside printable ASCII is escaped.  The text determines the value up to
  the order of the keys (\<open>dumps_inject\<close>), so two digests of different values agree only if
  SHA-256 collides.
\<close>

datatype json =
    JNull
  | JBool bool
  | JInt int
  | JStr string
  | JList "json list"
  | JObj "(string \<times> json) list"

subsection \<open>Printing\<close>

fun nat_text :: "nat \<Rightarrow> string" where
  "nat_text n = (if n < 10 then [char_of (48 + n)] else nat_text (n div 10) @ [char_of (48 + n mod 10)])"

declare nat_text.simps [simp del]

definition int_text :: "int \<Rightarrow> string" where
  "int_text i = (if i < 0 then CHR ''-'' # nat_text (nat (- i)) else nat_text (nat i))"

definition escape_char :: "char \<Rightarrow> string" where
  "escape_char c =
     (if c = dquote \<or> c = backslash then [backslash, c]
      else if c = CHR 0x0A then [backslash, CHR ''n'']
      else if c = CHR 0x0D then [backslash, CHR ''r'']
      else if c = CHR 0x09 then [backslash, CHR ''t'']
      else if c = CHR 0x0C then [backslash, CHR ''f'']
      else if c = CHR 0x08 then [backslash, CHR ''b'']
      else if code c < 32 \<or> 126 < code c
        then [backslash, CHR ''u'', CHR ''0'', CHR ''0'', hex_digit (code c div 16), hex_digit (code c mod 16)]
      else [c])"

text \<open>With \<open>ensure_ascii=False\<close> only quotes, backslashes and control characters are escaped.\<close>

definition escape_raw :: "char \<Rightarrow> string" where
  "escape_raw c = (if 126 < code c then [c] else escape_char c)"

definition str_text :: "(char \<Rightarrow> string) \<Rightarrow> string \<Rightarrow> string" where
  "str_text esc s = dquote # concat (map esc s) @ [dquote]"

fun render :: "(char \<Rightarrow> string) \<Rightarrow> json \<Rightarrow> string" where
  "render esc JNull = ''null''"
| "render esc (JBool b) = (if b then ''true'' else ''false'')"
| "render esc (JInt i) = int_text i"
| "render esc (JStr s) = str_text esc s"
| "render esc (JList xs) = ''['' @ join '','' (map (render esc) xs) @ '']''"
| "render esc (JObj kvs) = ''{'' @ join '','' (map (\<lambda>kv. str_text esc (fst kv) @ '':'' @ render esc (snd kv)) kvs) @ ''}''"

fun sort_keys :: "json \<Rightarrow> json" where
  "sort_keys (JList xs) = JList (map sort_keys xs)"
| "sort_keys (JObj kvs) = JObj (sort_key fst (map (\<lambda>kv. (fst kv, sort_keys (snd kv))) kvs))"
| "sort_keys j = j"

definition dumps :: "json \<Rightarrow> string" where
  "dumps j = render escape_char (sort_keys j)"

definition dumps_raw :: "json \<Rightarrow> string" where
  "dumps_raw j = render escape_raw (sort_keys j)"

definition json_digest :: "json \<Rightarrow> string" where
  "json_digest j = sha256_hex (encode (dumps j))"

subsection \<open>Unique readability\<close>

definition hex_value :: "char \<Rightarrow> nat" where
  "hex_value c = (if code c < 58 then code c - 48 else code c - 87)"

definition unescape_char :: "string \<Rightarrow> (char \<times> string) option" where
  "unescape_char s =
     (case s of
        [] \<Rightarrow> None
      | c # cs \<Rightarrow>
          if c \<noteq> backslash then Some (c, cs)
          else (case cs of
                  [] \<Rightarrow> None
                | d # ds \<Rightarrow>
                    if d = CHR ''u'' then Some (char_of (16 * hex_value (ds ! 2) + hex_value (ds ! 3)), drop 4 ds)
                    else if d = CHR ''n'' then Some (CHR 0x0A, ds)
                    else if d = CHR ''r'' then Some (CHR 0x0D, ds)
                    else if d = CHR ''t'' then Some (CHR 0x09, ds)
                    else if d = CHR ''f'' then Some (CHR 0x0C, ds)
                    else if d = CHR ''b'' then Some (CHR 0x08, ds)
                    else Some (d, ds)))"

lemma hex_value_digit: "n < 16 \<Longrightarrow> hex_value (hex_digit n) = n"
  by (auto simp: hex_value_def hex_digit_def of_char_of)

lemma code_less: "code c < 256"
  by (metis nat_of_char_less_256)

lemma unescape_escape: "unescape_char (escape_char c @ r) = Some (c, r)"
proof (cases "c \<in> {dquote, backslash, CHR 0x0A, CHR 0x0D, CHR 0x09, CHR 0x0C, CHR 0x08}")
  case True
  then show ?thesis by (elim insertE emptyE) (simp_all add: escape_char_def unescape_char_def)
next
  case False
  then have plain: "escape_char c = (if code c < 32 \<or> 126 < code c
        then [backslash, CHR ''u'', CHR ''0'', CHR ''0'', hex_digit (code c div 16), hex_digit (code c mod 16)]
      else [c])"
    unfolding escape_char_def by (simp only: insert_iff empty_iff simp_thms if_False de_Morgan_disj)
  have c: "c \<noteq> backslash" using False by (simp only: insert_iff simp_thms de_Morgan_disj)
  have "code c div 16 < 16" "code c mod 16 < 16"
    using code_less [of c] by (auto intro: less_mult_imp_div_less)
  then have h: "16 * hex_value (hex_digit (code c div 16)) + hex_value (hex_digit (code c mod 16)) = code c"
    by (simp add: hex_value_digit mult_div_mod_eq)
  have u: "unescape_char ([backslash, CHR ''u'', CHR ''0'', CHR ''0'', x, y] @ r)
      = Some (char_of (16 * hex_value x + hex_value y), r)" for x y
    by (simp add: unescape_char_def numeral_eq_Suc)
  show ?thesis
  proof (cases "code c < 32 \<or> 126 < code c")
    case True
    then show ?thesis unfolding plain using u h by (simp only: if_True char_of_char)
  next
    case False
    then show ?thesis unfolding plain using c by (simp add: unescape_char_def)
  qed
qed

lemma escape_char_start: "escape_char c \<noteq> [] \<and> hd (escape_char c) \<noteq> dquote"
  by (simp add: escape_char_def)

definition delimited :: "string \<Rightarrow> bool" where
  "delimited r \<longleftrightarrow> (case r of [] \<Rightarrow> True | c # _ \<Rightarrow> c = CHR '','' \<or> c = CHR '']'' \<or> c = CHR ''}'')"

definition decimal :: "string \<Rightarrow> nat" where
  "decimal ds = foldl (\<lambda>n c. 10 * n + (code c - 48)) 0 ds"

lemma nat_text_digits: "nat_text n \<noteq> [] \<and> list_all ascii_digit (nat_text n) \<and> decimal (nat_text n) = n"
proof (induction n rule: nat_text.induct)
  case (1 n)
  have d: "m < 10 \<Longrightarrow> ascii_digit (char_of (48 + m))" "m < 10 \<Longrightarrow> code (char_of (48 + m)) = 48 + m" for m :: nat
    by (simp_all add: ascii_digit_def of_char_of)
  show ?case
  proof (cases "n < 10")
    case True
    then show ?thesis using d by (simp add: nat_text.simps [of n] decimal_def)
  next
    case False
    then show ?thesis using 1 d [of "n mod 10"] by (simp add: nat_text.simps [of n] decimal_def)
  qed
qed

lemma int_text_inject:
  assumes "int_text a @ r = int_text b @ s" and "delimited r" and "delimited s"
  shows "a = b \<and> r = s"
proof -
  define number where "number c \<longleftrightarrow> ascii_digit c \<or> c = CHR ''-''" for c
  have n: "list_all number (int_text x)" for x
    using nat_text_digits by (auto simp: int_text_def number_def list_all_iff)
  have stop: "delimited t \<Longrightarrow> takeWhile number (int_text x @ t) = int_text x" for x t
    using n [of x] by (cases t) (auto simp: delimited_def number_def ascii_digit_def list_all_iff
        takeWhile_append)
  have eq: "int_text a = int_text b" using stop assms by metis
  have hd: "hd (nat_text m) \<noteq> CHR ''-''" for m
    using nat_text_digits [of m] by (cases "nat_text m") (auto simp: ascii_digit_def)
  have inj: "nat_text x = nat_text y \<Longrightarrow> x = y" for x y using nat_text_digits by metis
  have "a < 0 \<longleftrightarrow> b < 0" using eq hd by (simp add: int_text_def split: if_splits) (metis list.sel(1))+
  then have "a = b" using eq inj [of "nat a" "nat b"] inj [of "nat (- a)" "nat (- b)"]
    by (cases "a < 0") (simp_all add: int_text_def)
  then show ?thesis using assms(1) eq by simp
qed

text \<open>Sequences of elements: \<open>f\<close> is readable when its text, followed by a delimiter, determines
  the element and what follows.\<close>

definition readable :: "('a \<Rightarrow> string) \<Rightarrow> 'a \<Rightarrow> bool" where
  "readable f x \<longleftrightarrow>
     (\<forall>y r s. delimited r \<longrightarrow> delimited s \<longrightarrow> f x @ r = f y @ s \<longrightarrow> x = y \<and> r = s)"

lemma readableD:
  "readable f x \<Longrightarrow> delimited r \<Longrightarrow> delimited s \<Longrightarrow> f x @ r = f y @ s \<Longrightarrow> x = y \<and> r = s"
  unfolding readable_def by blast

definition opens :: "string \<Rightarrow> bool" where
  "opens t \<longleftrightarrow> (case t of [] \<Rightarrow> False | c # _ \<Rightarrow> c \<noteq> CHR '','' \<and> c \<noteq> CHR '']'' \<and> c \<noteq> CHR ''}'')"

lemma join_cons: "join '','' (x # xs) = x @ (if xs = [] then [] else CHR '','' # join '','' xs)"
  by (cases xs) simp_all

lemma join_inject:
  assumes "\<And>x. x \<in> set xs \<Longrightarrow> readable f x" and "\<And>y. opens (f y)"
    and "e = CHR '']'' \<or> e = CHR ''}''"
    and "join '','' (map f xs) @ e # r = join '','' (map f ys) @ e # s"
  shows "xs = ys \<and> r = s"
  using assms(1,4)
proof (induction xs arbitrary: ys)
  case Nil
  show ?case
  proof (cases ys)
    case (Cons y ys')
    then show ?thesis using Nil.prems(2) assms(2) [of y] assms(3)
      by (cases "f y") (auto simp: opens_def join_cons simp del: join.simps(2,3))
  qed (use Nil in simp)
next
  case (Cons x xs)
  define tail where "tail zs t = (if zs = [] then e # t else CHR '','' # join '','' (map f zs) @ e # t)"
    for zs t
  have whole: "join '','' (map f (z # zs)) @ e # t = f z @ tail zs t" for z zs t
    by (simp add: join_cons tail_def del: join.simps)
  have del: "delimited (tail zs t)" for zs t using assms(3) by (auto simp: tail_def delimited_def)
  show ?case
  proof (cases ys)
    case Nil
    then show ?thesis using Cons.prems(2) assms(2) [of x] assms(3)
      by (cases "f x") (auto simp: opens_def join_cons simp del: join.simps(2,3))
  next
    case ys: (Cons y ys')
    have eq: "f x @ tail xs r = f y @ tail ys' s" using Cons.prems(2) ys whole by simp
    have "readable f x" using Cons.prems(1) by simp
    from readableD [OF this del del eq] have xy: "x = y" and t: "tail xs r = tail ys' s" by simp_all
    have "xs = ys' \<and> r = s"
    proof (cases "xs = [] \<or> ys' = []")
      case True
      then show ?thesis using t assms(3) by (auto simp: tail_def split: if_splits)
    next
      case False
      then have "join '','' (map f xs) @ e # r = join '','' (map f ys') @ e # s"
        using t by (simp add: tail_def)
      then show ?thesis using Cons.IH Cons.prems(1) by simp
    qed
    then show ?thesis using xy ys by simp
  qed
qed

definition pair_text :: "(char \<Rightarrow> string) \<Rightarrow> (json \<Rightarrow> string) \<Rightarrow> string \<times> json \<Rightarrow> string" where
  "pair_text esc f kv = str_text esc (fst kv) @ '':'' @ f (snd kv)"

lemma render_obj: "render esc (JObj kvs) = CHR ''{'' # join '','' (map (pair_text esc (render esc)) kvs) @ [CHR ''}'']"
  by (simp add: pair_text_def [abs_def])

lemma render_list: "render esc (JList xs) = CHR ''['' # join '','' (map (render esc) xs) @ [CHR '']'']"
  by simp

lemma int_text_start: "\<exists>c cs. int_text i = c # cs \<and> (ascii_digit c \<or> c = CHR ''-'')"
  using nat_text_digits [of "nat i"] nat_text_digits [of "nat (- i)"]
  by (cases "nat_text (nat i)") (auto simp: int_text_def)

lemma pair_text_opens: "opens (pair_text esc f kv)"
  by (simp add: pair_text_def str_text_def opens_def)

datatype shape = SNull | STrue | SFalse | SInt | SStr | SList | SObj

fun shape_of :: "json \<Rightarrow> shape" where
  "shape_of JNull = SNull"
| "shape_of (JBool b) = (if b then STrue else SFalse)"
| "shape_of (JInt i) = SInt"
| "shape_of (JStr s) = SStr"
| "shape_of (JList xs) = SList"
| "shape_of (JObj kvs) = SObj"

definition first_char :: "char \<Rightarrow> shape" where
  "first_char c =
     (if c = CHR ''n'' then SNull else if c = CHR ''t'' then STrue else if c = CHR ''f'' then SFalse
      else if c = dquote then SStr else if c = CHR ''['' then SList else if c = CHR ''{'' then SObj
      else SInt)"

lemma render_first: "\<exists>c cs. render esc j = c # cs \<and> first_char c = shape_of j \<and> opens (render esc j)"
proof (cases j)
  case (JBool b)
  then show ?thesis by (cases b) (simp_all add: first_char_def opens_def)
next
  case (JObj kvs)
  then show ?thesis by (simp add: first_char_def opens_def render_obj del: render.simps)
next
  case (JList xs)
  then show ?thesis by (simp add: first_char_def opens_def render_list del: render.simps)
next
  case (JInt i)
  obtain c cs where c: "int_text i = c # cs" "ascii_digit c \<or> c = CHR ''-''"
    using int_text_start by blast
  have nd: "\<not> ascii_digit (CHR ''n'')" "\<not> ascii_digit (CHR ''t'')" "\<not> ascii_digit (CHR ''f'')"
      "\<not> ascii_digit dquote" "\<not> ascii_digit (CHR ''['')" "\<not> ascii_digit (CHR ''{'')"
      "\<not> ascii_digit (CHR '','')" "\<not> ascii_digit (CHR '']'')" "\<not> ascii_digit (CHR ''}'')"
    by (simp_all add: ascii_digit_def)
  have "first_char c = SInt \<and> opens (c # cs)"
  proof (cases "c = CHR ''-''")
    case True
    then show ?thesis by (simp add: first_char_def opens_def)
  next
    case False
    then have "ascii_digit c" using c(2) by simp
    then have "c \<noteq> CHR ''n''" "c \<noteq> CHR ''t''" "c \<noteq> CHR ''f''" "c \<noteq> dquote" "c \<noteq> CHR ''[''"
        "c \<noteq> CHR ''{''" "c \<noteq> CHR '',''" "c \<noteq> CHR '']''" "c \<noteq> CHR ''}''"
      using nd by blast+
    then show ?thesis unfolding first_char_def opens_def by (simp only: if_False list.case simp_thms)
  qed
  then show ?thesis using JInt c by simp
qed (simp_all add: first_char_def opens_def str_text_def)

lemma render_shape: "render esc x @ r = render esc y @ s \<Longrightarrow> shape_of x = shape_of y"
  using render_first [of esc x] render_first [of esc y] by auto

lemma render_opens: "opens (render esc j)"
  using render_first by blast

text \<open>For an object with distinct keys, the text determines the value under every key.\<close>

lemma map_of_sort_key: "distinct (map fst kvs) \<Longrightarrow> map_of (sort_key fst kvs) = map_of kvs"
proof -
  assume d: "distinct (map fst kvs)"
  have "mset (map fst (sort_key fst kvs)) = mset (map fst kvs)" by simp
  then have "distinct (map fst (sort_key fst kvs))" using d by (metis mset_eq_imp_distinct_iff)
  then show ?thesis using d by (intro map_of_inject_set [THEN iffD2]) simp_all
qed

lemma sorted_object_inject:
  assumes "sort_keys (JObj kvs) = sort_keys (JObj kvs')"
    and "distinct (map fst kvs)" and "distinct (map fst kvs')"
  shows "map_option sort_keys (map_of kvs k) = map_option sort_keys (map_of kvs' k)"
proof -
  define f where "f kv = (fst kv, sort_keys (snd kv))" for kv :: "string \<times> json"
  have "sort_key fst (map f kvs) = sort_key fst (map f kvs')"
    using assms(1) by (simp add: f_def [abs_def])
  moreover have "distinct (map fst (map f kvs))" "distinct (map fst (map f kvs'))"
    using assms(2,3) by (simp_all add: f_def comp_def)
  ultimately have "map_of (map f kvs) = map_of (map f kvs')" using map_of_sort_key by metis
  moreover have "map_of (map f zs) k = map_option sort_keys (map_of zs k)" for zs
    by (induction zs) (auto simp: f_def)
  ultimately show ?thesis by metis
qed

text \<open>The two escape functions share the facts that make a printed value readable: a code can be
  taken off the front of a text and never starts with the closing quote.\<close>

locale escaping =
  fixes esc :: "char \<Rightarrow> string"
    and unesc :: "string \<Rightarrow> (char \<times> string) option"
  assumes unesc_esc: "unesc (esc c @ r) = Some (c, r)"
    and esc_start: "esc c \<noteq> [] \<and> hd (esc c) \<noteq> dquote"
begin

lemma str_body_inject:
  "concat (map esc a) @ dquote # r = concat (map esc b) @ dquote # s \<Longrightarrow> a = b \<and> r = s"
proof (induction a arbitrary: b)
  case Nil
  show ?case
  proof (cases b)
    case (Cons c cs)
    then show ?thesis using Nil esc_start [of c] by (cases "esc c") auto
  qed (use Nil in simp)
next
  case (Cons c cs)
  show ?case
  proof (cases b)
    case Nil
    then show ?thesis using Cons.prems esc_start [of c] by (cases "esc c") auto
  next
    case (Cons d ds)
    have "unesc (esc c @ concat (map esc cs) @ dquote # r)
        = unesc (esc d @ concat (map esc ds) @ dquote # s)"
      using Cons.prems Cons by simp
    then show ?thesis using Cons.IH Cons by (simp add: unesc_esc)
  qed
qed

lemma str_text_inject: "str_text esc a @ r = str_text esc b @ s \<Longrightarrow> a = b \<and> r = s"
proof -
  assume "str_text esc a @ r = str_text esc b @ s"
  then have "concat (map esc a) @ dquote # r = concat (map esc b) @ dquote # s"
    by (simp only: str_text_def append_Cons append_assoc append_Nil list.inject simp_thms)
  then show ?thesis by (rule str_body_inject)
qed

lemma pair_text_readable:
  assumes "readable f (snd kv)"
  shows "readable (pair_text esc f) kv"
  unfolding readable_def
proof (intro allI impI)
  fix y r s
  assume d: "delimited r" "delimited s" and eq: "pair_text esc f kv @ r = pair_text esc f y @ s"
  then have "str_text esc (fst kv) @ CHR '':'' # f (snd kv) @ r = str_text esc (fst y) @ CHR '':'' # f (snd y) @ s"
    by (simp add: pair_text_def)
  from str_text_inject [OF this] have "fst kv = fst y" "f (snd kv) @ r = f (snd y) @ s" by simp_all
  then show "kv = y \<and> r = s" using assms d unfolding readable_def by (simp add: prod_eq_iff)
qed

lemma render_readable: "readable (render esc) x"
proof (induction x)
  case (JInt i)
  show ?case unfolding readable_def
  proof (intro allI impI)
    fix y r s
    assume d: "delimited r" "delimited s" and eq: "render esc (JInt i) @ r = render esc y @ s"
    from render_shape [OF eq] obtain k where "y = JInt k" by (cases y) (auto split: if_splits)
    then show "JInt i = y \<and> r = s" using int_text_inject [of i r k s] eq d
      by (simp only: render.simps json.inject simp_thms)
  qed
next
  case (JStr t)
  show ?case unfolding readable_def
  proof (intro allI impI)
    fix y r s
    assume eq: "render esc (JStr t) @ r = render esc y @ s"
    from render_shape [OF eq] obtain k where "y = JStr k" by (cases y) (auto split: if_splits)
    then show "JStr t = y \<and> r = s" using str_text_inject [of t r k s] eq
      by (simp only: render.simps json.inject simp_thms)
  qed
next
  case (JList xs)
  show ?case unfolding readable_def
  proof (intro allI impI)
    fix y r s
    assume eq: "render esc (JList xs) @ r = render esc y @ s"
    from render_shape [OF eq] obtain ys where y: "y = JList ys" by (cases y) (auto split: if_splits)
    have "join '','' (map (render esc) xs) @ CHR '']'' # r = join '','' (map (render esc) ys) @ CHR '']'' # s"
      using eq y by simp
    from join_inject [OF JList render_opens _ this] show "JList xs = y \<and> r = s" using y by simp
  qed
next
  case (JObj kvs)
  show ?case unfolding readable_def
  proof (intro allI impI)
    fix y r s
    assume eq: "render esc (JObj kvs) @ r = render esc y @ s"
    from render_shape [OF eq] obtain ys where y: "y = JObj ys" by (cases y) (auto split: if_splits)
    have t: "join '','' (map (pair_text esc (render esc)) kvs) @ CHR ''}'' # r
        = join '','' (map (pair_text esc (render esc)) ys) @ CHR ''}'' # s"
      using eq y by (simp add: render_obj del: render.simps)
    have "readable (pair_text esc (render esc)) kv" if "kv \<in> set kvs" for kv
      using JObj [OF that] pair_text_readable by (cases kv) auto
    from join_inject [OF this pair_text_opens _ t] show "JObj kvs = y \<and> r = s" using y by simp
  qed
next
  case JNull
  show ?case unfolding readable_def
  proof (intro allI impI)
    fix y r s
    assume eq: "render esc JNull @ r = render esc y @ s"
    from render_shape [OF eq] have "y = JNull" by (cases y) (auto split: if_splits)
    then show "JNull = y \<and> r = s" using eq by simp
  qed
next
  case (JBool b)
  show ?case unfolding readable_def
  proof (intro allI impI)
    fix y r s
    assume eq: "render esc (JBool b) @ r = render esc y @ s"
    from render_shape [OF eq] have "y = JBool b" by (cases y) (auto split: if_splits)
    then show "JBool b = y \<and> r = s" using eq by simp
  qed
qed

lemma render_inject: "render esc x = render esc y \<Longrightarrow> x = y"
  using readableD [OF render_readable, of "[]" "[]" x y] by (simp add: delimited_def)

lemma object_inject:
  assumes "render esc (sort_keys (JObj kvs)) = render esc (sort_keys (JObj kvs'))"
    and "distinct (map fst kvs)" and "distinct (map fst kvs')"
  shows "map_option sort_keys (map_of kvs k) = map_option sort_keys (map_of kvs' k)"
  using sorted_object_inject [OF render_inject [OF assms(1)] assms(2,3)] .

end

lemma unescape_raw: "unescape_char (escape_raw c @ r) = Some (c, r)"
proof (cases "126 < code c")
  case True
  then have "c \<noteq> backslash" by auto
  then show ?thesis using True by (simp add: escape_raw_def unescape_char_def)
next
  case False
  then show ?thesis using unescape_escape by (simp add: escape_raw_def)
qed

lemma escape_raw_start: "escape_raw c \<noteq> [] \<and> hd (escape_raw c) \<noteq> dquote"
  using escape_char_start [of c] by (auto simp: escape_raw_def)

interpretation ascii: escaping escape_char unescape_char
  by unfold_locales (simp_all add: unescape_escape escape_char_start)

interpretation raw: escaping escape_raw unescape_char
  by unfold_locales (simp_all add: unescape_raw escape_raw_start)

lemma dumps_inject: "dumps x = dumps y \<Longrightarrow> sort_keys x = sort_keys y"
  unfolding dumps_def by (rule ascii.render_inject)

lemmas dumps_obj_inject = ascii.object_inject [folded dumps_def]

lemma dumps_raw_inject: "dumps_raw x = dumps_raw y \<Longrightarrow> sort_keys x = sort_keys y"
  unfolding dumps_raw_def by (rule raw.render_inject)

lemmas dumps_raw_obj_inject = raw.object_inject [folded dumps_raw_def]

end
