(* ===== verification/Common.thy ===== *)
theory Common
  imports Json
begin

text \<open>
  \<^verbatim>\<open>domain/common.py\<close>: aware timestamps, their canonical text, and the digest validator.  A
  \<open>datetime\<close> is its wall-clock reading in microseconds since 0001-01-01 with an optional UTC
  offset; an instant in UTC is an integer.  \<open>isoformat\<close> is the standard library's, with its
  conversion of day numbers to calendar dates; it is injective on the representable range
  (\<open>isoformat_inject\<close>).
\<close>

subsection \<open>Timestamps\<close>

record datetime =
  naive_us :: int
  utcoffset :: "int option"

definition MAX_US :: int where "MAX_US = 315537897599999999"

definition valid_utc :: "int \<Rightarrow> bool" where
  "valid_utc t \<longleftrightarrow> 0 \<le> t \<and> t \<le> MAX_US"

definition as_utc :: "datetime \<Rightarrow> int result" where
  "as_utc value =
     (case utcoffset value of
        None \<Rightarrow> Inl (ValueError ''timestamp must include a timezone offset'')
      | Some off \<Rightarrow>
          if valid_utc (naive_us value - off) then Inr (naive_us value - off)
          else Inl (RuntimeError ''OverflowError''))"

definition ensure_utc :: "datetime \<Rightarrow> int result" where
  "ensure_utc value = as_utc value"

text \<open>Day number (0001-01-01 is day 1) to calendar date.\<close>

definition days_before_month :: "nat list" where
  "days_before_month = [0, 0, 31, 59, 90, 120, 151, 181, 212, 243, 273, 304, 334]"

definition days_in_month :: "nat list" where
  "days_in_month = [0, 31, 28, 31, 30, 31, 30, 31, 31, 30, 31, 30, 31]"

definition month_day :: "bool \<Rightarrow> nat \<Rightarrow> nat \<times> nat" where
  "month_day leap n =
     (let month = (n + 50) div 32;
          preceding = days_before_month ! month + (if month > 2 \<and> leap then 1 else 0)
      in if preceding > n then
           (month - 1,
            n - (preceding - (days_in_month ! (month - 1) + (if month - 1 = 2 \<and> leap then 1 else 0))) + 1)
         else (month, n - preceding + 1))"

definition ord2ymd :: "nat \<Rightarrow> nat \<times> nat \<times> nat" where
  "ord2ymd ordinal =
     (let n = ordinal - 1;
          n400 = n div 146097; n = n mod 146097;
          n100 = n div 36524; n = n mod 36524;
          n4 = n div 1461; n = n mod 1461;
          n1 = n div 365; n = n mod 365;
          year = n400 * 400 + 1 + n100 * 100 + n4 * 4 + n1
      in if n1 = 4 \<or> n100 = 4 then (year - 1, 12, 31)
         else (let leap = (n1 = 3 \<and> (n4 \<noteq> 24 \<or> n100 = 3));
                   (month, day) = month_day leap n
               in (year, month, day)))"

definition pad :: "nat \<Rightarrow> nat \<Rightarrow> string" where
  "pad k n = replicate (k - length (nat_text n)) (CHR ''0'') @ nat_text n"

definition isoformat :: "int \<Rightarrow> string" where
  "isoformat t =
     (let us = nat (t mod 1000000);
          secs = nat (t div 1000000 mod 86400);
          (y, m, d) = ord2ymd (nat (t div 86400000000) + 1)
      in pad 4 y @ ''-'' @ pad 2 m @ ''-'' @ pad 2 d @ ''T''
         @ pad 2 (secs div 3600) @ '':'' @ pad 2 (secs div 60 mod 60) @ '':'' @ pad 2 (secs mod 60)
         @ (if us = 0 then [] else ''.'' @ pad 6 us) @ ''+00:00'')"

text \<open>\<open>_serialize_utc\<close> and \<open>canonical_utc\<close>: the suffix becomes \<open>Z\<close>.\<close>

definition serialize_utc :: "int \<Rightarrow> string" where
  "serialize_utc t = take (length (isoformat t) - 6) (isoformat t) @ ''Z''"

definition canonical_utc :: "datetime \<Rightarrow> string result" where
  "canonical_utc value = bindR (as_utc value) (\<lambda>t. Inr (serialize_utc t))"

definition validate_sha256 :: "string \<Rightarrow> string result" where
  "validate_sha256 value =
     (if length value \<noteq> 64 \<or> \<not> list_all lower_hex value
        then Inl (ValueError ''value must be a lowercase SHA-256 hex digest'')
      else Inr value)"

text \<open>A path here is its normalised POSIX text, as \<open>Path(value).as_posix()\<close> gives it.\<close>

definition is_absolute_config_path :: "bool \<Rightarrow> string \<Rightarrow> bool" where
  "is_absolute_config_path native_absolute posix \<longleftrightarrow>
     native_absolute \<or> (take 1 posix = ''/'' \<and> take 2 posix \<noteq> ''//'')"

lemma digest_validates: "validate_sha256 (sha256_hex msg) = Inr (sha256_hex msg)"
  using hexdigest_form [of msg] by (simp add: validate_sha256_def)

subsection \<open>Calendar dates are unambiguous\<close>

definition is_leap :: "nat \<Rightarrow> bool" where
  "is_leap y \<longleftrightarrow> y mod 4 = 0 \<and> (y mod 100 \<noteq> 0 \<or> y mod 400 = 0)"

definition ymd2ord :: "nat \<Rightarrow> nat \<Rightarrow> nat \<Rightarrow> nat" where
  "ymd2ord y m d =
     (y - 1) * 365 + (y - 1) div 4 + (y - 1) div 400 - (y - 1) div 100
     + days_before_month ! m + (if m > 2 \<and> is_leap y then 1 else 0) + d"

lemma month_day_ok:
  assumes "n < 365 \<or> (leap \<and> n < 366)"
  shows "let (m, d) = month_day leap n in
    1 \<le> m \<and> m \<le> 12 \<and> 1 \<le> d \<and> d \<le> 31
    \<and> days_before_month ! m + (if m > 2 \<and> leap then 1 else 0) + d = n + 1"
proof -
  define k where "k = (n + 50) div 32"
  have k: "32 * k \<le> n + 50" "n + 50 < 32 * k + 32" unfolding k_def by simp_all
  then have "1 \<le> k" "k \<le> 12" using assms by auto
  then have "k = 1 \<or> k = 2 \<or> k = 3 \<or> k = 4 \<or> k = 5 \<or> k = 6 \<or> k = 7 \<or> k = 8 \<or> k = 9 \<or> k = 10
      \<or> k = 11 \<or> k = 12" by presburger
  then consider "k = 1" | "k = 2" | "k = 3" | "k = 4" | "k = 5" | "k = 6" | "k = 7" | "k = 8"
    | "k = 9" | "k = 10" | "k = 11" | "k = 12" by blast
  then show ?thesis
    by cases (use k assms in \<open>cases leap; simp add: month_day_def k_def [symmetric]
      days_before_month_def days_in_month_def Let_def; arith\<close>)+
qed

lemma year_days:
  assumes "c \<le> 3" and "e \<le> 24" and "g \<le> (3 :: nat)"
  shows "(400 * a + 100 * c + 4 * e + g) div 4 = 100 * a + 25 * c + e"
    and "(400 * a + 100 * c + 4 * e + g) div 100 = 4 * a + c"
    and "(400 * a + 100 * c + 4 * e + g) div 400 = a"
proof -
  have 1: "400 * a + 100 * c + 4 * e + g = g + (100 * a + 25 * c + e) * 4"
    and 2: "400 * a + 100 * c + 4 * e + g = (4 * e + g) + (4 * a + c) * 100"
    and 3: "400 * a + 100 * c + 4 * e + g = (100 * c + 4 * e + g) + a * 400" by simp_all
  show "(400 * a + 100 * c + 4 * e + g) div 4 = 100 * a + 25 * c + e"
    unfolding 1 using assms by (subst div_mult_self1) simp_all
  show "(400 * a + 100 * c + 4 * e + g) div 100 = 4 * a + c"
    unfolding 2 using assms by (subst div_mult_self1) simp_all
  show "(400 * a + 100 * c + 4 * e + g) div 400 = a"
    unfolding 3 using assms by (subst div_mult_self1) simp_all
qed

lemma year_leap:
  assumes "c \<le> 3" and "e \<le> 24" and "g \<le> (3 :: nat)"
  shows "is_leap (400 * a + 1 + 100 * c + 4 * e + g) \<longleftrightarrow> g = 3 \<and> (e \<noteq> 24 \<or> c = 3)"
proof -
  have 1: "400 * a + 1 + 100 * c + 4 * e + g = (1 + g) + (100 * a + 25 * c + e) * 4"
    and 2: "400 * a + 1 + 100 * c + 4 * e + g = (1 + 4 * e + g) + (4 * a + c) * 100"
    and 3: "400 * a + 1 + 100 * c + 4 * e + g = (1 + 100 * c + 4 * e + g) + a * 400" by simp_all
  have "(400 * a + 1 + 100 * c + 4 * e + g) mod 4 = (1 + g) mod 4" unfolding 1 by (simp only: mod_mult_self1)
  moreover have "(400 * a + 1 + 100 * c + 4 * e + g) mod 100 = (1 + 4 * e + g) mod 100"
    unfolding 2 by (simp only: mod_mult_self1)
  moreover have "(400 * a + 1 + 100 * c + 4 * e + g) mod 400 = (1 + 100 * c + 4 * e + g) mod 400"
    unfolding 3 by (simp only: mod_mult_self1)
  moreover have "(1 + g) mod 4 = 0 \<longleftrightarrow> g = 3" using assms(3) by presburger
  moreover have "(1 + 4 * e + 3) mod 100 = 0 \<longleftrightarrow> e = 24" using assms(2) by presburger
  moreover have "(1 + 100 * c + 4 * 24 + 3) mod 400 = 0 \<longleftrightarrow> c = 3" using assms(1) by presburger
  ultimately show ?thesis unfolding is_leap_def by auto
qed

lemma ord2ymd_inverse:
  assumes "1 \<le> ordinal" and "ord2ymd ordinal = (y, m, d)"
  shows "ymd2ord y m d = ordinal"
proof -
  define n where "n = ordinal - 1"
  define a where "a = n div 146097"
  define b where "b = n mod 146097"
  define c where "c = b div 36524"
  define b2 where "b2 = b mod 36524"
  define e where "e = b2 div 1461"
  define b3 where "b3 = b2 mod 1461"
  define g where "g = b3 div 365"
  define h where "h = b3 mod 365"
  have n: "ordinal = 146097 * a + 36524 * c + 1461 * e + 365 * g + h + 1"
    using assms(1) unfolding n_def a_def b_def c_def b2_def e_def b3_def g_def h_def
    by presburger
  have bounds: "b < 146097" "b2 < 36524" "b3 < 1461" "h < 365"
    unfolding b_def b2_def b3_def h_def by simp_all
  have cle: "c \<le> 4" "e \<le> 24" "g \<le> 4" "36524 * c + b2 = b" "1461 * e + b3 = b2" "365 * g + h = b3"
    using bounds unfolding c_def e_def g_def b2_def b3_def h_def by auto
  show ?thesis
  proof (cases "g = 4 \<or> c = 4")
    case True
    then have r: "y = 400 * a + 100 * c + 4 * e + g" "m = 12" "d = 31"
      using assms(2) unfolding ord2ymd_def n_def [symmetric] Let_def a_def [symmetric] b_def [symmetric]
        c_def [symmetric] b2_def [symmetric] e_def [symmetric] b3_def [symmetric] g_def [symmetric]
      by auto
    show ?thesis
    proof (cases "c = 4")
      case True
      then have z: "e = 0" "g = 0" "h = 0" using cle bounds by auto
      then show ?thesis using r n year_days [of 3 24 3 a] year_leap [of 3 24 3 a] True
        by (simp add: ymd2ord_def days_before_month_def add.commute)
    next
      case False
      then have z: "g = 4" "h = 0" "c \<le> 3" using True cle bounds by auto
      have "e \<noteq> 24 \<or> c = 3" using z cle bounds by presburger
      then have "is_leap (400 * a + 1 + 100 * c + 4 * e + 3)" using year_leap [of c e 3 a] z cle(2) by simp
      then have leap: "is_leap y" using r(1) z(1) by (simp add: ac_simps)
      have y1: "y - 1 = 400 * a + 100 * c + 4 * e + 3" using r(1) z(1) by simp
      show ?thesis unfolding ymd2ord_def y1 year_days [OF z(3) cle(2) order_refl] r(2,3)
        using leap n z by (simp add: days_before_month_def)
    qed
  next
    case False
    define leap where "leap \<longleftrightarrow> g = 3 \<and> (e \<noteq> 24 \<or> c = 3)"
    have le: "c \<le> 3" "g \<le> 3" using False cle by auto
    have r: "y = 400 * a + 1 + 100 * c + 4 * e + g" "(m, d) = month_day leap h"
      using assms(2) False unfolding ord2ymd_def n_def [symmetric] Let_def a_def [symmetric] b_def [symmetric]
        c_def [symmetric] b2_def [symmetric] e_def [symmetric] b3_def [symmetric] g_def [symmetric]
        h_def [symmetric] leap_def
      by (auto split: prod.splits)
    have "days_before_month ! m + (if m > 2 \<and> leap then 1 else 0) + d = h + 1"
      using month_day_ok [of h leap] bounds(4) r(2) by (auto split: prod.splits)
    then show ?thesis using r(1) n year_days [OF le(1) cle(2) le(2), of a]
        year_leap [OF le(1) cle(2) le(2), of a] by (simp add: ymd2ord_def leap_def)
  qed
qed

lemma ord2ymd_ranges:
  assumes "1 \<le> ordinal" and "ordinal \<le> 3652059" and "ord2ymd ordinal = (y, m, d)"
  shows "y < 10000" "m < 100" "d < 100"
proof -
  define n where "n = ordinal - 1"
  define a where "a = n div 146097"
  define b where "b = n mod 146097"
  define c where "c = b div 36524"
  define b2 where "b2 = b mod 36524"
  define e where "e = b2 div 1461"
  define b3 where "b3 = b2 mod 1461"
  define g where "g = b3 div 365"
  define h where "h = b3 mod 365"
  have sum: "n = 146097 * a + b" "b = 36524 * c + b2" "b2 = 1461 * e + b3" "b3 = 365 * g + h"
    unfolding a_def b_def c_def b2_def e_def b3_def g_def h_def by simp_all
  have bounds: "b < 146097" "b2 < 36524" "b3 < 1461" "h < 365"
    unfolding b_def b2_def b3_def h_def by simp_all
  have le: "c \<le> 4" "e \<le> 24" "g \<le> 4" using sum bounds by auto
  have tot: "146097 * a + 36524 * c + 1461 * e + 365 * g \<le> 3652058"
    using sum assms(2) n_def by simp
  have year: "400 * a + 100 * c + 4 * e + g < 9999"
  proof (rule ccontr)
    assume "\<not> 400 * a + 100 * c + 4 * e + g < 9999"
    then have big: "9999 \<le> 400 * a + 100 * c + 4 * e + g" by simp
    have a: "24 \<le> a" using big le by (intro ccontr [of "24 \<le> a"]) simp
    have "2424 \<le> 97 * a + 24 * c + e"
    proof (cases "a = 24")
      case True
      then have c: "3 \<le> c" using big le by (intro ccontr [of "3 \<le> c"]) simp
      then have "c = 4 \<or> e = 24" using big le True by (intro ccontr [of "c = 4 \<or> e = 24"]) simp
      then show ?thesis using c True le by auto
    next
      case False
      then show ?thesis using a by simp
    qed
    then show False using tot big by linarith
  qed
  have r: "(y, m, d) = (if g = 4 \<or> c = 4 then (400 * a + 100 * c + 4 * e + g, 12, 31)
      else (400 * a + 1 + 100 * c + 4 * e + g, month_day (g = 3 \<and> (e \<noteq> 24 \<or> c = 3)) h))"
    using assms(3) unfolding ord2ymd_def n_def [symmetric] Let_def a_def [symmetric] b_def [symmetric]
        c_def [symmetric] b2_def [symmetric] e_def [symmetric] b3_def [symmetric] g_def [symmetric]
        h_def [symmetric]
    by (auto split: prod.splits)
  then show "y < 10000" using year by (auto split: if_splits)
  have md: "m \<le> 12 \<and> d \<le> 31" if "(m, d) = month_day l h" for l
    using month_day_ok [of h l] bounds(4) that by (auto split: prod.splits)
  have "m \<le> 12 \<and> d \<le> 31"
  proof (cases "g = 4 \<or> c = 4")
    case False
    then have "(m, d) = month_day (g = 3 \<and> (e \<noteq> 24 \<or> c = 3)) h"
      using r by (simp only: if_False prod.inject)
    then show ?thesis by (rule md)
  qed (use r in simp)
  then show "m < 100" "d < 100" by simp_all
qed

subsection \<open>Canonical text is unambiguous\<close>

lemma length_nat_text: "n < 10 ^ Suc k \<Longrightarrow> length (nat_text n) \<le> Suc k"
proof (induction k arbitrary: n)
  case 0
  then show ?case by (simp add: nat_text.simps [of n])
next
  case (Suc k)
  show ?case
  proof (cases "n < 10")
    case True
    then show ?thesis by (simp add: nat_text.simps [of n])
  next
    case False
    have "n div 10 < 10 ^ Suc k" using Suc.prems by (simp add: less_mult_imp_div_less mult.commute)
    then show ?thesis using Suc.IH [of "n div 10"] False by (simp add: nat_text.simps [of n])
  qed
qed

lemma decimal_zeros: "decimal (replicate k (CHR ''0'') @ ds) = decimal ds"
  by (induction k) (simp_all add: decimal_def)

lemma pad_form: "n < 10 ^ Suc k \<Longrightarrow> length (pad (Suc k) n) = Suc k \<and> decimal (pad (Suc k) n) = n"
  using length_nat_text [of n k] nat_text_digits [of n] by (simp add: pad_def decimal_zeros)

lemma pad_inject:
  assumes "pad (Suc k) m @ r = pad (Suc k) n @ s" and "m < 10 ^ Suc k" and "n < 10 ^ Suc k"
  shows "m = n \<and> r = s"
  using assms pad_form [of m k] pad_form [of n k] by (metis append_eq_append_conv)

lemma pad2_step:
  assumes "c # pad 2 m @ r = c # pad 2 n @ s" and "m < 100" and "n < 100"
  shows "m = n \<and> r = s"
  using pad_inject [of 1 m r n s] assms by (simp add: numeral_2_eq_2 [symmetric])

lemma pad4_inject:
  "pad 4 m @ r = pad 4 n @ s \<Longrightarrow> m < 10000 \<Longrightarrow> n < 10000 \<Longrightarrow> m = n \<and> r = s"
  using pad_inject [of 3 m r n s] by simp

lemma pad6_inject:
  "pad 6 m @ r = pad 6 n @ s \<Longrightarrow> m < 1000000 \<Longrightarrow> n < 1000000 \<Longrightarrow> m = n \<and> r = s"
  using pad_inject [of 5 m r n s] by simp

lemma isoformat_inject:
  assumes "valid_utc a" and "valid_utc b" and "isoformat a = isoformat b"
  shows "a = b"
proof -
  define day where "day t = nat (t div 86400000000) + 1" for t :: int
  define sec where "sec t = nat (t div 1000000 mod 86400)" for t :: int
  define us where "us t = nat (t mod 1000000)" for t :: int
  obtain y m d where A: "ord2ymd (day a) = (y, m, d)" by (cases "ord2ymd (day a)")
  obtain y' m' d' where B: "ord2ymd (day b) = (y', m', d')" by (cases "ord2ymd (day b)")
  have dayr: "1 \<le> day t \<and> day t \<le> 3652059" if "valid_utc t" for t
  proof -
    have "t div 86400000000 \<le> 3652058" 
      using zdiv_mono1 [of t 315537897599999999 86400000000] that by (simp add: valid_utc_def MAX_US_def)
    then show ?thesis by (simp add: day_def nat_le_iff)
  qed
  note ra = ord2ymd_ranges [OF dayr [OF assms(1), THEN conjunct1] dayr [OF assms(1), THEN conjunct2] A]
    and rb = ord2ymd_ranges [OF dayr [OF assms(2), THEN conjunct1] dayr [OF assms(2), THEN conjunct2] B]
  have sr: "sec t < 86400" "us t < 1000000" for t
    by (simp_all add: sec_def us_def nat_less_iff)
  have hr: "sec t div 3600 < 100" "sec t div 60 mod 60 < 100" "sec t mod 60 < 100" for t
    using sr(1) [of t] by (auto simp: less_mult_imp_div_less intro: less_trans [of _ 60])
  define micros where "micros t = (if us t = 0 then [] else ''.'' @ pad 6 (us t)) @ ''+00:00''" for t
  have iso: "isoformat a = pad 4 y @ CHR ''-'' # pad 2 m @ CHR ''-'' # pad 2 d @ CHR ''T''
      # pad 2 (sec a div 3600) @ CHR '':'' # pad 2 (sec a div 60 mod 60) @ CHR '':'' # pad 2 (sec a mod 60)
      @ micros a"
    using A by (simp add: isoformat_def Let_def day_def sec_def us_def micros_def)
  have iso': "isoformat b = pad 4 y' @ CHR ''-'' # pad 2 m' @ CHR ''-'' # pad 2 d' @ CHR ''T''
      # pad 2 (sec b div 3600) @ CHR '':'' # pad 2 (sec b div 60 mod 60) @ CHR '':'' # pad 2 (sec b mod 60)
      @ micros b"
    using B by (simp add: isoformat_def Let_def day_def sec_def us_def micros_def)
  have e1: "y = y' \<and> CHR ''-'' # pad 2 m @ CHR ''-'' # pad 2 d @ CHR ''T''
      # pad 2 (sec a div 3600) @ CHR '':'' # pad 2 (sec a div 60 mod 60) @ CHR '':'' # pad 2 (sec a mod 60)
      @ micros a = CHR ''-'' # pad 2 m' @ CHR ''-'' # pad 2 d' @ CHR ''T''
      # pad 2 (sec b div 3600) @ CHR '':'' # pad 2 (sec b div 60 mod 60) @ CHR '':'' # pad 2 (sec b mod 60)
      @ micros b"
    using pad4_inject [OF _ ra(1) rb(1)] assms(3) unfolding iso iso' by blast
  note e2 = pad2_step [OF e1 [THEN conjunct2] ra(2) rb(2)]
  note e3 = pad2_step [OF e2 [THEN conjunct2] ra(3) rb(3)]
  note e4 = pad2_step [OF e3 [THEN conjunct2] hr(1) hr(1)]
  note e5 = pad2_step [OF e4 [THEN conjunct2] hr(2) hr(2)]
  note e6 = pad2_step [OF e5 [THEN conjunct2] hr(3) hr(3)]
  have "us a = us b"
    using e6 [THEN conjunct2] pad6_inject [OF _ sr(2) sr(2), of a "''+00:00''" b "''+00:00''"]
    by (auto simp: micros_def split: if_splits)
  moreover have "sec t = sec t div 3600 * 3600 + sec t div 60 mod 60 * 60 + sec t mod 60" for t
  proof -
    have "sec t div 3600 = sec t div 60 div 60" using div_mult2_eq [of "sec t" 60 60] by simp
    moreover have "sec t div 60 = sec t div 60 div 60 * 60 + sec t div 60 mod 60"
        "sec t = sec t div 60 * 60 + sec t mod 60" by simp_all
    ultimately show ?thesis by linarith
  qed
  then have "sec a = sec b" using e4 e5 e6 by metis
  moreover have "day a = day b"
    using ord2ymd_inverse [OF dayr [OF assms(1), THEN conjunct1] A]
      ord2ymd_inverse [OF dayr [OF assms(2), THEN conjunct1] B] e1 e2 e3 by simp
  moreover have "t = (int (day t) - 1) * 86400000000 + int (sec t) * 1000000 + int (us t)" if "valid_utc t" for t
  proof -
    have k: "t div 86400000000 = t div 1000000 div 86400" using zdiv_zmult2_eq [of 86400 t 1000000] by simp
    have "t div 1000000 = t div 1000000 div 86400 * 86400 + t div 1000000 mod 86400"
        "t = t div 1000000 * 1000000 + t mod 1000000" by simp_all
    then have "t = (t div 86400000000) * 86400000000 + (t div 1000000 mod 86400) * 1000000 + t mod 1000000"
      unfolding k by presburger
    then show ?thesis using that by (simp add: day_def sec_def us_def valid_utc_def pos_imp_zdiv_nonneg_iff)
  qed
  ultimately show ?thesis using assms(1,2) by metis
qed

end
