(* ===== verification/Contracts.thy ===== *)
theory Contracts
  imports Common
begin

text \<open>
  \<^verbatim>\<open>domain/contracts.py\<close>: the strict payload contracts.  Each model is a record and each has a
  validator that returns the value or the first exception: a \<open>FieldError\<close> for a field constraint,
  then what the model's own validator raises.  Identifiers (\<open>UUID\<close>) are opaque strings and a
  \<open>UTCDateTime\<close> is the UTC instant that its validator produced.
\<close>

type_synonym uuid = string
type_synonym utc = int

subsection \<open>Enumerations\<close>

datatype EntityType = HOST | USER | IP | PROCESS | FILE | DOMAIN | OTHER

datatype ResultMode = AGGREGATE | REPRESENTATIVE | TARGETED

fun mode_value :: "ResultMode \<Rightarrow> string" where
  "mode_value AGGREGATE = ''aggregate''"
| "mode_value REPRESENTATIVE = ''representative''"
| "mode_value TARGETED = ''targeted''"

fun QUERY_RESULT_LIMITS :: "ResultMode \<Rightarrow> int" where
  "QUERY_RESULT_LIMITS AGGREGATE = 500"
| "QUERY_RESULT_LIMITS REPRESENTATIVE = 10000"
| "QUERY_RESULT_LIMITS TARGETED = 10000"

definition MAX_MODEL_INVENTORY_SCOPES :: nat where "MAX_MODEL_INVENTORY_SCOPES = 3"

datatype FindingClassification = HUNT_LEAD | SUPPORTED_OBSERVATION | NOT_SUPPORTED_FINDING

datatype Confidence = LOW | MEDIUM | HIGH

datatype Disposition = SUPPORTED | NOT_SUPPORTED_WITHIN_SCOPE | INCONCLUSIVE | BUDGET_EXHAUSTED | FAILED

datatype StopReasonCode =
  HYPOTHESIS_DISPOSED | PLAN_EXHAUSTED | LOW_YIELD | BUDGET_REACHED | UNRECOVERABLE_ERROR

subsection \<open>Field constraints\<close>

definition ident_field :: "string \<Rightarrow> string \<Rightarrow> unit result" where
  "ident_field name v = ensure (v \<noteq> []) (FieldError name)"

definition ident_list :: "string \<Rightarrow> string list \<Rightarrow> unit result" where
  "ident_list name vs = ensure (list_all (\<lambda>v. v \<noteq> []) vs) (FieldError name)"

definition positive :: "string \<Rightarrow> int \<Rightarrow> unit result" where
  "positive name n = ensure (n > 0) (FieldError name)"

definition between :: "string \<Rightarrow> int \<Rightarrow> int \<Rightarrow> int \<Rightarrow> unit result" where
  "between name lo hi n = ensure (lo \<le> n \<and> n \<le> hi) (FieldError name)"

definition at_most :: "string \<Rightarrow> nat \<Rightarrow> 'a list \<Rightarrow> unit result" where
  "at_most name k xs = ensure (length xs \<le> k) (FieldError name)"

definition sha_field :: "string \<Rightarrow> string \<Rightarrow> unit result" where
  "sha_field name v =
     bindR (ensure (length v = 64) (FieldError name)) (\<lambda>_. bindR (validate_sha256 v) (\<lambda>_. Inr ()))"

fun all_checks :: "('a \<Rightarrow> unit result) \<Rightarrow> 'a list \<Rightarrow> unit result" where
  "all_checks f [] = Inr ()"
| "all_checks f (x # xs) = bindR (f x) (\<lambda>_. all_checks f xs)"

text \<open>A list of checks, the first failure wins.\<close>

fun checks :: "unit result list \<Rightarrow> unit result" where
  "checks [] = Inr ()"
| "checks (r # rs) = bindR r (\<lambda>_. checks rs)"

lemmas field_checks = ident_field_def ident_list_def positive_def between_def at_most_def
  sha_field_def validate_sha256_def

lemma checks_ok [result_simps]: "checks rs = Inr () \<longleftrightarrow> list_all (\<lambda>r. r = Inr ()) rs"
  by (induction rs) (auto simp: result_simps)

lemma all_checks_ok [result_simps]: "all_checks f xs = Inr () \<longleftrightarrow> list_all (\<lambda>x. f x = Inr ()) xs"
  by (induction xs) (auto simp: result_simps)

subsection \<open>Plans and approvals\<close>

record HuntScope =
  hs_earliest :: utc
  hs_latest :: utc
  hs_indexes :: "string list"
  hs_sourcetypes :: "string list"

definition ordered :: "utc \<Rightarrow> utc \<Rightarrow> unit result" where
  "ordered earliest latest =
     ensure (earliest < latest) (ValueError ''latest_utc must be later than earliest_utc'')"

definition validate_scope :: "HuntScope \<Rightarrow> unit result" where
  "validate_scope s =
     checks [ident_list ''indexes'' (hs_indexes s), ident_list ''sourcetypes'' (hs_sourcetypes s),
             ordered (hs_earliest s) (hs_latest s)]"

record PlanDataSource =
  pd_index :: string
  pd_sourcetypes :: "string list"
  pd_purpose :: string

record PlanQuestion =
  pq_question_id :: string
  pq_question :: string
  pq_rationale :: string
  pq_gain :: string

record HuntPlan =
  hp_plan_id :: uuid
  hp_plan_version :: int
  hp_hunt_id :: uuid
  hp_discovery_snapshot_id :: uuid
  hp_execution_config_snapshot_id :: uuid
  hp_hypothesis :: string
  hp_objective :: string
  hp_scope :: HuntScope
  hp_intelligence_refs :: "string list"
  hp_data_sources :: "PlanDataSource list"
  hp_questions :: "PlanQuestion list"
  hp_query_strategy :: "string list"
  hp_coverage_limitations :: "string list"
  hp_created_at :: utc

definition validate_data_source :: "PlanDataSource \<Rightarrow> unit result" where
  "validate_data_source d =
     checks [ident_field ''index'' (pd_index d), ident_list ''sourcetypes'' (pd_sourcetypes d),
             ident_field ''purpose'' (pd_purpose d)]"

definition validate_question :: "PlanQuestion \<Rightarrow> unit result" where
  "validate_question q =
     checks [ident_field ''question_id'' (pq_question_id q), ident_field ''question'' (pq_question q),
             ident_field ''rationale'' (pq_rationale q),
             ident_field ''expected_information_gain'' (pq_gain q)]"

definition validate_plan :: "HuntPlan \<Rightarrow> unit result" where
  "validate_plan p =
     checks [positive ''plan_version'' (hp_plan_version p), ident_field ''hypothesis'' (hp_hypothesis p),
             ident_field ''objective'' (hp_objective p), validate_scope (hp_scope p),
             ident_list ''intelligence_refs'' (hp_intelligence_refs p),
             all_checks validate_data_source (hp_data_sources p),
             all_checks validate_question (hp_questions p),
             ident_list ''query_strategy'' (hp_query_strategy p),
             ident_list ''coverage_limitations'' (hp_coverage_limitations p)]"

record PlanApproval =
  pa_approval_id :: uuid
  pa_hunt_id :: uuid
  pa_plan_id :: uuid
  pa_plan_version :: int
  pa_plan_sha256 :: string
  pa_execution_config_snapshot_id :: uuid
  pa_execution_config_sha256 :: string
  pa_approved_by :: uuid
  pa_approved_at :: utc
  pa_note :: string

definition validate_approval :: "PlanApproval \<Rightarrow> unit result" where
  "validate_approval a =
     checks [positive ''plan_version'' (pa_plan_version a), sha_field ''plan_sha256'' (pa_plan_sha256 a),
             sha_field ''execution_config_sha256'' (pa_execution_config_sha256 a)]"

subsection \<open>Queries\<close>

record QueryProposal =
  qp_question_id :: string
  qp_purpose :: string
  qp_gain :: string
  qp_spl :: string
  qp_earliest :: utc
  qp_latest :: utc
  qp_indexes :: "string list"
  qp_sourcetypes :: "string list"
  qp_requested_fields :: "string list"
  qp_result_mode :: ResultMode
  qp_max_results :: int

definition validate_query :: "QueryProposal \<Rightarrow> unit result" where
  "validate_query q =
     checks [ident_field ''question_id'' (qp_question_id q), ident_field ''purpose'' (qp_purpose q),
             ident_field ''expected_information_gain'' (qp_gain q), ident_field ''spl'' (qp_spl q),
             ident_list ''indexes'' (qp_indexes q), ident_list ''sourcetypes'' (qp_sourcetypes q),
             ident_list ''requested_fields'' (qp_requested_fields q),
             between ''max_results'' 1 10000 (qp_max_results q),
             ordered (qp_earliest q) (qp_latest q),
             ensure (qp_max_results q \<le> QUERY_RESULT_LIMITS (qp_result_mode q))
               (ValueError (''max_results exceeds '' @ mode_value (qp_result_mode q) @ '' cap''))]"

record FollowUpDecision =
  fu_question_id :: string
  fu_proposal :: "QueryProposal option"
  fu_skip_reason :: "string option"

definition validate_decision :: "FollowUpDecision \<Rightarrow> unit result" where
  "validate_decision d =
     checks [ident_field ''question_id'' (fu_question_id d),
             (case fu_proposal d of None \<Rightarrow> Inr () | Some p \<Rightarrow> validate_query p),
             (case fu_skip_reason d of
                None \<Rightarrow> Inr ()
              | Some r \<Rightarrow> ensure (1 \<le> length r \<and> length r \<le> 2000) (FieldError ''skip_reason'')),
             ensure ((fu_proposal d = None) \<noteq> (fu_skip_reason d = None))
               (ValueError ''provide exactly one of proposal or skip_reason''),
             (case fu_skip_reason d of
                None \<Rightarrow> Inr ()
              | Some r \<Rightarrow> ensure (strip r \<noteq> [])
                  (ValueError ''skip_reason must explain why the question cannot proceed'')),
             (case fu_proposal d of
                None \<Rightarrow> Inr ()
              | Some p \<Rightarrow> ensure (qp_question_id p = fu_question_id d)
                  (ValueError ''proposal question_id must match its decision''))]"

record EnforcedQueryLimits =
  el_max_results :: int
  el_max_bytes :: int
  el_timeout_seconds :: int

record QueryValidationResult =
  qv_query_id :: uuid
  qv_allowed :: bool
  qv_normalized_spl :: string
  qv_earliest :: utc
  qv_latest :: utc
  qv_cache_key :: "string option"
  qv_reason_codes :: "string list"
  qv_limits :: EnforcedQueryLimits
  qv_policy_version :: string

definition validate_limits :: "EnforcedQueryLimits \<Rightarrow> unit result" where
  "validate_limits l =
     checks [positive ''max_results'' (el_max_results l), positive ''max_bytes'' (el_max_bytes l),
             positive ''timeout_seconds'' (el_timeout_seconds l)]"

definition validate_allowed_fields :: "QueryValidationResult \<Rightarrow> unit result" where
  "validate_allowed_fields r =
     checks [ident_field ''normalized_spl'' (qv_normalized_spl r),
             (case qv_cache_key r of None \<Rightarrow> Inr () | Some k \<Rightarrow> sha_field ''cache_key'' k),
             ident_list ''reason_codes'' (qv_reason_codes r), validate_limits (qv_limits r),
             ident_field ''query_policy_version'' (qv_policy_version r),
             ordered (qv_earliest r) (qv_latest r),
             ensure (\<not> (qv_allowed r \<and> qv_cache_key r = None))
               (ValueError ''an allowed query requires a cache_key''),
             ensure (\<not> (qv_allowed r \<and> qv_reason_codes r \<noteq> []))
               (ValueError ''an allowed query cannot contain reason_codes''),
             ensure (\<not> (\<not> qv_allowed r \<and> qv_cache_key r \<noteq> None))
               (ValueError ''a rejected query must have a null cache_key''),
             ensure (\<not> (\<not> qv_allowed r \<and> qv_reason_codes r = []))
               (ValueError ''a rejected query requires at least one reason_code'')]"

subsection \<open>Assessments and evidence\<close>

record AssessmentEntity =
  ae_entity_type :: EntityType
  ae_value :: string
  ae_row_refs :: "string list"

record ProposedNextQuestion =
  nq_question :: string
  nq_rationale :: string
  nq_gain :: string

record QueryAssessment =
  qa_query_id :: uuid
  qa_question_id :: string
  qa_answered :: bool
  qa_material_progress :: bool
  qa_summary :: string
  qa_new_entities :: "AssessmentEntity list"
  qa_candidate_row_refs :: "string list"
  qa_coverage_changes :: "string list"
  qa_limitations :: "string list"
  qa_next_question :: "ProposedNextQuestion option"

definition validate_assessment :: "QueryAssessment \<Rightarrow> unit result" where
  "validate_assessment a =
     checks [ident_field ''question_id'' (qa_question_id a), ident_field ''summary'' (qa_summary a),
             all_checks (\<lambda>e. checks [ident_field ''value'' (ae_value e),
                                      ident_list ''result_row_refs'' (ae_row_refs e)]) (qa_new_entities a),
             ident_list ''evidence_candidate_row_refs'' (qa_candidate_row_refs a),
             ident_list ''coverage_changes'' (qa_coverage_changes a),
             ident_list ''limitations'' (qa_limitations a),
             (case qa_next_question a of
                None \<Rightarrow> Inr ()
              | Some q \<Rightarrow> checks [ident_field ''question'' (nq_question q),
                                 ident_field ''rationale'' (nq_rationale q),
                                 ident_field ''expected_information_gain'' (nq_gain q)])]"

datatype EvidenceKind = RAW_EVENT | AGGREGATE_ROW

record EvidenceTruncation =
  et_truncated :: bool
  et_reason :: string
  et_source_rows :: "int option"
  et_retained_rows :: "int option"
  et_source_bytes :: "int option"
  et_retained_bytes :: "int option"

definition count_field :: "string \<Rightarrow> int option \<Rightarrow> unit result" where
  "count_field name v = (case v of None \<Rightarrow> Inr () | Some n \<Rightarrow> ensure (n \<ge> 0) (FieldError name))"

definition exceeds :: "int option \<Rightarrow> int option \<Rightarrow> bool" where
  "exceeds retained source = (case (source, retained) of (Some s, Some r) \<Rightarrow> r > s | _ \<Rightarrow> False)"

definition validate_counts :: "EvidenceTruncation \<Rightarrow> unit result" where
  "validate_counts t =
     checks [count_field ''source_row_count'' (et_source_rows t),
             count_field ''retained_row_count'' (et_retained_rows t),
             count_field ''source_byte_count'' (et_source_bytes t),
             count_field ''retained_byte_count'' (et_retained_bytes t),
             ensure (\<not> exceeds (et_retained_rows t) (et_source_rows t))
               (ValueError ''retained_row_count cannot exceed source_row_count''),
             ensure (\<not> exceeds (et_retained_bytes t) (et_source_bytes t))
               (ValueError ''retained_byte_count cannot exceed source_byte_count''),
             ensure (\<not> (et_truncated t \<and> et_reason t = ''unknown''))
               (ValueError ''truncated evidence requires a reason'')]"

record EvidenceRecord =
  er_evidence_id :: uuid
  er_hunt_id :: uuid
  er_query_id :: uuid
  er_splunk_job_id :: string
  er_kind :: EvidenceKind
  er_index :: string
  er_sourcetype :: string
  er_event_time :: "utc option"
  er_collected_at :: utc
  er_source_event_ref :: string
  er_selected_result :: "(string \<times> json) list"
  er_truncation :: EvidenceTruncation
  er_sha256 :: string

definition validate_evidence :: "EvidenceRecord \<Rightarrow> unit result" where
  "validate_evidence e =
     checks [ident_field ''splunk_job_id'' (er_splunk_job_id e), ident_field ''index'' (er_index e),
             ensure (er_selected_result e \<noteq> []) (FieldError ''selected_result''),
             validate_counts (er_truncation e), sha_field ''sha256'' (er_sha256 e)]"

subsection \<open>Findings\<close>

record FindingProposal =
  fp_title :: string
  fp_classification :: FindingClassification
  fp_statement :: string
  fp_confidence :: Confidence
  fp_evidence_ids :: "uuid list"
  fp_query_ids :: "uuid list"
  fp_inference :: string
  fp_limitations :: "string list"

record Finding = FindingProposal +
  fd_finding_id :: uuid

text \<open>\<open>FINDING_GROUNDING_FIELDS\<close>: the field that must not be empty.\<close>

fun grounding_field :: "FindingClassification \<Rightarrow> string" where
  "grounding_field HUNT_LEAD = ''evidence_ids''"
| "grounding_field SUPPORTED_OBSERVATION = ''evidence_ids''"
| "grounding_field NOT_SUPPORTED_FINDING = ''query_ids''"

definition grounding_ids :: "'a FindingProposal_scheme \<Rightarrow> uuid list" where
  "grounding_ids f =
     (if grounding_field (fp_classification f) = ''evidence_ids'' then fp_evidence_ids f else fp_query_ids f)"

definition validate_grounding :: "'a FindingProposal_scheme \<Rightarrow> unit result" where
  "validate_grounding f =
     checks [ident_field ''title'' (fp_title f), ident_field ''statement'' (fp_statement f),
             ident_list ''limitations'' (fp_limitations f),
             ensure (grounding_ids f \<noteq> [])
               (ValueError (if grounding_field (fp_classification f) = ''evidence_ids''
                            then ''this finding classification requires evidence_ids''
                            else ''not_supported_within_scope requires completed query_ids''))]"

subsection \<open>Retained evidence lookups\<close>

text \<open>A float is its shortest decimal text.\<close>

datatype scalar = VStr string | VInt int | VBool bool | VFloat string

record RetainedEvidenceFilter =
  rf_field :: string
  rf_value :: scalar

definition validate_field_name :: "RetainedEvidenceFilter \<Rightarrow> unit result" where
  "validate_field_name f =
     checks [ensure (1 \<le> length (rf_field f) \<and> length (rf_field f) \<le> 128) (FieldError ''field''),
             ensure (strip (rf_field f) \<noteq> []) (ValueError ''lookup filter field must be nonempty'')]"

record RetainedEvidenceScope =
  rs_query_ids :: "string list"
  rs_filters :: "RetainedEvidenceFilter list"
  rs_earliest :: "utc option"
  rs_latest :: "utc option"

record RetainedEvidenceRequest = RetainedEvidenceScope +
  rr_offset :: int
  rr_limit :: int

definition validate_lookup :: "'a RetainedEvidenceScope_scheme \<Rightarrow> unit result" where
  "validate_lookup s =
     checks [ensure (1 \<le> length (rs_query_ids s) \<and> length (rs_query_ids s) \<le> 50) (FieldError ''query_ids''),
             ident_list ''query_ids'' (rs_query_ids s), at_most ''filters'' 8 (rs_filters s),
             all_checks validate_field_name (rs_filters s),
             ensure (no_repeats (rs_query_ids s)) (ValueError ''lookup query references must be unique''),
             ensure (no_repeats (map rf_field (rs_filters s)))
               (ValueError ''lookup filter fields must be unique''),
             (case (rs_earliest s, rs_latest s) of
                (Some a, Some b) \<Rightarrow> ensure (a < b) (ValueError ''lookup time window must increase'')
              | _ \<Rightarrow> Inr ())]"

definition validate_request :: "RetainedEvidenceRequest \<Rightarrow> unit result" where
  "validate_request r =
     checks [between ''offset'' 0 50000 (rr_offset r), between ''limit'' 1 500 (rr_limit r),
             validate_lookup r]"

record RetainedFieldCount =
  rc_field :: string
  rc_distinct_literal :: int
  rc_distinct_unambiguous :: int
  rc_missing_rows :: int
  rc_multiple_rows :: int

record RetainedInventory =
  ri_scope :: RetainedEvidenceScope
  ri_raw_record_count :: int
  ri_fields :: "RetainedFieldCount list"
  ri_limitations :: "string list"

definition validate_field_count :: "RetainedFieldCount \<Rightarrow> unit result" where
  "validate_field_count c =
     checks [ident_field ''field'' (rc_field c),
             count_field ''distinct_literal_value_count'' (Some (rc_distinct_literal c)),
             count_field ''distinct_unambiguous_value_count'' (Some (rc_distinct_unambiguous c)),
             count_field ''rows_with_missing_or_nonscalar_value'' (Some (rc_missing_rows c)),
             count_field ''rows_with_multiple_distinct_values'' (Some (rc_multiple_rows c))]"

definition validate_inventory :: "RetainedInventory \<Rightarrow> unit result" where
  "validate_inventory i =
     checks [validate_lookup (ri_scope i), count_field ''raw_record_count'' (Some (ri_raw_record_count i)),
             ensure (1 \<le> length (ri_fields i) \<and> length (ri_fields i) \<le> 32) (FieldError ''fields''),
             all_checks validate_field_count (ri_fields i), ident_list ''limitations'' (ri_limitations i)]"

subsection \<open>Question answers\<close>

record LeadCoverage =
  lc_evidence_id :: uuid
  lc_finding_numbers :: "int list"
  lc_limitation :: "string option"

definition validate_disposition :: "LeadCoverage \<Rightarrow> unit result" where
  "validate_disposition l =
     checks [ensure (list_all (\<lambda>n. n \<ge> 1) (lc_finding_numbers l)) (FieldError ''finding_numbers''),
             (case lc_limitation l of None \<Rightarrow> Inr () | Some t \<Rightarrow> ident_field ''limitation'' t),
             ensure (\<not> (lc_finding_numbers l = [] \<and> lc_limitation l = None))
               (ValueError ''an unanswered lead requires an explicit limitation''),
             ensure (no_repeats (lc_finding_numbers l))
               (ValueError ''lead finding positions must be unique'')]"

record QuestionAnswer =
  an_summary :: string
  an_findings :: "FindingProposal list"
  an_inventory_scopes :: "RetainedEvidenceScope list"
  an_lead_coverage :: "LeadCoverage list"
  an_limitations :: "string list"

record QuestionAnswerStep = QuestionAnswer +
  as_requests :: "RetainedEvidenceRequest list"

text \<open>The code compares scopes by their JSON text, which determines them.\<close>

definition require_answer_or_limitation :: "'a QuestionAnswer_scheme \<Rightarrow> unit result" where
  "require_answer_or_limitation a =
     checks [ident_field ''summary'' (an_summary a), all_checks validate_grounding (an_findings a),
             at_most ''inventory_scopes'' MAX_MODEL_INVENTORY_SCOPES (an_inventory_scopes a),
             all_checks validate_lookup (an_inventory_scopes a),
             all_checks validate_disposition (an_lead_coverage a),
             ident_list ''limitations'' (an_limitations a),
             ensure (\<not> (an_findings a = [] \<and> an_limitations a = []))
               (ValueError ''each question requires a supported finding or an explicit limitation''),
             ensure (no_repeats (an_inventory_scopes a))
               (ValueError ''question inventory scopes must be distinct'')]"

definition defer_findings_during_retrieval :: "QuestionAnswerStep \<Rightarrow> unit result" where
  "defer_findings_during_retrieval a =
     checks [at_most ''retained_evidence_requests'' 3 (as_requests a),
             all_checks validate_request (as_requests a), require_answer_or_limitation a,
             ensure (\<not> (as_requests a \<noteq> []
                        \<and> (an_findings a \<noteq> [] \<or> an_lead_coverage a \<noteq> [] \<or> an_inventory_scopes a \<noteq> [])))
               (ValueError ''request evidence before generating final findings'')]"

subsection \<open>Stop decisions and reports\<close>

record StopDecision =
  sd_disposition :: Disposition
  sd_reason_code :: StopReasonCode
  sd_summary :: string
  sd_evidence_ids :: "uuid list"
  sd_query_ids :: "uuid list"
  sd_coverage :: "string list"
  sd_limitations :: "string list"
  sd_open_questions :: "string list"

definition meaningful :: "string list \<Rightarrow> bool" where
  "meaningful vs \<longleftrightarrow> list_ex (\<lambda>v. strip v \<noteq> []) vs"

definition validate_stop_grounding :: "StopDecision \<Rightarrow> unit result" where
  "validate_stop_grounding s =
     checks [ident_field ''summary'' (sd_summary s), ident_list ''coverage'' (sd_coverage s),
             ident_list ''limitations'' (sd_limitations s), ident_list ''open_questions'' (sd_open_questions s),
             ensure (\<not> (sd_disposition s = SUPPORTED \<and> sd_evidence_ids s = []))
               (ValueError ''supported stop decisions require evidence_ids''),
             ensure (\<not> (sd_disposition s = NOT_SUPPORTED_WITHIN_SCOPE \<and> sd_query_ids s = []))
               (ValueError ''not_supported_within_scope requires query_ids''),
             (if sd_reason_code s = BUDGET_REACHED
                then ensure (sd_disposition s = BUDGET_EXHAUSTED)
                  (ValueError ''budget_reached requires budget_exhausted disposition'')
              else ensure (sd_disposition s \<noteq> BUDGET_EXHAUSTED)
                  (ValueError ''budget_exhausted requires budget_reached reason_code'')),
             (if sd_reason_code s = UNRECOVERABLE_ERROR
                then ensure (sd_disposition s = FAILED)
                  (ValueError ''unrecoverable_error requires failed disposition'')
              else ensure (sd_disposition s \<noteq> FAILED)
                  (ValueError ''failed requires unrecoverable_error reason_code'')),
             ensure (\<not> (sd_disposition s \<in> {NOT_SUPPORTED_WITHIN_SCOPE, INCONCLUSIVE, BUDGET_EXHAUSTED}
                        \<and> \<not> (meaningful (sd_coverage s) \<or> meaningful (sd_limitations s))))
               (ValueError ''negative, inconclusive, and budget stop decisions require coverage or limitations'')]"

record ReportConclusion =
  co_text :: string
  co_finding_ids :: "uuid list"
  co_evidence_ids :: "uuid list"
  co_query_ids :: "uuid list"

record ReportEntity =
  re_entity_type :: EntityType
  re_value :: string
  re_evidence_ids :: "uuid list"

record ReportTimelineEntry =
  tl_time :: "utc option"
  tl_description :: string
  tl_evidence_ids :: "uuid list"

record ReportContent =
  rp_hunt_id :: uuid
  rp_plan_id :: uuid
  rp_plan_version :: int
  rp_plan_sha256 :: string
  rp_config_snapshot_id :: uuid
  rp_config_sha256 :: string
  rp_hypothesis :: string
  rp_objective_and_scope :: string
  rp_data_sources_used :: "string list"
  rp_finding_ids :: "uuid list"
  rp_evidence_ids :: "uuid list"
  rp_query_ids :: "uuid list"
  rp_entities :: "ReportEntity list"
  rp_timeline :: "ReportTimelineEntry list"
  rp_coverage :: "string list"
  rp_limitations :: "string list"
  rp_conclusion :: ReportConclusion
  rp_disposition :: Disposition

definition validate_report :: "ReportContent \<Rightarrow> unit result" where
  "validate_report r =
     checks [positive ''approved_plan_version'' (rp_plan_version r),
             sha_field ''approved_plan_sha256'' (rp_plan_sha256 r),
             sha_field ''execution_config_sha256'' (rp_config_sha256 r),
             ident_field ''hypothesis'' (rp_hypothesis r),
             ident_field ''objective_and_scope'' (rp_objective_and_scope r),
             ident_list ''data_sources_used'' (rp_data_sources_used r),
             all_checks (\<lambda>e. ident_field ''value'' (re_value e)) (rp_entities r),
             all_checks (\<lambda>t. ident_field ''description'' (tl_description t)) (rp_timeline r),
             ident_list ''coverage'' (rp_coverage r), ident_list ''limitations'' (rp_limitations r),
             ident_field ''text'' (co_text (rp_conclusion r))]"

subsection \<open>What the validators guarantee\<close>

lemma checks_mem: "checks rs = Inr () \<Longrightarrow> r \<in> set rs \<Longrightarrow> r = Inr ()"
  by (simp add: checks_ok list_all_iff)

text \<open>A valid stop decision pairs its reason with its disposition: \<open>budget_reached\<close> exactly with
  \<open>budget_exhausted\<close> and \<open>unrecoverable_error\<close> exactly with \<open>failed\<close>, so every other reason ends in
  a supported, not-supported or inconclusive hunt; a supported one cites evidence, a not-supported
  one cites queries, and every outcome that is neither supported nor failed states coverage or
  limitations that are more than white space.\<close>

theorem stop_decision_coherent:
  assumes "validate_stop_grounding s = Inr ()"
  shows "(sd_reason_code s = BUDGET_REACHED) = (sd_disposition s = BUDGET_EXHAUSTED)
    \<and> (sd_reason_code s = UNRECOVERABLE_ERROR) = (sd_disposition s = FAILED)
    \<and> (case sd_disposition s of
         SUPPORTED \<Rightarrow> sd_evidence_ids s \<noteq> []
       | NOT_SUPPORTED_WITHIN_SCOPE \<Rightarrow>
           sd_query_ids s \<noteq> [] \<and> (\<exists>v. v \<in> set (sd_coverage s @ sd_limitations s) \<and> strip v \<noteq> [])
       | INCONCLUSIVE \<Rightarrow> (\<exists>v. v \<in> set (sd_coverage s @ sd_limitations s) \<and> strip v \<noteq> [])
       | BUDGET_EXHAUSTED \<Rightarrow> (\<exists>v. v \<in> set (sd_coverage s @ sd_limitations s) \<and> strip v \<noteq> [])
       | FAILED \<Rightarrow> True)"
  using assms
  by (cases "sd_disposition s"; cases "sd_reason_code s")
    (auto simp: validate_stop_grounding_def result_simps meaningful_def list_ex_iff)

definition example_stop :: StopDecision where
  "example_stop = \<lparr>sd_disposition = BUDGET_EXHAUSTED, sd_reason_code = BUDGET_REACHED,
     sd_summary = ''Query budget spent'', sd_evidence_ids = [], sd_query_ids = [''q1''],
     sd_coverage = [''web proxy''], sd_limitations = [], sd_open_questions = []\<rparr>"

theorem stop_decision_coherent_witness:
  "validate_stop_grounding example_stop = Inr ()
   \<and> (\<exists>v. v \<in> set (sd_coverage example_stop @ sd_limitations example_stop) \<and> strip v \<noteq> [])"
proof -
  have ok: "validate_stop_grounding example_stop = Inr ()" by code_simp
  show ?thesis using stop_decision_coherent [OF ok] ok by (simp add: example_stop_def)
qed

text \<open>An answer step that asks for retained evidence carries no conclusions yet, and it still
  explains itself: no findings, no lead coverage, no inventory scopes, at least one limitation,
  and every requested page is bounded by 500 rows and 50 completed queries.\<close>

theorem retrieval_step_defers_conclusions:
  assumes "defer_findings_during_retrieval a = Inr ()" and "as_requests a \<noteq> []"
  shows "an_findings a = [] \<and> an_lead_coverage a = [] \<and> an_inventory_scopes a = []
    \<and> an_limitations a \<noteq> []
    \<and> length (as_requests a) \<le> 3
    \<and> list_all (\<lambda>r. 1 \<le> rr_limit r \<and> rr_limit r \<le> 500 \<and> length (rs_query_ids r) \<le> 50) (as_requests a)"
proof -
  have ok: "require_answer_or_limitation a = Inr ()"
    and n: "length (as_requests a) \<le> 3"
    and reqs: "list_all (\<lambda>r. validate_request r = Inr ()) (as_requests a)"
    and d: "an_findings a = [] \<and> an_lead_coverage a = [] \<and> an_inventory_scopes a = []"
    using assms unfolding defer_findings_during_retrieval_def checks_ok
    by (simp_all add: at_most_def result_simps)
  have "\<not> (an_findings a = [] \<and> an_limitations a = [])"
    using ok unfolding require_answer_or_limitation_def checks_ok by (simp add: result_simps)
  moreover have "1 \<le> rr_limit r \<and> rr_limit r \<le> 500 \<and> length (rs_query_ids r) \<le> 50"
    if "validate_request r = Inr ()" for r
    using that unfolding validate_request_def validate_lookup_def checks_ok
    by (simp add: between_def result_simps)
  ultimately show ?thesis using d n reqs by (simp add: list_all_iff)
qed

definition example_step :: QuestionAnswerStep where
  "example_step = \<lparr>an_summary = ''Need the proxy rows'', an_findings = [], an_inventory_scopes = [],
     an_lead_coverage = [], an_limitations = [''Rows not yet supplied''],
     as_requests = [\<lparr>rs_query_ids = [''Q1''], rs_filters = [], rs_earliest = None, rs_latest = None,
       rr_offset = 0, rr_limit = 100\<rparr>]\<rparr>"

theorem retrieval_step_defers_conclusions_witness:
  "defer_findings_during_retrieval example_step = Inr () \<and> an_limitations example_step \<noteq> []"
proof -
  have ok: "defer_findings_during_retrieval example_step = Inr ()" by code_simp
  moreover have "as_requests example_step \<noteq> []" by (simp add: example_step_def)
  ultimately show ?thesis using retrieval_step_defers_conclusions by blast
qed

text \<open>A valid follow-up decision is a proposal for its own question or a reason, never both.\<close>

lemma follow_up_exclusive:
  assumes "validate_decision d = Inr ()"
  shows "(\<exists>p. fu_proposal d = Some p \<and> fu_skip_reason d = None \<and> validate_query p = Inr ()
            \<and> qp_question_id p = fu_question_id d)
       \<or> (\<exists>r. fu_proposal d = None \<and> fu_skip_reason d = Some r \<and> strip r \<noteq> [])"
  using assms unfolding validate_decision_def checks_ok
  by (cases "fu_proposal d"; cases "fu_skip_reason d") (simp_all add: result_simps)

end
