(* ===== verification/SPLPolicy.thy ===== *)
theory SPLPolicy
  imports SPLSource SPLNormal Contracts
begin

text \<open>
  The class \<open>SPLPolicy\<close> of \<^verbatim>\<open>domain/spl_policy.py\<close>: construction, the allow/reject decision on a
  query proposal, and the cache key of an allowed query.  The identifier that \<open>uuid4\<close> draws is an
  argument.  The results: an allowed query can match only events of approved and discovered
  sources inside the approved window and row cap; a decision is always produced; and the cache
  key determines what is executed, up to SHA-256 collisions.
\<close>

subsection \<open>Construction\<close>

record SPLPolicy =
  sp_discovered_indexes :: "string list"
  sp_discovered_sourcetypes :: "string list"
  sp_discovered_fields :: "string list"
  sp_approved_indexes :: "string list"
  sp_approved_sourcetypes :: "string list"
  sp_earliest :: utc
  sp_latest :: utc
  sp_connection_id :: string
  sp_snapshot_id :: string
  sp_max_results_by_mode :: "(string \<times> int) list"
  sp_max_bytes :: int
  sp_timeout_seconds :: int

definition default_caps :: "(string \<times> int) list" where
  "default_caps = map (\<lambda>m. (mode_value m, QUERY_RESULT_LIMITS m)) [AGGREGATE, REPRESENTATIVE, TARGETED]"

text \<open>\<open>SPLPolicy.__init__\<close>; an absent or empty \<open>max_results_by_mode\<close> is the default.\<close>

definition make_policy ::
  "string list \<Rightarrow> string list \<Rightarrow> string list \<Rightarrow> string list \<Rightarrow> string list \<Rightarrow> datetime \<Rightarrow> datetime \<Rightarrow>
   string \<Rightarrow> string \<Rightarrow> (string \<times> int) list \<Rightarrow> int \<Rightarrow> int \<Rightarrow> SPLPolicy result" where
  "make_policy d_indexes d_sourcetypes d_fields a_indexes a_sourcetypes earliest latest connection
     snapshot caps max_bytes timeout =
     bindR (ensure_utc earliest) (\<lambda>e.
     bindR (ensure_utc latest) (\<lambda>l.
       Inr \<lparr>sp_discovered_indexes = d_indexes, sp_discovered_sourcetypes = d_sourcetypes,
            sp_discovered_fields = d_fields, sp_approved_indexes = a_indexes,
            sp_approved_sourcetypes = a_sourcetypes, sp_earliest = e, sp_latest = l,
            sp_connection_id = connection, sp_snapshot_id = snapshot,
            sp_max_results_by_mode = (if caps = [] then default_caps else caps),
            sp_max_bytes = max_bytes, sp_timeout_seconds = timeout\<rparr>))"

subsection \<open>Validation\<close>

text \<open>\<open>except ValueError as exc: reasons.append(str(exc))\<close>; other exceptions pass through.\<close>

definition catch_value_error :: "'a result \<Rightarrow> (string list) result" where
  "catch_value_error r =
     (case r of
        Inr _ \<Rightarrow> Inr []
      | Inl e \<Rightarrow> (case e of ValueError m \<Rightarrow> Inr [m] | _ \<Rightarrow> Inl e))"

text \<open>The first part of \<open>validate\<close>: the normalised text, the search expression and the reasons.\<close>

definition text_reasons :: "SPLPolicy \<Rightarrow> string \<Rightarrow> (string \<times> string \<times> string list) result" where
  "text_reasons policy spl =
     (case parse_spl spl of
        Inl _ \<Rightarrow>
          (let n = join '' '' (split_ws spl) in
           Inr (if n = [] then ''invalid'' else n, spl, [''spl_not_allowed'']))
      | Inr parsed \<Rightarrow>
          let scope_expression = snd (hd (command_segments parsed)) in
          (case preserve_raw_source_fields parsed of
             Inl e \<Rightarrow> bindR (catch_value_error (Inl e :: unit result))
                        (\<lambda>rs. Inr (normalized parsed, scope_expression, rs))
           | Inr n \<Rightarrow> bindR (catch_value_error (validate_field_references parsed (sp_discovered_fields policy)))
                        (\<lambda>rs. Inr (n, scope_expression, rs))))"

definition branch_reasons :: "string \<Rightarrow> string list" where
  "branch_reasons expr =
     (case source_branches expr of
        Inl _ \<Rightarrow> [''source_expression_not_supported'']
      | Inr branches \<Rightarrow>
          if branches = [] then [''source_scope_contradictory'']
          else if unbounded branches then [''source_scope_unbounded'']
          else [])"

definition metadata_reasons :: "string list \<Rightarrow> string list \<Rightarrow> string \<Rightarrow> string \<Rightarrow> string list" where
  "metadata_reasons declared found missing mismatch =
     (if declared = [] \<or> found = [] then [missing]
      else if set found \<noteq> set declared then [mismatch] else [])"

definition if_reason :: "bool \<Rightarrow> string \<Rightarrow> string list" where
  "if_reason b reason = (if b then [reason] else [])"

definition mode_cap :: "SPLPolicy \<Rightarrow> QueryProposal \<Rightarrow> int" where
  "mode_cap policy q =
     (case map_of (sp_max_results_by_mode policy) (mode_value (qp_result_mode q)) of
        None \<Rightarrow> 0 | Some n \<Rightarrow> n)"

definition scope_reasons ::
  "SPLPolicy \<Rightarrow> QueryProposal \<Rightarrow> string list option \<Rightarrow> string \<Rightarrow> string list" where
  "scope_reasons policy q open_questions expr =
     branch_reasons expr
     @ if_reason (snd (scope_values expr ''index'')) ''index_scope_not_exact''
     @ if_reason (snd (scope_values expr ''sourcetype'')) ''sourcetype_scope_not_exact''
     @ metadata_reasons (qp_indexes q) (fst (scope_values expr ''index''))
         ''index_scope_missing'' ''index_metadata_mismatch''
     @ metadata_reasons (qp_sourcetypes q) (fst (scope_values expr ''sourcetype''))
         ''sourcetype_scope_missing'' ''sourcetype_metadata_mismatch''
     @ if_reason (inline_time (qp_spl q)) ''inline_time_not_allowed''
     @ if_reason (case open_questions of None \<Rightarrow> False | Some ids \<Rightarrow> qp_question_id q \<notin> set ids)
         ''question_not_open''
     @ if_reason (\<not> list_all (\<lambda>i. i \<in> set (sp_approved_indexes policy)
                              \<and> i \<in> set (sp_discovered_indexes policy)) (qp_indexes q))
         ''index_outside_scope''
     @ if_reason (\<not> list_all (\<lambda>s. s \<in> set (sp_approved_sourcetypes policy)
                              \<and> s \<in> set (sp_discovered_sourcetypes policy)) (qp_sourcetypes q))
         ''sourcetype_outside_scope''
     @ if_reason (\<not> list_all (\<lambda>f. f \<in> set (sp_discovered_fields policy) \<or> f \<in> set BUILTIN_FIELDS)
                      (qp_requested_fields q))
         ''field_not_discovered''
     @ if_reason (qp_earliest q < sp_earliest policy \<or> qp_latest q > sp_latest policy)
         ''time_outside_scope''
     @ if_reason (qp_max_results q > mode_cap policy q) ''result_limit_exceeded''"

definition cache_material :: "SPLPolicy \<Rightarrow> QueryProposal \<Rightarrow> string \<Rightarrow> json" where
  "cache_material policy q nspl =
     JObj [(''normalized_spl'', JStr nspl),
           (''connection_id'', JStr (sp_connection_id policy)),
           (''execution_config_snapshot_id'', JStr (sp_snapshot_id policy)),
           (''earliest_utc'', JStr (isoformat (qp_earliest q))),
           (''latest_utc'', JStr (isoformat (qp_latest q))),
           (''max_results'', JInt (qp_max_results q)),
           (''max_bytes'', JInt (sp_max_bytes policy)),
           (''timeout_seconds'', JInt (sp_timeout_seconds policy)),
           (''policy_version'', JStr POLICY_VERSION)]"

definition validation_result ::
  "SPLPolicy \<Rightarrow> QueryProposal \<Rightarrow> uuid \<Rightarrow> string \<Rightarrow> string list \<Rightarrow> QueryValidationResult" where
  "validation_result policy q query_id nspl reasons =
     \<lparr>qv_query_id = query_id, qv_allowed = (reasons = []), qv_normalized_spl = nspl,
      qv_earliest = qp_earliest q, qv_latest = qp_latest q,
      qv_cache_key = (if reasons = [] then Some (json_digest (cache_material policy q nspl)) else None),
      qv_reason_codes = fromkeys reasons,
      qv_limits = \<lparr>el_max_results = min (qp_max_results q) (max (mode_cap policy q) 1),
                   el_max_bytes = sp_max_bytes policy,
                   el_timeout_seconds = sp_timeout_seconds policy\<rparr>,
      qv_policy_version = POLICY_VERSION\<rparr>"

definition validate ::
  "SPLPolicy \<Rightarrow> QueryProposal \<Rightarrow> string list option \<Rightarrow> uuid \<Rightarrow> QueryValidationResult result" where
  "validate policy q open_questions query_id =
     bindR (text_reasons policy (qp_spl q)) (\<lambda>(nspl, expr, reasons).
       let r = validation_result policy q query_id nspl
                 (reasons @ scope_reasons policy q open_questions expr)
       in bindR (validate_allowed_fields r) (\<lambda>_. Inr r))"

subsection \<open>Allowed queries stay in scope\<close>

lemma if_reason_Nil [simp]: "if_reason b r = [] \<longleftrightarrow> \<not> b"
  by (simp add: if_reason_def)

lemma metadata_reasons_Nil:
  "metadata_reasons declared found a b = [] \<longleftrightarrow> declared \<noteq> [] \<and> set found = set declared"
  by (auto simp: metadata_reasons_def)

lemma branch_reasons_Nil:
  "branch_reasons expr = [] \<longleftrightarrow>
     (\<exists>B. source_branches expr = Inr B \<and> B \<noteq> [] \<and> \<not> unbounded B)"
  by (auto simp: branch_reasons_def split: sum.splits)

lemma catch_no_reasons: "catch_value_error r = Inr [] \<Longrightarrow> \<exists>x. r = Inr x"
  by (auto simp: catch_value_error_def split: sum.splits py_error.splits)

lemma text_reasons_allowed:
  assumes "text_reasons policy spl = Inr (nspl, expr, [])"
  shows "\<exists>parsed. parse_spl spl = Inr parsed \<and> expr = snd (hd (command_segments parsed))
    \<and> preserve_raw_source_fields parsed = Inr nspl
    \<and> validate_field_references parsed (sp_discovered_fields policy) = Inr ()"
proof -
  obtain parsed where p: "parse_spl spl = Inr parsed"
    using assms by (cases "parse_spl spl") (auto simp: text_reasons_def Let_def)
  obtain n where n: "preserve_raw_source_fields parsed = Inr n"
    using assms p
    by (cases "preserve_raw_source_fields parsed")
      (auto simp: text_reasons_def Let_def result_simps dest: catch_no_reasons)
  have c: "catch_value_error (validate_field_references parsed (sp_discovered_fields policy)) = Inr []"
    and t: "nspl = n" "expr = snd (hd (command_segments parsed))"
    using assms p n by (auto simp: text_reasons_def Let_def result_simps)
  from catch_no_reasons [OF c] show ?thesis using p n t by auto
qed

lemma validate_allowed:
  assumes "validate policy q open_questions query_id = Inr r" and "qv_allowed r"
  shows "\<exists>parsed. parse_spl (qp_spl q) = Inr parsed
    \<and> preserve_raw_source_fields parsed = Inr (qv_normalized_spl r)
    \<and> validate_field_references parsed (sp_discovered_fields policy) = Inr ()
    \<and> scope_reasons policy q open_questions (snd (hd (command_segments parsed))) = []
    \<and> r = validation_result policy q query_id (qv_normalized_spl r) []"
proof -
  obtain nspl expr reasons where t: "text_reasons policy (qp_spl q) = Inr (nspl, expr, reasons)"
    and r: "r = validation_result policy q query_id nspl
      (reasons @ scope_reasons policy q open_questions expr)"
    using assms(1) by (auto simp: validate_def result_simps Let_def)
  have none: "reasons = []" "scope_reasons policy q open_questions expr = []"
    using assms(2) r by (simp_all add: validation_result_def)
  then show ?thesis using text_reasons_allowed t r by (fastforce simp: validation_result_def)
qed

lemma bounded_branch:
  assumes "\<not> unbounded B" and "b \<in> set B"
  shows "\<exists>i s. b = (Some i, Some s)"
  using assms by (cases b) (auto simp: unbounded_def list_ex_iff)

lemma scope_reasons_sources:
  assumes "scope_reasons policy q open_questions expr = []"
  shows "\<exists>ts e. source_tokens 0 expr = Inr ts \<and> conj_g ts e
    \<and> (\<forall>ev. holds ev e \<longrightarrow> ev_index ev \<in> set (qp_indexes q) \<and> ev_sourcetype ev \<in> set (qp_sourcetypes q))"
proof -
  have none: "branch_reasons expr = []" "\<not> snd (scope_values expr ''index'')"
      "\<not> snd (scope_values expr ''sourcetype'')"
      "set (fst (scope_values expr ''index'')) = set (qp_indexes q)"
      "set (fst (scope_values expr ''sourcetype'')) = set (qp_sourcetypes q)"
    using assms unfolding scope_reasons_def append_is_Nil_conv if_reason_Nil metadata_reasons_Nil
    by blast+
  obtain B where B: "source_branches expr = Inr B" "\<not> unbounded B"
    using none(1) unfolding branch_reasons_Nil by blast
  obtain ts e where te: "source_tokens 0 expr = Inr ts" "conj_g ts e" "covers B e" "from_tokens B ts"
    using source_branches_sound [OF B(1)] by blast
  have "ev_index ev \<in> set (qp_indexes q) \<and> ev_sourcetype ev \<in> set (qp_sourcetypes q)"
    if h: "holds ev e" for ev
  proof -
    obtain b where b: "b \<in> set B" "bounds_event b ev" using te(3) h unfolding covers_def by blast
    obtain i s where is_: "b = (Some i, Some s)" using bounded_branch [OF B(2) b(1)] by blast
    have "i \<in> set (fst (scope_values expr ''index''))"
        "s \<in> set (fst (scope_values expr ''sourcetype''))"
      using branch_values_in_scope [OF te(1,4) b(1) none(2,3)] is_ by auto
    then show ?thesis using b(2) is_ none(4,5) by (simp add: bounds_event_def)
  qed
  then show ?thesis using te(1,2) by blast
qed

text \<open>C1. Source scope: when the policy allows a query, its search expression parses, and every
  event that the expression can match - whatever its other terms - lies in an index that is both
  approved and discovered and in a sourcetype that is both approved and discovered; the query
  window lies inside the approved window and the row limit is within the cap of its mode.\<close>

theorem allowed_query_stays_in_scope:
  assumes "validate policy q open_questions query_id = Inr r" and "qv_allowed r"
  shows "\<exists>parsed ts e. parse_spl (qp_spl q) = Inr parsed
    \<and> source_tokens 0 (snd (hd (command_segments parsed))) = Inr ts \<and> conj_g ts e
    \<and> (\<forall>ev. holds ev e \<longrightarrow>
         ev_index ev \<in> set (sp_approved_indexes policy) \<inter> set (sp_discovered_indexes policy)
         \<and> ev_sourcetype ev \<in> set (sp_approved_sourcetypes policy) \<inter> set (sp_discovered_sourcetypes policy))
    \<and> sp_earliest policy \<le> qv_earliest r \<and> qv_latest r \<le> sp_latest policy
    \<and> el_max_results (qv_limits r) \<le> max (mode_cap policy q) 1
    \<and> el_max_results (qv_limits r) = qp_max_results q"
proof -
  obtain parsed where p: "parse_spl (qp_spl q) = Inr parsed"
    "scope_reasons policy q open_questions (snd (hd (command_segments parsed))) = []"
    and r: "r = validation_result policy q query_id (qv_normalized_spl r) []"
    using validate_allowed [OF assms] by blast
  have none: "list_all (\<lambda>i. i \<in> set (sp_approved_indexes policy)
                              \<and> i \<in> set (sp_discovered_indexes policy)) (qp_indexes q)"
      "list_all (\<lambda>s. s \<in> set (sp_approved_sourcetypes policy)
                              \<and> s \<in> set (sp_discovered_sourcetypes policy)) (qp_sourcetypes q)"
      "\<not> (qp_earliest q < sp_earliest policy \<or> qp_latest q > sp_latest policy)"
      "\<not> qp_max_results q > mode_cap policy q"
    using p(2) unfolding scope_reasons_def append_is_Nil_conv if_reason_Nil by blast+
  have lim: "sp_earliest policy \<le> qv_earliest r \<and> qv_latest r \<le> sp_latest policy
      \<and> el_max_results (qv_limits r) \<le> max (mode_cap policy q) 1
      \<and> el_max_results (qv_limits r) = qp_max_results q"
    by (subst (1 2 3 4) r) (use none(3,4) in \<open>simp add: validation_result_def\<close>)
  obtain ts e where te: "source_tokens 0 (snd (hd (command_segments parsed))) = Inr ts" "conj_g ts e"
    "\<And>ev. holds ev e \<Longrightarrow> ev_index ev \<in> set (qp_indexes q) \<and> ev_sourcetype ev \<in> set (qp_sourcetypes q)"
    using scope_reasons_sources [OF p(2)] by blast
  have ev: "ev_index ev \<in> set (sp_approved_indexes policy) \<inter> set (sp_discovered_indexes policy)
         \<and> ev_sourcetype ev \<in> set (sp_approved_sourcetypes policy) \<inter> set (sp_discovered_sourcetypes policy)"
    if "holds ev e" for ev
    using te(3) [OF that] none(1,2) unfolding list_all_iff by blast
  show ?thesis using p(1) te(1,2) ev lim by blast
qed

subsection \<open>A decision is always produced\<close>

text \<open>Results whose only exceptions are \<open>ValueError\<close>s with a message: what \<open>validate\<close> catches.\<close>

definition caught :: "'a result \<Rightarrow> bool" where
  "caught r \<longleftrightarrow> (\<forall>e. r = Inl e \<longrightarrow> (\<exists>m. e = ValueError m \<and> m \<noteq> []))"

lemma caught_Inr [simp]: "caught (Inr x)"
  by (simp add: caught_def)

lemma caught_Inl [simp]: "caught (Inl (ValueError m)) \<longleftrightarrow> m \<noteq> []"
  by (simp add: caught_def)

lemma caught_bindR: "caught r \<Longrightarrow> (\<And>x. r = Inr x \<Longrightarrow> caught (f x)) \<Longrightarrow> caught (bindR r f)"
  by (cases r) (auto simp: caught_def)

lemma caught_ensure: "m \<noteq> [] \<Longrightarrow> caught (ensure b (ValueError m))"
  by (simp add: ensure_def caught_def)

lemma caught_if: "(b \<Longrightarrow> caught x) \<Longrightarrow> (\<not> b \<Longrightarrow> caught y) \<Longrightarrow> caught (if b then x else y)"
  by simp

lemma field_name_caught: "caught (field_name t)"
  by (simp add: field_name_def)

lemma require_field_caught: "caught (require_field known w t)"
  unfolding require_field_def by (intro caught_bindR field_name_caught caught_ensure) simp

lemma expression_loop_caught: "caught (expression_loop known agg ts)"
proof (induction known agg ts rule: expression_loop.induct)
  case (2 known aggregate token rest)
  have "caught (expression_step known aggregate token rest)"
    by (simp add: expression_step_def require_field_caught caught_ensure)
  then show ?case using 2 by (simp add: caught_bindR)
qed simp

lemma expression_caught: "caught (expression known agg v)"
  by (simp add: expression_def expression_loop_caught)

lemma aliases_caught: "caught (aliases known s t)"
proof -
  have "\<exists>y. renamed_to (split_on star s) (split_on star t) name = Inr y"
    if "fnmatch name s" "count_list s star = count_list t star" for name
    using renamed_to_ok [of name s t] that by auto
  then have "\<exists>ys. map_result (renamed_to (split_on star s) (split_on star t))
      (filter (\<lambda>name. fnmatch name s) known) = Inr ys" if "count_list s star = count_list t star"
    using that by (intro map_result_total) auto
  then show ?thesis by (auto simp: aliases_def Let_def)
qed

lemma field_list_caught: "caught (field_list known options sorting w first ts)"
proof (induction known options sorting w first ts rule: field_list.induct)
  case (2 known options sorting w first token rest)
  show ?case unfolding field_list.simps
    by (intro caught_if caught_bindR require_field_caught; rule 2; assumption)
qed simp

lemma search_fields_caught: "caught (search_fields known ts)"
  by (induction known ts rule: search_fields.induct)
    (auto intro!: caught_bindR require_field_caught split: if_splits)

lemma eval_assignment_caught: "caught (eval_assignment known a)"
  by (auto simp: eval_assignment_def intro!: caught_bindR expression_caught field_name_caught)

lemma eval_loop_caught: "caught (eval_loop known d a ts)"
  by (induction known d a ts rule: eval_loop.induct)
    (auto simp: Let_def intro!: caught_bindR eval_assignment_caught)

lemma rename_step_caught: "caught (rename_step known s t)"
  unfolding rename_step_def
  by (intro caught_bindR field_name_caught require_field_caught aliases_caught)

lemma rename_loop_caught: "caught (rename_loop known rm rn ts)"
  by (induction known rm rn ts rule: rename_loop.induct)
    (auto intro!: caught_bindR rename_step_caught)

lemma stats_call_caught: "caught (stats_call known t ts)"
  unfolding stats_call_def
  by (auto intro!: caught_bindR require_field_caught field_name_caught expression_caught
      split: option.splits)

lemma stats_alias_caught: "caught (stats_alias out ts)"
  by (auto simp: stats_alias_def intro!: caught_bindR field_name_caught split: list.splits)

lemma stats_item_caught: "caught (stats_item known t ts)"
  unfolding stats_item_def
  by (auto intro!: caught_bindR stats_call_caught stats_alias_caught aliases_caught
      split: option.splits)

lemma stats_loop_caught: "caught (stats_loop known options g ts)"
proof (induction known options g ts rule: stats_loop.induct)
  case (1 known options g ts)
  show ?case
  proof (cases ts)
    case Nil
    then show ?thesis by (simp add: stats_loop.simps)
  next
    case (Cons t rest)
    have "caught (case stats_item known t rest of Inl e \<Rightarrow> Inl e
        | Inr (g', rest') \<Rightarrow> stats_loop known options (g @ g') rest')"
      if "t \<noteq> '',''" "\<not> (lower t \<in> set options \<and> 2 \<le> length rest \<and> hd rest = ''='')" "lower t \<noteq> ''by''"
    proof (cases "stats_item known t rest")
      case (Inl e)
      then show ?thesis using stats_item_caught [of known t rest] by (auto simp: caught_def)
    next
      case (Inr p)
      obtain g' rest' where p: "p = (g', rest')" by force
      show ?thesis using 1(3) [OF Cons that Inr p [symmetric]] Inr p by simp
    qed
    then show ?thesis using 1(1,2) Cons
      by (subst stats_loop.simps) (auto intro!: caught_bindR field_list_caught)
  qed
qed

lemma command_fields_caught: "caught (command_fields known c a)"
proof (cases "field_tokens a")
  case None
  then show ?thesis by (simp add: command_fields_def)
next
  case (Some ts)
  show ?thesis unfolding command_fields_def Some option.case Let_def
    by (intro caught_if caught_bindR caught_Inr search_fields_caught expression_caught eval_loop_caught
        rename_loop_caught stats_loop_caught field_list_caught require_field_caught)
qed

lemma validate_field_references_caught: "caught (validate_field_references p d)"
proof -
  have "caught (validate_segments known segs)" for known segs
    by (induction known segs rule: validate_segments.induct)
      (auto intro!: caught_bindR command_fields_caught)
  then show ?thesis unfolding validate_field_references_def by (intro caught_bindR) simp_all
qed

lemma preserve_caught: "caught (preserve_raw_source_fields p)"
proof -
  have "caught (preserve_segments segs)" for segs
    by (induction segs rule: preserve_segments.induct) (auto intro!: caught_bindR)
  then show ?thesis unfolding preserve_raw_source_fields_def by (auto intro!: caught_bindR)
qed

lemma catch_value_error_total: "caught r \<Longrightarrow> \<exists>rs. catch_value_error r = Inr rs \<and> [] \<notin> set rs"
  by (cases r) (auto simp: caught_def catch_value_error_def)

lemma rendered_nonempty: "allowed_segments segs \<Longrightarrow> join '' | '' (map render_segment segs) \<noteq> []"
proof -
  assume a: "allowed_segments segs"
  then obtain c a' ss where s: "segs = (c, a') # ss" by (cases segs) (auto simp: allowed_segments_def)
  have "c \<in> set ALLOWED_COMMANDS"
    using a unfolding s allowed_segments_def list.pred_inject fst_conv by blast
  then have "command_word c" by (rule allowed_command_word)
  then have "render_segment (c, a') \<noteq> []" using render_stripped by blast
  then show ?thesis using s by (cases ss) simp_all
qed

lemma text_reasons_total:
  "\<exists>n x rs. text_reasons policy spl = Inr (n, x, rs) \<and> n \<noteq> [] \<and> [] \<notin> set rs"
proof (cases "parse_spl spl")
  case (Inl e)
  then show ?thesis by (simp add: text_reasons_def Let_def)
next
  case (Inr p)
  have ok: "allowed_segments (command_segments p)"
    and n: "normalized p = join '' | '' (map render_segment (command_segments p))"
    using parse_spl_ok [OF Inr] by blast+
  have ne: "normalized p \<noteq> []" using rendered_nonempty [OF ok] n by simp
  show ?thesis
  proof (cases "preserve_raw_source_fields p")
    case (Inl e)
    obtain rs where "catch_value_error (Inl e :: unit result) = Inr rs" "[] \<notin> set rs"
      using catch_value_error_total [of "Inl e :: unit result"] preserve_caught [of p] Inl
      by (auto simp: caught_def)
    then show ?thesis using Inr Inl ne by (simp add: text_reasons_def Let_def)
  next
    case (Inr m)
    have "m \<noteq> []"
      using Inr ne preserve_segments_ok rendered_nonempty [OF project_allowed [OF ok, THEN conjunct1]]
      by (auto simp: preserve_raw_source_fields_def result_simps split: if_splits)
    moreover obtain rs where
      "catch_value_error (validate_field_references p (sp_discovered_fields policy)) = Inr rs" "[] \<notin> set rs"
      using catch_value_error_total [OF validate_field_references_caught] by blast
    ultimately show ?thesis using \<open>parse_spl spl = Inr p\<close> Inr by (simp add: text_reasons_def Let_def)
  qed
qed

lemma if_reason_mem: "r \<noteq> [] \<Longrightarrow> [] \<notin> set (if_reason b r)"
  by (auto simp: if_reason_def)

lemma metadata_reasons_mem: "a \<noteq> [] \<Longrightarrow> b \<noteq> [] \<Longrightarrow> [] \<notin> set (metadata_reasons ds fs a b)"
  by (auto simp: metadata_reasons_def)

lemma branch_reasons_mem: "[] \<notin> set (branch_reasons x)"
  by (simp add: branch_reasons_def split: sum.splits)

lemma scope_reasons_mem: "[] \<notin> set (scope_reasons policy q oq x)"
  unfolding scope_reasons_def set_append Un_iff de_Morgan_disj
  by (intro conjI branch_reasons_mem if_reason_mem metadata_reasons_mem; simp)

lemma validation_result_valid:
  assumes "validate_query q = Inr ()" and "0 < sp_max_bytes policy" and "0 < sp_timeout_seconds policy"
    and "n \<noteq> []" and "[] \<notin> set rs"
  shows "validate_allowed_fields (validation_result policy q query_id n rs) = Inr ()"
proof -
  have q: "0 < qp_max_results q" "qp_earliest q < qp_latest q"
    using assms(1) unfolding validate_query_def checks_ok
    by (simp_all add: between_def ordered_def result_simps)
  have key: "sha_field f (json_digest j) = Inr ()" for f j
    using hexdigest_form [of "encode (dumps j)"] digest_validates
    by (simp add: sha_field_def json_digest_def)
  show ?thesis unfolding validate_allowed_fields_def checks_ok
    using assms(2-5) q key
    by (auto simp: validation_result_def ident_field_def ident_list_def positive_def result_simps
        validate_limits_def ordered_def list_all_iff POLICY_VERSION_def simp del: ensure_simps)
qed

text \<open>C20. Validation always decides: for a valid proposal and positive limits, \<open>validate\<close> raises
  nothing - no lexer, parser or rename error escapes, and the result satisfies its own contract -
  and the query is allowed exactly when there is no reason code, which is exactly when it has a
  cache key.\<close>

theorem validate_always_decides:
  assumes "validate_query q = Inr ()" and "0 < sp_max_bytes policy" and "0 < sp_timeout_seconds policy"
  shows "\<exists>r. validate policy q open_questions query_id = Inr r
    \<and> (qv_allowed r = (qv_reason_codes r = [])) \<and> (qv_allowed r = (qv_cache_key r \<noteq> None))
    \<and> validate_allowed_fields r = Inr ()"
proof -
  obtain n x rs where t: "text_reasons policy (qp_spl q) = Inr (n, x, rs)" "n \<noteq> []" "[] \<notin> set rs"
    using text_reasons_total by blast
  let ?r = "validation_result policy q query_id n (rs @ scope_reasons policy q open_questions x)"
  have "validate_allowed_fields ?r = Inr ()"
    using validation_result_valid [OF assms t(2)] t(3) scope_reasons_mem by simp
  then show ?thesis using t(1) by (simp add: validate_def Let_def) (simp add: validation_result_def)
qed

definition example_policy :: SPLPolicy where
  "example_policy = \<lparr>sp_discovered_indexes = [''main'', ''os''], sp_discovered_sourcetypes = [''web''],
     sp_discovered_fields = [''user''], sp_approved_indexes = [''main''], sp_approved_sourcetypes = [''web''],
     sp_earliest = 0, sp_latest = 3600000000, sp_connection_id = ''c1'', sp_snapshot_id = ''s1'',
     sp_max_results_by_mode = default_caps, sp_max_bytes = 262144000, sp_timeout_seconds = 120\<rparr>"

definition example_query :: QueryProposal where
  "example_query = \<lparr>qp_question_id = ''q1'', qp_purpose = ''p'', qp_gain = ''g'',
     qp_spl = ''index=main sourcetype=web|table user'', qp_earliest = 0,
     qp_latest = 3600000000, qp_indexes = [''main''], qp_sourcetypes = [''web''],
     qp_requested_fields = [''user''], qp_result_mode = TARGETED, qp_max_results = 100\<rparr>"

lemma example_query_valid: "validate_query example_query = Inr ()"
  by code_simp

lemma example_text_reasons:
  "text_reasons example_policy (qp_spl example_query)
    = Inr (''search index=main sourcetype=web | table user index sourcetype _time _cd'',
           ''index=main sourcetype=web'', [])"
  by code_simp

lemma example_scope_reasons:
  "scope_reasons example_policy example_query (Some [''q1''])
     ''index=main sourcetype=web'' = []"
  by code_simp

lemma example_allowed:
  "\<exists>r. validate example_policy example_query (Some [''q1'']) ''id'' = Inr r \<and> qv_allowed r"
proof -
  have "0 < sp_max_bytes example_policy" "0 < sp_timeout_seconds example_policy"
    by (simp_all add: example_policy_def)
  from validation_result_valid [OF example_query_valid this]
  show ?thesis
    using example_text_reasons example_scope_reasons
    by (simp add: validate_def Let_def) (simp add: validation_result_def)
qed

theorem validate_always_decides_witness:
  "validate_query example_query = Inr ()
   \<and> (\<exists>r. validate example_policy example_query None ''id'' = Inr r
        \<and> (qv_allowed r = (qv_reason_codes r = [])) \<and> (qv_allowed r = (qv_cache_key r \<noteq> None)))"
proof -
  have "0 < sp_max_bytes example_policy" "0 < sp_timeout_seconds example_policy"
    by (simp_all add: example_policy_def)
  from validate_always_decides [OF example_query_valid this] show ?thesis using example_query_valid by blast
qed

theorem allowed_query_stays_in_scope_witness:
  "\<exists>parsed ts e. parse_spl (qp_spl example_query) = Inr parsed
    \<and> source_tokens 0 (snd (hd (command_segments parsed))) = Inr ts \<and> conj_g ts e
    \<and> \<not> holds \<lparr>ev_index = ''os'', ev_sourcetype = ''web'', ev_terms = \<lambda>_. True\<rparr> e"
proof -
  obtain r where r: "validate example_policy example_query (Some [''q1'']) ''id'' = Inr r" "qv_allowed r"
    using example_allowed by blast
  have "''os'' \<notin> set (sp_approved_indexes example_policy) \<inter> set (sp_discovered_indexes example_policy)"
    by (simp add: example_policy_def)
  then show ?thesis using allowed_query_stays_in_scope [OF r] by (metis select_convs(1) event.select_convs(1))
qed

subsection \<open>Cache keys\<close>

lemma utf8_char_form:
  "(code c < 128 \<and> utf8_char c = [code c])
   \<or> (128 \<le> code c \<and> utf8_char c = [192 + code c div 64, 128 + code c mod 64])"
  by (auto simp: utf8_char_def)

lemma code_inject: "code a = code b \<Longrightarrow> a = b"
  by (metis char_of_char)

lemma encode_inject: "encode a = encode b \<Longrightarrow> a = b"
proof (induction a arbitrary: b)
  case Nil
  show ?case
  proof (cases b)
    case (Cons d ds)
    then show ?thesis using Nil utf8_char_form [of d] by (auto simp: encode_def)
  qed simp
next
  case (Cons c cs)
  then obtain d ds where b: "b = d # ds" using utf8_char_form [of c] by (cases b) (auto simp: encode_def)
  have eq: "utf8_char c @ encode cs = utf8_char d @ encode ds" using Cons.prems b by (simp add: encode_def)
  have "code c = code d \<and> encode cs = encode ds"
  proof (cases "code c < 128")
    case True
    then have "code c # encode cs = utf8_char d @ encode ds" using eq by (simp add: utf8_char_def)
    then show ?thesis using utf8_char_form [of d] True by (elim disjE conjE) simp_all
  next
    case False
    then have l: "(192 + code c div 64) # (128 + code c mod 64) # encode cs = utf8_char d @ encode ds"
      using eq by (simp add: utf8_char_def)
    show ?thesis
    proof (cases "code d < 128")
      case True
      then show ?thesis using l by (simp add: utf8_char_def)
    next
      case False
      then have "code c div 64 = code d div 64" "code c mod 64 = code d mod 64" "encode cs = encode ds"
        using l by (simp_all add: utf8_char_def)
      then show ?thesis by (metis div_mult_mod_eq)
    qed
  qed
  then show ?case using Cons.IH code_inject b by blast
qed

text \<open>C21. The cache key's preimage is unambiguous: the bytes hashed for two requests are equal exactly
  when the normalised text, connection, execution snapshot, time window, row limit, byte limit and
  timeout are all equal, so distinct executions share a key only if SHA-256 collides.\<close>

theorem cache_material_unambiguous:
  assumes "valid_utc (qp_earliest q)" and "valid_utc (qp_latest q)"
    and "valid_utc (qp_earliest q')" and "valid_utc (qp_latest q')"
  shows "encode (dumps (cache_material p q n)) = encode (dumps (cache_material p' q' n')) \<longleftrightarrow>
    n = n' \<and> sp_connection_id p = sp_connection_id p' \<and> sp_snapshot_id p = sp_snapshot_id p'
    \<and> qp_earliest q = qp_earliest q' \<and> qp_latest q = qp_latest q'
    \<and> qp_max_results q = qp_max_results q' \<and> sp_max_bytes p = sp_max_bytes p'
    \<and> sp_timeout_seconds p = sp_timeout_seconds p'" (is "?eq \<longleftrightarrow> ?same")
proof
  assume ?eq
  then have d: "dumps (cache_material p q n) = dumps (cache_material p' q' n')" by (rule encode_inject)
  have k: "map_option sort_keys (map_of (case cache_material p q n of JObj kvs \<Rightarrow> kvs) key)
      = map_option sort_keys (map_of (case cache_material p' q' n' of JObj kvs \<Rightarrow> kvs) key)" for key
    unfolding cache_material_def json.case
    by (rule dumps_obj_inject) (use d in \<open>simp_all add: cache_material_def\<close>)
  have iso: "isoformat (qp_earliest q) = isoformat (qp_earliest q')"
      "isoformat (qp_latest q) = isoformat (qp_latest q')"
    using k [of "''earliest_utc''"] k [of "''latest_utc''"] by (simp_all add: cache_material_def)
  show ?same
    using k [of "''normalized_spl''"] k [of "''connection_id''"] k [of "''execution_config_snapshot_id''"]
      k [of "''max_results''"] k [of "''max_bytes''"] k [of "''timeout_seconds''"]
      isoformat_inject [OF assms(1,3) iso(1)] isoformat_inject [OF assms(2,4) iso(2)]
    by (simp add: cache_material_def)
next
  assume ?same
  then show ?eq by (simp add: cache_material_def)
qed

theorem cache_material_unambiguous_witness:
  "encode (dumps (cache_material example_policy example_query ''search a''))
    \<noteq> encode (dumps (cache_material example_policy example_query ''search b''))"
proof -
  have "valid_utc (qp_earliest example_query)" "valid_utc (qp_latest example_query)"
    by (simp_all add: example_query_def valid_utc_def MAX_US_def)
  then show ?thesis using cache_material_unambiguous [of example_query example_query] by simp
qed

end
