(* ===== verification/QueryStrategy.thy ===== *)
theory QueryStrategy
  imports SPLPolicy Complex_Main "HOL-Library.Product_Lexorder"
begin

text \<open>
  \<^verbatim>\<open>domain/query_strategy.py\<close>: selectivity estimates and the shadow ranking of candidate queries.
  Loosely typed inputs keep their shape: a value that may not be a sequence is an option, an item
  that may not be a string is an option, and a timestamp may be missing or of another type.
  Ratios are exact rationals where the code uses floating point.  A \<open>QueryStrategyError\<close> is a
  \<open>ValueError\<close> named by its reason code.
\<close>

subsection \<open>Inputs\<close>

type_synonym any_sequence = "string option list option"

datatype time_value = Missing | Stamp datetime | Foreign

record ScopeEntity =
  se_field :: string
  se_value :: string

record approved_scope =
  sc_earliest :: time_value
  sc_latest :: time_value
  sc_indexes :: any_sequence
  sc_sourcetypes :: any_sequence
  sc_entities :: "ScopeEntity option list option"

record discovery =
  dc_complete :: "bool option"
  dc_indexes :: any_sequence
  dc_sourcetypes :: any_sequence
  dc_fields :: any_sequence

definition DEFAULT_CANDIDATE_CAP :: int where "DEFAULT_CANDIDATE_CAP = 8"

definition MAX_CANDIDATE_CAP :: int where "MAX_CANDIDATE_CAP = 32"

datatype SelectivityConfidence = CHIGH | CMEDIUM | CLOW | CUNKNOWN

text \<open>\<open>_bounded_int\<close> on an integer.\<close>

definition bounded_int :: "int \<Rightarrow> int \<Rightarrow> int option \<Rightarrow> int option" where
  "bounded_int v minimum maximum =
     (if v < minimum then None
      else case maximum of Some m \<Rightarrow> if v > m then None else Some v | None \<Rightarrow> Some v)"

definition round_half_up :: "rat \<Rightarrow> int" where
  "round_half_up v = floor (v + 1 / 2)"

definition clamp :: "'a::linorder \<Rightarrow> 'a \<Rightarrow> 'a \<Rightarrow> 'a" where
  "clamp v minimum maximum = min maximum (max minimum v)"

definition string_items :: "string option list \<Rightarrow> string list" where
  "string_items items = filter (\<lambda>s. s \<noteq> []) (map strip (List.map_filter (\<lambda>i. i) items))"

definition string_sequence :: "any_sequence \<Rightarrow> string list option" where
  "string_sequence v = map_option string_items v"

text \<open>An item is an entity, a mapping that validates as one, or neither.\<close>

definition scope_entities :: "ScopeEntity option list option \<Rightarrow> ScopeEntity list option" where
  "scope_entities v =
     (case v of
        None \<Rightarrow> None
      | Some items \<Rightarrow> if None \<in> set items then None else Some (map the items))"

text \<open>\<open>ensure_utc\<close> inside \<open>try ... except (TypeError, ValueError)\<close>: \<open>None\<close> is the handler's branch; a
  value that is not a timestamp has no \<open>tzinfo\<close> and its \<open>AttributeError\<close> is not caught.\<close>

definition try_utc :: "time_value \<Rightarrow> (utc option) result" where
  "try_utc v =
     (case v of
        Missing \<Rightarrow> Inl (RuntimeError ''AttributeError'')
      | Foreign \<Rightarrow> Inl (RuntimeError ''AttributeError'')
      | Stamp d \<Rightarrow>
          (case as_utc d of
             Inr t \<Rightarrow> Inr (Some t)
           | Inl (ValueError _) \<Rightarrow> Inr None
           | Inl e \<Rightarrow> Inl e))"

subsection \<open>Candidate identity\<close>

definition proposal_json :: "QueryProposal \<Rightarrow> json" where
  "proposal_json q =
     JObj [(''question_id'', JStr (qp_question_id q)), (''purpose'', JStr (qp_purpose q)),
           (''expected_information_gain'', JStr (qp_gain q)), (''spl'', JStr (qp_spl q)),
           (''earliest_utc'', JStr (serialize_utc (qp_earliest q))),
           (''latest_utc'', JStr (serialize_utc (qp_latest q))),
           (''indexes'', JList (map JStr (qp_indexes q))),
           (''sourcetypes'', JList (map JStr (qp_sourcetypes q))),
           (''requested_fields'', JList (map JStr (qp_requested_fields q))),
           (''result_mode'', JStr (mode_value (qp_result_mode q))),
           (''max_results'', JInt (qp_max_results q))]"

definition candidate_id :: "string \<Rightarrow> QueryProposal \<Rightarrow> string result" where
  "candidate_id hunt_id q =
     (if strip hunt_id = [] then Inl (ValueError ''missing_hunt_id'')
      else Inr (''query:'' @ sha256_hex (encode (dumps_raw
             (JObj [(''hunt_id'', JStr hunt_id), (''proposal'', proposal_json q)])))))"

subsection \<open>History\<close>

record QueryHistoryObservation =
  ho_query_id :: string
  ho_cache_key :: "string option"
  ho_normalized_spl :: "string option"
  ho_result_rows :: int
  ho_result_bytes :: int
  ho_state :: string
  ho_outcome :: "string option"
  ho_truncated :: bool
  ho_partial_fetch :: bool
  ho_expires_at :: "utc option"

definition mk_observation :: "QueryHistoryObservation \<Rightarrow> QueryHistoryObservation result" where
  "mk_observation o1 =
     (if ho_query_id o1 = [] then Inl (ValueError ''query history query_id must be non-empty'')
      else if ho_result_rows o1 < 0 \<or> ho_result_bytes o1 < 0
        then Inl (ValueError ''query history result counters must be non-negative'')
      else Inr o1)"

text \<open>What the lookups of a mapping give, after their fallback keys and defaults; \<open>None\<close> where the
  value has the wrong type.\<close>

record history_mapping =
  hm_query_id :: "string option"
  hm_expires :: time_value
  hm_rows :: "int option"
  hm_bytes :: "int option"
  hm_cache_key :: "string option"
  hm_normalized_spl :: "string option"
  hm_state :: string
  hm_outcome :: "string option"
  hm_truncated :: bool
  hm_partial :: bool

datatype history_item = Observed QueryHistoryObservation | Mapped history_mapping | NotMapping

definition mapped_observation :: "history_mapping \<Rightarrow> string \<Rightarrow> utc option \<Rightarrow> int \<Rightarrow> int \<Rightarrow> QueryHistoryObservation" where
  "mapped_observation m query_id expires rows bytes =
     \<lparr>ho_query_id = query_id, ho_cache_key = hm_cache_key m, ho_normalized_spl = hm_normalized_spl m,
      ho_result_rows = rows, ho_result_bytes = bytes, ho_state = hm_state m, ho_outcome = hm_outcome m,
      ho_truncated = hm_truncated m, ho_partial_fetch = hm_partial m, ho_expires_at = expires\<rparr>"

definition bounded_option :: "int option \<Rightarrow> int option" where
  "bounded_option v = (case v of None \<Rightarrow> None | Some n \<Rightarrow> bounded_int n 0 None)"

definition finish_history :: "history_mapping \<Rightarrow> string \<Rightarrow> utc option \<Rightarrow> QueryHistoryObservation option" where
  "finish_history m query_id expires =
     (case (bounded_option (hm_rows m), bounded_option (hm_bytes m)) of
        (Some rows, Some bytes) \<Rightarrow>
          (case mk_observation (mapped_observation m query_id expires rows bytes) of
             Inr o1 \<Rightarrow> Some o1 | Inl _ \<Rightarrow> None)
      | _ \<Rightarrow> None)"

definition parse_history :: "history_item \<Rightarrow> (QueryHistoryObservation option) result" where
  "parse_history item =
     (case item of
        Observed o1 \<Rightarrow> Inr (Some o1)
      | NotMapping \<Rightarrow> Inr None
      | Mapped m \<Rightarrow>
          (case hm_query_id m of
             None \<Rightarrow> Inr None
           | Some query_id \<Rightarrow>
               if strip query_id = [] then Inr None
               else if hm_expires m = Missing then Inr (finish_history m query_id None)
               else bindR (try_utc (hm_expires m))
                      (\<lambda>t. Inr (Option.bind t (\<lambda>e. finish_history m query_id (Some e))))))"

definition reusable :: "string \<Rightarrow> string \<Rightarrow> utc \<Rightarrow> QueryHistoryObservation \<Rightarrow> bool" where
  "reusable cache_key normalized_spl current o1 \<longleftrightarrow>
     ho_state o1 \<in> {''completed'', ''cached''}
     \<and> ho_outcome o1 \<in> {None, Some ''success'', Some ''succeeded''}
     \<and> \<not> ho_truncated o1 \<and> \<not> ho_partial_fetch o1
     \<and> (case ho_expires_at o1 of None \<Rightarrow> False | Some e \<Rightarrow> current < e)
     \<and> ho_cache_key o1 = Some cache_key
     \<and> (case ho_normalized_spl o1 of None \<Rightarrow> True | Some n \<Rightarrow> n = normalized_spl)"

fun eligible_items ::
  "string \<Rightarrow> string \<Rightarrow> utc \<Rightarrow> history_item list \<Rightarrow> (QueryHistoryObservation list) result" where
  "eligible_items cache_key normalized_spl current [] = Inr []"
| "eligible_items cache_key normalized_spl current (item # items) =
     bindR (parse_history item) (\<lambda>parsed.
     bindR (eligible_items cache_key normalized_spl current items) (\<lambda>rest.
       case parsed of
         None \<Rightarrow> Inr rest
       | Some o1 \<Rightarrow> Inr (if reusable cache_key normalized_spl current o1 then o1 # rest else rest)))"

definition eligible_history ::
  "history_item list \<Rightarrow> string option \<Rightarrow> string \<Rightarrow> datetime option \<Rightarrow>
   (QueryHistoryObservation list) result" where
  "eligible_history history cache_key normalized_spl now =
     (case (cache_key, now) of
        (Some key, Some t) \<Rightarrow>
          bindR (ensure_utc t) (\<lambda>current. eligible_items key normalized_spl current history)
      | _ \<Rightarrow> Inr [])"

subsection \<open>Filters\<close>

definition name_char :: "char \<Rightarrow> bool" where
  "name_char c \<longleftrightarrow> ascii_word c \<or> c \<in> {CHR ''.'', CHR '':'', CHR ''-''}"

definition bare_char :: "char \<Rightarrow> bool" where
  "bare_char c \<longleftrightarrow> \<not> py_isspace c \<and> c \<notin> set ''|,()''"

text \<open>The value alternatives of \<open>_FILTER_ASSIGNMENT\<close>: the value and the rest.\<close>

definition match_filter_value :: "string \<Rightarrow> (string \<times> string) option" where
  "match_filter_value s =
     (case s of
        [] \<Rightarrow> None
      | c # cs \<Rightarrow>
          let bare = takeWhile bare_char s;
              otherwise = (if bare = [] then None else Some (bare, drop (length bare) s))
          in if c = dquote \<or> c = squote then
               (case dropWhile (\<lambda>x. x \<noteq> c) cs of
                  [] \<Rightarrow> otherwise
                | _ # rest \<Rightarrow> Some (takeWhile (\<lambda>x. x \<noteq> c) cs, rest))
             else otherwise)"

definition match_filter :: "char option \<Rightarrow> string \<Rightarrow> (string \<times> string \<times> string) option" where
  "match_filter prev s =
     (case s of
        [] \<Rightarrow> None
      | c # cs \<Rightarrow>
          if (case prev of None \<Rightarrow> False | Some p \<Rightarrow> name_char p) \<or> \<not> (ascii_alpha c \<or> c = CHR ''_'')
            then None
          else
            (case lstrip (dropWhile name_char s) of
               [] \<Rightarrow> None
             | d # ds \<Rightarrow>
                 if d \<noteq> CHR ''='' then None
                 else (case match_filter_value (lstrip ds) of
                         None \<Rightarrow> None
                       | Some (v, rest) \<Rightarrow> Some (takeWhile name_char s, v, rest))))"

lemma match_filter_value_shorter:
  assumes "match_filter_value s = Some (v, r)"
  shows "length r \<le> length s"
proof -
  obtain c cs where s: "s = c # cs" using assms by (cases s) (simp_all add: match_filter_value_def)
  have "r = drop (length (takeWhile bare_char s)) s \<or> (\<exists>x. dropWhile (\<lambda>x. x \<noteq> c) cs = x # r)"
    using assms s by (cases "dropWhile (\<lambda>x. x \<noteq> c) cs")
      (simp_all add: match_filter_value_def Let_def del: dropWhile_eq_Nil_conv split: if_splits)
  then show ?thesis
  proof
    assume "\<exists>x. dropWhile (\<lambda>x. x \<noteq> c) cs = x # r"
    then have "Suc (length r) \<le> length cs" using length_dropWhile_le [of "\<lambda>x. x \<noteq> c" cs] by auto
    then show ?thesis using s by simp
  qed simp
qed

lemma match_filter_shorter: "match_filter prev s = Some (f, v, r) \<Longrightarrow> length r < length s"
proof -
  assume m: "match_filter prev s = Some (f, v, r)"
  then obtain c cs where s: "s = c # cs" by (cases s) (simp_all add: match_filter_def)
  obtain d ds where d: "lstrip (dropWhile name_char s) = d # ds"
    and v: "match_filter_value (lstrip ds) = Some (v, r)"
    using m s by (auto simp: match_filter_def split: if_splits list.splits option.splits)
  have "length (lstrip t) \<le> length t" for t by (simp add: lstrip_def length_dropWhile_le)
  then have "length (lstrip ds) \<le> length ds" "length (d # ds) \<le> length (dropWhile name_char s)"
    using d by metis+
  moreover have "length (dropWhile name_char s) \<le> length s" by (rule length_dropWhile_le)
  ultimately show ?thesis using match_filter_value_shorter [OF v] by simp
qed

text \<open>\<open>finditer\<close>: after a match the scan goes on from its end, after its last character.\<close>

function filter_matches :: "char option \<Rightarrow> string \<Rightarrow> (string \<times> string) list" where
  "filter_matches prev s =
     (case s of
        [] \<Rightarrow> []
      | c # cs \<Rightarrow>
          (case match_filter prev s of
             None \<Rightarrow> filter_matches (Some c) cs
           | Some (f, v, rest) \<Rightarrow>
               (f, v) # filter_matches (Some (s ! (length s - length rest - 1))) rest))"
  by pat_completeness auto
termination
  by (relation "measure (\<lambda>(_, s). length s)") (auto dest: match_filter_shorter)

declare filter_matches.simps [simp del]

definition NON_FILTER_FIELDS :: "string list" where
  "NON_FILTER_FIELDS = [''index'', ''sourcetype'', ''earliest'', ''latest'']"

definition extract_filters :: "QueryProposal \<Rightarrow> (string \<times> string) list" where
  "extract_filters q =
     (case parse_spl (qp_spl q) of
        Inl _ \<Rightarrow> []
      | Inr parsed \<Rightarrow>
          fromkeys (concat (map (\<lambda>(command, args).
            if command \<in> {''search'', ''where'', ''regex''}
              then filter (\<lambda>(f, v). lower f \<notin> set NON_FILTER_FIELDS \<and> v \<noteq> []) (filter_matches None args)
            else []) (command_segments parsed))))"

subsection \<open>Scores\<close>

definition subset_list :: "'a list \<Rightarrow> 'a list \<Rightarrow> bool" where
  "subset_list xs ys \<longleftrightarrow> list_all (\<lambda>x. x \<in> set ys) xs"

definition telemetry_confirmed ::
  "QueryProposal \<Rightarrow> approved_scope option \<Rightarrow> discovery option \<Rightarrow> bool option \<times> string option" where
  "telemetry_confirmed q scope discovery =
     (case discovery of
        None \<Rightarrow> (None, Some ''discovery_unknown'')
      | Some d \<Rightarrow>
          if dc_complete d \<noteq> Some True
            then (None, Some (if dc_complete d = Some False then ''discovery_partial'' else ''discovery_unknown''))
          else
            (case (string_sequence (dc_indexes d), string_sequence (dc_sourcetypes d),
                   string_sequence (dc_fields d),
                   Option.bind scope (\<lambda>s. string_sequence (sc_indexes s)),
                   Option.bind scope (\<lambda>s. string_sequence (sc_sourcetypes s))) of
               (Some di, Some ds, Some df, Some ai, Some asrc) \<Rightarrow>
                 (Some (subset_list (qp_indexes q) di \<and> subset_list (qp_sourcetypes q) ds
                        \<and> subset_list (qp_requested_fields q) (df @ BUILTIN_FIELDS)
                        \<and> subset_list (qp_indexes q) ai \<and> subset_list (qp_sourcetypes q) asrc), None)
             | _ \<Rightarrow> (None, Some ''telemetry_scope_unknown'')))"

definition matched_entities :: "ScopeEntity list \<Rightarrow> (string \<times> string) list \<Rightarrow> nat" where
  "matched_entities entities filters =
     length (filter (\<lambda>e. (se_field e, se_value e) \<in> set filters) entities)"

definition ratio :: "int \<Rightarrow> int \<Rightarrow> rat" where
  "ratio a b = of_int a / of_int b"

text \<open>The window of the approved scope in microseconds, inside the two \<open>try\<close> blocks.\<close>

definition approved_window :: "approved_scope \<Rightarrow> (int option) result" where
  "approved_window s =
     bindR (try_utc (sc_latest s)) (\<lambda>l. bindR (try_utc (sc_earliest s)) (\<lambda>e.
       case (e, l) of (Some a, Some b) \<Rightarrow> Inr (Some (b - a)) | _ \<Rightarrow> Inr None))"

definition specificity_points :: "int \<Rightarrow> int \<Rightarrow> nat \<Rightarrow> nat \<Rightarrow> int" where
  "specificity_points candidate approved entities m =
     (let time_narrowness = clamp (1 - ratio candidate approved) 0 1;
          entity_narrowness = (if entities = 0 then 0 else ratio (int m) (int entities))
      in clamp (round_half_up (15 * (1 / 2 * time_narrowness + 1 / 2 * entity_narrowness))) 0 15)"

definition scope_specificity ::
  "QueryProposal \<Rightarrow> approved_scope option \<Rightarrow> (string \<times> string) list \<Rightarrow>
   (int option \<times> string option \<times> nat) result" where
  "scope_specificity q scope filters =
     (case scope of
        None \<Rightarrow> Inr (None, Some ''approved_scope_unknown'', 0)
      | Some s \<Rightarrow>
          (case (string_sequence (sc_indexes s), string_sequence (sc_sourcetypes s), scope_entities (sc_entities s)) of
             (Some _, Some _, Some entities) \<Rightarrow>
               if sc_earliest s = Missing \<or> sc_latest s = Missing
                 then Inr (None, Some ''approved_scope_incomplete'', 0)
               else
                 bindR (approved_window s) (\<lambda>w. case w of
                   None \<Rightarrow> Inr (None, Some ''approved_scope_time_invalid'', 0)
                 | Some approved \<Rightarrow>
                     let candidate = qp_latest q - qp_earliest q in
                     if approved \<le> 0 \<or> candidate \<le> 0 then Inr (None, Some ''scope_time_invalid'', 0)
                     else
                       Inr (Some (specificity_points candidate approved (length entities) (matched_entities entities filters)),
                            None, matched_entities entities filters))
           | _ \<Rightarrow> Inr (None, Some ''approved_scope_incomplete'', 0)))"

definition result_cap :: "SPLPolicy option \<Rightarrow> QueryProposal \<Rightarrow> int" where
  "result_cap policy q =
     (case policy of
        None \<Rightarrow> qp_max_results q
      | Some p \<Rightarrow>
          (case map_of (sp_max_results_by_mode p) (mode_value (qp_result_mode q)) of
             None \<Rightarrow> qp_max_results q | Some n \<Rightarrow> n))"

definition cost_points ::
  "QueryProposal \<Rightarrow> SPLPolicy option \<Rightarrow> (string \<times> string) list \<Rightarrow> nat \<Rightarrow> int \<Rightarrow> string list \<Rightarrow> string list \<Rightarrow> int" where
  "cost_points q policy filters matched approved indexes sourcetypes =
     (let candidate = qp_latest q - qp_earliest q;
          known = BUILTIN_FIELDS @ (case policy of None \<Rightarrow> [] | Some p \<Rightarrow> sp_discovered_fields p);
          valid = length (filter (\<lambda>(f, _). f \<in> set known) filters);
          quality = clamp (ratio (2 * int matched + int valid) 8) 0 1;
          time_ratio = clamp (ratio candidate approved) 0 1;
          index_ratio = clamp (ratio (int (length (qp_indexes q))) (int (length indexes))) 0 1;
          source_ratio = clamp (ratio (int (length (qp_sourcetypes q))) (int (length sourcetypes))) 0 1;
          result_ratio = clamp (ratio (qp_max_results q) (result_cap policy q)) 0 1
      in clamp (round_half_up (40 * time_ratio + 15 * index_ratio + 15 * source_ratio
                                + 20 * result_ratio + 10 * (1 - quality))) 0 100)"

definition selectivity_cost ::
  "QueryProposal \<Rightarrow> approved_scope option \<Rightarrow> SPLPolicy option \<Rightarrow> (string \<times> string) list \<Rightarrow> nat \<Rightarrow>
   (int option \<times> string list \<times> string list) result" where
  "selectivity_cost q scope policy filters matched =
     (case scope of
        None \<Rightarrow> Inr (None, [], [''approved_scope_unknown''])
      | Some s \<Rightarrow>
          (case (string_sequence (sc_indexes s), string_sequence (sc_sourcetypes s)) of
             (Some indexes, Some sourcetypes) \<Rightarrow>
               if sc_earliest s = Missing \<or> sc_latest s = Missing
                 then Inr (None, [], [''approved_scope_incomplete''])
               else
                 bindR (approved_window s) (\<lambda>w. case w of
                   None \<Rightarrow> Inr (None, [], [''approved_scope_time_invalid''])
                 | Some approved \<Rightarrow>
                     let candidate = qp_latest q - qp_earliest q; cap = result_cap policy q in
                     if approved \<le> 0 \<or> candidate \<le> 0 then Inr (None, [], [''scope_time_invalid''])
                     else if indexes = [] \<or> sourcetypes = []
                       then Inr (None, [], [''approved_telemetry_scope_unknown''])
                     else if cap \<le> 0 then Inr (None, [], [''result_cap_unknown''])
                     else
                       Inr (Some (cost_points q policy filters matched approved indexes sourcetypes),
                               [''fixed_time_scope'', ''approved_index_scope'',
                                ''approved_sourcetype_scope'', ''valid_filters''], []))
           | _ \<Rightarrow> Inr (None, [], [''approved_scope_incomplete''])))"

subsection \<open>Estimates\<close>

record SelectivityEstimate =
  es_candidate_id :: string
  es_rows :: "int option"
  es_bytes :: "int option"
  es_cost :: "int option"
  es_confidence :: SelectivityConfidence
  es_basis :: "string list"
  es_unknown :: "string list"

definition optional_bound :: "int option \<Rightarrow> int option \<Rightarrow> bool" where
  "optional_bound v maximum \<longleftrightarrow> (case v of None \<Rightarrow> True | Some n \<Rightarrow> bounded_int n 0 maximum \<noteq> None)"

definition mk_estimate :: "SelectivityEstimate \<Rightarrow> SelectivityEstimate result" where
  "mk_estimate e =
     (if es_candidate_id e = [] then Inl (ValueError ''selectivity candidate_id must be non-empty'')
      else if \<not> optional_bound (es_rows e) None \<or> \<not> optional_bound (es_bytes e) None
        then Inl (ValueError ''must be a non-negative integer or None'')
      else if \<not> optional_bound (es_cost e) (Some 100)
        then Inl (ValueError ''estimated_cost must be between 0 and 100 or None'')
      else if \<not> no_repeats (es_basis e) then Inl (ValueError ''selectivity basis must be unique'')
      else if \<not> no_repeats (es_unknown e) then Inl (ValueError ''selectivity unknown reasons must be unique'')
      else Inr e)"

definition policy_decision ::
  "SPLPolicy option \<Rightarrow> QueryProposal \<Rightarrow> string list option \<Rightarrow> uuid \<Rightarrow> (QueryValidationResult option) result" where
  "policy_decision policy q open_questions query_id =
     (case policy of
        None \<Rightarrow> Inr None
      | Some p \<Rightarrow> bindR (validate p q open_questions query_id) (\<lambda>v. Inr (Some v)))"

definition history_cost :: "SPLPolicy \<Rightarrow> int \<Rightarrow> int \<Rightarrow> int" where
  "history_cost p rows bytes =
     (let caps = map snd (sp_max_results_by_mode p);
          row_limit = (if caps = [] then 1 else Max (set caps));
          byte_limit = max (sp_max_bytes p) 1
      in clamp (round_half_up (ratio (50 * rows) (max row_limit 1) + ratio (50 * bytes) byte_limit)) 0 100)"

definition estimate_confidence ::
  "int option \<Rightarrow> int option \<Rightarrow> int option \<Rightarrow> string list \<Rightarrow> bool option \<Rightarrow> SelectivityConfidence" where
  "estimate_confidence rows bytes cost unknown telemetry =
     (if rows \<noteq> None \<and> bytes \<noteq> None \<and> unknown = [] then CHIGH
      else if cost \<noteq> None \<and> unknown = [] then (if telemetry = Some False then CUNKNOWN else CLOW)
      else CUNKNOWN)"

definition reason_list :: "string option \<Rightarrow> string list" where
  "reason_list r = (case r of None \<Rightarrow> [] | Some t \<Rightarrow> [t])"

text \<open>The observation \<open>sorted(eligible, key=query_id)[0]\<close>, and the last part of the estimate.\<close>

definition best_observation :: "QueryHistoryObservation list \<Rightarrow> QueryHistoryObservation option" where
  "best_observation eligible = (case eligible of [] \<Rightarrow> None | _ \<Rightarrow> Some (hd (sort_key ho_query_id eligible)))"

definition estimated_cost :: "SPLPolicy option \<Rightarrow> QueryHistoryObservation option \<Rightarrow> int option \<Rightarrow> int option" where
  "estimated_cost policy best cost =
     (case (best, policy) of
        (Some b, Some p) \<Rightarrow> Some (history_cost p (ho_result_rows b) (ho_result_bytes b))
      | _ \<Rightarrow> cost)"

definition finish_estimate ::
  "string \<Rightarrow> bool option \<Rightarrow> string list \<Rightarrow> string list \<Rightarrow> int option \<Rightarrow> SPLPolicy option \<Rightarrow>
   bool \<Rightarrow> bool \<Rightarrow> QueryHistoryObservation list \<Rightarrow> SelectivityEstimate result" where
  "finish_estimate cid telemetry basis unknown cost policy history_known now_known eligible =
     (let best = best_observation eligible;
          rows = map_option ho_result_rows best;
          bytes = map_option ho_result_bytes best;
          cost' = estimated_cost policy best cost;
          basis' = basis @ (if best \<noteq> None then [''exact_compatible_history'']
                            else if history_known \<and> now_known then [''no_exact_compatible_history''] else []);
          unknown' = fromkeys (unknown @ (if best \<noteq> None then []
                            else if \<not> history_known then [''history_unavailable'']
                            else if \<not> now_known then [''history_time_unknown''] else []));
          confidence = estimate_confidence rows bytes cost' unknown' telemetry
      in
      mk_estimate \<lparr>es_candidate_id = cid, es_rows = rows, es_bytes = bytes,
        es_cost = (if confidence = CUNKNOWN then None else cost'), es_confidence = confidence,
        es_basis = fromkeys basis', es_unknown = unknown'\<rparr>)"

definition estimate_selectivity ::
  "QueryProposal \<Rightarrow> string \<Rightarrow> approved_scope option \<Rightarrow> discovery option \<Rightarrow> SPLPolicy option \<Rightarrow>
   history_item list option \<Rightarrow> string list option \<Rightarrow> datetime option \<Rightarrow> uuid \<Rightarrow> SelectivityEstimate result" where
  "estimate_selectivity q hunt_id scope discovery policy history open_questions now query_id =
     bindR (candidate_id hunt_id q) (\<lambda>cid.
     bindR (policy_decision policy q open_questions query_id) (\<lambda>validation.
     case telemetry_confirmed q scope discovery of (telemetry, telemetry_reason) \<Rightarrow>
     bindR (scope_specificity q scope (extract_filters q)) (\<lambda>(_, scope_reason, matched).
     bindR (selectivity_cost q scope policy (extract_filters q) matched) (\<lambda>(cost, cost_basis, cost_unknown).
     let cache_key = Option.bind validation (\<lambda>v. if qv_allowed v then qv_cache_key v else None);
         nspl = (case validation of None \<Rightarrow> qp_spl q | Some v \<Rightarrow> qv_normalized_spl v);
         basis = (case validation of None \<Rightarrow> [] | Some v \<Rightarrow> if qv_allowed v then [''policy_validated''] else [])
                 @ (if telemetry = Some True then [''complete_discovery''] else [])
                 @ cost_basis;
         unknown = (case validation of None \<Rightarrow> [''policy_unavailable'']
                    | Some v \<Rightarrow> if qv_allowed v then [] else [''policy_rejected''])
                 @ (if telemetry = Some True then [] else reason_list telemetry_reason)
                 @ reason_list scope_reason
                 @ cost_unknown
     in
     bindR (eligible_history (case history of None \<Rightarrow> [] | Some h \<Rightarrow> h) cache_key nspl now) (\<lambda>eligible.
       finish_estimate cid telemetry basis unknown cost policy (history \<noteq> None) (now \<noteq> None) eligible)))))"

subsection \<open>Ranking\<close>

record RejectedCandidate =
  rj_source_index :: nat
  rj_candidate_id :: string
  rj_reason :: string

record score_components =
  sk_question :: "int option"
  sk_telemetry :: "int option"
  sk_pivot :: "int option"
  sk_scope :: "int option"
  sk_selectivity :: "int option"
  sk_duplicate :: "int option"

record RankedQueryCandidate =
  rk_candidate_id :: string
  rk_proposal :: QueryProposal
  rk_position :: nat
  rk_rank :: nat
  rk_score :: "int option"
  rk_components :: score_components
  rk_selectivity :: SelectivityEstimate
  rk_fallback :: "string option"

record QueryRankingResult =
  qr_ranked :: "RankedQueryCandidate list"
  qr_rejected :: "RejectedCandidate list"
  qr_duplicates :: "string list"

definition component_list :: "score_components \<Rightarrow> int option list" where
  "component_list k =
     [sk_question k, sk_telemetry k, sk_pivot k, sk_scope k, sk_selectivity k, sk_duplicate k]"

definition mk_ranked :: "RankedQueryCandidate \<Rightarrow> RankedQueryCandidate result" where
  "mk_ranked r =
     (if rk_rank r = 0 then Inl (ValueError ''shadow rank must be positive'')
      else if \<not> optional_bound (rk_score r) (Some 100) then Inl (ValueError ''score must be between 0 and 100 or None'')
      else if \<not> list_all2 (\<lambda>v m. optional_bound v (Some m)) (component_list (rk_components r)) [30, 20, 20, 15, 10, 5]
        then Inl (ValueError ''score component is outside its bound'')
      else Inr r)"

definition pivot_match :: "(string \<times> string) list \<Rightarrow> string option list \<Rightarrow> bool" where
  "pivot_match filters pivots \<longleftrightarrow>
     (let values = filter (\<lambda>v. v \<noteq> []) (List.map_filter (\<lambda>v. v) pivots) in
      list_ex (\<lambda>(_, v). v \<in> set values) filters)"

text \<open>The de-duplication loop; a candidate that is not a proposal is an error.\<close>

fun normalize_candidates ::
  "string \<Rightarrow> nat \<Rightarrow> string list \<Rightarrow> QueryProposal option list \<Rightarrow>
   ((nat \<times> QueryProposal \<times> string) list \<times> string list) result" where
  "normalize_candidates hunt_id index seen [] = Inr ([], [])"
| "normalize_candidates hunt_id index seen (raw # rest) =
     (case raw of
        None \<Rightarrow> Inl (ValueError ''candidate_invalid'')
      | Some q \<Rightarrow>
          bindR (candidate_id hunt_id q) (\<lambda>cid.
            if cid \<in> set seen then
              bindR (normalize_candidates hunt_id (Suc index) seen rest) (\<lambda>(ns, ds). Inr (ns, cid # ds))
            else
              bindR (normalize_candidates hunt_id (Suc index) (cid # seen) rest) (\<lambda>(ns, ds).
                Inr ((index, q, cid) # ns, ds))))"

text \<open>The inputs that every candidate is ranked with.\<close>

record rank_inputs =
  ri_hunt_id :: string
  ri_plan_order :: "string list"
  ri_open :: "string list option"
  ri_scope' :: "approved_scope option"
  ri_discovery :: "discovery option"
  ri_policy :: "SPLPolicy option"
  ri_pivots :: "string option list option"
  ri_history :: "history_item list option"
  ri_now :: "datetime option"
  ri_query_id :: uuid

definition index_of :: "string \<Rightarrow> string list \<Rightarrow> nat" where
  "index_of x xs = length (takeWhile (\<lambda>y. y \<noteq> x) xs)"

definition reused_history :: "rank_inputs \<Rightarrow> SelectivityEstimate \<Rightarrow> bool" where
  "reused_history inp e \<longleftrightarrow> ri_history inp \<noteq> None \<and> es_rows e \<noteq> None"

definition components_of ::
  "rank_inputs \<Rightarrow> bool option \<Rightarrow> (string \<times> string) list \<Rightarrow> int option \<Rightarrow> SelectivityEstimate \<Rightarrow> score_components" where
  "components_of inp telemetry filters scope_component e =
     \<lparr>sk_question = (if ri_open inp = None then None else Some 30),
      sk_telemetry = (if telemetry = Some True then Some 20 else None),
      sk_pivot = map_option (\<lambda>ps. if pivot_match filters ps then 20 else 0) (ri_pivots inp),
      sk_scope = scope_component,
      sk_selectivity = map_option (\<lambda>c. round_half_up (10 * (1 - ratio c 100))) (es_cost e),
      sk_duplicate = (if ri_history inp = None then None else Some (if reused_history inp e then 0 else 5))\<rparr>"

definition reasons_of ::
  "rank_inputs \<Rightarrow> string option \<Rightarrow> string option \<Rightarrow> SelectivityEstimate \<Rightarrow> string list" where
  "reasons_of inp telemetry_reason scope_reason e =
     fromkeys (es_unknown e
       @ (if ri_open inp = None then [''open_questions_unknown''] else [])
       @ reason_list telemetry_reason @ reason_list scope_reason
       @ (if ri_pivots inp = None then [''linked_pivots_unknown''] else [])
       @ (if ri_history inp = None then [''history_unknown'']
          else if reused_history inp e then [''equivalent_completed_query''] else []))"

definition score_of :: "string list \<Rightarrow> score_components \<Rightarrow> int option" where
  "score_of reasons k =
     (if reasons = [] \<and> list_all (\<lambda>v. v \<noteq> None) (component_list k)
      then Some (sum_list (map the (component_list k))) else None)"

definition candidate_scores ::
  "rank_inputs \<Rightarrow> QueryProposal \<Rightarrow> string \<Rightarrow> RankedQueryCandidate result" where
  "candidate_scores inp q cid =
     (case telemetry_confirmed q (ri_scope' inp) (ri_discovery inp) of (telemetry, telemetry_reason) \<Rightarrow>
      bindR (scope_specificity q (ri_scope' inp) (extract_filters q)) (\<lambda>(scope_component, scope_reason, _).
      bindR (estimate_selectivity q (ri_hunt_id inp) (ri_scope' inp) (ri_discovery inp) (ri_policy inp)
               (ri_history inp) (ri_open inp) (ri_now inp) (ri_query_id inp)) (\<lambda>selectivity.
      let k = components_of inp telemetry (extract_filters q) scope_component selectivity;
          reasons = reasons_of inp telemetry_reason scope_reason selectivity;
          score = score_of reasons k
      in mk_ranked \<lparr>rk_candidate_id = cid, rk_proposal = q,
           rk_position = index_of (qp_question_id q) (ri_plan_order inp), rk_rank = 1,
           rk_score = score, rk_components = k, rk_selectivity = selectivity,
           rk_fallback = (if score \<noteq> None then None
                          else Some (if reasons = [] then ''ranking_input_unknown'' else hd reasons))\<rparr>)))"

datatype verdict = Rejected string | Ranked RankedQueryCandidate

definition rank_candidate :: "rank_inputs \<Rightarrow> QueryProposal \<Rightarrow> string \<Rightarrow> verdict result" where
  "rank_candidate inp q cid =
     (if qp_question_id q \<notin> set (ri_plan_order inp) then Inr (Rejected ''question_not_in_approved_plan'')
      else if (case ri_open inp of None \<Rightarrow> False | Some ids \<Rightarrow> qp_question_id q \<notin> set ids)
        then Inr (Rejected ''question_not_open'')
      else case ri_policy inp of
        None \<Rightarrow> Inr (Rejected ''policy_unavailable'')
      | Some p \<Rightarrow>
          bindR (validate p q (ri_open inp) (ri_query_id inp)) (\<lambda>v.
            if \<not> qv_allowed v then Inr (Rejected ''policy_rejected'')
            else bindR (candidate_scores inp q cid) (\<lambda>r. Inr (Ranked r))))"

fun rank_all ::
  "rank_inputs \<Rightarrow> (nat \<times> QueryProposal \<times> string) list \<Rightarrow>
   (RankedQueryCandidate list \<times> RejectedCandidate list) result" where
  "rank_all inp [] = Inr ([], [])"
| "rank_all inp ((index, q, cid) # rest) =
     bindR (rank_candidate inp q cid) (\<lambda>v.
     bindR (rank_all inp rest) (\<lambda>(rs, js).
       case v of
         Ranked r \<Rightarrow> Inr (r # rs, js)
       | Rejected reason \<Rightarrow>
           Inr (rs, \<lparr>rj_source_index = index, rj_candidate_id = cid, rj_reason = reason\<rparr> # js)))"

definition rank_key :: "RankedQueryCandidate \<Rightarrow> nat \<times> nat \<times> int \<times> string" where
  "rank_key r =
     (rk_position r, if rk_score r = None then 1 else 0,
      case rk_score r of None \<Rightarrow> 0 | Some s \<Rightarrow> - s, rk_candidate_id r)"

definition assign_ranks :: "RankedQueryCandidate list \<Rightarrow> RankedQueryCandidate list" where
  "assign_ranks rs = map (\<lambda>(n, r). r\<lparr>rk_rank := n\<rparr>) (zip [1..<Suc (length rs)] rs)"

definition rank_query_candidates ::
  "QueryProposal option list \<Rightarrow> int \<Rightarrow> string option list \<Rightarrow> string option list option \<Rightarrow> rank_inputs \<Rightarrow>
   QueryRankingResult result" where
  "rank_query_candidates proposals candidate_cap question_order open_ids inp =
     (let plan_order = string_items question_order;
          open_questions = map_option string_items open_ids;
          inp' = inp\<lparr>ri_plan_order := plan_order, ri_open := open_questions\<rparr> in
      if \<not> (1 \<le> candidate_cap \<and> candidate_cap \<le> MAX_CANDIDATE_CAP) then Inl (ValueError ''candidate_cap_invalid'')
      else if int (length proposals) > candidate_cap then Inl (ValueError ''candidate_cap_exceeded'')
      else if strip (ri_hunt_id inp) = [] then Inl (ValueError ''missing_hunt_id'')
      else if plan_order = [] \<or> \<not> no_repeats plan_order then Inl (ValueError ''approved_question_order_invalid'')
      else if (case open_questions of None \<Rightarrow> False | Some ids \<Rightarrow> \<not> no_repeats ids)
        then Inl (ValueError ''open_questions_invalid'')
      else
        bindR (normalize_candidates (ri_hunt_id inp) 0 [] proposals) (\<lambda>(normalized, duplicates).
        bindR (rank_all inp' normalized) (\<lambda>(provisional, rejected).
          Inr \<lparr>qr_ranked = assign_ranks (sort_key rank_key provisional),
               qr_rejected = rejected, qr_duplicates = duplicates\<rparr>)))"

subsection \<open>Shadow records\<close>

definition STRATEGY_VERSION :: string where "STRATEGY_VERSION = ''1.0''"

definition confidence_value :: "SelectivityConfidence \<Rightarrow> string" where
  "confidence_value c =
     (case c of CHIGH \<Rightarrow> ''high'' | CMEDIUM \<Rightarrow> ''medium'' | CLOW \<Rightarrow> ''low'' | CUNKNOWN \<Rightarrow> ''unknown'')"

definition json_option :: "('a \<Rightarrow> json) \<Rightarrow> 'a option \<Rightarrow> json" where
  "json_option f v = (case v of None \<Rightarrow> JNull | Some x \<Rightarrow> f x)"

definition estimate_dict :: "SelectivityEstimate \<Rightarrow> json" where
  "estimate_dict e =
     JObj [(''algorithm_version'', JStr STRATEGY_VERSION), (''candidate_id'', JStr (es_candidate_id e)),
           (''estimated_rows'', json_option JInt (es_rows e)),
           (''estimated_bytes'', json_option JInt (es_bytes e)),
           (''estimated_cost'', json_option JInt (es_cost e)),
           (''confidence'', JStr (confidence_value (es_confidence e))),
           (''basis'', JList (map JStr (es_basis e))),
           (''unknown_reasons'', JList (map JStr (es_unknown e)))]"

definition rejected_dict :: "RejectedCandidate \<Rightarrow> json" where
  "rejected_dict r =
     JObj [(''source_index'', JInt (int (rj_source_index r))), (''candidate_id'', JStr (rj_candidate_id r)),
           (''reason_code'', JStr (rj_reason r))]"

definition components_dict :: "score_components \<Rightarrow> json" where
  "components_dict k =
     JObj (map2 (\<lambda>n v. (n, json_option JInt v))
       [''unresolved_question'', ''approved_telemetry'', ''evidence_pivot'', ''scope_specificity'',
        ''selectivity'', ''not_already_answered''] (component_list k))"

definition ranked_dict :: "RankedQueryCandidate \<Rightarrow> json" where
  "ranked_dict r =
     JObj [(''algorithm_version'', JStr STRATEGY_VERSION), (''candidate_id'', JStr (rk_candidate_id r)),
           (''proposal'', proposal_json (rk_proposal r)),
           (''approved_question_position'', JInt (int (rk_position r))),
           (''shadow_rank'', JInt (int (rk_rank r))), (''score'', json_option JInt (rk_score r)),
           (''score_components'', components_dict (rk_components r)),
           (''selectivity'', estimate_dict (rk_selectivity r)),
           (''fallback_reason'', json_option JStr (rk_fallback r))]"

definition result_dict :: "QueryRankingResult \<Rightarrow> json" where
  "result_dict r =
     JObj [(''algorithm_version'', JStr STRATEGY_VERSION),
           (''ranked'', JList (map ranked_dict (qr_ranked r))),
           (''rejected'', JList (map rejected_dict (qr_rejected r))),
           (''duplicates_removed'', JList (map JStr (qr_duplicates r)))]"

subsection \<open>Candidates that reach the ranking\<close>

lemma mk_ranked_Inr:
  "mk_ranked r = Inr r' \<Longrightarrow>
   r' = r \<and> list_all2 (\<lambda>v m. optional_bound v (Some m)) (component_list (rk_components r)) [30, 20, 20, 15, 10, 5]"
  by (simp add: mk_ranked_def split: if_splits)

text \<open>The shape of every candidate the ranking keeps.\<close>

definition scored :: "RankedQueryCandidate \<Rightarrow> bool" where
  "scored r \<longleftrightarrow>
     (case rk_score r of
        None \<Rightarrow> rk_fallback r \<noteq> None
      | Some s \<Rightarrow>
          rk_fallback r = None \<and> 55 \<le> s \<and> s \<le> 100
          \<and> None \<notin> set (component_list (rk_components r))
          \<and> s = sum_list (map the (component_list (rk_components r))))"

lemma optional_bound_Some: "optional_bound (Some v) (Some m) \<longleftrightarrow> 0 \<le> v \<and> v \<le> m"
  by (simp add: optional_bound_def bounded_int_def)

lemma components_sum:
  assumes "list_all2 (\<lambda>v m. optional_bound v (Some m)) (component_list k) [30, 20, 20, 15, 10, 5]"
    and "None \<notin> set (component_list k)"
    and "sk_question k = Some 30" "sk_telemetry k = Some 20" "sk_duplicate k = Some 5"
  shows "55 \<le> sum_list (map the (component_list k)) \<and> sum_list (map the (component_list k)) \<le> 100"
proof -
  obtain a b c where "sk_pivot k = Some a" "sk_scope k = Some b" "sk_selectivity k = Some c"
    using assms(2) by (cases "sk_pivot k"; cases "sk_scope k"; cases "sk_selectivity k") (auto simp: component_list_def)
  then show ?thesis using assms by (simp add: component_list_def optional_bound_Some)
qed

lemma score_of_Some:
  assumes "score_of (reasons_of inp tr sr e) (components_of inp t fs sp1 e) = Some s"
  shows "None \<notin> set (component_list (components_of inp t fs sp1 e))"
    and "s = sum_list (map the (component_list (components_of inp t fs sp1 e)))"
    and "sk_question (components_of inp t fs sp1 e) = Some 30"
    and "sk_telemetry (components_of inp t fs sp1 e) = Some 20"
    and "sk_duplicate (components_of inp t fs sp1 e) = Some 5"
proof -
  have r: "reasons_of inp tr sr e = []"
    and k: "list_all (\<lambda>v. v \<noteq> None) (component_list (components_of inp t fs sp1 e))"
    and s: "s = sum_list (map the (component_list (components_of inp t fs sp1 e)))"
    using assms by (simp_all add: score_of_def split: if_splits)
  show "None \<notin> set (component_list (components_of inp t fs sp1 e))"
    using k by (auto simp only: list_all_iff)
  show "s = sum_list (map the (component_list (components_of inp t fs sp1 e)))" by (rule s)
  show "sk_question (components_of inp t fs sp1 e) = Some 30" "sk_telemetry (components_of inp t fs sp1 e) = Some 20"
    using k by (simp_all add: component_list_def components_of_def split: if_splits)
  show "sk_duplicate (components_of inp t fs sp1 e) = Some 5"
    using k r by (simp add: component_list_def components_of_def reasons_of_def split: if_splits)
qed

lemma candidate_scores_Inr:
  assumes "candidate_scores inp q cid = Inr r"
  shows "rk_candidate_id r = cid \<and> rk_proposal r = q
         \<and> rk_position r = index_of (qp_question_id q) (ri_plan_order inp) \<and> scored r"
proof -
  obtain t tr where t: "telemetry_confirmed q (ri_scope' inp) (ri_discovery inp) = (t, tr)"
    by (cases "telemetry_confirmed q (ri_scope' inp) (ri_discovery inp)")
  obtain sp1 sr m e where
    m: "mk_ranked \<lparr>rk_candidate_id = cid, rk_proposal = q,
           rk_position = index_of (qp_question_id q) (ri_plan_order inp), rk_rank = 1,
           rk_score = score_of (reasons_of inp tr sr e) (components_of inp t (extract_filters q) sp1 e),
           rk_components = components_of inp t (extract_filters q) sp1 e, rk_selectivity = e,
           rk_fallback = (if score_of (reasons_of inp tr sr e) (components_of inp t (extract_filters q) sp1 e) \<noteq> None
                          then None
                          else Some (if reasons_of inp tr sr e = [] then ''ranking_input_unknown''
                                     else hd (reasons_of inp tr sr e)))\<rparr> = Inr r"
    using assms unfolding candidate_scores_def Let_def t prod.case bindR_eq_Inr split_paired_Ex prod.case by blast
  note mk = mk_ranked_Inr [OF m]
  have "scored r"
  proof (cases "score_of (reasons_of inp tr sr e) (components_of inp t (extract_filters q) sp1 e)")
    case None
    then show ?thesis using mk by (simp add: scored_def)
  next
    case (Some s)
    then show ?thesis using components_sum [of "components_of inp t (extract_filters q) sp1 e"] score_of_Some [OF Some] mk
      by (simp add: scored_def)
  qed
  then show ?thesis using mk by simp
qed

lemma rank_candidate_Ranked:
  assumes "rank_candidate inp q cid = Inr (Ranked r)"
  shows "candidate_scores inp q cid = Inr r" and "qp_question_id q \<in> set (ri_plan_order inp)"
    and "ri_open inp = Some ids \<Longrightarrow> qp_question_id q \<in> set ids"
    and "\<exists>p v. ri_policy inp = Some p \<and> validate p q (ri_open inp) (ri_query_id inp) = Inr v \<and> qv_allowed v"
  using assms by (auto simp: rank_candidate_def result_simps split: if_splits option.splits)

text \<open>Without the source index, the verdict on a candidate.\<close>

definition ranked_of :: "rank_inputs \<Rightarrow> QueryProposal \<times> string \<Rightarrow> RankedQueryCandidate option" where
  "ranked_of inp c = (case rank_candidate inp (fst c) (snd c) of Inr (Ranked r) \<Rightarrow> Some r | _ \<Rightarrow> None)"

lemma rank_all_Inr:
  "is_ok (rank_all inp ns) \<longleftrightarrow> list_all (\<lambda>c. is_ok (rank_candidate inp (fst c) (snd c))) (map snd ns)"
proof (induction inp ns rule: rank_all.induct)
  case (2 inp index q cid rest)
  then show ?case
    by (cases "rank_candidate inp q cid"; cases "rank_all inp rest") (auto split: verdict.splits)
qed simp

lemma rank_all_ranked:
  "rank_all inp ns = Inr (rs, js) \<Longrightarrow> rs = List.map_filter (ranked_of inp) (map snd ns)"
proof (induction inp ns arbitrary: rs js rule: rank_all.induct)
  case (2 inp index q cid rest)
  from "2.prems" obtain v rs' js' where v: "rank_candidate inp q cid = Inr v" "rank_all inp rest = Inr (rs', js')"
    by (auto simp: result_simps)
  then show ?case using "2.IH" [OF v(2)] "2.prems"
    by (cases v) (auto simp: ranked_of_def List.map_filter_simps)
qed (simp add: List.map_filter_simps)

lemma ranked_of_Some:
  assumes "ranked_of inp c = Some r"
  shows "rank_candidate inp (fst c) (snd c) = Inr (Ranked r)"
  using assms by (auto simp: ranked_of_def split: sum.splits verdict.splits)

lemma ranked_of_id: "ranked_of inp c = Some r \<Longrightarrow> rk_candidate_id r = snd c \<and> rk_proposal r = fst c"
  using candidate_scores_Inr rank_candidate_Ranked(1) ranked_of_Some by blast

lemma normalize_Cons:
  assumes "normalize_candidates h i seen (raw # rest) = Inr (ns, ds)"
  obtains (repeated) q cid ds' where "raw = Some q" "candidate_id h q = Inr cid" "cid \<in> set seen"
      "normalize_candidates h (Suc i) seen rest = Inr (ns, ds')"
    | (fresh) q cid ns' where "raw = Some q" "candidate_id h q = Inr cid" "cid \<notin> set seen"
      "normalize_candidates h (Suc i) (cid # seen) rest = Inr (ns', ds)" "ns = (i, q, cid) # ns'"
proof -
  obtain q cid where q: "raw = Some q" "candidate_id h q = Inr cid"
    using assms by (cases raw) (auto simp: bindR_eq_Inr)
  show thesis
    using assms q that by (cases "cid \<in> set seen") (auto simp: bindR_eq_Inr)
qed

lemma normalize_distinct:
  "normalize_candidates h i seen ps = Inr (ns, ds) \<Longrightarrow>
   distinct (map (snd \<circ> snd) ns) \<and> set (map (snd \<circ> snd) ns) \<inter> set seen = {}"
proof (induction ps arbitrary: i seen ns ds)
  case (Cons raw rest)
  from Cons.prems show ?case
  proof (cases rule: normalize_Cons)
    case (fresh q cid ns')
    then show ?thesis using Cons.IH [OF fresh(4)] by auto
  qed (use Cons.IH in blast)
qed simp

lemma normalize_length: "normalize_candidates h i seen ps = Inr (ns, ds) \<Longrightarrow> length ns \<le> length ps"
proof (induction ps arbitrary: i seen ns ds)
  case (Cons raw rest)
  from Cons.prems show ?case
    by (cases rule: normalize_Cons) (auto dest: Cons.IH)
qed simp

lemma normalize_members:
  "normalize_candidates h i seen ps = Inr (ns, ds) \<Longrightarrow>
   (q, cid) \<in> set (map snd ns) \<Longrightarrow> Some q \<in> set ps \<and> candidate_id h q = Inr cid"
proof (induction ps arbitrary: i seen ns ds)
  case (Cons raw rest)
  from Cons.prems(1) show ?case
  proof (cases rule: normalize_Cons)
    case (fresh q' cid' ns')
    then show ?thesis using Cons.IH [OF fresh(4)] Cons.prems(2) by auto
  qed (use Cons.IH Cons.prems(2) in auto)
qed simp

lemma normalize_covers:
  "normalize_candidates h i seen ps = Inr (ns, ds) \<Longrightarrow> Some q \<in> set ps \<Longrightarrow>
   \<exists>cid. candidate_id h q = Inr cid \<and> cid \<in> set seen \<union> snd ` set (map snd ns)"
proof (induction ps arbitrary: i seen ns ds)
  case (Cons raw rest)
  from Cons.prems(1) show ?case
  proof (cases rule: normalize_Cons)
    case (fresh q' cid' ns')
    show ?thesis
    proof (cases "raw = Some q")
      case False
      then have "Some q \<in> set rest" using Cons.prems(2) by auto
      then show ?thesis using Cons.IH [OF fresh(4)] fresh(5) by auto
    qed (use fresh in auto)
  next
    case (repeated q' cid' ds')
    then show ?thesis using Cons.IH [OF repeated(4)] Cons.prems(2) by auto
  qed
qed simp

lemma is_ok_bindR_pair: "is_ok (bindR r (\<lambda>(a, b). Inr (f a b))) = is_ok r"
  by (cases r) auto

lemma normalize_ok:
  "is_ok (normalize_candidates h i seen ps) \<longleftrightarrow>
   list_all (\<lambda>raw. \<exists>q. raw = Some q \<and> is_ok (candidate_id h q)) ps"
proof (induction ps arbitrary: i seen)
  case (Cons raw rest)
  show ?case
  proof (cases raw)
    case (Some q)
    show ?thesis
    proof (cases "candidate_id h q")
      case (Inr cid)
      then show ?thesis using Some Cons.IH by (simp add: is_ok_bindR_pair)
    qed (simp add: Some)
  qed simp
qed simp

subsection \<open>No raise on well-typed inputs\<close>

lemma clamp_bounds: "lo \<le> hi \<Longrightarrow> lo \<le> clamp v lo hi \<and> clamp v lo hi \<le> hi"
  by (simp add: clamp_def)

lemma specificity_points_bound:
  "0 \<le> specificity_points c a n m \<and> specificity_points c a n m \<le> 15"
  unfolding specificity_points_def Let_def by (intro clamp_bounds) simp

lemma scope_specificity_bound:
  "scope_specificity q scope fs = Inr (Some c, r, m) \<Longrightarrow> 0 \<le> c \<and> c \<le> 15"
  using specificity_points_bound
  by (auto simp: scope_specificity_def bindR_eq_Inr Let_def split: option.splits if_splits)

lemma cost_points_bound:
  "0 \<le> cost_points q p fs m a is ss \<and> cost_points q p fs m a is ss \<le> 100"
  unfolding cost_points_def Let_def by (intro clamp_bounds) simp

lemma selectivity_cost_bound:
  "selectivity_cost q scope p fs m = Inr (Some c, b, u) \<Longrightarrow> 0 \<le> c \<and> c \<le> 100"
  using cost_points_bound [of q p fs m]
  by (auto simp: selectivity_cost_def bindR_eq_Inr Let_def split: option.splits if_splits)

lemma history_cost_bound: "0 \<le> history_cost p rows bytes \<and> history_cost p rows bytes \<le> 100"
  unfolding history_cost_def Let_def by (intro clamp_bounds) simp

lemma selectivity_points_bound:
  assumes "0 \<le> c" "c \<le> 100"
  shows "0 \<le> round_half_up (10 * (1 - ratio c 100)) \<and> round_half_up (10 * (1 - ratio c 100)) \<le> 10"
proof -
  have "(0 :: rat) \<le> of_int c" "(of_int c :: rat) \<le> 100" using assms by simp_all
  then show ?thesis
    unfolding round_half_up_def ratio_def by (auto simp: le_floor_iff floor_le_iff)
qed

definition utc_ok :: "datetime \<Rightarrow> bool" where
  "utc_ok d \<longleftrightarrow> (case utcoffset d of None \<Rightarrow> True | Some off \<Rightarrow> valid_utc (naive_us d - off))"

definition time_typed :: "time_value \<Rightarrow> bool" where
  "time_typed v \<longleftrightarrow> (case v of Missing \<Rightarrow> True | Stamp d \<Rightarrow> utc_ok d | Foreign \<Rightarrow> False)"

lemma try_utc_ok: "time_typed v \<Longrightarrow> v \<noteq> Missing \<Longrightarrow> is_ok (try_utc v)"
  by (cases v) (auto simp: time_typed_def try_utc_def utc_ok_def as_utc_def split: option.splits)

definition scope_typed :: "approved_scope option \<Rightarrow> bool" where
  "scope_typed scope \<longleftrightarrow>
     (case scope of None \<Rightarrow> True | Some s \<Rightarrow> time_typed (sc_earliest s) \<and> time_typed (sc_latest s))"

lemma approved_window_ok:
  "time_typed (sc_earliest s) \<Longrightarrow> time_typed (sc_latest s) \<Longrightarrow> sc_earliest s \<noteq> Missing \<Longrightarrow> sc_latest s \<noteq> Missing \<Longrightarrow>
   is_ok (approved_window s)"
  using try_utc_ok [of "sc_earliest s"] try_utc_ok [of "sc_latest s"]
  by (auto simp: approved_window_def is_ok_iff split: option.splits)

lemma scope_specificity_ok: "scope_typed scope \<Longrightarrow> is_ok (scope_specificity q scope fs)"
  using approved_window_ok [of "the scope"]
  by (auto simp: scope_specificity_def scope_typed_def Let_def intro!: is_ok_bindR split: option.splits)

lemma selectivity_cost_ok: "scope_typed scope \<Longrightarrow> is_ok (selectivity_cost q scope p fs m)"
  using approved_window_ok [of "the scope"]
  by (auto simp: selectivity_cost_def scope_typed_def Let_def intro!: is_ok_bindR split: option.splits)

definition item_typed :: "history_item \<Rightarrow> bool" where
  "item_typed i \<longleftrightarrow>
     (case i of Observed o1 \<Rightarrow> is_ok (mk_observation o1) | Mapped m \<Rightarrow> time_typed (hm_expires m) | NotMapping \<Rightarrow> True)"

lemma mk_observation_ok: "mk_observation o1 = Inr o2 \<Longrightarrow> o2 = o1 \<and> 0 \<le> ho_result_rows o1 \<and> 0 \<le> ho_result_bytes o1"
  by (auto simp: mk_observation_def split: if_splits)

lemma parse_history_ok: "item_typed i \<Longrightarrow> is_ok (parse_history i)"
  using try_utc_ok [of "case i of Mapped m \<Rightarrow> hm_expires m | _ \<Rightarrow> Missing"]
  by (cases i) (auto simp: item_typed_def parse_history_def intro!: is_ok_bindR split: option.splits sum.splits)

lemma finish_history_counters:
  "finish_history m n e = Some o1 \<Longrightarrow> 0 \<le> ho_result_rows o1 \<and> 0 \<le> ho_result_bytes o1"
  by (auto simp: finish_history_def split: option.splits sum.splits dest!: mk_observation_ok)

lemma parse_history_counters:
  assumes "item_typed i" and "parse_history i = Inr (Some o1)"
  shows "0 \<le> ho_result_rows o1 \<and> 0 \<le> ho_result_bytes o1"
proof (cases i)
  case (Mapped m)
  then obtain n e where "finish_history m n e = Some o1"
    using assms(2) by (auto simp: parse_history_def bindR_eq_Inr bind_eq_Some_conv split: option.splits if_splits)
  then show ?thesis by (rule finish_history_counters)
qed (use assms in \<open>auto simp: item_typed_def parse_history_def is_ok_iff dest: mk_observation_ok\<close>)

lemma eligible_items_ok:
  "list_all item_typed is \<Longrightarrow>
   \<exists>es. eligible_items k n c is = Inr es \<and> (\<forall>o1\<in>set es. 0 \<le> ho_result_rows o1 \<and> 0 \<le> ho_result_bytes o1)"
proof (induction "is")
  case (Cons i "is")
  then obtain v es where v: "parse_history i = Inr v" "eligible_items k n c is = Inr es"
    "\<forall>o1\<in>set es. 0 \<le> ho_result_rows o1 \<and> 0 \<le> ho_result_bytes o1"
    using parse_history_ok [of i] by (auto simp: is_ok_iff)
  then show ?case using parse_history_counters [of i] Cons.prems by (cases v) auto
qed simp

lemma eligible_history_ok:
  assumes "list_all item_typed is" and "\<And>t. now = Some t \<Longrightarrow> is_ok (ensure_utc t)"
  shows "\<exists>es. eligible_history is key n now = Inr es
           \<and> (\<forall>o1\<in>set es. 0 \<le> ho_result_rows o1 \<and> 0 \<le> ho_result_bytes o1)"
proof (cases "key = None \<or> now = None")
  case True
  then show ?thesis by (auto simp: eligible_history_def split: option.splits)
next
  case False
  then obtain k t where kt: "key = Some k" "now = Some t" by auto
  then obtain c where "ensure_utc t = Inr c" using assms(2) by (auto simp: is_ok_iff)
  then show ?thesis using kt eligible_items_ok [OF assms(1), of k n c] by (simp add: eligible_history_def)
qed

lemma best_observation_mem: "best_observation es = Some b \<Longrightarrow> b \<in> set es"
proof -
  assume b: "best_observation es = Some b"
  then have "b = hd (sort_key ho_query_id es)" "es \<noteq> []"
    by (auto simp: best_observation_def split: list.splits)
  then show ?thesis using list.set_sel(1) [of "sort_key ho_query_id es"] by (metis length_0_conv length_sort set_sort)
qed

lemma finish_estimate_ok:
  assumes "cid \<noteq> []" and "optional_bound cost (Some 100)"
    and "\<forall>o1\<in>set es. 0 \<le> ho_result_rows o1 \<and> 0 \<le> ho_result_bytes o1"
  shows "\<exists>e. finish_estimate cid t bs us cost p hk nk es = Inr e \<and> optional_bound (es_cost e) (Some 100)"
proof -
  have c: "optional_bound (estimated_cost p (best_observation es) cost) (Some 100)"
    using assms(2) history_cost_bound
    by (auto simp: estimated_cost_def optional_bound_Some split: option.splits)
  have "optional_bound (map_option ho_result_rows (best_observation es)) None"
    "optional_bound (map_option ho_result_bytes (best_observation es)) None"
    using assms(3) best_observation_mem [of es]
    by (fastforce simp: optional_bound_def bounded_int_def split: option.splits)+
  moreover have "optional_bound None (Some 100)" by (simp add: optional_bound_def)
  ultimately show ?thesis using assms(1) c
    by (simp add: finish_estimate_def mk_estimate_def Let_def)
qed

lemma candidate_id_ok: "strip h \<noteq> [] \<Longrightarrow> \<exists>cid. candidate_id h q = Inr cid \<and> cid \<noteq> []"
  by (simp add: candidate_id_def)

lemma validate_ok:
  assumes "validate_query q = Inr ()" "0 < sp_max_bytes p" "0 < sp_timeout_seconds p"
  shows "is_ok (validate p q oq i)"
proof -
  obtain n x rs where t: "text_reasons p (qp_spl q) = Inr (n, x, rs)" "n \<noteq> []" "[] \<notin> set rs"
    using text_reasons_total by blast
  have "validate_allowed_fields (validation_result p q i n (rs @ scope_reasons p q oq x)) = Inr ()"
    using validation_result_valid [OF assms t(2)] t(3) scope_reasons_mem by simp
  then show ?thesis using t(1) by (simp add: validate_def Let_def)
qed

text \<open>What the caller promises about everything but the candidates.\<close>

definition inputs_typed :: "rank_inputs \<Rightarrow> bool" where
  "inputs_typed inp \<longleftrightarrow>
     strip (ri_hunt_id inp) \<noteq> [] \<and> scope_typed (ri_scope' inp)
     \<and> (case ri_history inp of None \<Rightarrow> True | Some h \<Rightarrow> list_all item_typed h)
     \<and> (case ri_now inp of None \<Rightarrow> True | Some t \<Rightarrow> is_ok (ensure_utc t))
     \<and> (case ri_policy inp of None \<Rightarrow> True | Some p \<Rightarrow> 0 < sp_max_bytes p \<and> 0 < sp_timeout_seconds p)"

lemma estimate_ok:
  assumes "inputs_typed inp" and "validate_query q = Inr ()"
  shows "\<exists>e. estimate_selectivity q (ri_hunt_id inp) (ri_scope' inp) (ri_discovery inp) (ri_policy inp)
               (ri_history inp) (ri_open inp) (ri_now inp) (ri_query_id inp) = Inr e
           \<and> optional_bound (es_cost e) (Some 100)"
proof -
  obtain cid where cid: "candidate_id (ri_hunt_id inp) q = Inr cid" "cid \<noteq> []"
    using candidate_id_ok assms(1) unfolding inputs_typed_def by blast
  have "is_ok (policy_decision (ri_policy inp) q (ri_open inp) (ri_query_id inp))"
    using assms validate_ok [OF assms(2)]
    by (cases "ri_policy inp") (auto simp: policy_decision_def inputs_typed_def intro!: is_ok_bindR)
  then obtain v where v: "policy_decision (ri_policy inp) q (ri_open inp) (ri_query_id inp) = Inr v"
    by (auto simp: is_ok_iff)
  obtain t tr where t: "telemetry_confirmed q (ri_scope' inp) (ri_discovery inp) = (t, tr)"
    by (cases "telemetry_confirmed q (ri_scope' inp) (ri_discovery inp)")
  obtain s1 sr m where s: "scope_specificity q (ri_scope' inp) (extract_filters q) = Inr (s1, sr, m)"
    using scope_specificity_ok assms(1) unfolding inputs_typed_def is_ok_iff by fast
  obtain c cb cu where c: "selectivity_cost q (ri_scope' inp) (ri_policy inp) (extract_filters q) m = Inr (c, cb, cu)"
    using selectivity_cost_ok assms(1) unfolding inputs_typed_def is_ok_iff by fast
  have cb: "optional_bound c (Some 100)"
    using selectivity_cost_bound c by (cases c) (auto simp: optional_bound_Some, simp add: optional_bound_def)
  have h: "list_all item_typed (case ri_history inp of None \<Rightarrow> [] | Some h \<Rightarrow> h)"
    "\<And>t. ri_now inp = Some t \<Longrightarrow> is_ok (ensure_utc t)"
    using assms(1) by (auto simp: inputs_typed_def split: option.splits)
  have "\<exists>e. bindR (eligible_history (case ri_history inp of None \<Rightarrow> [] | Some h \<Rightarrow> h) key n (ri_now inp))
      (\<lambda>eligible. finish_estimate cid t bs us c (ri_policy inp) hk nk eligible) = Inr e
      \<and> optional_bound (es_cost e) (Some 100)" for key n bs us hk nk
    using eligible_history_ok [OF h(1), of "ri_now inp" key n, OF h(2)] finish_estimate_ok [OF cid(2) cb] by (auto simp: bindR_eq_Inr)
  then show ?thesis unfolding estimate_selectivity_def Let_def cid(1) v t s c bindR_simps prod.case .
qed

lemma optional_bound_None: "optional_bound None m"
  by (simp add: optional_bound_def)

lemma components_of_bounds:
  assumes "optional_bound c (Some 15)" and "optional_bound (es_cost e) (Some 100)"
  shows "list_all2 (\<lambda>v m. optional_bound v (Some m)) (component_list (components_of inp t fs c e)) [30, 20, 20, 15, 10, 5]"
proof -
  have "optional_bound (map_option (\<lambda>c. round_half_up (10 * (1 - ratio c 100))) (es_cost e)) (Some 10)"
    using assms(2) selectivity_points_bound by (cases "es_cost e") (simp_all add: optional_bound_Some optional_bound_None)
  moreover have "optional_bound (sk_question (components_of inp t fs c e)) (Some 30)"
    "optional_bound (sk_telemetry (components_of inp t fs c e)) (Some 20)"
    "optional_bound (sk_pivot (components_of inp t fs c e)) (Some 20)"
    "optional_bound (sk_duplicate (components_of inp t fs c e)) (Some 5)"
    by (cases "ri_pivots inp"; simp add: components_of_def optional_bound_Some optional_bound_None)+
  ultimately show ?thesis using assms(1) by (simp add: component_list_def components_of_def)
qed

lemma mk_ranked_ok:
  assumes "rk_rank r = 1" and "list_all2 (\<lambda>v m. optional_bound v (Some m)) (component_list (rk_components r)) [30, 20, 20, 15, 10, 5]"
    and "rk_score r = None \<or> (\<exists>s. rk_score r = Some s \<and> 0 \<le> s \<and> s \<le> 100)"
  shows "mk_ranked r = Inr r"
  using assms by (auto simp: mk_ranked_def optional_bound_Some optional_bound_None)

lemma candidate_scores_ok:
  assumes "inputs_typed inp" and "validate_query q = Inr ()"
  shows "is_ok (candidate_scores inp q cid)"
proof -
  obtain t tr where t: "telemetry_confirmed q (ri_scope' inp) (ri_discovery inp) = (t, tr)"
    by (cases "telemetry_confirmed q (ri_scope' inp) (ri_discovery inp)")
  obtain s1 sr m where s: "scope_specificity q (ri_scope' inp) (extract_filters q) = Inr (s1, sr, m)"
    using scope_specificity_ok assms(1) unfolding inputs_typed_def is_ok_iff by fast
  have sb: "optional_bound s1 (Some 15)"
    using scope_specificity_bound s by (cases s1) (auto simp: optional_bound_Some optional_bound_None)
  obtain e where e: "estimate_selectivity q (ri_hunt_id inp) (ri_scope' inp) (ri_discovery inp) (ri_policy inp)
      (ri_history inp) (ri_open inp) (ri_now inp) (ri_query_id inp) = Inr e" "optional_bound (es_cost e) (Some 100)"
    using estimate_ok [OF assms] by blast
  let ?k = "components_of inp t (extract_filters q) s1 e"
  note b = components_of_bounds [OF sb e(2), of inp t "extract_filters q"]
  have sc: "score_of (reasons_of inp tr sr e) ?k = None
      \<or> (\<exists>s. score_of (reasons_of inp tr sr e) ?k = Some s \<and> 0 \<le> s \<and> s \<le> 100)"
  proof (cases "score_of (reasons_of inp tr sr e) ?k")
    case (Some s)
    then show ?thesis using components_sum [OF b] score_of_Some [OF Some] by auto
  qed simp
  show ?thesis
    unfolding candidate_scores_def Let_def t s e(1) prod.case bindR_simps
    by (subst mk_ranked_ok) (use b sc in simp_all)
qed

lemma rank_candidate_ok:
  assumes "inputs_typed inp" and "validate_query q = Inr ()"
  shows "is_ok (rank_candidate inp q cid)"
  using assms candidate_scores_ok [OF assms] validate_ok [OF assms(2)]
  by (auto simp: rank_candidate_def inputs_typed_def intro!: is_ok_bindR split: option.splits)

lemma assign_ranks_length: "length (assign_ranks rs) = length rs"
  by (simp add: assign_ranks_def del: upt_Suc)

lemma assign_ranks_nth: "i < length rs \<Longrightarrow> assign_ranks rs ! i = (rs ! i)\<lparr>rk_rank := Suc i\<rparr>"
  by (simp add: assign_ranks_def del: upt_Suc)

lemma assign_ranks_props:
  "map rk_rank (assign_ranks rs) = [1..<Suc (length rs)]"
  "map rk_position (assign_ranks rs) = map rk_position rs"
  "map rk_candidate_id (assign_ranks rs) = map rk_candidate_id rs"
  "map rk_score (assign_ranks rs) = map rk_score rs"
  by (rule nth_equalityI; simp add: assign_ranks_length assign_ranks_nth del: upt_Suc)+

lemma assign_ranks_mem: "r \<in> set (assign_ranks rs) \<Longrightarrow> \<exists>r'\<in>set rs. \<exists>n. r = r'\<lparr>rk_rank := n\<rparr>"
  by (metis assign_ranks_length assign_ranks_nth in_set_conv_nth)

lemma rank_query_Inr:
  assumes "rank_query_candidates ps cap order oids inp = Inr res"
  obtains ns ds rs js where
    "normalize_candidates (ri_hunt_id inp) 0 [] ps = Inr (ns, ds)"
    "rank_all (inp\<lparr>ri_plan_order := string_items order, ri_open := map_option string_items oids\<rparr>) ns = Inr (rs, js)"
    "qr_ranked res = assign_ranks (sort_key rank_key rs)" "cap \<le> MAX_CANDIDATE_CAP" "int (length ps) \<le> cap"
  using assms
  by (auto simp: rank_query_candidates_def Let_def bindR_eq_Inr not_le not_less split: if_splits)

subsection \<open>The ranking\<close>

lemma normalize_count: "normalize_candidates h i seen ps = Inr (ns, ds) \<Longrightarrow> length ns + length ds = length ps"
proof (induction h i seen ps arbitrary: ns ds rule: normalize_candidates.induct)
  case (2 h i seen raw rest)
  from "2.prems" obtain q cid where q: "raw = Some q" "candidate_id h q = Inr cid"
    by (cases raw) (auto simp: bindR_eq_Inr)
  then show ?case using 2 by (cases "cid \<in> set seen") (auto simp: bindR_eq_Inr)
qed simp

lemma rank_all_count: "rank_all inp ns = Inr (rs, js) \<Longrightarrow> length rs + length js = length ns"
proof (induction inp ns arbitrary: rs js rule: rank_all.induct)
  case (2 inp index q cid rest)
  from "2.prems" obtain v rs' js' where v: "rank_candidate inp q cid = Inr v" "rank_all inp rest = Inr (rs', js')"
    by (auto simp: result_simps)
  then show ?case using "2.IH" [OF v(2)] "2.prems" by (cases v) auto
qed simp

lemma rank_key_position: "sorted (map rank_key rs) \<Longrightarrow> sorted (map rk_position rs)"
  by (induction rs) (auto simp: rank_key_def less_eq_prod_def)

lemma rank_all_members:
  assumes "normalize_candidates h 0 [] ps = Inr (ns, ds)" "rank_all inp ns = Inr (rs, js)" "r \<in> set rs"
  shows "Some (rk_proposal r) \<in> set ps \<and> candidate_id h (rk_proposal r) = Inr (rk_candidate_id r)
         \<and> rank_candidate inp (rk_proposal r) (rk_candidate_id r) = Inr (Ranked r)"
proof -
  obtain c where c: "c \<in> set (map snd ns)" "ranked_of inp c = Some r"
    using assms(3) unfolding rank_all_ranked [OF assms(2)] set_map_filter by blast
  then show ?thesis
    using normalize_members [OF assms(1), of "fst c" "snd c"] ranked_of_id ranked_of_Some by simp
qed

lemma map_filter_ids_distinct:
  "distinct (map snd cs) \<Longrightarrow> distinct (map rk_candidate_id (List.map_filter (ranked_of inp) cs))"
proof (induction cs)
  case (Cons c cs)
  have "rk_candidate_id x \<in> snd ` set cs" if x: "x \<in> set (List.map_filter (ranked_of inp) cs)" for x
  proof -
    obtain d where "d \<in> set cs" "ranked_of inp d = Some x" using x unfolding set_map_filter by blast
    then show ?thesis using ranked_of_id [of inp d x] by simp
  qed
  then show ?case using Cons ranked_of_id [of inp c]
    by (cases "ranked_of inp c") (auto simp: List.map_filter_simps)
qed (simp add: List.map_filter_simps)

lemma rank_all_ids_distinct:
  assumes "normalize_candidates h 0 [] ps = Inr (ns, ds)" "rank_all inp ns = Inr (rs, js)"
  shows "distinct (map rk_candidate_id rs)"
  using normalize_distinct [OF assms(1)] rank_all_ranked [OF assms(2)]
  by (simp add: map_filter_ids_distinct)

text \<open>On well-typed inputs within the cap the ranking raises nothing - every estimate and every
  candidate satisfies the bounds its constructor checks - and every submitted candidate is ranked,
  rejected or counted as a duplicate.\<close>

theorem ranking_total:
  assumes "1 \<le> cap" "cap \<le> MAX_CANDIDATE_CAP" "int (length ps) \<le> cap"
    and "list_all (\<lambda>raw. \<exists>q. raw = Some q \<and> validate_query q = Inr ()) ps"
    and "inputs_typed inp"
    and "string_items order \<noteq> []" "distinct (string_items order)"
    and "case oids of None \<Rightarrow> True | Some ids \<Rightarrow> distinct (string_items ids)"
  shows "\<exists>res. rank_query_candidates ps cap order oids inp = Inr res
           \<and> length (qr_ranked res) + length (qr_rejected res) + length (qr_duplicates res) = length ps"
proof -
  let ?inp = "inp\<lparr>ri_plan_order := string_items order, ri_open := map_option string_items oids\<rparr>"
  have typed: "inputs_typed ?inp" using assms(5) by (simp add: inputs_typed_def)
  have h: "strip (ri_hunt_id inp) \<noteq> []" using assms(5) by (simp add: inputs_typed_def)
  have "is_ok (normalize_candidates (ri_hunt_id inp) 0 [] ps)"
    unfolding normalize_ok using assms(4) candidate_id_ok [OF h] by (fastforce simp: list_all_iff is_ok_iff)
  then obtain ns ds where n: "normalize_candidates (ri_hunt_id inp) 0 [] ps = Inr (ns, ds)"
    by (auto simp: is_ok_iff)
  have "validate_query q = Inr ()" if m: "(q, cid) \<in> set (map snd ns)" for q cid
    using normalize_members [OF n m] assms(4) by (auto simp: list_all_iff)
  then have "is_ok (rank_all ?inp ns)"
    unfolding rank_all_Inr list_all_iff using rank_candidate_ok [OF typed] by (metis prod.collapse)
  then obtain rs js where r: "rank_all ?inp ns = Inr (rs, js)" by (auto simp: is_ok_iff)
  have "\<not> (case map_option string_items oids of None \<Rightarrow> False | Some ids \<Rightarrow> \<not> no_repeats ids)"
    using assms(8) by (simp split: option.splits)
  then have "rank_query_candidates ps cap order oids inp
      = Inr \<lparr>qr_ranked = assign_ranks (sort_key rank_key rs), qr_rejected = js, qr_duplicates = ds\<rparr>"
    unfolding rank_query_candidates_def Let_def n using assms(1,2,3,6,7) h r by simp
  then show ?thesis
    using normalize_count [OF n] rank_all_count [OF r] by (simp add: assign_ranks_length)
qed

text \<open>C24. Approved question order is the primary key: the ranked candidates are at most the cap, carry
  the ranks 1, 2, ..., come in the order of the approved plan, and each is a submitted candidate,
  listed once, whose question is in the plan and open, and which the policy allows.\<close>

theorem ranking_follows_the_plan:
  assumes "rank_query_candidates ps cap order oids inp = Inr res"
  shows "length (qr_ranked res) \<le> nat cap \<and> cap \<le> 32
    \<and> map rk_rank (qr_ranked res) = [1..<Suc (length (qr_ranked res))]
    \<and> sorted (map rk_position (qr_ranked res))
    \<and> distinct (map rk_candidate_id (qr_ranked res))
    \<and> (\<forall>r\<in>set (qr_ranked res). Some (rk_proposal r) \<in> set ps
         \<and> rk_position r = index_of (qp_question_id (rk_proposal r)) (string_items order)
         \<and> qp_question_id (rk_proposal r) \<in> set (string_items order)
         \<and> (case oids of None \<Rightarrow> True | Some ids \<Rightarrow> qp_question_id (rk_proposal r) \<in> set (string_items ids))
         \<and> (\<exists>p v. ri_policy inp = Some p
              \<and> validate p (rk_proposal r) (map_option string_items oids) (ri_query_id inp) = Inr v
              \<and> qv_allowed v))"
proof -
  let ?inp = "inp\<lparr>ri_plan_order := string_items order, ri_open := map_option string_items oids\<rparr>"
  obtain ns ds rs js where n: "normalize_candidates (ri_hunt_id inp) 0 [] ps = Inr (ns, ds)"
    and a: "rank_all ?inp ns = Inr (rs, js)"
    and r: "qr_ranked res = assign_ranks (sort_key rank_key rs)" and cap: "cap \<le> MAX_CANDIDATE_CAP" "int (length ps) \<le> cap"
    using assms by (rule rank_query_Inr)
  have len: "length (qr_ranked res) \<le> nat cap"
    using r cap(2) rank_all_count [OF a] normalize_count [OF n] by (simp add: assign_ranks_length)
  have mem: "Some (rk_proposal x) \<in> set ps \<and> rank_candidate ?inp (rk_proposal x) (rk_candidate_id x) = Inr (Ranked x)"
    if "x \<in> set rs" for x
    using rank_all_members [OF n a that] by blast
  have each: "Some (rk_proposal x) \<in> set ps
         \<and> rk_position x = index_of (qp_question_id (rk_proposal x)) (string_items order)
         \<and> qp_question_id (rk_proposal x) \<in> set (string_items order)
         \<and> (case oids of None \<Rightarrow> True | Some ids \<Rightarrow> qp_question_id (rk_proposal x) \<in> set (string_items ids))
         \<and> (\<exists>p v. ri_policy inp = Some p
              \<and> validate p (rk_proposal x) (map_option string_items oids) (ri_query_id inp) = Inr v
              \<and> qv_allowed v)" if x: "x \<in> set (qr_ranked res)" for x
  proof -
    obtain y k where y: "y \<in> set rs" "x = y\<lparr>rk_rank := k\<rparr>"
      using assign_ranks_mem x r by (metis set_sort)
    note m = mem [OF y(1)]
    note k = rank_candidate_Ranked [OF m [THEN conjunct2]]
    have px: "rk_proposal x = rk_proposal y" "rk_position x = rk_position y" by (simp_all add: y(2))
    have "case oids of None \<Rightarrow> True | Some ids \<Rightarrow> qp_question_id (rk_proposal y) \<in> set (string_items ids)"
      using k(3) by (cases oids) simp_all
    then show ?thesis unfolding px using m k(2,4) candidate_scores_Inr [OF k(1)] by simp
  qed
  have "sorted (map rk_position (qr_ranked res))"
    unfolding r assign_ranks_props by (rule rank_key_position) simp
  moreover have "distinct (map rk_candidate_id (qr_ranked res))"
    unfolding r assign_ranks_props using rank_all_ids_distinct [OF n a]
    by (metis mset_map mset_sort mset_eq_imp_distinct_iff)
  ultimately show ?thesis
    using len cap each r assign_ranks_props(1) by (simp add: MAX_CANDIDATE_CAP_def assign_ranks_length)
qed

text \<open>A candidate has a score exactly when nothing about it is unknown; a score is the sum of its
  six components, at least 55 (the question is open, the telemetry confirmed and the query not yet
  answered) and at most 100, and within one question the scored candidates come first, best score
  first.\<close>

theorem ranking_scores:
  assumes "rank_query_candidates ps cap order oids inp = Inr res"
  shows "list_all scored (qr_ranked res)
    \<and> sorted (map (\<lambda>r. (rk_position r, if rk_score r = None then 1 else 0 :: nat,
                             case rk_score r of None \<Rightarrow> 0 | Some s \<Rightarrow> - s)) (qr_ranked res))"
proof -
  let ?inp = "inp\<lparr>ri_plan_order := string_items order, ri_open := map_option string_items oids\<rparr>"
  let ?f = "\<lambda>r. (rk_position r, if rk_score r = None then 1 else 0 :: nat, case rk_score r of None \<Rightarrow> 0 | Some s \<Rightarrow> - s)"
  obtain ns ds rs js where n: "normalize_candidates (ri_hunt_id inp) 0 [] ps = Inr (ns, ds)"
    and a: "rank_all ?inp ns = Inr (rs, js)"
    and r: "qr_ranked res = assign_ranks (sort_key rank_key rs)"
    using assms by (rule rank_query_Inr)
  have "scored y" if "y \<in> set rs" for y
    using rank_all_members [OF n a that] rank_candidate_Ranked(1) candidate_scores_Inr by blast
  then have "scored x" if x: "x \<in> set (qr_ranked res)" for x
  proof -
    obtain y k where y: "y \<in> set rs" "x = y\<lparr>rk_rank := k\<rparr>"
      using assign_ranks_mem x r by (metis set_sort)
    have "scored (y\<lparr>rk_rank := k\<rparr>) = scored y" by (cases "rk_score y") (simp_all add: scored_def)
    then show ?thesis using y \<open>\<And>y. y \<in> set rs \<Longrightarrow> scored y\<close> by simp
  qed
  moreover have "sorted (map ?f xs)" if "sorted (map rank_key xs)" for xs
    using that by (induction xs) (auto simp: rank_key_def less_eq_prod_def)
  then have "sorted (map ?f (sort_key rank_key rs))" by simp
  moreover have "map ?f (assign_ranks xs) = map ?f xs" for xs
    by (rule nth_equalityI) (simp_all add: assign_ranks_length assign_ranks_nth)
  ultimately show ?thesis by (simp add: list_all_iff r)
qed

lemma sort_key_unique:
  assumes "mset xs = mset ys" and "inj_on f (set xs)"
  shows "sort_key f xs = sort_key f ys"
  using sort_key_inj_key_eq [of xs "sort_key f ys" f] assms by simp

text \<open>Two different candidates with one identity: a collision of the hash.\<close>

definition identity_collision :: "string \<Rightarrow> QueryProposal option list \<Rightarrow> bool" where
  "identity_collision h ps \<longleftrightarrow>
     (\<exists>p q. Some p \<in> set ps \<and> Some q \<in> set ps \<and> p \<noteq> q \<and> candidate_id h p = candidate_id h q)"

lemma normalize_set:
  assumes "normalize_candidates h 0 [] ps = Inr (ns, ds)" and "\<not> identity_collision h ps"
  shows "set (map snd ns) = {(q, cid). Some q \<in> set ps \<and> candidate_id h q = Inr cid}"
proof (intro equalityI subrelI)
  fix q cid
  assume "(q, cid) \<in> set (map snd ns)"
  then show "(q, cid) \<in> {(q, cid). Some q \<in> set ps \<and> candidate_id h q = Inr cid}"
    using normalize_members [OF assms(1)] by simp
next
  fix q cid
  assume m: "(q, cid) \<in> {(q, cid). Some q \<in> set ps \<and> candidate_id h q = Inr cid}"
  then have "cid \<in> snd ` set (map snd ns)"
    using normalize_covers [OF assms(1), of q] by simp
  then obtain p where p: "(p, cid) \<in> set (map snd ns)" by (metis imageE prod.collapse)
  then have "Some p \<in> set ps" "candidate_id h p = Inr cid" using normalize_members [OF assms(1)] by blast+
  then have "p = q" using m assms(2) unfolding identity_collision_def by (metis (mono_tags, lifting) case_prodD mem_Collect_eq)
  then show "(q, cid) \<in> set (map snd ns)" using p by simp
qed

lemma normalize_mset:
  assumes "normalize_candidates h 0 [] ps = Inr (ns, ds)" "normalize_candidates h 0 [] ps' = Inr (ns', ds')"
    and "set ps = set ps'" "\<not> identity_collision h ps"
  shows "mset (map snd ns) = mset (map snd ns')"
proof -
  have "set (map snd ns) = set (map snd ns')"
    using normalize_set [OF assms(1,4)] normalize_set [OF assms(2)] assms(3,4) by (simp add: identity_collision_def)
  moreover have "distinct (map snd ns)" "distinct (map snd ns')"
    using normalize_distinct [OF assms(1)] normalize_distinct [OF assms(2)]
    unfolding map_map [symmetric] by (simp_all only: distinct_map)
  ultimately show ?thesis using set_eq_iff_mset_eq_distinct by blast
qed

lemma rank_key_inj: "distinct (map rk_candidate_id rs) \<Longrightarrow> inj_on rank_key (set rs)"
  by (auto simp: rank_key_def distinct_map inj_on_def)

lemma map_filter_mset: "mset xs = mset ys \<Longrightarrow> mset (List.map_filter f xs) = mset (List.map_filter f ys)"
  by (simp add: List.map_filter_def mset_filter)

definition ranking :: "QueryRankingResult result \<Rightarrow> RankedQueryCandidate list option" where
  "ranking r = (case r of Inl _ \<Rightarrow> None | Inr res \<Rightarrow> Some (qr_ranked res))"

lemma ranking_cong:
  assumes "is_ok a = is_ok b" and "\<And>r r'. a = Inr r \<Longrightarrow> b = Inr r' \<Longrightarrow> qr_ranked r = qr_ranked r'"
  shows "ranking a = ranking b"
proof (cases a)
  case (Inl e)
  then show ?thesis using assms(1) by (cases b) (simp_all add: ranking_def)
next
  case (Inr r)
  then obtain r' where "b = Inr r'" using assms(1) by (cases b) simp_all
  then show ?thesis using Inr assms(2) [OF Inr] by (simp only: ranking_def sum.case)
qed

lemma rank_query_ok:
  assumes "mset ps = mset ps'" and "\<not> identity_collision (ri_hunt_id inp) ps"
    and "is_ok (rank_query_candidates ps cap order oids inp)"
  shows "is_ok (rank_query_candidates ps' cap order oids inp)"
proof -
  let ?inp = "inp\<lparr>ri_plan_order := string_items order, ri_open := map_option string_items oids\<rparr>"
  obtain res where r: "rank_query_candidates ps cap order oids inp = Inr res" using assms(3) by (auto simp: is_ok_iff)
  obtain ns ds rs js where n: "normalize_candidates (ri_hunt_id inp) 0 [] ps = Inr (ns, ds)"
    and a: "rank_all ?inp ns = Inr (rs, js)"
    using r by (rule rank_query_Inr)
  have same: "set ps = set ps'" "length ps = length ps'"
    using assms(1) by (metis mset_eq_setD) (metis assms(1) size_mset)
  have "is_ok (normalize_candidates (ri_hunt_id inp) 0 [] ps')"
    using n same(1) normalize_ok [of "ri_hunt_id inp" 0 "[]" ps] normalize_ok [of "ri_hunt_id inp" 0 "[]" ps']
    by (simp only: list_all_iff is_ok_simps)
  then obtain ns' ds' where n': "normalize_candidates (ri_hunt_id inp) 0 [] ps' = Inr (ns', ds')"
    by (auto simp: is_ok_iff)
  have "set (map snd ns) = set (map snd ns')"
    using normalize_mset [OF n n' same(1) assms(2)] by (metis mset_eq_setD)
  then have "is_ok (rank_all ?inp ns')"
    using a rank_all_Inr [of ?inp ns] rank_all_Inr [of ?inp ns'] by (simp only: list_all_iff is_ok_simps)
  then show ?thesis
    using r n' same(2) unfolding rank_query_candidates_def Let_def
    by (auto simp: is_ok_bindR_pair split: if_splits)
qed

text \<open>The ranking is replayable: it does not depend on the order in which the candidates were
  submitted, unless two different candidates share a SHA-256 identity.\<close>

theorem ranking_order_independent:
  assumes "mset ps = mset ps'"
  shows "identity_collision (ri_hunt_id inp) ps
    \<or> ranking (rank_query_candidates ps cap order oids inp) = ranking (rank_query_candidates ps' cap order oids inp)"
proof (cases "identity_collision (ri_hunt_id inp) ps")
  case False
  have sets: "set ps = set ps'" using assms by (rule mset_eq_setD)
  then have False': "\<not> identity_collision (ri_hunt_id inp) ps'" using False by (simp add: identity_collision_def)
  let ?inp = "inp\<lparr>ri_plan_order := string_items order, ri_open := map_option string_items oids\<rparr>"
  have "qr_ranked r = qr_ranked r'"
    if r: "rank_query_candidates ps cap order oids inp = Inr r"
      and r': "rank_query_candidates ps' cap order oids inp = Inr r'" for r r'
  proof -
    obtain ns ds rs js where n: "normalize_candidates (ri_hunt_id inp) 0 [] ps = Inr (ns, ds)"
      and a: "rank_all ?inp ns = Inr (rs, js)" and e: "qr_ranked r = assign_ranks (sort_key rank_key rs)"
      using r by (rule rank_query_Inr)
    obtain ns' ds' rs' js' where n': "normalize_candidates (ri_hunt_id inp) 0 [] ps' = Inr (ns', ds')"
      and a': "rank_all ?inp ns' = Inr (rs', js')" and e': "qr_ranked r' = assign_ranks (sort_key rank_key rs')"
      using r' by (rule rank_query_Inr)
    have "mset rs = mset rs'"
      using map_filter_mset [OF normalize_mset [OF n n' sets False]] rank_all_ranked [OF a] rank_all_ranked [OF a'] by simp
    then show ?thesis
      using sort_key_unique rank_key_inj [OF rank_all_ids_distinct [OF n a]] e e' by metis
  qed
  moreover have "is_ok (rank_query_candidates ps cap order oids inp) = is_ok (rank_query_candidates ps' cap order oids inp)"
    using rank_query_ok [OF assms False] rank_query_ok [OF assms [symmetric] False'] by blast
  ultimately show ?thesis using ranking_cong by blast
qed simp

subsection \<open>Examples\<close>

definition example_scope :: approved_scope where
  "example_scope = \<lparr>sc_earliest = Stamp \<lparr>naive_us = 0, utcoffset = Some 0\<rparr>,
     sc_latest = Stamp \<lparr>naive_us = 7200000000, utcoffset = Some 0\<rparr>,
     sc_indexes = Some [Some ''main'', Some '' os ''], sc_sourcetypes = Some [Some ''web''], sc_entities = Some []\<rparr>"

definition example_inputs :: rank_inputs where
  "example_inputs = \<lparr>ri_hunt_id = ''h1'', ri_plan_order = [], ri_open = None, ri_scope' = Some example_scope,
     ri_discovery = None, ri_policy = Some example_policy, ri_pivots = Some [Some ''bob''],
     ri_history = Some [NotMapping], ri_now = Some \<lparr>naive_us = 5, utcoffset = Some 0\<rparr>, ri_query_id = ''id''\<rparr>"

lemma example_inputs_typed: "inputs_typed example_inputs"
proof -
  have "strip ''h1'' \<noteq> []" by code_simp
  moreover have "valid_utc 0" "valid_utc 7200000000" "valid_utc 5" by code_simp+
  ultimately show ?thesis
    by (simp add: inputs_typed_def example_inputs_def example_scope_def scope_typed_def time_typed_def utc_ok_def
        item_typed_def ensure_utc_def as_utc_def example_policy_def)
qed

lemma example_order: "string_items [Some ''q1'', None, Some ''q2''] = [''q1'', ''q2'']"
  by code_simp

theorem ranking_total_witness:
  "\<exists>res. rank_query_candidates [Some example_query, Some example_query] 8 [Some ''q1'', None, Some ''q2''] None example_inputs
      = Inr res \<and> length (qr_ranked res) + length (qr_rejected res) + length (qr_duplicates res) = 2"
proof -
  have "\<exists>res. rank_query_candidates [Some example_query, Some example_query] 8 [Some ''q1'', None, Some ''q2''] None example_inputs
      = Inr res \<and> length (qr_ranked res) + length (qr_rejected res) + length (qr_duplicates res)
        = length [Some example_query, Some example_query]"
    using example_inputs_typed example_query_valid
    by (intro ranking_total) (simp_all add: MAX_CANDIDATE_CAP_def example_order)
  then show ?thesis by (simp add: numeral_2_eq_2)
qed

lemma example_ranked:
  "\<exists>res. rank_query_candidates [Some example_query] 8 [Some ''q1'', None, Some ''q2''] (Some [Some ''q1'']) example_inputs = Inr res
     \<and> length (qr_ranked res) = 1"
proof -
  let ?inp = "example_inputs\<lparr>ri_plan_order := [''q1'', ''q2''], ri_open := Some [''q1'']\<rparr>"
  have typed: "inputs_typed ?inp" using example_inputs_typed by (simp add: inputs_typed_def)
  obtain v where v: "validate example_policy example_query (Some [''q1'']) ''id'' = Inr v" "qv_allowed v"
    using example_allowed by blast
  have h: "strip ''h1'' \<noteq> []" by code_simp
  obtain cid where cid: "candidate_id ''h1'' example_query = Inr cid" using candidate_id_ok [OF h] by blast
  obtain r where r: "candidate_scores ?inp example_query cid = Inr r"
    using candidate_scores_ok [OF typed example_query_valid] by (auto simp: is_ok_iff)
  have q: "qp_question_id example_query = ''q1''" by (simp add: example_query_def)
  have sel: "ri_policy ?inp = Some example_policy" "ri_open ?inp = Some [''q1'']"
    "ri_query_id ?inp = ''id''" "ri_plan_order ?inp = [''q1'', ''q2'']"
    "ri_hunt_id example_inputs = ''h1''"
    by (simp_all add: example_inputs_def)
  have "rank_candidate ?inp example_query cid = Inr (Ranked r)"
    unfolding rank_candidate_def sel q using v r by simp
  then have a: "rank_all ?inp [(0, example_query, cid)] = Inr ([r], [])" by simp
  have n: "normalize_candidates ''h1'' 0 [] [Some example_query] = Inr ([(0, example_query, cid)], [])"
    by (simp add: cid)
  have o1: "string_items [Some ''q1''] = [''q1'']" by code_simp
  have "rank_query_candidates [Some example_query] 8 [Some ''q1'', None, Some ''q2''] (Some [Some ''q1'']) example_inputs
      = Inr \<lparr>qr_ranked = assign_ranks (sort_key rank_key [r]), qr_rejected = [], qr_duplicates = []\<rparr>"
    unfolding rank_query_candidates_def Let_def example_order option.map o1 sel n MAX_CANDIDATE_CAP_def
    using a h by simp
  then show ?thesis by (simp add: assign_ranks_length)
qed

theorem ranking_follows_the_plan_witness:
  "\<exists>res. rank_query_candidates [Some example_query] 8 [Some ''q1'', None, Some ''q2''] (Some [Some ''q1'']) example_inputs = Inr res
     \<and> map rk_rank (qr_ranked res) = [1] \<and> rk_proposal (hd (qr_ranked res)) = example_query
     \<and> rk_position (hd (qr_ranked res)) = 0"
proof -
  obtain res where r: "rank_query_candidates [Some example_query] 8 [Some ''q1'', None, Some ''q2''] (Some [Some ''q1'']) example_inputs = Inr res"
    "length (qr_ranked res) = 1" using example_ranked by blast
  then obtain x where x: "qr_ranked res = [x]" by (metis One_nat_def length_0_conv length_Suc_conv)
  have "index_of (qp_question_id example_query) [''q1'', ''q2''] = 0"
    by (simp add: index_of_def example_query_def)
  then show ?thesis
    using ranking_follows_the_plan [OF r(1)] r(1) x by (simp add: example_order)
qed

theorem ranking_scores_witness:
  "\<exists>res. rank_query_candidates [Some example_query] 8 [Some ''q1'', None, Some ''q2''] (Some [Some ''q1'']) example_inputs = Inr res
     \<and> length (qr_ranked res) = 1 \<and> list_all scored (qr_ranked res)"
  using example_ranked ranking_scores by blast

theorem ranking_order_independent_witness:
  "identity_collision ''h1'' [Some example_query, Some (example_query\<lparr>qp_max_results := 50\<rparr>)]
   \<or> ranking (rank_query_candidates [Some example_query, Some (example_query\<lparr>qp_max_results := 50\<rparr>)] 8
                [Some ''q1''] None example_inputs)
     = ranking (rank_query_candidates [Some (example_query\<lparr>qp_max_results := 50\<rparr>), Some example_query] 8
                [Some ''q1''] None example_inputs)"
proof -
  have "ri_hunt_id example_inputs = ''h1''" by (simp add: example_inputs_def)
  moreover have "mset [Some example_query, Some (example_query\<lparr>qp_max_results := 50\<rparr>)]
    = mset [Some (example_query\<lparr>qp_max_results := 50\<rparr>), Some example_query]" by simp
  ultimately show ?thesis using ranking_order_independent [of _ _ example_inputs] by metis
qed

end
