(* ===== verification/Auth.thy ===== *)
theory Auth
  imports SPLPolicy
begin

text \<open>
  \<^verbatim>\<open>auth/service.py\<close>: local accounts, opaque sessions and the persistent login limiter.  The tables
  are lists of rows, a transaction is one step, and what the code draws or reads from outside -
  times, tokens, identifiers, the Argon2 hasher - is an argument.  Usernames are over the code
  points 0 to 255.
\<close>

subsection \<open>Usernames\<close>

text \<open>\<open>str.casefold\<close> on one Latin-1 character.\<close>

definition casefold_char :: "char \<Rightarrow> string" where
  "casefold_char c =
     (if ascii_upper c \<or> (192 \<le> code c \<and> code c \<le> 222 \<and> code c \<noteq> 215) then [char_of (code c + 32)]
      else if code c = 223 then ''ss''
      else [c])"

definition casefold :: "string \<Rightarrow> string" where
  "casefold s = concat (map casefold_char s)"

definition normalize_username :: "string \<Rightarrow> string result" where
  "normalize_username username =
     (let n = casefold (join '' '' (split_ws (strip username))) in
      if n = [] \<or> length n > 100 then Inl (ValueError ''username must contain 1 to 100 characters'')
      else if list_ex (\<lambda>c. code c < 32) n then Inl (ValueError ''username contains a control character'')
      else Inr n)"

subsection \<open>Tables\<close>

record user_row =
  u_user_id :: string
  u_username :: string
  u_display_name :: string
  u_password_hash :: string

record session_row =
  s_token_hash :: string
  s_user_id :: string
  s_csrf_hash :: string
  s_expires_at :: utc

record limit_row =
  lr_bucket :: string
  lr_failures :: int
  lr_started :: utc
  lr_blocked :: "utc option"
  lr_updated :: utc

record audit_row =
  au_id :: string
  au_owner :: "string option"
  au_actor_type :: string
  au_actor :: string
  au_action :: string
  au_object_type :: string
  au_object :: "string option"
  au_outcome :: string
  au_detail :: "string option"
  au_client_hash :: "string option"
  au_time :: utc

record auth_db =
  db_users :: "user_row list"
  db_sessions :: "session_row list"
  db_limits :: "limit_row list"
  db_audit :: "audit_row list"

record Session =
  sn_token :: string
  sn_csrf :: string
  sn_user_id :: string
  sn_expires_at :: utc

definition hash_text :: "string \<Rightarrow> string" where
  "hash_text v = sha256_hex (encode v)"

subsection \<open>The login limiter\<close>

record LoginRateLimiter =
  max_client_failures :: int
  max_account_failures :: int
  limit_window :: int

definition mk_limiter :: "int \<Rightarrow> int \<Rightarrow> int \<Rightarrow> LoginRateLimiter result" where
  "mk_limiter client account window =
     (if client \<le> 0 \<or> account < client then Inl (ValueError ''login rate limits are invalid'')
      else Inr \<lparr>max_client_failures = client, max_account_failures = account, limit_window = window\<rparr>)"

definition default_limiter :: LoginRateLimiter where
  "default_limiter = \<lparr>max_client_failures = 5, max_account_failures = 25, limit_window = 900000000\<rparr>"

definition bucket_hash :: "string \<Rightarrow> string \<Rightarrow> string" where
  "bucket_hash dimension v = hash_text (dimension @ '':'' @ v)"

definition client_name :: "string \<Rightarrow> string" where
  "client_name client_key = (if client_key = [] then ''unknown'' else client_key)"

definition buckets :: "LoginRateLimiter \<Rightarrow> string \<Rightarrow> string \<Rightarrow> (string \<times> int) list" where
  "buckets l username client_key =
     [(bucket_hash ''account'' username, max_account_failures l),
      (bucket_hash ''client'' (client_name client_key), max_client_failures l)]"

definition stale_limit :: "LoginRateLimiter \<Rightarrow> utc \<Rightarrow> limit_row \<Rightarrow> bool" where
  "stale_limit l now r \<longleftrightarrow>
     lr_updated r \<le> now - limit_window l
     \<and> (case lr_blocked r of None \<Rightarrow> True | Some b \<Rightarrow> b \<le> now)"

definition cleanup_limits :: "LoginRateLimiter \<Rightarrow> utc \<Rightarrow> limit_row list \<Rightarrow> limit_row list" where
  "cleanup_limits l now rows = filter (\<lambda>r. \<not> stale_limit l now r) rows"

definition blocked_at :: "utc \<Rightarrow> limit_row \<Rightarrow> bool" where
  "blocked_at now r \<longleftrightarrow> (case lr_blocked r of None \<Rightarrow> False | Some b \<Rightarrow> b > now)"

definition limiter_allowed ::
  "LoginRateLimiter \<Rightarrow> string \<Rightarrow> string \<Rightarrow> utc \<Rightarrow> limit_row list \<Rightarrow> limit_row list \<times> bool" where
  "limiter_allowed l username client_key now rows =
     (let rows' = cleanup_limits l now rows; hashes = map fst (buckets l username client_key) in
      (rows', \<not> list_ex (\<lambda>r. lr_bucket r \<in> set hashes \<and> blocked_at now r) rows'))"

text \<open>The insert of \<open>_record_bucket\<close> and its update on conflict.\<close>

definition first_failure :: "LoginRateLimiter \<Rightarrow> string \<Rightarrow> int \<Rightarrow> utc \<Rightarrow> limit_row" where
  "first_failure l h max_failures now =
     \<lparr>lr_bucket = h, lr_failures = 1, lr_started = now,
      lr_blocked = (if max_failures = 1 then Some (now + limit_window l) else None), lr_updated = now\<rparr>"

definition next_failure :: "LoginRateLimiter \<Rightarrow> int \<Rightarrow> utc \<Rightarrow> limit_row \<Rightarrow> limit_row" where
  "next_failure l max_failures now r =
     (let expired = (lr_started r \<le> now - limit_window l);
          blocked_until = now + limit_window l in
      r\<lparr>lr_failures := (if expired then 1 else lr_failures r + 1),
        lr_started := (if expired then now else lr_started r),
        lr_blocked := (if expired then (if max_failures = 1 then Some blocked_until else None)
                       else if lr_failures r + 1 \<ge> max_failures then Some blocked_until
                       else lr_blocked r),
        lr_updated := now\<rparr>)"

definition record_bucket :: "LoginRateLimiter \<Rightarrow> utc \<Rightarrow> string \<times> int \<Rightarrow> limit_row list \<Rightarrow> limit_row list" where
  "record_bucket l now b rows =
     (if list_ex (\<lambda>r. lr_bucket r = fst b) rows
      then map (\<lambda>r. if lr_bucket r = fst b then next_failure l (snd b) now r else r) rows
      else rows @ [first_failure l (fst b) (snd b) now])"

definition record_failure ::
  "LoginRateLimiter \<Rightarrow> string \<Rightarrow> string \<Rightarrow> utc \<Rightarrow> limit_row list \<Rightarrow> limit_row list" where
  "record_failure l username client_key now rows =
     fold (record_bucket l now) (buckets l username client_key) (cleanup_limits l now rows)"

definition clear_limits :: "LoginRateLimiter \<Rightarrow> string \<Rightarrow> string \<Rightarrow> limit_row list \<Rightarrow> limit_row list" where
  "clear_limits l username client_key rows =
     filter (\<lambda>r. lr_bucket r \<notin> set (map fst (buckets l username client_key))) rows"

subsection \<open>Accounts and sessions\<close>

definition SESSION_TTL :: int where "SESSION_TTL = 28800000000"

record AccountService =
  ac_limiter :: LoginRateLimiter
  ac_session_ttl :: int

text \<open>A unique or primary key that is already present.\<close>

definition integrity_error :: py_error where "integrity_error = RuntimeError ''IntegrityError''"

definition permission_error :: "string \<Rightarrow> py_error" where
  "permission_error m = RuntimeError (''PermissionError: '' @ m)"

record public_user =
  pu_user_id :: string
  pu_username :: string
  pu_display_name :: string

definition public_of :: "user_row \<Rightarrow> public_user" where
  "public_of u = \<lparr>pu_user_id = u_user_id u, pu_username = u_username u, pu_display_name = u_display_name u\<rparr>"

definition create_account ::
  "string \<Rightarrow> string \<Rightarrow> string option \<Rightarrow> (string \<Rightarrow> string) \<Rightarrow> string \<Rightarrow> string \<Rightarrow> utc \<Rightarrow> auth_db \<Rightarrow>
   (auth_db \<times> public_user) result" where
  "create_account username password display_name hasher user_id audit_id now db =
     bindR (normalize_username username) (\<lambda>n.
     if password = [] \<or> length password > 200
       then Inl (ValueError ''password must contain 1 to 200 characters'')
     else
       let shown = (case display_name of None \<Rightarrow> n | Some d \<Rightarrow> if d = [] then n else d);
           u = \<lparr>u_user_id = user_id, u_username = n, u_display_name = take 200 shown, u_password_hash = hasher password\<rparr>
       in if list_ex (\<lambda>v. u_user_id v = user_id \<or> u_username v = n) (db_users db) then Inl integrity_error
          else Inr (db\<lparr>db_users := db_users db @ [u],
                      db_audit := db_audit db @ [\<lparr>au_id = audit_id, au_owner = Some user_id, au_actor_type = ''system'',
                        au_actor = user_id, au_action = ''account_created'', au_object_type = ''account'',
                        au_object = Some user_id, au_outcome = ''success'', au_detail = None,
                        au_client_hash = None, au_time = now\<rparr>]\<rparr>, public_of u))"

text \<open>What Argon2's \<open>verify\<close> does: it accepts, raises a verification error, or raises another one.\<close>

datatype verification = Verified | Mismatch | Raised py_error

text \<open>The values one call of \<open>login\<close> draws: the time of the check, of the write, of the audit record.\<close>

record login_draws =
  dr_checked :: utc
  dr_written :: utc
  dr_audited :: utc
  dr_token :: string
  dr_csrf :: string
  dr_audit_id :: string

definition failure_audit :: "string \<Rightarrow> string \<Rightarrow> string \<Rightarrow> string \<Rightarrow> string \<Rightarrow> login_draws \<Rightarrow> audit_row" where
  "failure_audit username client_key action detail outcome d =
     \<lparr>au_id = dr_audit_id d, au_owner = None, au_actor_type = ''analyst'', au_actor = username, au_action = action,
      au_object_type = ''session'', au_object = None, au_outcome = outcome, au_detail = Some detail,
      au_client_hash = Some (hash_text (client_name client_key)), au_time = dr_audited d\<rparr>"

definition fail_login ::
  "AccountService \<Rightarrow> string \<Rightarrow> string \<Rightarrow> login_draws \<Rightarrow> auth_db \<Rightarrow> auth_db \<times> (Session \<times> public_user) result" where
  "fail_login ac username client_key d db =
     (db\<lparr>db_limits := record_failure (ac_limiter ac) username client_key (dr_written d) (db_limits db),
         db_audit := db_audit db @ [failure_audit username client_key ''login_failed'' ''invalid credentials'' ''failure'' d]\<rparr>,
      Inl (ValueError ''invalid username or password''))"

definition open_session ::
  "AccountService \<Rightarrow> user_row \<Rightarrow> string \<Rightarrow> string \<Rightarrow> login_draws \<Rightarrow> auth_db \<Rightarrow>
   auth_db \<times> (Session \<times> public_user) result" where
  "open_session ac u username client_key d db =
     (let cleared = db\<lparr>db_limits := clear_limits (ac_limiter ac) username client_key (db_limits db)\<rparr>;
          expires = dr_written d + ac_session_ttl ac in
      if list_ex (\<lambda>s. s_token_hash s = hash_text (dr_token d)) (db_sessions db)
        then (cleared, Inl integrity_error)
      else
        (cleared\<lparr>db_sessions := db_sessions db @ [\<lparr>s_token_hash = hash_text (dr_token d), s_user_id = u_user_id u,
                   s_csrf_hash = hash_text (dr_csrf d), s_expires_at = expires\<rparr>],
                 db_audit := db_audit db @ [\<lparr>au_id = dr_audit_id d, au_owner = Some (u_user_id u),
                   au_actor_type = ''analyst'', au_actor = u_user_id u, au_action = ''login_succeeded'',
                   au_object_type = ''session'', au_object = Some (hash_text (dr_token d)), au_outcome = ''success'',
                   au_detail = None, au_client_hash = Some (hash_text (client_name client_key)),
                   au_time = dr_written d\<rparr>]\<rparr>,
         Inr (\<lparr>sn_token = dr_token d, sn_csrf = dr_csrf d, sn_user_id = u_user_id u, sn_expires_at = expires\<rparr>,
              public_of u)))"

text \<open>An unknown account verifies the password against a dummy hash, whose mismatch is ignored.\<close>

definition login ::
  "(string \<Rightarrow> string \<Rightarrow> verification) \<Rightarrow> string \<Rightarrow> AccountService \<Rightarrow> string \<Rightarrow> string \<Rightarrow> string \<Rightarrow> login_draws \<Rightarrow>
   auth_db \<Rightarrow> auth_db \<times> (Session \<times> public_user) result" where
  "login verify dummy ac username password client_key d db =
     (case normalize_username username of
        Inl e \<Rightarrow> (db, Inl e)
      | Inr n \<Rightarrow>
          (case limiter_allowed (ac_limiter ac) n client_key (dr_checked d) (db_limits db) of (limits, ok) \<Rightarrow>
             let db1 = db\<lparr>db_limits := limits\<rparr> in
             if \<not> ok then
               (db1\<lparr>db_audit := db_audit db @ [failure_audit n client_key ''login_rate_limited''
                       ''login rate limit exceeded'' ''denied'' d]\<rparr>,
                Inl (permission_error ''too many login attempts; try again later''))
             else
               (case find (\<lambda>u. u_username u = n) (db_users db) of
                  None \<Rightarrow>
                    (case verify dummy password of
                       Raised e \<Rightarrow> (db1, Inl e)
                     | _ \<Rightarrow> fail_login ac n client_key d db1)
                | Some u \<Rightarrow>
                    (case verify (u_password_hash u) password of
                       Raised e \<Rightarrow> (db1, Inl e)
                     | Mismatch \<Rightarrow> fail_login ac n client_key d db1
                     | Verified \<Rightarrow> open_session ac u n client_key d db1))))"

definition authenticate :: "string \<Rightarrow> string option \<Rightarrow> utc \<Rightarrow> auth_db \<Rightarrow> string result" where
  "authenticate token csrf_token now db =
     (case find (\<lambda>s. s_token_hash s = hash_text token) (db_sessions db) of
        None \<Rightarrow> Inl (ValueError ''invalid or expired session'')
      | Some s \<Rightarrow>
          if s_expires_at s \<le> now then Inl (ValueError ''invalid or expired session'')
          else if (case csrf_token of None \<Rightarrow> False | Some c \<Rightarrow> hash_text c \<noteq> s_csrf_hash s)
            then Inl (permission_error ''CSRF validation failed'')
          else Inr (s_user_id s))"

definition logout :: "string \<Rightarrow> string \<Rightarrow> utc \<Rightarrow> auth_db \<Rightarrow> auth_db" where
  "logout token audit_id now db =
     (let h = hash_text token;
          kept = db\<lparr>db_sessions := filter (\<lambda>s. s_token_hash s \<noteq> h) (db_sessions db)\<rparr> in
      case find (\<lambda>s. s_token_hash s = h) (db_sessions db) of
        None \<Rightarrow> kept
      | Some s \<Rightarrow>
          kept\<lparr>db_audit := db_audit db @ [\<lparr>au_id = audit_id, au_owner = Some (s_user_id s), au_actor_type = ''analyst'',
            au_actor = s_user_id s, au_action = ''logout'', au_object_type = ''session'', au_object = Some h,
            au_outcome = ''success'', au_detail = None, au_client_hash = None, au_time = now\<rparr>]\<rparr>)"

subsection \<open>Login attempts\<close>

record login_op =
  lo_username :: string
  lo_password :: string
  lo_client :: string
  lo_draws :: login_draws

definition login_step ::
  "(string \<Rightarrow> string \<Rightarrow> verification) \<Rightarrow> string \<Rightarrow> AccountService \<Rightarrow> login_op \<Rightarrow> auth_db \<Rightarrow>
   auth_db \<times> (Session \<times> public_user) result" where
  "login_step verify dummy ac op db =
     login verify dummy ac (lo_username op) (lo_password op) (lo_client op) (lo_draws op) db"

fun run_logins ::
  "(string \<Rightarrow> string \<Rightarrow> verification) \<Rightarrow> string \<Rightarrow> AccountService \<Rightarrow> auth_db \<Rightarrow> login_op list \<Rightarrow>
   (login_op \<times> (Session \<times> public_user) result) list" where
  "run_logins verify dummy ac db [] = []"
| "run_logins verify dummy ac db (op # ops) =
     (case login_step verify dummy ac op db of (db', r) \<Rightarrow> (op, r) # run_logins verify dummy ac db' ops)"

fun chronological :: "utc \<Rightarrow> login_op list \<Rightarrow> bool" where
  "chronological now [] \<longleftrightarrow> True"
| "chronological now (op # ops) \<longleftrightarrow>
     now \<le> dr_checked (lo_draws op) \<and> dr_checked (lo_draws op) \<le> dr_written (lo_draws op)
     \<and> chronological (dr_written (lo_draws op)) ops"

definition wrong_guess :: "(Session \<times> public_user) result \<Rightarrow> bool" where
  "wrong_guess r \<longleftrightarrow> r = Inl (ValueError ''invalid username or password'')"

definition refused :: "(Session \<times> public_user) result \<Rightarrow> bool" where
  "refused r \<longleftrightarrow> r = Inl (permission_error ''too many login attempts; try again later'')"

definition bucket_of :: "string \<Rightarrow> string" where
  "bucket_of username = bucket_hash ''account'' username"

text \<open>Another account, or a client, whose bucket has the same SHA-256 digest.\<close>

definition bucket_clash :: "string \<Rightarrow> login_op list \<Rightarrow> bool" where
  "bucket_clash u ops \<longleftrightarrow>
     (\<exists>op\<in>set ops. bucket_hash ''client'' (client_name (lo_client op)) = bucket_of u
        \<or> (\<exists>n. normalize_username (lo_username op) = Inr n \<and> n \<noteq> u \<and> bucket_of n = bucket_of u))"

subsection \<open>One bucket of the limiter\<close>

definition bucket_row :: "string \<Rightarrow> limit_row list \<Rightarrow> limit_row option" where
  "bucket_row h rows = find (\<lambda>r. lr_bucket r = h) rows"

definition keyed :: "limit_row list \<Rightarrow> bool" where
  "keyed rows \<longleftrightarrow> distinct (map lr_bucket rows)"

lemma bucket_row_Some: "keyed rows \<Longrightarrow> bucket_row h rows = Some r \<longleftrightarrow> r \<in> set rows \<and> lr_bucket r = h"
  unfolding bucket_row_def keyed_def by (induction rows) (auto simp: image_iff)

lemma bucket_row_None: "bucket_row h rows = None \<longleftrightarrow> h \<notin> lr_bucket ` set rows"
  by (auto simp: bucket_row_def find_None_iff)

lemma keyed_filter: "keyed rows \<Longrightarrow> keyed (filter p rows)"
  by (simp add: keyed_def distinct_map_filter)

lemma bucket_row_filter:
  assumes "keyed rows"
  shows "bucket_row h (filter p rows) = (case bucket_row h rows of Some r \<Rightarrow> if p r then Some r else None | None \<Rightarrow> None)"
proof (cases "bucket_row h rows")
  case None
  then have "bucket_row h (filter p rows) = None" by (auto simp: bucket_row_None)
  then show ?thesis using None by simp
next
  case (Some r)
  then have r: "r \<in> set rows" "lr_bucket r = h" using bucket_row_Some [OF assms] by blast+
  have only: "x = r" if "x \<in> set rows" "lr_bucket x = h" for x
    using that r assms by (auto simp: keyed_def distinct_map dest: inj_onD)
  show ?thesis
  proof (cases "p r")
    case True
    then have "bucket_row h (filter p rows) = Some r"
      using bucket_row_Some [OF keyed_filter [OF assms]] r by simp
    then show ?thesis using Some True by simp
  next
    case False
    then have "bucket_row h (filter p rows) = None" unfolding bucket_row_None using only by auto
    then show ?thesis using Some False by simp
  qed
qed

lemma next_failure_bucket [simp]: "lr_bucket (next_failure l m now r) = lr_bucket r"
  by (simp add: next_failure_def Let_def)

lemma bucket_update [simp]:
  "lr_bucket (if lr_bucket r = h then next_failure l m now r else r) = lr_bucket r"
  by simp

lemma keyed_record: "keyed rows \<Longrightarrow> keyed (record_bucket l now b rows)"
  by (auto simp: record_bucket_def keyed_def first_failure_def list_ex_iff comp_def)

lemma bucket_row_record_other:
  assumes "fst b \<noteq> h"
  shows "bucket_row h (record_bucket l now b rows) = bucket_row h rows"
proof (cases "bucket_row h rows")
  case None
  then show ?thesis using assms
    by (auto simp: record_bucket_def bucket_row_def find_map_same find_append first_failure_def)
next
  case (Some r)
  then have "lr_bucket r \<noteq> fst b" using assms by (auto simp: bucket_row_def find_Some_iff)
  then show ?thesis using Some
    by (simp add: record_bucket_def bucket_row_def find_map_same find_append)
qed

lemma bucket_row_record_same:
  "bucket_row h (record_bucket l now (h, m) rows) =
     Some (case bucket_row h rows of None \<Rightarrow> first_failure l h m now | Some r \<Rightarrow> next_failure l m now r)"
proof (cases "bucket_row h rows")
  case None
  then have "\<not> list_ex (\<lambda>r. lr_bucket r = h) rows" by (auto simp: bucket_row_None list_ex_iff)
  then show ?thesis using None
    by (simp add: record_bucket_def bucket_row_def find_append first_failure_def)
next
  case (Some r)
  then have "list_ex (\<lambda>r. lr_bucket r = h) rows" "lr_bucket r = h"
    by (auto simp: bucket_row_def find_Some_iff list_ex_iff)
  then show ?thesis using Some by (simp add: record_bucket_def bucket_row_def find_map_same)
qed

subsection \<open>The failures a bucket has seen\<close>

text \<open>The failures recorded for a bucket fall into windows: each is at most \<open>m\<close> long, and the starts
  of two windows are at least \<open>w\<close> apart.\<close>

definition windows :: "int \<Rightarrow> nat \<Rightarrow> int list list \<Rightarrow> bool" where
  "windows w m segs \<longleftrightarrow>
     (\<forall>s\<in>set segs. s \<noteq> [] \<and> length s \<le> m) \<and> sorted_wrt (\<lambda>s t. hd s + w \<le> hd t) segs \<and> sorted (concat segs)"

definition within :: "int \<Rightarrow> int \<Rightarrow> int \<Rightarrow> bool" where
  "within t w f \<longleftrightarrow> t < f \<and> f \<le> t + w"

lemma windows_count:
  assumes "windows w m segs"
  shows "length (filter (within t w) (concat segs)) \<le> 2 * m"
  using assms
proof (induction segs)
  case (Cons s segs)
  then have w: "windows w m segs" and s: "length s \<le> m"
    by (auto simp: windows_def sorted_append)
  show ?case
  proof (cases "filter (within t w) s = []")
    case True
    then show ?thesis using Cons.IH [OF w] by simp
  next
    case False
    then obtain f where f: "f \<in> set s" "t < f" by (auto simp: filter_empty_conv within_def)
    show ?thesis
    proof (cases segs)
      case Nil
      have "length (filter (within t w) s) \<le> m" by (rule le_trans [OF length_filter_le s])
      then show ?thesis using Nil by simp
    next
      case (Cons r rest)
      have r: "r \<noteq> []" "length r \<le> m" using w Cons by (auto simp: windows_def)
      have "f \<le> hd r" using \<open>windows w m (s # segs)\<close> f(1) r(1) Cons by (auto simp: windows_def sorted_append)
      have far: "\<not> within t w x" if q: "q \<in> set rest" and x: "x \<in> set q" for q x
      proof -
        have "hd r + w \<le> hd q" "q \<noteq> []" using w Cons q by (auto simp: windows_def)
        moreover have "sorted q" using w Cons q unfolding windows_def
          by (metis concat.simps(2) in_set_conv_decomp sorted_append concat_append)
        then have "hd q \<le> x" using x by (cases q) auto
        ultimately show ?thesis using \<open>f \<le> hd r\<close> f(2) by (simp add: within_def)
      qed
      have "filter (within t w) (concat rest) = []" using far by (auto simp: filter_empty_conv)
      then have "length (filter (within t w) (concat (s # segs)))
          = length (filter (within t w) s) + length (filter (within t w) r)"
        using Cons by simp
      then show ?thesis using s r(2) length_filter_le [of "within t w" s] length_filter_le [of "within t w" r] by linarith
    qed
  qed
qed simp

definition row_matches :: "int \<Rightarrow> nat \<Rightarrow> int list list \<Rightarrow> utc \<Rightarrow> limit_row option \<Rightarrow> bool" where
  "row_matches w m segs now row \<longleftrightarrow>
     (case row of
        None \<Rightarrow> \<forall>s\<in>set segs. hd s + w \<le> now
      | Some r \<Rightarrow>
          segs \<noteq> [] \<and> lr_started r = hd (last segs) \<and> lr_updated r = last (last segs)
          \<and> lr_failures r = int (length (last segs))
          \<and> (int m \<le> lr_failures r \<longrightarrow> (\<exists>b. lr_blocked r = Some b \<and> lr_started r + w \<le> b)))"

lemma row_matches_time: "row_matches w m segs now (Some r) = row_matches w m segs now' (Some r)"
  by (simp add: row_matches_def)

definition bucket_inv :: "int \<Rightarrow> nat \<Rightarrow> string \<Rightarrow> limit_row list \<Rightarrow> utc \<Rightarrow> int list \<Rightarrow> bool" where
  "bucket_inv w m h rows now hist \<longleftrightarrow>
     keyed rows \<and> (\<forall>f\<in>set hist. f \<le> now)
     \<and> (\<exists>segs. hist = concat segs \<and> windows w m segs \<and> row_matches w m segs now (bucket_row h rows))"

lemma windows_starts:
  assumes "windows w m segs" "0 \<le> w" "segs \<noteq> []" "s \<in> set segs"
  shows "hd s \<le> hd (last segs)"
proof -
  have "s = last segs \<or> s \<in> set (butlast segs)" using assms(3,4) by (metis append_butlast_last_id in_set_conv_decomp_last rotate1.simps(2) set_ConsD set_rotate1)
  moreover have "hd s + w \<le> hd (last segs)" if "s \<in> set (butlast segs)"
  proof -
    have "sorted_wrt (\<lambda>s t. hd s + w \<le> hd t) (butlast segs @ [last segs])"
      using assms(1,3) by (simp add: windows_def)
    then show ?thesis using that by (simp add: sorted_wrt_append)
  qed
  ultimately show ?thesis using assms(2) by auto
qed

lemma windows_last_sorted:
  assumes "windows w m segs" "segs \<noteq> []"
  shows "last segs \<noteq> [] \<and> hd (last segs) \<le> last (last segs)"
proof -
  have "sorted (concat (butlast segs @ [last segs]))" using assms by (simp add: windows_def)
  then have s: "sorted (last segs)" by (simp add: sorted_append)
  have ne: "last segs \<noteq> []" using assms by (auto simp: windows_def)
  then have "last (last segs) \<in> set (last segs)" by simp
  then show ?thesis using s ne by (cases "last segs") auto
qed

lemma bucket_inv_cleanup:
  assumes "bucket_inv (limit_window l) m h rows now hist" "now \<le> now'" "0 \<le> limit_window l"
  shows "bucket_inv (limit_window l) m h (cleanup_limits l now' rows) now' hist"
proof -
  let ?w = "limit_window l"
  obtain segs where k: "keyed rows" "hist = concat segs" "windows ?w m segs"
    and r: "row_matches ?w m segs now (bucket_row h rows)" and f: "\<forall>f\<in>set hist. f \<le> now"
    using assms(1) by (auto simp: bucket_inv_def)
  have row: "bucket_row h (cleanup_limits l now' rows)
      = (case bucket_row h rows of Some r \<Rightarrow> if \<not> stale_limit l now' r then Some r else None | None \<Rightarrow> None)"
    unfolding cleanup_limits_def by (rule bucket_row_filter) (rule k(1))
  have "row_matches ?w m segs now' (bucket_row h (cleanup_limits l now' rows))"
  proof (cases "bucket_row h rows")
    case None
    then show ?thesis using r row assms(2) by (force simp: row_matches_def)
  next
    case (Some x)
    show ?thesis
    proof (cases "stale_limit l now' x")
      case True
      have ne: "segs \<noteq> []" and u: "lr_updated x = last (last segs)" using r Some by (auto simp: row_matches_def)
      have "hd s + ?w \<le> now'" if "s \<in> set segs" for s
        using windows_starts [OF k(3) assms(3) ne that] windows_last_sorted [OF k(3) ne] True u
        by (simp add: stale_limit_def)
      then show ?thesis using row Some True by (simp add: row_matches_def)
    next
      case False
      then have "bucket_row h (cleanup_limits l now' rows) = bucket_row h rows" using row Some by simp
      then show ?thesis using r Some row_matches_time by metis
    qed
  qed
  moreover have "keyed (cleanup_limits l now' rows)" unfolding cleanup_limits_def by (rule keyed_filter) (rule k(1))
  ultimately show ?thesis using k f assms(2) unfolding bucket_inv_def by force
qed

lemma bucket_inv_other:
  assumes "bucket_inv w m h rows now hist" "fst b \<noteq> h"
  shows "bucket_inv w m h (record_bucket l t b rows) now hist"
  using assms by (simp add: bucket_inv_def keyed_record bucket_row_record_other)

lemma bucket_inv_clear:
  assumes "bucket_inv w m h rows now hist" "h \<notin> set (map fst (buckets l n c))"
  shows "bucket_inv w m h (clear_limits l n c rows) now hist"
proof -
  have k: "keyed rows" using assms(1) by (simp add: bucket_inv_def)
  have "bucket_row h (clear_limits l n c rows) = bucket_row h rows"
  proof (cases "bucket_row h rows")
    case None
    then show ?thesis unfolding clear_limits_def bucket_row_filter [OF k] by simp
  next
    case (Some r)
    then have "lr_bucket r = h" using bucket_row_Some [OF k, of h r] by simp
    then have "lr_bucket r \<notin> set (map fst (buckets l n c))" using assms(2) by simp
    then show ?thesis unfolding clear_limits_def bucket_row_filter [OF k] using Some by simp
  qed
  then show ?thesis using assms(1) keyed_filter by (simp add: bucket_inv_def clear_limits_def)
qed

lemma windows_snoc_new:
  assumes "windows w m segs" "1 \<le> m" "\<forall>s\<in>set segs. hd s + w \<le> now" "\<forall>f\<in>set (concat segs). f \<le> now"
  shows "windows w m (segs @ [[now]])"
  using assms by (auto simp: windows_def sorted_wrt_append sorted_append)

lemma windows_extend_last:
  assumes "windows w m segs" "segs \<noteq> []" "length (last segs) < m" "\<forall>f\<in>set (concat segs). f \<le> now"
  shows "windows w m (butlast segs @ [last segs @ [now]])"
proof -
  have "windows w m (butlast segs @ [last segs])" "\<forall>f\<in>set (concat (butlast segs @ [last segs])). f \<le> now"
    using assms by simp_all
  then show ?thesis using assms(3) unfolding windows_def
    by (auto simp: sorted_wrt_append sorted_append)
qed

lemma bucket_inv_failure:
  assumes inv: "bucket_inv (limit_window l) m h rows now hist" and m: "1 \<le> m" and w: "0 < limit_window l"
    and free: "\<And>r. bucket_row h rows = Some r \<Longrightarrow> \<not> blocked_at now r"
  shows "bucket_inv (limit_window l) m h (record_bucket l now (h, int m) rows) now (hist @ [now])"
proof -
  let ?w = "limit_window l" and ?rows = "record_bucket l now (h, int m) rows"
  obtain segs where k: "keyed rows" "hist = concat segs" "windows ?w m segs"
    and r: "row_matches ?w m segs now (bucket_row h rows)" and f: "\<forall>f\<in>set (concat segs). f \<le> now"
    using inv by (auto simp: bucket_inv_def)
  have "\<exists>segs'. hist @ [now] = concat segs' \<and> windows ?w m segs' \<and> row_matches ?w m segs' now (bucket_row h ?rows)"
  proof (cases "bucket_row h rows")
    case None
    then have "windows ?w m (segs @ [[now]])" using windows_snoc_new [OF k(3) m _ f] r by (simp add: row_matches_def)
    moreover have "row_matches ?w m (segs @ [[now]]) now (bucket_row h ?rows)"
      using None m by (simp add: bucket_row_record_same row_matches_def first_failure_def)
    ultimately show ?thesis using k(2) by (intro exI [of _ "segs @ [[now]]"]) simp
  next
    case (Some x)
    then have x: "segs \<noteq> []" "lr_started x = hd (last segs)" "lr_failures x = int (length (last segs))"
      and full: "int m \<le> lr_failures x \<Longrightarrow> \<exists>b. lr_blocked x = Some b \<and> lr_started x + ?w \<le> b"
      using r by (auto simp: row_matches_def)
    show ?thesis
    proof (cases "lr_started x \<le> now - ?w")
      case True
      have "hd s + ?w \<le> now" if "s \<in> set segs" for s
        using windows_starts [OF k(3) _ x(1) that] w True x(2) by simp
      then have "windows ?w m (segs @ [[now]])" using windows_snoc_new [OF k(3) m _ f] by simp
      moreover have "row_matches ?w m (segs @ [[now]]) now (bucket_row h ?rows)"
        using Some True m by (simp add: bucket_row_record_same row_matches_def next_failure_def Let_def)
      ultimately show ?thesis using k(2) by (intro exI [of _ "segs @ [[now]]"]) simp
    next
      case False
      have "lr_failures x < int m"
      proof (rule ccontr)
        assume "\<not> lr_failures x < int m"
        then obtain b where "lr_blocked x = Some b" "lr_started x + ?w \<le> b" using full by auto
        then show False using free [OF Some] False by (simp add: blocked_at_def)
      qed
      then have "windows ?w m (butlast segs @ [last segs @ [now]])"
        using windows_extend_last [OF k(3) x(1) _ f] x(3) by simp
      moreover have ne: "last segs \<noteq> []" using windows_last_sorted [OF k(3) x(1)] by simp
      moreover have "hd (last segs) \<le> now" using f ne x(1) by (metis UN_I hd_in_set last_in_set set_concat)
      then have "row_matches ?w m (butlast segs @ [last segs @ [now]]) now (bucket_row h ?rows)"
        using Some False x w ne by (simp add: bucket_row_record_same row_matches_def next_failure_def Let_def)
      moreover have "concat (butlast segs @ [last segs @ [now]]) = hist @ [now]"
      proof -
        have "concat (butlast segs @ [last segs]) = hist" using k(2) x(1) by simp
        then show ?thesis by simp
      qed
      ultimately show ?thesis by metis
    qed
  qed
  then show ?thesis using k(1) f k(2) keyed_record by (auto simp: bucket_inv_def)
qed

lemma bucket_inv_later:
  assumes "bucket_inv w m h rows now hist" "now \<le> now'"
  shows "bucket_inv w m h rows now' hist"
proof -
  have "row_matches w m segs now' row" if "row_matches w m segs now row" for segs row
    using that assms(2) row_matches_time by (cases row) (force simp: row_matches_def)+
  then show ?thesis using assms unfolding bucket_inv_def by force
qed

definition no_clash :: "string \<Rightarrow> login_op \<Rightarrow> bool" where
  "no_clash u op \<longleftrightarrow>
     bucket_hash ''client'' (client_name (lo_client op)) \<noteq> bucket_of u
     \<and> (case normalize_username (lo_username op) of Inl _ \<Rightarrow> True | Inr n \<Rightarrow> n = u \<or> bucket_of n \<noteq> bucket_of u)"

lemma bucket_inv_fail_same:
  assumes inv: "bucket_inv (limit_window l) m (bucket_of u) rows t hist" and m: "1 \<le> m" "max_account_failures l = int m"
    and w: "0 < limit_window l" and le: "t \<le> now"
    and free: "snd (limiter_allowed l u c t rows)" and same: "fst (limiter_allowed l u c t rows) = rows"
    and clash: "bucket_hash ''client'' (client_name c) \<noteq> bucket_of u"
  shows "bucket_inv (limit_window l) m (bucket_of u) (record_failure l u c now rows) now (hist @ [now])"
proof -
  have c: "bucket_inv (limit_window l) m (bucket_of u) (cleanup_limits l now rows) now hist"
    using bucket_inv_cleanup [OF inv le] w by simp
  have k: "keyed rows" using inv by (simp add: bucket_inv_def)
  have "\<not> blocked_at now r" if r: "bucket_row (bucket_of u) (cleanup_limits l now rows) = Some r" for r
  proof -
    have "bucket_row (bucket_of u) rows = Some r"
      using r unfolding cleanup_limits_def bucket_row_filter [OF k] by (simp split: option.splits if_splits)
    then have "r \<in> set rows" "lr_bucket r = bucket_of u" using bucket_row_Some [OF k] by blast+
    then have "\<not> blocked_at t r"
      using free same by (auto simp: limiter_allowed_def Let_def list_ex_iff buckets_def bucket_of_def)
    then show ?thesis using le by (simp add: blocked_at_def split: option.splits)
  qed
  from bucket_inv_failure [OF c m(1) w this]
  show ?thesis using clash m(2)
    by (simp add: record_failure_def buckets_def bucket_of_def bucket_inv_other)
qed

lemma bucket_inv_fail_other:
  assumes inv: "bucket_inv (limit_window l) m h rows t hist" and w: "0 < limit_window l" and le: "t \<le> now"
    and "h \<notin> set (map fst (buckets l n c))"
  shows "bucket_inv (limit_window l) m h (record_failure l n c now rows) now hist"
proof -
  have "h \<noteq> fst (bucket_hash ''account'' n, max_account_failures l)"
    "h \<noteq> fst (bucket_hash ''client'' (client_name c), max_client_failures l)"
    using assms(4) by (simp_all add: buckets_def)
  then show ?thesis using bucket_inv_cleanup [OF inv le] w
    by (simp only: record_failure_def buckets_def fold.simps comp_def id_def bucket_inv_other less_imp_le not_sym)
qed

lemma cleanup_idem: "cleanup_limits l now (cleanup_limits l now rows) = cleanup_limits l now rows"
  by (simp add: cleanup_limits_def)

lemma limiter_allowed_again:
  "limiter_allowed l n c t (cleanup_limits l t rows) = limiter_allowed l n c t rows"
  by (simp add: limiter_allowed_def cleanup_idem)

definition guess_of :: "string \<Rightarrow> login_op \<times> (Session \<times> public_user) result \<Rightarrow> bool" where
  "guess_of u e \<longleftrightarrow> normalize_username (lo_username (fst e)) = Inr u \<and> wrong_guess (snd e)"

definition guess_times :: "string \<Rightarrow> (login_op \<times> (Session \<times> public_user) result) list \<Rightarrow> int list" where
  "guess_times u es = map (\<lambda>e. dr_written (lo_draws (fst e))) (filter (guess_of u) es)"

lemma fail_login_fields:
  "db_limits (fst (fail_login ac n c d db)) = record_failure (ac_limiter ac) n c (dr_written d) (db_limits db)"
  "wrong_guess (snd (fail_login ac n c d db))"
  by (simp_all add: fail_login_def wrong_guess_def)

lemma open_session_fields:
  "db_limits (fst (open_session ac v n c d db)) = clear_limits (ac_limiter ac) n c (db_limits db)"
  "\<not> wrong_guess (snd (open_session ac v n c d db))" "\<not> refused (snd (open_session ac v n c d db))"
  by (simp_all add: open_session_def Let_def wrong_guess_def refused_def integrity_error_def permission_error_def)

lemma login_allowed_cases:
  assumes n: "normalize_username (lo_username op) = Inr n"
    and ok: "snd (limiter_allowed (ac_limiter ac) n (lo_client op) (dr_checked (lo_draws op)) (db_limits db))"
    and verify: "\<And>a b e. verify a b \<noteq> Raised e"
    and step: "login_step verify dummy ac op db = (db', r)"
  defines "db1 \<equiv> db\<lparr>db_limits := fst (limiter_allowed (ac_limiter ac) n (lo_client op) (dr_checked (lo_draws op)) (db_limits db))\<rparr>"
  shows "(db', r) = fail_login ac n (lo_client op) (lo_draws op) db1
         \<or> (\<exists>v. (db', r) = open_session ac v n (lo_client op) (lo_draws op) db1)"
proof -
  obtain rows where rows: "limiter_allowed (ac_limiter ac) n (lo_client op) (dr_checked (lo_draws op)) (db_limits db) = (rows, True)"
    using ok by (metis prod.collapse)
  have fst: "db1 = db\<lparr>db_limits := rows\<rparr>" by (simp add: db1_def rows)
  note unfolded = step [unfolded login_step_def login_def n sum.case rows prod.case Let_def, folded fst]
  show ?thesis
  proof (cases "find (\<lambda>u. u_username u = n) (db_users db)")
    case None
    then show ?thesis using unfolded verify by (cases "verify dummy (lo_password op)") auto
  next
    case (Some v)
    then show ?thesis using unfolded verify
      by (cases "verify (u_password_hash v) (lo_password op)") (auto dest: sym)
  qed
qed

lemma login_inv:
  fixes ac :: AccountService
  defines "l \<equiv> ac_limiter ac"
  assumes inv: "bucket_inv (limit_window l) m (bucket_of u) (db_limits db) now hist"
    and m: "1 \<le> m" "max_account_failures l = int m" and w: "0 < limit_window l"
    and verify: "\<And>a b e. verify a b \<noteq> Raised e"
    and time: "now \<le> dr_checked (lo_draws op)" "dr_checked (lo_draws op) \<le> dr_written (lo_draws op)"
    and clash: "no_clash u op" and step: "login_step verify dummy ac op db = (db', r)"
    and unsuccessful: "normalize_username (lo_username op) = Inr u \<Longrightarrow> wrong_guess r \<or> refused r"
  shows "bucket_inv (limit_window l) m (bucket_of u) (db_limits db') (dr_written (lo_draws op))
           (hist @ guess_times u [(op, r)])"
proof (cases "normalize_username (lo_username op)")
  case (Inl e)
  then have "db' = db" using step by (simp add: login_step_def login_def)
  then show ?thesis using bucket_inv_later [OF inv] time Inl by (simp add: guess_times_def guess_of_def)
next
  case (Inr n)
  let ?d = "lo_draws op" and ?c = "lo_client op"
  let ?rows = "cleanup_limits l (dr_checked ?d) (db_limits db)"
  have c: "bucket_inv (limit_window l) m (bucket_of u) ?rows (dr_checked ?d) hist"
    using bucket_inv_cleanup [OF inv time(1)] w by simp
  have rows: "fst (limiter_allowed l n ?c (dr_checked ?d) (db_limits db)) = ?rows"
    by (simp add: limiter_allowed_def Let_def)
  have other: "bucket_of u \<notin> set (map fst (buckets l n ?c))" if "n \<noteq> u"
    using clash that Inr by (auto simp: no_clash_def buckets_def bucket_of_def)
  show ?thesis
  proof (cases "snd (limiter_allowed l n ?c (dr_checked ?d) (db_limits db))")
    case False
    have "db_limits db' = ?rows" "refused r"
      using step False rows Inr
      by (auto simp: login_step_def login_def refused_def l_def Let_def split: prod.splits)
    moreover have "\<not> wrong_guess r" using \<open>refused r\<close> by (simp add: refused_def wrong_guess_def permission_error_def)
    ultimately show ?thesis using bucket_inv_later [OF c time(2)] by (simp add: guess_times_def guess_of_def)
  next
    case True
    let ?db = "db\<lparr>db_limits := ?rows\<rparr>"
    have "(db', r) = fail_login ac n ?c ?d ?db \<or> (\<exists>v. (db', r) = open_session ac v n ?c ?d ?db)"
      using login_allowed_cases [where verify = verify, OF Inr _ verify step] True rows by (simp add: l_def)
    then show ?thesis
    proof
      assume f: "(db', r) = fail_login ac n ?c ?d ?db"
      have "fst (db', r) = fst (fail_login ac n ?c ?d ?db)" "snd (db', r) = snd (fail_login ac n ?c ?d ?db)"
        using f by (rule arg_cong)+
      then have db: "db_limits db' = record_failure l n ?c (dr_written ?d) ?rows" "wrong_guess r"
        using fail_login_fields [of ac n ?c ?d ?db] by (simp_all add: l_def)
      show ?thesis
      proof (cases "n = u")
        case True
        have free: "snd (limiter_allowed l u ?c (dr_checked ?d) ?rows)" "fst (limiter_allowed l u ?c (dr_checked ?d) ?rows) = ?rows"
          using \<open>snd (limiter_allowed l n ?c (dr_checked ?d) (db_limits db))\<close> rows True
          by (simp_all add: limiter_allowed_again)
        have "bucket_hash ''client'' (client_name ?c) \<noteq> bucket_of u" using clash by (simp add: no_clash_def)
        from bucket_inv_fail_same [OF c m w time(2) free this]
        show ?thesis using db True Inr by (simp add: guess_times_def guess_of_def)
      next
        case False
        from bucket_inv_fail_other [OF c w time(2) other [OF False]]
        show ?thesis using db False Inr by (simp add: guess_times_def guess_of_def)
      qed
    next
      assume "\<exists>v. (db', r) = open_session ac v n ?c ?d ?db"
      then obtain v where o: "(db', r) = open_session ac v n ?c ?d ?db" by blast
      have "fst (db', r) = fst (open_session ac v n ?c ?d ?db)" "snd (db', r) = snd (open_session ac v n ?c ?d ?db)"
        using o by (rule arg_cong)+
      then have db: "db_limits db' = clear_limits l n ?c ?rows" "\<not> wrong_guess r" "\<not> refused r"
        using open_session_fields [of ac v n ?c ?d ?db] by (simp_all add: l_def)
      then have "n \<noteq> u" using unsuccessful Inr by auto
      from bucket_inv_later [OF bucket_inv_clear [OF c other [OF this]] time(2)]
      show ?thesis using db by (simp add: guess_times_def guess_of_def)
    qed
  qed
qed

lemma run_logins_ops: "map fst (run_logins verify dummy ac db ops) = ops"
  by (induction ops arbitrary: db) (simp_all split: prod.splits)

lemma guess_times_Cons: "guess_times u (e # es) = guess_times u [e] @ guess_times u es"
  by (simp add: guess_times_def)

lemma run_logins_windows:
  fixes ac :: AccountService
  assumes "bucket_inv (limit_window (ac_limiter ac)) m (bucket_of u) (db_limits db) now hist"
    and "1 \<le> m" "max_account_failures (ac_limiter ac) = int m" "0 < limit_window (ac_limiter ac)"
    and "\<And>a b e. verify a b \<noteq> Raised e" and "chronological now ops" and "\<forall>op\<in>set ops. no_clash u op"
    and "\<forall>(op, r)\<in>set (run_logins verify dummy ac db ops).
           normalize_username (lo_username op) = Inr u \<longrightarrow> wrong_guess r \<or> refused r"
  shows "\<exists>segs. hist @ guess_times u (run_logins verify dummy ac db ops) = concat segs
           \<and> windows (limit_window (ac_limiter ac)) m segs"
  using assms
proof (induction ops arbitrary: db now hist)
  case Nil
  then show ?case by (auto simp: bucket_inv_def guess_times_def)
next
  case (Cons op ops)
  obtain db' r where s: "login_step verify dummy ac op db = (db', r)" by (cases "login_step verify dummy ac op db")
  have t: "now \<le> dr_checked (lo_draws op)" "dr_checked (lo_draws op) \<le> dr_written (lo_draws op)"
    "chronological (dr_written (lo_draws op)) ops" and c: "no_clash u op" "\<forall>op\<in>set ops. no_clash u op"
    using Cons.prems(6,7) by simp_all
  have res: "normalize_username (lo_username op) = Inr u \<Longrightarrow> wrong_guess r \<or> refused r"
    "\<forall>(op, r)\<in>set (run_logins verify dummy ac db' ops).
       normalize_username (lo_username op) = Inr u \<longrightarrow> wrong_guess r \<or> refused r"
    using Cons.prems(8) s by simp_all
  have i: "bucket_inv (limit_window (ac_limiter ac)) m (bucket_of u) (db_limits db') (dr_written (lo_draws op))
      (hist @ guess_times u [(op, r)])"
    using login_inv [where verify = verify, OF Cons.prems(1,2,3,4,5) t(1,2) c(1) s res(1)] by simp
  have "run_logins verify dummy ac db (op # ops) = (op, r) # run_logins verify dummy ac db' ops" using s by simp
  then show ?case
    using Cons.IH [OF i Cons.prems(2,3,4,5) t(3) c(2) res(2)] by (metis append_assoc guess_times_Cons)
qed


subsection \<open>The life of a session\<close>

datatype auth_op =
    CreateOp string string "string option" string string utc
  | LoginOp login_op
  | LogoutOp string string utc

definition auth_step ::
  "(string \<Rightarrow> string) \<Rightarrow> (string \<Rightarrow> string \<Rightarrow> verification) \<Rightarrow> string \<Rightarrow> AccountService \<Rightarrow> auth_db \<Rightarrow> auth_op \<Rightarrow> auth_db" where
  "auth_step hasher verify dummy ac db op =
     (case op of
        CreateOp username password display_name user_id audit_id now \<Rightarrow>
          (case create_account username password display_name hasher user_id audit_id now db of
             Inl _ \<Rightarrow> db | Inr (db', _) \<Rightarrow> db')
      | LoginOp l \<Rightarrow> fst (login_step verify dummy ac l db)
      | LogoutOp token audit_id now \<Rightarrow> logout token audit_id now db)"

definition run_auth ::
  "(string \<Rightarrow> string) \<Rightarrow> (string \<Rightarrow> string \<Rightarrow> verification) \<Rightarrow> string \<Rightarrow> AccountService \<Rightarrow> auth_db \<Rightarrow> auth_op list \<Rightarrow> auth_db" where
  "run_auth hasher verify dummy ac db ops = foldl (auth_step hasher verify dummy ac) db ops"

lemma login_sessions:
  assumes "x \<in> set (db_sessions (fst (login_step verify dummy ac op db)))" "x \<notin> set (db_sessions db)"
  obtains s p u where "snd (login_step verify dummy ac op db) = Inr (s, p)"
    "x = \<lparr>s_token_hash = hash_text (sn_token s), s_user_id = sn_user_id s, s_csrf_hash = hash_text (sn_csrf s),
          s_expires_at = sn_expires_at s\<rparr>"
    "u \<in> set (db_users db)" "u_user_id u = sn_user_id s" "normalize_username (lo_username op) = Inr (u_username u)"
    "verify (u_password_hash u) (lo_password op) = Verified"
    "sn_expires_at s = dr_written (lo_draws op) + ac_session_ttl ac"
proof (cases "normalize_username (lo_username op)")
  case (Inl e)
  then show ?thesis using assms by (simp add: login_step_def login_def)
next
  case (Inr n)
  obtain rows ok where l: "limiter_allowed (ac_limiter ac) n (lo_client op) (dr_checked (lo_draws op)) (db_limits db) = (rows, ok)"
    by (cases "limiter_allowed (ac_limiter ac) n (lo_client op) (dr_checked (lo_draws op)) (db_limits db)")
  have step: "login_step verify dummy ac op db =
      (if \<not> ok then
         (db\<lparr>db_limits := rows\<rparr>\<lparr>db_audit := db_audit db @ [failure_audit n (lo_client op) ''login_rate_limited''
             ''login rate limit exceeded'' ''denied'' (lo_draws op)]\<rparr>,
          Inl (permission_error ''too many login attempts; try again later''))
       else case find (\<lambda>u. u_username u = n) (db_users db) of
         None \<Rightarrow> (case verify dummy (lo_password op) of Raised e \<Rightarrow> (db\<lparr>db_limits := rows\<rparr>, Inl e)
                  | _ \<Rightarrow> fail_login ac n (lo_client op) (lo_draws op) (db\<lparr>db_limits := rows\<rparr>))
       | Some u \<Rightarrow> (case verify (u_password_hash u) (lo_password op) of Raised e \<Rightarrow> (db\<lparr>db_limits := rows\<rparr>, Inl e)
                  | Mismatch \<Rightarrow> fail_login ac n (lo_client op) (lo_draws op) (db\<lparr>db_limits := rows\<rparr>)
                  | Verified \<Rightarrow> open_session ac u n (lo_client op) (lo_draws op) (db\<lparr>db_limits := rows\<rparr>)))"
    unfolding login_step_def login_def Inr sum.case l prod.case Let_def by simp
  have fail: "db_sessions (fst (fail_login ac n c d db1)) = db_sessions db1" for c d db1
    by (simp add: fail_login_def)
  show ?thesis
  proof (cases "ok \<and> (\<exists>u. find (\<lambda>u. u_username u = n) (db_users db) = Some u \<and> verify (u_password_hash u) (lo_password op) = Verified)")
    case False
    then have "db_sessions (fst (login_step verify dummy ac op db)) = db_sessions db"
      unfolding step by (auto simp: fail split: option.splits verification.splits)
    then show ?thesis using assms by simp
  next
    case True
    then obtain u where u: "find (\<lambda>u. u_username u = n) (db_users db) = Some u" "verify (u_password_hash u) (lo_password op) = Verified"
      by blast
    then have s: "login_step verify dummy ac op db = open_session ac u n (lo_client op) (lo_draws op) (db\<lparr>db_limits := rows\<rparr>)"
      using True by (simp add: step)
    have m: "u \<in> set (db_users db)" "u_username u = n" using u(1) by (auto simp: find_Some_iff)
    let ?s = "\<lparr>sn_token = dr_token (lo_draws op), sn_csrf = dr_csrf (lo_draws op), sn_user_id = u_user_id u,
        sn_expires_at = dr_written (lo_draws op) + ac_session_ttl ac\<rparr>"
    show ?thesis
      by (rule that [of ?s "public_of u" u])
        (use assms u(2) m Inr in \<open>simp_all add: s open_session_def Let_def split: if_splits\<close>)
  qed
qed

definition logged_out :: "string \<Rightarrow> auth_op list \<Rightarrow> bool" where
  "logged_out h ops \<longleftrightarrow> (\<exists>t a n. LogoutOp t a n \<in> set ops \<and> hash_text t = h)"

text \<open>A session row comes from a login of the history, after which nobody logged out with its token.\<close>

definition issued ::
  "(string \<Rightarrow> string) \<Rightarrow> (string \<Rightarrow> string \<Rightarrow> verification) \<Rightarrow> string \<Rightarrow> AccountService \<Rightarrow> auth_db \<Rightarrow> auth_op list \<Rightarrow>
   session_row \<Rightarrow> bool" where
  "issued hasher verify dummy ac db0 ops x \<longleftrightarrow>
     (\<exists>before op after s p u. ops = before @ LoginOp op # after \<and> \<not> logged_out (s_token_hash x) after
        \<and> snd (login_step verify dummy ac op (run_auth hasher verify dummy ac db0 before)) = Inr (s, p)
        \<and> x = \<lparr>s_token_hash = hash_text (sn_token s), s_user_id = sn_user_id s, s_csrf_hash = hash_text (sn_csrf s),
               s_expires_at = sn_expires_at s\<rparr>
        \<and> u \<in> set (db_users (run_auth hasher verify dummy ac db0 before))
        \<and> u_user_id u = sn_user_id s \<and> normalize_username (lo_username op) = Inr (u_username u)
        \<and> verify (u_password_hash u) (lo_password op) = Verified
        \<and> sn_expires_at s = dr_written (lo_draws op) + ac_session_ttl ac)"

lemma issued_snoc:
  assumes "issued hasher verify dummy ac db0 ops x" "\<not> logged_out (s_token_hash x) [o1]"
  shows "issued hasher verify dummy ac db0 (ops @ [o1]) x"
proof -
  obtain b op a s p u where i: "ops = b @ LoginOp op # a" "\<not> logged_out (s_token_hash x) a"
    "snd (login_step verify dummy ac op (run_auth hasher verify dummy ac db0 b)) = Inr (s, p)"
    "x = \<lparr>s_token_hash = hash_text (sn_token s), s_user_id = sn_user_id s, s_csrf_hash = hash_text (sn_csrf s),
          s_expires_at = sn_expires_at s\<rparr>"
    "u \<in> set (db_users (run_auth hasher verify dummy ac db0 b))"
    "u_user_id u = sn_user_id s" "normalize_username (lo_username op) = Inr (u_username u)"
    "verify (u_password_hash u) (lo_password op) = Verified"
    "sn_expires_at s = dr_written (lo_draws op) + ac_session_ttl ac"
    using assms(1) unfolding issued_def by blast
  have "\<not> logged_out (s_token_hash x) (a @ [o1])" using i(2) assms(2) by (auto simp: logged_out_def)
  moreover have "ops @ [o1] = b @ LoginOp op # (a @ [o1])" using i(1) by simp
  ultimately show ?thesis unfolding issued_def using i(3-9) by blast
qed

lemma sessions_issued:
  "db_sessions db0 = [] \<Longrightarrow> x \<in> set (db_sessions (run_auth hasher verify dummy ac db0 ops)) \<Longrightarrow>
   issued hasher verify dummy ac db0 ops x"
proof (induction ops arbitrary: x rule: rev_induct)
  case Nil
  then show ?case by (simp add: run_auth_def)
next
  case (snoc o1 ops)
  let ?db = "run_auth hasher verify dummy ac db0 ops"
  have run: "run_auth hasher verify dummy ac db0 (ops @ [o1]) = auth_step hasher verify dummy ac ?db o1"
    by (simp add: run_auth_def)
  note x = snoc.prems(2) [unfolded run]
  show ?case
  proof (cases o1)
    case (CreateOp a b c d e f)
    have "db_sessions (auth_step hasher verify dummy ac ?db o1) = db_sessions ?db"
      unfolding CreateOp auth_step_def create_account_def
      by (auto simp: bindR_def Let_def split: sum.splits if_splits)
    then show ?thesis using x snoc.IH [OF snoc.prems(1)] issued_snoc CreateOp by (simp add: logged_out_def)
  next
    case (LogoutOp t a n)
    have "x \<in> set (db_sessions ?db) \<and> s_token_hash x \<noteq> hash_text t"
      using x by (simp add: LogoutOp auth_step_def logout_def Let_def split: option.splits)
    then show ?thesis using snoc.IH [OF snoc.prems(1)] issued_snoc LogoutOp by (force simp: logged_out_def)
  next
    case (LoginOp op)
    show ?thesis
    proof (cases "x \<in> set (db_sessions ?db)")
      case True
      then show ?thesis using snoc.IH [OF snoc.prems(1)] issued_snoc LoginOp by (simp add: logged_out_def)
    next
      case False
      have "x \<in> set (db_sessions (fst (login_step verify dummy ac op ?db)))" using x by (simp add: LoginOp auth_step_def)
      from login_sessions [OF this False]
      show ?thesis unfolding issued_def LoginOp
        by (metis append_Nil2 empty_iff list.set(1) logged_out_def)
    qed
  qed
qed

lemma authenticate_Inr:
  assumes "authenticate token csrf now db = Inr uid"
  obtains x where "x \<in> set (db_sessions db)" "s_token_hash x = hash_text token" "now < s_expires_at x" "s_user_id x = uid"
    "\<And>c. csrf = Some c \<Longrightarrow> hash_text c = s_csrf_hash x"
proof -
  obtain x where x: "find (\<lambda>s. s_token_hash s = hash_text token) (db_sessions db) = Some x"
    using assms by (cases "find (\<lambda>s. s_token_hash s = hash_text token) (db_sessions db)") (simp_all add: authenticate_def)
  then have m: "x \<in> set (db_sessions db)" "s_token_hash x = hash_text token" by (auto simp: find_Some_iff)
  show thesis
    by (rule that [OF m]) (use assms x in \<open>simp_all add: authenticate_def split: if_splits\<close>)
qed

text \<open>C26. A token is honoured only as the code promises: if \<open>authenticate\<close> accepts it for a user, then
  some login of the history verified that user's password and issued a session with the same token
  hash, which has not expired, nobody has logged out with the token since, and a CSRF token that was
  presented has the hash of the session's own.\<close>

theorem authenticated_sessions_are_live:
  assumes "db_sessions db0 = []"
    and "authenticate token csrf now (run_auth hasher verify dummy ac db0 ops) = Inr uid"
  shows "\<exists>before op after s p u. ops = before @ LoginOp op # after
    \<and> snd (login_step verify dummy ac op (run_auth hasher verify dummy ac db0 before)) = Inr (s, p)
    \<and> hash_text (sn_token s) = hash_text token \<and> sn_user_id s = uid
    \<and> now < dr_written (lo_draws op) + ac_session_ttl ac
    \<and> u \<in> set (db_users (run_auth hasher verify dummy ac db0 before)) \<and> u_user_id u = uid
    \<and> normalize_username (lo_username op) = Inr (u_username u)
    \<and> verify (u_password_hash u) (lo_password op) = Verified
    \<and> \<not> logged_out (hash_text token) after
    \<and> (case csrf of None \<Rightarrow> True | Some c \<Rightarrow> hash_text c = hash_text (sn_csrf s))"
proof -
  obtain x where x: "x \<in> set (db_sessions (run_auth hasher verify dummy ac db0 ops))" "s_token_hash x = hash_text token"
    "now < s_expires_at x" "s_user_id x = uid" and c: "\<And>c. csrf = Some c \<Longrightarrow> hash_text c = s_csrf_hash x"
    using authenticate_Inr [OF assms(2)] by blast
  from sessions_issued [OF assms(1) x(1)] obtain before op after s p u where i: "ops = before @ LoginOp op # after"
    "\<not> logged_out (s_token_hash x) after"
    "snd (login_step verify dummy ac op (run_auth hasher verify dummy ac db0 before)) = Inr (s, p)"
    "x = \<lparr>s_token_hash = hash_text (sn_token s), s_user_id = sn_user_id s, s_csrf_hash = hash_text (sn_csrf s),
          s_expires_at = sn_expires_at s\<rparr>"
    "u \<in> set (db_users (run_auth hasher verify dummy ac db0 before))"
    "u_user_id u = sn_user_id s" "normalize_username (lo_username op) = Inr (u_username u)"
    "verify (u_password_hash u) (lo_password op) = Verified"
    "sn_expires_at s = dr_written (lo_draws op) + ac_session_ttl ac"
    unfolding issued_def by blast
  have f: "s_token_hash x = hash_text (sn_token s)" "s_user_id x = sn_user_id s" "s_csrf_hash x = hash_text (sn_csrf s)"
    "s_expires_at x = sn_expires_at s" by (simp_all add: i(4))
  have "case csrf of None \<Rightarrow> True | Some c \<Rightarrow> hash_text c = hash_text (sn_csrf s)"
    using c f(3) by (cases csrf) simp_all
  moreover have "now < dr_written (lo_draws op) + ac_session_ttl ac" using x(3) f(4) i(9) by simp
  moreover have "hash_text (sn_token s) = hash_text token" "sn_user_id s = uid" "u_user_id u = uid"
    "\<not> logged_out (hash_text token) after" using x(2,4) f(1,2) i(2,6) by simp_all
  ultimately show ?thesis using i(1,3,5,7,8) by blast
qed

text \<open>What a successful login returns works until it expires, with and without its CSRF token, and
  stops working at logout.\<close>

theorem session_round_trip:
  assumes "login verify dummy ac username password client_key d db = (db', Inr (s, p))"
    and "now < sn_expires_at s"
  shows "authenticate (sn_token s) None now db' = Inr (sn_user_id s)
    \<and> authenticate (sn_token s) (Some (sn_csrf s)) now db' = Inr (sn_user_id s)
    \<and> authenticate (sn_token s) None now (logout (sn_token s) audit_id now db')
        = Inl (ValueError ''invalid or expired session'')"
proof -
  obtain u n db1 where o: "open_session ac u n client_key d db1 = (db', Inr (s, p))" "db_sessions db1 = db_sessions db"
    using assms(1) unfolding login_def
    by (auto simp: fail_login_def Let_def split: sum.splits prod.splits if_splits option.splits verification.splits)
  then have fresh: "\<not> list_ex (\<lambda>x. s_token_hash x = hash_text (dr_token d)) (db_sessions db1)"
    by (auto simp: open_session_def Let_def split: if_splits)
  then have s: "s = \<lparr>sn_token = dr_token d, sn_csrf = dr_csrf d, sn_user_id = u_user_id u,
      sn_expires_at = dr_written d + ac_session_ttl ac\<rparr>"
    and db: "db_sessions db' = db_sessions db1 @ [\<lparr>s_token_hash = hash_text (dr_token d), s_user_id = u_user_id u,
      s_csrf_hash = hash_text (dr_csrf d), s_expires_at = dr_written d + ac_session_ttl ac\<rparr>]"
    using o by (auto simp: open_session_def Let_def)
  have none: "find (\<lambda>x. s_token_hash x = hash_text (dr_token d)) (db_sessions db1) = None"
    using fresh by (auto simp: find_None_iff list_ex_iff)
  have l: "db_sessions (logout (dr_token d) audit_id now db') = filter (\<lambda>x. s_token_hash x \<noteq> hash_text (dr_token d)) (db_sessions db')"
    by (simp add: logout_def Let_def split: option.splits)
  have "find (\<lambda>x. s_token_hash x = hash_text (dr_token d)) (db_sessions (logout (dr_token d) audit_id now db')) = None"
    unfolding l by (auto simp: find_None_iff)
  then show ?thesis using assms(2) none by (simp add: s authenticate_def db find_append)
qed

subsection \<open>Examples\<close>

text \<open>A hasher that stores the password, and the verifier that goes with it.\<close>

definition plain_hasher :: "string \<Rightarrow> string" where "plain_hasher p = p"

definition plain_verify :: "string \<Rightarrow> string \<Rightarrow> verification" where
  "plain_verify h p = (if h = p then Verified else Mismatch)"

definition example_service :: AccountService where
  "example_service = \<lparr>ac_limiter = default_limiter, ac_session_ttl = SESSION_TTL\<rparr>"

definition empty_db :: auth_db where
  "empty_db = \<lparr>db_users = [], db_sessions = [], db_limits = [], db_audit = []\<rparr>"

definition example_db :: auth_db where
  "example_db = empty_db\<lparr>db_users := [\<lparr>u_user_id = ''u1'', u_username = ''eve'', u_display_name = ''Eve'', u_password_hash = ''pw''\<rparr>]\<rparr>"

definition attempt :: "string \<Rightarrow> string \<Rightarrow> utc \<Rightarrow> login_op" where
  "attempt username password t = \<lparr>lo_username = username, lo_password = password, lo_client = ''c'',
     lo_draws = \<lparr>dr_checked = t, dr_written = t + 1, dr_audited = t + 1, dr_token = ''tok'', dr_csrf = ''csrf'', dr_audit_id = ''a''\<rparr>\<rparr>"

lemma example_username: "normalize_username '' EVE  '' = Inr ''eve''"
  by code_simp

lemma no_users_no_login:
  assumes "db_users db = []" and "\<And>a b e. verify a b \<noteq> Raised e"
    and "normalize_username (lo_username op) = Inr u"
  shows "db_users (fst (login_step verify dummy ac op db)) = [] \<and>
         (wrong_guess (snd (login_step verify dummy ac op db)) \<or> refused (snd (login_step verify dummy ac op db)))"
  using assms unfolding login_step_def login_def
  by (auto simp: fail_login_def wrong_guess_def refused_def Let_def split: prod.splits verification.splits)

lemma no_users_run:
  assumes "db_users db = []" and "\<And>a b e. verify a b \<noteq> Raised e"
    and "\<forall>op\<in>set ops. normalize_username (lo_username op) = Inr u"
  shows "\<forall>(op, r)\<in>set (run_logins verify dummy ac db ops). wrong_guess r \<or> refused r"
  using assms(1,3)
proof (induction ops arbitrary: db)
  case (Cons op ops)
  obtain db' r where s: "login_step verify dummy ac op db = (db', r)" by (cases "login_step verify dummy ac op db")
  have n: "normalize_username (lo_username op) = Inr u" using Cons.prems(2) by simp
  have "db_users db' = []" "wrong_guess r \<or> refused r"
    using no_users_no_login [where verify = verify, OF Cons.prems(1) assms(2) n, of dummy ac] s by simp_all
  then show ?case using Cons.IH [of db'] Cons.prems(2) s by simp
qed simp


lemma example_db_tables: "db_limits example_db = [] \<and> db_sessions example_db = []"
  by (simp add: example_db_def empty_db_def)

lemma example_login:
  "\<exists>db' s p. login plain_verify ''dummy'' example_service '' EVE  '' ''pw'' ''c'' (lo_draws (attempt '' EVE  '' ''pw'' 0)) example_db
     = (db', Inr (s, p)) \<and> sn_expires_at s = SESSION_TTL + 1 \<and> sn_token s = ''tok'' \<and> sn_user_id s = ''u1''"
proof -
  have "limiter_allowed l n c t [] = ([], True)" for l n c t
    by (simp add: limiter_allowed_def cleanup_limits_def Let_def)
  then show ?thesis
    unfolding login_def example_username
    by (simp add: example_db_tables)
      (simp add: example_db_def empty_db_def plain_verify_def open_session_def Let_def attempt_def example_service_def)
qed

theorem session_round_trip_witness:
  "\<exists>db' s p. login plain_verify ''dummy'' example_service '' EVE  '' ''pw'' ''c'' (lo_draws (attempt '' EVE  '' ''pw'' 0)) example_db
       = (db', Inr (s, p)) \<and> authenticate ''tok'' None 5 db' = Inr ''u1''
     \<and> authenticate ''tok'' None 5 (logout ''tok'' ''a2'' 5 db') = Inl (ValueError ''invalid or expired session'')"
proof -
  obtain db' s p where l: "login plain_verify ''dummy'' example_service '' EVE  '' ''pw'' ''c''
      (lo_draws (attempt '' EVE  '' ''pw'' 0)) example_db = (db', Inr (s, p))"
    and s: "sn_expires_at s = SESSION_TTL + 1" "sn_token s = ''tok''" "sn_user_id s = ''u1''"
    using example_login by blast
  have "5 < sn_expires_at s" using s(1) by (simp add: SESSION_TTL_def)
  from session_round_trip [OF l this, of "''a2''"] show ?thesis using l s by auto
qed

theorem authenticated_sessions_are_live_witness:
  "authenticate ''tok'' None 5 (run_auth plain_hasher plain_verify ''dummy'' example_service example_db
      [LoginOp (attempt '' EVE  '' ''pw'' 0)]) = Inr ''u1''
   \<and> (\<exists>op (u :: user_row). LoginOp op \<in> set [LoginOp (attempt '' EVE  '' ''pw'' 0)] \<and> u_user_id u = ''u1''
        \<and> plain_verify (u_password_hash u) (lo_password op) = Verified)"
proof -
  obtain db' s p where l: "login plain_verify ''dummy'' example_service '' EVE  '' ''pw'' ''c''
      (lo_draws (attempt '' EVE  '' ''pw'' 0)) example_db = (db', Inr (s, p))"
    and s: "sn_expires_at s = SESSION_TTL + 1" "sn_token s = ''tok''" "sn_user_id s = ''u1''"
    using example_login by blast
  have t: "5 < sn_expires_at s" using s(1) by (simp add: SESSION_TTL_def)
  have "run_auth plain_hasher plain_verify ''dummy'' example_service example_db [LoginOp (attempt '' EVE  '' ''pw'' 0)] = db'"
    using l by (simp add: run_auth_def auth_step_def login_step_def attempt_def)
  moreover have "authenticate ''tok'' None 5 db' = Inr ''u1''"
  proof -
    have "find (\<lambda>x. s_token_hash x = hash_text ''tok'') (db_sessions db') \<noteq> None
        \<and> (\<forall>x\<in>set (db_sessions db'). s_user_id x = ''u1'' \<and> 5 < s_expires_at x)"
      using l t unfolding login_def example_username
      by (simp add: example_db_tables limiter_allowed_def cleanup_limits_def Let_def)
        (auto simp: example_db_def empty_db_def plain_verify_def open_session_def Let_def attempt_def
          example_service_def SESSION_TTL_def)
    then obtain x where x: "find (\<lambda>x. s_token_hash x = hash_text ''tok'') (db_sessions db') = Some x"
      and all: "\<forall>x\<in>set (db_sessions db'). s_user_id x = ''u1'' \<and> 5 < s_expires_at x" by blast
    have "x \<in> set (db_sessions db')" using x by (auto simp: find_Some_iff)
    then have "s_user_id x = ''u1''" "5 < s_expires_at x" using all by blast+
    then show ?thesis using x by (simp add: authenticate_def)
  qed
  ultimately have a: "authenticate ''tok'' None 5 (run_auth plain_hasher plain_verify ''dummy'' example_service example_db
      [LoginOp (attempt '' EVE  '' ''pw'' 0)]) = Inr ''u1''" by simp
  from authenticated_sessions_are_live [OF example_db_tables [THEN conjunct2] a] show ?thesis
  proof (elim exE conjE)
    fix before op after s p and u :: user_row
    assume o: "[LoginOp (attempt '' EVE  '' ''pw'' 0)] = before @ LoginOp op # after"
      and u: "u_user_id u = ''u1''" "plain_verify (u_password_hash u) (lo_password op) = Verified"
    have "LoginOp op \<in> set [LoginOp (attempt '' EVE  '' ''pw'' 0)]" unfolding o by simp
    then show ?thesis using a u by blast
  qed
qed

end
