(* ===== verification/Retention.thy ===== *)
theory Retention
  imports Common
begin

text \<open>
  \<^verbatim>\<open>services/retention.py\<close>: which hunts are due for deletion, and the restartable cleanup of one hunt
  over the SQL repository and the file store.  Tables are lists of rows and one statement block of
  the repository is one step.  Times, drawn identifiers, the resolution of a path by the file system
  and the step at which an attempt fails are arguments.
\<close>

subsection \<open>When a hunt is due\<close>

definition TERMINAL_STATES :: "string list" where
  "TERMINAL_STATES = [''finalized'', ''cancelled'', ''failed'']"

definition ARTIFACTS :: "string list" where
  "ARTIFACTS = [''workspace'', ''uploads'', ''upload_quotas'', ''intelligence_inputs'', ''evidence'', ''entities'',
     ''entity_evidence'', ''pivots'', ''findings'', ''notes'', ''query_ledger'', ''reports'', ''snapshots'', ''audit'', ''hunt'']"

record RetentionPolicy =
  hunt_days :: int
  abandoned_days :: int
  temporary_result_hours :: int

definition mk_policy :: "int \<Rightarrow> int \<Rightarrow> int \<Rightarrow> RetentionPolicy result" where
  "mk_policy h a t =
     (if h \<le> 0 \<or> a \<le> 0 \<or> t \<le> 0 then Inl (ValueError ''retention periods must be positive'')
      else Inr \<lparr>hunt_days = h, abandoned_days = a, temporary_result_hours = t\<rparr>)"

definition default_policy :: RetentionPolicy where
  "default_policy = \<lparr>hunt_days = 90, abandoned_days = 7, temporary_result_hours = 24\<rparr>"

record HuntRetentionSnapshot =
  sn_hunt :: string
  sn_owner :: string
  sn_state :: string
  sn_updated :: datetime
  sn_active_worker :: bool
  sn_active_job :: bool

definition snapshot_terminal :: "HuntRetentionSnapshot \<Rightarrow> bool" where
  "snapshot_terminal s \<longleftrightarrow> sn_state s \<in> set TERMINAL_STATES"

text \<open>\<open>_utc\<close> rejects a naive timestamp with its own message.\<close>

definition retention_utc :: "datetime \<Rightarrow> int result" where
  "retention_utc v =
     (if utcoffset v = None then Inl (ValueError ''retention timestamps must be timezone-aware'') else as_utc v)"

definition DAY_US :: int where "DAY_US = 86400000000"

text \<open>\<open>t + timedelta(days=d)\<close>.\<close>

definition add_days :: "int \<Rightarrow> int \<Rightarrow> int result" where
  "add_days t d =
     (if valid_utc (t + d * DAY_US) then Inr (t + d * DAY_US) else Inl (RuntimeError ''OverflowError''))"

definition is_abandoned :: "HuntRetentionSnapshot \<Rightarrow> datetime \<Rightarrow> RetentionPolicy \<Rightarrow> bool result" where
  "is_abandoned s now policy =
     (if snapshot_terminal s \<or> sn_active_worker s \<or> sn_active_job s then Inr False
      else bindR (retention_utc now) (\<lambda>n. bindR (retention_utc (sn_updated s)) (\<lambda>u.
             bindR (add_days u (abandoned_days policy)) (\<lambda>limit. Inr (limit \<le> n)))))"

definition retention_due :: "HuntRetentionSnapshot \<Rightarrow> datetime \<Rightarrow> RetentionPolicy \<Rightarrow> bool result" where
  "retention_due s now policy =
     bindR (retention_utc now) (\<lambda>n. bindR (retention_utc (sn_updated s)) (\<lambda>last_activity.
       if snapshot_terminal s
         then bindR (add_days last_activity (hunt_days policy)) (\<lambda>limit. Inr (limit \<le> n))
       else is_abandoned s now policy))"

subsection \<open>Tables\<close>

record hunt_row =
  hr_hunt :: string
  hr_owner :: string
  hr_state :: string
  hr_updated :: datetime
  hr_lease :: "int option"

record artifact_row =
  ar_hunt :: string
  ar_owner :: string
  ar_path :: "string option"

record cleanup_audit =
  ca_hunt :: string
  ca_owner :: string
  ca_outcome :: string
  ca_detail :: string
  ca_time :: int

record task_row =
  tk_id :: string
  tk_owner :: string
  tk_hunt :: string
  tk_state :: string
  tk_cursor :: nat
  tk_attempts :: int
  tk_error :: "string option"
  tk_claimed :: "int option"
  tk_updated :: int
  tk_completed :: "int option"

record retention_db =
  rd_hunts :: "hunt_row list"
  rd_tables :: "(string \<times> artifact_row list) list"
  rd_audit :: "cleanup_audit list"
  rd_tasks :: "task_row list"
  rd_files :: "string list list"

subsection \<open>The repository\<close>

definition TABLE_BY_ARTIFACT :: "(string \<times> string) list" where
  "TABLE_BY_ARTIFACT = [(''workspace'', ''workspace_artifacts''), (''uploads'', ''uploads''),
     (''upload_quotas'', ''upload_quotas''), (''intelligence_inputs'', ''intelligence_inputs''),
     (''evidence'', ''evidence_records''), (''entities'', ''entities''), (''entity_evidence'', ''entity_evidence''),
     (''pivots'', ''pivots''), (''findings'', ''findings''), (''notes'', ''hunt_notes''),
     (''query_ledger'', ''query_ledger''), (''reports'', ''reports''), (''snapshots'', ''hunt_snapshots''),
     (''audit'', ''audit_records''), (''hunt'', ''hunts'')]"

definition row_snapshot :: "hunt_row \<Rightarrow> int \<Rightarrow> HuntRetentionSnapshot result" where
  "row_snapshot r now =
     bindR (retention_utc (hr_updated r)) (\<lambda>u.
       Inr \<lparr>sn_hunt = hr_hunt r, sn_owner = hr_owner r, sn_state = hr_state r,
            sn_updated = \<lparr>naive_us = u, utcoffset = Some 0\<rparr>,
            sn_active_worker = (case hr_lease r of None \<Rightarrow> False | Some l \<Rightarrow> l > now),
            sn_active_job = False\<rparr>)"

fun collect :: "('a \<Rightarrow> 'b result) \<Rightarrow> 'a list \<Rightarrow> ('b list) result" where
  "collect f [] = Inr []"
| "collect f (x # xs) = bindR (f x) (\<lambda>y. bindR (collect f xs) (\<lambda>ys. Inr (y # ys)))"

text \<open>The comparison of a stored timestamp with a cutoff in SQL; a stored timestamp is aware.\<close>

definition stored_before :: "hunt_row \<Rightarrow> int \<Rightarrow> bool" where
  "stored_before r cutoff \<longleftrightarrow> (case as_utc (hr_updated r) of Inr u \<Rightarrow> u \<le> cutoff | Inl _ \<Rightarrow> False)"

definition candidate_hunts ::
  "datetime \<Rightarrow> RetentionPolicy \<Rightarrow> retention_db \<Rightarrow> (HuntRetentionSnapshot list) result" where
  "candidate_hunts now policy db =
     bindR (retention_utc now) (\<lambda>n.
     bindR (add_days n (- hunt_days policy)) (\<lambda>terminal_cutoff.
     bindR (add_days n (- abandoned_days policy)) (\<lambda>abandoned_cutoff.
       collect (\<lambda>r. row_snapshot r n)
         (filter (\<lambda>r. if hr_state r \<in> set TERMINAL_STATES then stored_before r terminal_cutoff
                      else stored_before r abandoned_cutoff) (rd_hunts db)))))"

definition claim_task ::
  "string \<Rightarrow> string \<Rightarrow> int \<Rightarrow> string \<Rightarrow> retention_db \<Rightarrow> (retention_db \<times> string \<times> nat) result" where
  "claim_task hunt owner now fresh_id db =
     (let tasks =
        (if list_ex (\<lambda>t. tk_hunt t = hunt) (rd_tasks db)
         then map (\<lambda>t. if tk_hunt t = hunt
                then t\<lparr>tk_state := ''running'', tk_attempts := tk_attempts t + 1, tk_claimed := Some now, tk_updated := now\<rparr>
                else t) (rd_tasks db)
         else rd_tasks db @ [\<lparr>tk_id = fresh_id, tk_owner = owner, tk_hunt = hunt, tk_state = ''running'', tk_cursor = 0,
                tk_attempts = 1, tk_error = None, tk_claimed = None, tk_updated = now, tk_completed = None\<rparr>])
      in case find (\<lambda>t. tk_hunt t = hunt \<and> tk_owner t = owner) tasks of
           None \<Rightarrow> Inl (RuntimeError ''NoResultFound'')
         | Some t \<Rightarrow> Inr (db\<lparr>rd_tasks := tasks\<rparr>, tk_id t, tk_cursor t))"

definition lock_hunt :: "string \<Rightarrow> string \<Rightarrow> int \<Rightarrow> retention_db \<Rightarrow> (HuntRetentionSnapshot option) result" where
  "lock_hunt hunt owner current db =
     (case find (\<lambda>r. hr_hunt r = hunt \<and> hr_owner r = owner) (rd_hunts db) of
        None \<Rightarrow> Inr None
      | Some r \<Rightarrow> bindR (row_snapshot r current) (\<lambda>s. Inr (Some s)))"

definition table_rows :: "string \<Rightarrow> retention_db \<Rightarrow> artifact_row list" where
  "table_rows t db = (case map_of (rd_tables db) t of None \<Rightarrow> [] | Some rows \<Rightarrow> rows)"

definition of_hunt :: "string \<Rightarrow> string \<Rightarrow> artifact_row \<Rightarrow> bool" where
  "of_hunt hunt owner r \<longleftrightarrow> ar_hunt r = hunt \<and> ar_owner r = owner"

text \<open>The first report's file, then the files of the uploads.\<close>

definition given_path :: "artifact_row \<Rightarrow> string list" where
  "given_path r = (case ar_path r of None \<Rightarrow> [] | Some p \<Rightarrow> if p = [] then [] else [p])"

definition artifact_paths :: "string \<Rightarrow> string \<Rightarrow> retention_db \<Rightarrow> string list" where
  "artifact_paths hunt owner db =
     (case find (of_hunt hunt owner) (table_rows ''reports'' db) of None \<Rightarrow> [] | Some r \<Rightarrow> given_path r)
     @ concat (map given_path (filter (of_hunt hunt owner) (table_rows ''uploads'' db)))"

text \<open>\<open>DELETE FROM table WHERE hunt_id = ... AND owner_id = ...\<close>.\<close>

datatype table_kind = HuntTable | AuditTable | ArtifactTable string

definition table_kind :: "string \<Rightarrow> table_kind" where
  "table_kind t =
     (if t = ''hunts'' then HuntTable else if t = ''audit_records'' then AuditTable else ArtifactTable t)"

fun delete_rows :: "table_kind \<Rightarrow> string \<Rightarrow> string \<Rightarrow> retention_db \<Rightarrow> retention_db" where
  "delete_rows HuntTable hunt owner db =
     db\<lparr>rd_hunts := filter (\<lambda>r. \<not> (hr_hunt r = hunt \<and> hr_owner r = owner)) (rd_hunts db)\<rparr>"
| "delete_rows AuditTable hunt owner db =
     db\<lparr>rd_audit := filter (\<lambda>a. \<not> (ca_hunt a = hunt \<and> ca_owner a = owner)) (rd_audit db)\<rparr>"
| "delete_rows (ArtifactTable t) hunt owner db =
     db\<lparr>rd_tables := map (\<lambda>(n, rows). (n, if n = t then filter (\<lambda>r. \<not> of_hunt hunt owner r) rows else rows)) (rd_tables db)\<rparr>"

definition delete_artifact :: "string \<Rightarrow> string \<Rightarrow> string \<Rightarrow> retention_db \<Rightarrow> retention_db result" where
  "delete_artifact artifact hunt owner db =
     (case map_of TABLE_BY_ARTIFACT artifact of
        None \<Rightarrow> Inl (RuntimeError (''unknown retention artifact '' @ artifact))
      | Some t \<Rightarrow> Inr (delete_rows (table_kind t) hunt owner db))"

definition update_task :: "string \<Rightarrow> (task_row \<Rightarrow> task_row) \<Rightarrow> retention_db \<Rightarrow> retention_db" where
  "update_task task_id f db = db\<lparr>rd_tasks := map (\<lambda>t. if tk_id t = task_id then f t else t) (rd_tasks db)\<rparr>"

definition save_task_failure :: "string \<Rightarrow> nat \<Rightarrow> string \<Rightarrow> int \<Rightarrow> retention_db \<Rightarrow> retention_db" where
  "save_task_failure task_id cursor error now =
     update_task task_id (\<lambda>t. t\<lparr>tk_cursor := cursor, tk_error := (if error = [] then None else Some error), tk_updated := now\<rparr>)"

definition complete_task :: "string \<Rightarrow> int \<Rightarrow> retention_db \<Rightarrow> retention_db" where
  "complete_task task_id now =
     update_task task_id (\<lambda>t. t\<lparr>tk_state := ''completed'', tk_completed := Some now, tk_updated := now\<rparr>)"

definition audit_cleanup :: "string \<Rightarrow> string \<Rightarrow> string \<Rightarrow> string \<Rightarrow> int \<Rightarrow> retention_db \<Rightarrow> retention_db" where
  "audit_cleanup hunt owner outcome detail now db =
     db\<lparr>rd_audit := rd_audit db @ [\<lparr>ca_hunt = hunt, ca_owner = owner, ca_outcome = outcome, ca_detail = detail, ca_time = now\<rparr>]\<rparr>"

subsection \<open>The file store\<close>

definition inside :: "string list \<Rightarrow> string list \<Rightarrow> bool" where
  "inside root target \<longleftrightarrow> take (length root) target = root"

text \<open>\<open>remove\<close>: a directory is removed with everything below it, a missing file is no error.\<close>

definition remove_path ::
  "(string \<Rightarrow> string list) \<Rightarrow> string list \<Rightarrow> string \<Rightarrow> retention_db \<Rightarrow> retention_db result" where
  "remove_path resolve root relative db =
     (let target = resolve relative in
      if \<not> inside root target then Inl (RuntimeError ''artifact path escapes configured storage'')
      else Inr (db\<lparr>rd_files := filter (\<lambda>f. \<not> inside target f) (rd_files db)\<rparr>))"

definition orphan :: "string \<Rightarrow> bool" where
  "orphan name \<longleftrightarrow> take 1 name = ''.'' \<and> drop (length name - 4) name = ''.tmp''"

definition orphan_in :: "string list \<Rightarrow> string list \<Rightarrow> bool" where
  "orphan_in target f \<longleftrightarrow> length f = Suc (length target) \<and> inside target f \<and> orphan (last f)"

definition remove_orphan_temp_files ::
  "(string \<Rightarrow> string list) \<Rightarrow> string list \<Rightarrow> string \<Rightarrow> (string list \<Rightarrow> bool) \<Rightarrow> retention_db \<Rightarrow> (retention_db \<times> nat) result" where
  "remove_orphan_temp_files resolve root directory stuck db =
     (let target = resolve directory;
          gone = filter (\<lambda>f. orphan_in target f \<and> \<not> stuck f) (rd_files db) in
      if \<not> inside root target then Inl (RuntimeError ''temporary directory escapes configured storage'')
      else Inr (db\<lparr>rd_files := filter (\<lambda>f. f \<notin> set gone) (rd_files db)\<rparr>, length gone))"

subsection \<open>Cleanup\<close>

record CleanupResult =
  cr_hunt :: string
  cr_task :: string
  cr_status :: string
  cr_deleted :: "string list"
  cr_error :: "string option"

text \<open>The steps of the \<open>try\<close> block; an attempt may fail at any of them with a message.\<close>

datatype cleanup_step =
    AuditStarted | RemovePath string | DeleteArtifact string | SaveCursor nat | CompleteTask | AuditSuccess

type_synonym faults = "cleanup_step \<Rightarrow> string option"

definition error_text :: "py_error \<Rightarrow> string" where
  "error_text e = (case e of ValueError m \<Rightarrow> m | TypeError m \<Rightarrow> m | KeyError m \<Rightarrow> m | RuntimeError m \<Rightarrow> m | FieldError m \<Rightarrow> m)"

fun remove_paths ::
  "faults \<Rightarrow> (string \<Rightarrow> string list) \<Rightarrow> string list \<Rightarrow> string list \<Rightarrow> retention_db \<Rightarrow> retention_db \<times> string option" where
  "remove_paths fault resolve root [] db = (db, None)"
| "remove_paths fault resolve root (p # ps) db =
     (case fault (RemovePath p) of
        Some e \<Rightarrow> (db, Some e)
      | None \<Rightarrow>
          (case remove_path resolve root p db of
             Inl e \<Rightarrow> (db, Some (error_text e))
           | Inr db1 \<Rightarrow> remove_paths fault resolve root ps db1))"

fun delete_from ::
  "faults \<Rightarrow> string \<Rightarrow> string \<Rightarrow> string \<Rightarrow> int \<Rightarrow> nat \<Rightarrow> string list \<Rightarrow> retention_db \<Rightarrow>
   retention_db \<times> string list \<times> string option" where
  "delete_from fault hunt owner task_id now index [] db = (db, [], None)"
| "delete_from fault hunt owner task_id now index (a # as) db =
     (case fault (DeleteArtifact a) of
        Some e \<Rightarrow> (db, [], Some e)
      | None \<Rightarrow>
          (case delete_artifact a hunt owner db of
             Inl e \<Rightarrow> (db, [], Some (error_text e))
           | Inr db1 \<Rightarrow>
               (case fault (SaveCursor (index + 1)) of
                  Some e \<Rightarrow> (db1, [a], Some e)
                | None \<Rightarrow>
                    (case delete_from fault hunt owner task_id now (index + 1) as
                            (save_task_failure task_id (index + 1) [] now db1) of
                       (db2, ds, err) \<Rightarrow> (db2, a # ds, err)))))"

definition failed_cleanup ::
  "string \<Rightarrow> string \<Rightarrow> string \<Rightarrow> nat \<Rightarrow> int \<Rightarrow> string list \<Rightarrow> string \<Rightarrow> retention_db \<Rightarrow> retention_db \<times> CleanupResult" where
  "failed_cleanup hunt owner task_id cursor now deleted e db =
     (audit_cleanup hunt owner ''failed'' (take 500 e) now
        (save_task_failure task_id (cursor + length deleted) (take 500 e) now db),
      \<lparr>cr_hunt = hunt, cr_task = task_id, cr_status = ''retryable_failure'', cr_deleted = deleted, cr_error = Some e\<rparr>)"

text \<open>The body of the \<open>try\<close> block with its handler.\<close>

definition delete_hunt ::
  "faults \<Rightarrow> (string \<Rightarrow> string list) \<Rightarrow> string list \<Rightarrow> string \<Rightarrow> string \<Rightarrow> string \<Rightarrow> nat \<Rightarrow> int \<Rightarrow> string list \<Rightarrow> retention_db \<Rightarrow>
   retention_db \<times> CleanupResult" where
  "delete_hunt fault resolve root hunt owner task_id cursor now paths db =
     (case fault AuditStarted of
        Some e \<Rightarrow> failed_cleanup hunt owner task_id cursor now [] e db
      | None \<Rightarrow>
          (case remove_paths fault resolve root paths
                  (audit_cleanup hunt owner ''started'' ''retention cleanup claimed'' now db) of
             (db1, Some e) \<Rightarrow> failed_cleanup hunt owner task_id cursor now [] e db1
           | (db1, None) \<Rightarrow>
               (case delete_from fault hunt owner task_id now cursor (drop cursor ARTIFACTS) db1 of
                  (db2, deleted, Some e) \<Rightarrow> failed_cleanup hunt owner task_id cursor now deleted e db2
                | (db2, deleted, None) \<Rightarrow>
                    (case fault CompleteTask of
                       Some e \<Rightarrow> failed_cleanup hunt owner task_id cursor now deleted e db2
                     | None \<Rightarrow>
                         (case fault AuditSuccess of
                            Some e \<Rightarrow> failed_cleanup hunt owner task_id cursor now deleted e (complete_task task_id now db2)
                          | None \<Rightarrow>
                              (audit_cleanup hunt owner ''success'' ''all hunt artifacts deleted'' now (complete_task task_id now db2),
                               \<lparr>cr_hunt = hunt, cr_task = task_id, cr_status = ''deleted'', cr_deleted = deleted, cr_error = None\<rparr>))))))"

record attempt =
  at_now :: datetime
  at_current :: int
  at_fresh_id :: string
  at_faults :: faults

definition finished :: "string \<Rightarrow> string \<Rightarrow> string \<Rightarrow> CleanupResult" where
  "finished hunt task_id status =
     \<lparr>cr_hunt = hunt, cr_task = task_id, cr_status = status, cr_deleted = [], cr_error = None\<rparr>"

definition cleanup_hunt ::
  "(string \<Rightarrow> string list) \<Rightarrow> string list \<Rightarrow> RetentionPolicy \<Rightarrow> string \<Rightarrow> string \<Rightarrow> attempt \<Rightarrow> retention_db \<Rightarrow>
   retention_db \<times> CleanupResult result" where
  "cleanup_hunt resolve root policy hunt owner a db =
     (case retention_utc (at_now a) of
        Inl e \<Rightarrow> (db, Inl e)
      | Inr now \<Rightarrow>
          (case claim_task hunt owner now (at_fresh_id a) db of
             Inl e \<Rightarrow> (db, Inl e)
           | Inr (db1, task_id, cursor) \<Rightarrow>
               (case lock_hunt hunt owner (at_current a) db1 of
                  Inl e \<Rightarrow> (db1, Inl e)
                | Inr None \<Rightarrow> (complete_task task_id now db1, Inr (finished hunt task_id ''already_missing''))
                | Inr (Some s) \<Rightarrow>
                    (case retention_due s \<lparr>naive_us = now, utcoffset = Some 0\<rparr> policy of
                       Inl e \<Rightarrow> (db1, Inl e)
                     | Inr False \<Rightarrow> (complete_task task_id now db1, Inr (finished hunt task_id ''skipped_active''))
                     | Inr True \<Rightarrow>
                         (case delete_hunt (at_faults a) resolve root hunt owner task_id cursor now
                                 (artifact_paths hunt owner db1) db1 of
                            (db2, r) \<Rightarrow> (db2, Inr r))))))"

text \<open>\<open>cleanup\<close> reads the candidates once and cleans them one after the other.\<close>

fun cleanup_rows ::
  "(string \<Rightarrow> string list) \<Rightarrow> string list \<Rightarrow> RetentionPolicy \<Rightarrow> (string \<Rightarrow> attempt) \<Rightarrow> HuntRetentionSnapshot list \<Rightarrow>
   retention_db \<Rightarrow> retention_db \<times> (CleanupResult list) result" where
  "cleanup_rows resolve root policy draw [] db = (db, Inr [])"
| "cleanup_rows resolve root policy draw (s # ss) db =
     (case cleanup_hunt resolve root policy (sn_hunt s) (sn_owner s) (draw (sn_hunt s)) db of
        (db1, Inl e) \<Rightarrow> (db1, Inl e)
      | (db1, Inr r) \<Rightarrow>
          (case cleanup_rows resolve root policy draw ss db1 of
             (db2, Inl e) \<Rightarrow> (db2, Inl e)
           | (db2, Inr rs) \<Rightarrow> (db2, Inr (r # rs))))"

definition cleanup ::
  "(string \<Rightarrow> string list) \<Rightarrow> string list \<Rightarrow> RetentionPolicy \<Rightarrow> datetime \<Rightarrow> (string \<Rightarrow> attempt) \<Rightarrow> retention_db \<Rightarrow>
   retention_db \<times> (CleanupResult list) result" where
  "cleanup resolve root policy clock draw db =
     (case candidate_hunts clock policy db of
        Inl e \<Rightarrow> (db, Inl e)
      | Inr candidates \<Rightarrow> cleanup_rows resolve root policy draw candidates db)"

subsection \<open>What is gone stays gone\<close>

definition hunt_cleared :: "string \<Rightarrow> string \<Rightarrow> retention_db \<Rightarrow> bool" where
  "hunt_cleared hunt owner db \<longleftrightarrow> list_all (\<lambda>r. \<not> (hr_hunt r = hunt \<and> hr_owner r = owner)) (rd_hunts db)"

definition table_cleared :: "string \<Rightarrow> string \<Rightarrow> string \<Rightarrow> retention_db \<Rightarrow> bool" where
  "table_cleared hunt owner t db \<longleftrightarrow>
     list_all (\<lambda>(n, rows). n \<noteq> t \<or> list_all (\<lambda>r. \<not> of_hunt hunt owner r) rows) (rd_tables db)"

text \<open>No row of the hunt is left in an artifact's table.  The audit trail is written to by every
  attempt, so nothing is claimed of it.\<close>

fun kind_cleared :: "string \<Rightarrow> string \<Rightarrow> table_kind \<Rightarrow> retention_db \<Rightarrow> bool" where
  "kind_cleared hunt owner HuntTable db = hunt_cleared hunt owner db"
| "kind_cleared hunt owner AuditTable db = True"
| "kind_cleared hunt owner (ArtifactTable t) db = table_cleared hunt owner t db"

definition cleared :: "string \<Rightarrow> string \<Rightarrow> string \<Rightarrow> retention_db \<Rightarrow> bool" where
  "cleared hunt owner artifact db \<longleftrightarrow>
     (case map_of TABLE_BY_ARTIFACT artifact of None \<Rightarrow> True | Some t \<Rightarrow> kind_cleared hunt owner (table_kind t) db)"

lemma kind_cleared_cong:
  "rd_hunts db' = rd_hunts db \<Longrightarrow> rd_tables db' = rd_tables db \<Longrightarrow> kind_cleared hunt owner k db' = kind_cleared hunt owner k db"
  by (cases k) (simp_all add: hunt_cleared_def table_cleared_def)

lemma cleared_cong:
  "rd_hunts db' = rd_hunts db \<Longrightarrow> rd_tables db' = rd_tables db \<Longrightarrow> cleared hunt owner a db' = cleared hunt owner a db"
  using kind_cleared_cong [of db' db] by (cases "map_of TABLE_BY_ARTIFACT a") (simp_all add: cleared_def)

lemma delete_artifact_eq:
  "delete_artifact a hunt owner db = Inr db' \<longleftrightarrow>
   (\<exists>t. map_of TABLE_BY_ARTIFACT a = Some t \<and> db' = delete_rows (table_kind t) hunt owner db)"
  by (cases "map_of TABLE_BY_ARTIFACT a") (auto simp: delete_artifact_def)

lemma delete_rows_kind_clears: "kind_cleared hunt owner k (delete_rows k hunt owner db)"
  by (cases k) (auto simp: hunt_cleared_def table_cleared_def list_all_iff)

lemma delete_rows_clears:
  "map_of TABLE_BY_ARTIFACT a = Some t \<Longrightarrow> cleared hunt owner a (delete_rows (table_kind t) hunt owner db)"
  by (simp add: cleared_def delete_rows_kind_clears)

lemma list_all_filter: "list_all Q xs \<Longrightarrow> list_all Q (filter P xs)"
  by (auto simp: list_all_iff)

lemma tables_cleared_map:
  "list_all (\<lambda>(n, rows). n \<noteq> u \<or> list_all Q rows) ts \<Longrightarrow>
   list_all (\<lambda>(n, rows). n \<noteq> u \<or> list_all Q rows) (map (\<lambda>(n, rows). (n, if n = t then filter P rows else rows)) ts)"
  by (induction ts) (auto simp: list_all_filter)

lemma table_cleared_map:
  "table_cleared h o1 u db \<Longrightarrow>
   table_cleared h o1 u (db\<lparr>rd_tables := map (\<lambda>(n, rows). (n, if n = t then filter P rows else rows)) (rd_tables db)\<rparr>)"
  unfolding table_cleared_def using tables_cleared_map by simp

lemma kind_cleared_delete: "kind_cleared h o1 j db \<Longrightarrow> kind_cleared h o1 j (delete_rows k hunt owner db)"
proof (cases j)
  case HuntTable
  then show "kind_cleared h o1 j db \<Longrightarrow> kind_cleared h o1 j (delete_rows k hunt owner db)"
    by (cases k) (auto simp: hunt_cleared_def list_all_iff)
next
  case (ArtifactTable t)
  then show "kind_cleared h o1 j db \<Longrightarrow> kind_cleared h o1 j (delete_rows k hunt owner db)"
    by (cases k) (simp_all add: table_cleared_map, simp_all add: table_cleared_def)
qed simp

lemma cleared_delete: "cleared h o1 b db \<Longrightarrow> cleared h o1 b (delete_rows k hunt owner db)"
  using kind_cleared_delete by (cases "map_of TABLE_BY_ARTIFACT b") (simp_all add: cleared_def)

lemma update_task_tables [simp]:
  "rd_hunts (update_task i f db) = rd_hunts db" "rd_tables (update_task i f db) = rd_tables db"
  "rd_audit (update_task i f db) = rd_audit db" "rd_files (update_task i f db) = rd_files db"
  by (simp_all add: update_task_def)

lemma audit_cleanup_tables [simp]:
  "rd_hunts (audit_cleanup h o1 c d n db) = rd_hunts db" "rd_tables (audit_cleanup h o1 c d n db) = rd_tables db"
  "rd_tasks (audit_cleanup h o1 c d n db) = rd_tasks db" "rd_files (audit_cleanup h o1 c d n db) = rd_files db"
  by (simp_all add: audit_cleanup_def)

lemma cleared_bookkeeping [simp]:
  "cleared h o1 a (save_task_failure i c e n db) = cleared h o1 a db"
  "cleared h o1 a (complete_task i n db) = cleared h o1 a db"
  "cleared h o1 a (audit_cleanup h2 o2 c2 d2 n db) = cleared h o1 a db"
  by (rule cleared_cong; simp add: save_task_failure_def complete_task_def)+

lemma remove_path_tables:
  "remove_path resolve root p db = Inr db' \<Longrightarrow>
   rd_hunts db' = rd_hunts db \<and> rd_tables db' = rd_tables db \<and> rd_tasks db' = rd_tasks db \<and> rd_audit db' = rd_audit db"
  by (auto simp: remove_path_def Let_def split: if_splits)

lemma remove_paths_tables:
  "remove_paths fault resolve root ps db = (db', e) \<Longrightarrow>
   rd_hunts db' = rd_hunts db \<and> rd_tables db' = rd_tables db \<and> rd_tasks db' = rd_tasks db \<and> rd_audit db' = rd_audit db"
  by (induction ps arbitrary: db)
    (auto split: option.splits sum.splits dest: remove_path_tables)

lemma delete_from_ConsE:
  assumes "delete_from fault hunt owner task_id now index (a # as) db = (db', ds, err)"
  obtains (stop) "db' = db" "ds = []" "err \<noteq> None"
    | (saved) db1 where "delete_artifact a hunt owner db = Inr db1" "db' = db1" "ds = [a]" "err \<noteq> None"
    | (onward) db1 db2 ds' where "delete_artifact a hunt owner db = Inr db1"
        "delete_from fault hunt owner task_id now (index + 1) as (save_task_failure task_id (index + 1) [] now db1) = (db2, ds', err)"
        "db' = db2" "ds = a # ds'"
proof (cases "fault (DeleteArtifact a)")
  case (Some e)
  show ?thesis by (rule stop) (use assms in \<open>simp_all add: Some, force\<close>)
next
  case None
  note n1 = this
  show ?thesis
  proof (cases "delete_artifact a hunt owner db")
    case (Inl e)
    show ?thesis by (rule stop) (use assms n1 Inl in auto)
  next
    case (Inr db1)
    show ?thesis
    proof (cases "fault (SaveCursor (index + 1))")
      case (Some e)
      have "(db', ds, err) = (db1, [a], Some e)" using assms n1 Inr Some by simp
      then show ?thesis using saved [OF Inr] by simp
    next
      case None
      obtain db2 ds' err' where d: "delete_from fault hunt owner task_id now (index + 1) as
          (save_task_failure task_id (index + 1) [] now db1) = (db2, ds', err')"
        by (cases "delete_from fault hunt owner task_id now (index + 1) as (save_task_failure task_id (index + 1) [] now db1)")
      show ?thesis by (rule onward [OF Inr]) (use assms n1 Inr None d in auto)
    qed
  qed
qed

lemma delete_from_cleared:
  "delete_from fault hunt owner task_id now index as db = (db', ds, err) \<Longrightarrow>
   ds = take (length ds) as \<and> (err = None \<longrightarrow> ds = as)
   \<and> (\<forall>d\<in>set ds. cleared hunt owner d db') \<and> (\<forall>h o1 b. cleared h o1 b db \<longrightarrow> cleared h o1 b db')"
proof (induction as arbitrary: index db db' ds)
  case (Cons a as)
  from Cons.prems show ?case
  proof (cases rule: delete_from_ConsE)
    case stop
    then show ?thesis by simp
  next
    case (saved db1)
    then obtain t where "map_of TABLE_BY_ARTIFACT a = Some t" "db1 = delete_rows (table_kind t) hunt owner db"
      by (auto simp: delete_artifact_eq)
    then show ?thesis using saved(2-4) delete_rows_clears cleared_delete by auto
  next
    case (onward db1 db2 ds')
    then obtain t where t: "map_of TABLE_BY_ARTIFACT a = Some t" "db1 = delete_rows (table_kind t) hunt owner db"
      by (auto simp: delete_artifact_eq)
    note ih = Cons.IH [OF onward(2)]
    have keep: "cleared h o1 b db2" if "cleared h o1 b db1" for h o1 b using ih that by simp
    have "cleared hunt owner a db2" using keep delete_rows_clears [OF t(1)] t(2) by simp
    moreover have "cleared h o1 b db2" if "cleared h o1 b db" for h o1 b using keep cleared_delete [OF that] t(2) by simp
    ultimately show ?thesis using ih onward(3,4) by simp
  qed
qed simp

subsection \<open>The cursor\<close>

text \<open>Everything before the cursor of the hunt's task is gone.\<close>

definition progress :: "string \<Rightarrow> string \<Rightarrow> retention_db \<Rightarrow> bool" where
  "progress hunt owner db \<longleftrightarrow>
     distinct (map tk_hunt (rd_tasks db))
     \<and> (\<forall>t\<in>set (rd_tasks db). tk_hunt t = hunt \<longrightarrow> tk_owner t = owner \<longrightarrow>
          (\<forall>i<tk_cursor t. i < length ARTIFACTS \<longrightarrow> cleared hunt owner (ARTIFACTS ! i) db))"

definition gone :: "string \<Rightarrow> string \<Rightarrow> retention_db \<Rightarrow> bool" where
  "gone hunt owner db \<longleftrightarrow> (\<forall>i<length ARTIFACTS. cleared hunt owner (ARTIFACTS ! i) db)"

text \<open>What an operation may do to the tasks: keep their keys, and move only the cursors of the named
  task.\<close>

definition same_task :: "string \<Rightarrow> task_row \<Rightarrow> task_row \<Rightarrow> bool" where
  "same_task i t t' \<longleftrightarrow>
     tk_id t' = tk_id t \<and> tk_hunt t' = tk_hunt t \<and> tk_owner t' = tk_owner t \<and> (tk_id t = i \<or> tk_cursor t' = tk_cursor t)"

definition tasks_step :: "string \<Rightarrow> retention_db \<Rightarrow> retention_db \<Rightarrow> bool" where
  "tasks_step i db db' \<longleftrightarrow> list_all2 (same_task i) (rd_tasks db) (rd_tasks db')"

lemma tasks_step_refl [simp]: "tasks_step i db db"
  by (simp add: tasks_step_def same_task_def list_all2_same)

lemma tasks_step_cong: "rd_tasks db' = rd_tasks db \<Longrightarrow> tasks_step i db db'"
  by (simp add: tasks_step_def same_task_def list_all2_same)

lemma tasks_step_trans: "tasks_step i a b \<Longrightarrow> tasks_step i b c \<Longrightarrow> tasks_step i a c"
  unfolding tasks_step_def
  by (rule list_all2_trans [of "same_task i" "same_task i"]) (auto simp: same_task_def)

lemma tasks_step_update: "(\<And>t. tk_id (f t) = tk_id t \<and> tk_hunt (f t) = tk_hunt t \<and> tk_owner (f t) = tk_owner t) \<Longrightarrow>
   tasks_step i db (update_task i f db)"
  by (simp add: tasks_step_def same_task_def update_task_def list_all2_map2 list_all2_same)

lemma tasks_step_save: "tasks_step i db (save_task_failure i c e n db)"
  unfolding save_task_failure_def by (rule tasks_step_update) simp

lemma tasks_step_complete: "tasks_step i db (complete_task i n db)"
  unfolding complete_task_def by (rule tasks_step_update) simp

lemma delete_rows_tasks: "rd_tasks (delete_rows k h o1 db) = rd_tasks db"
  by (cases k) simp_all

lemma delete_from_tasks:
  "delete_from fault hunt owner task_id now index as db = (db', ds, err) \<Longrightarrow> tasks_step task_id db db'"
proof (induction as arbitrary: index db db' ds)
  case (Cons a as)
  from Cons.prems show ?case
  proof (cases rule: delete_from_ConsE)
    case stop
    then show ?thesis by simp
  next
    case (saved db1)
    then show ?thesis by (auto simp: delete_artifact_eq delete_rows_tasks intro: tasks_step_cong)
  next
    case (onward db1 db2 ds')
    have "tasks_step task_id db db1" using onward(1) by (auto simp: delete_artifact_eq delete_rows_tasks intro: tasks_step_cong)
    then show ?thesis using Cons.IH [OF onward(2)] tasks_step_save tasks_step_trans onward(3) by metis
  qed
qed simp

lemma update_task_mem: "t \<in> set (rd_tasks (update_task i f db)) \<Longrightarrow> \<exists>t0. t = (if tk_id t0 = i then f t0 else t0)"
  by (auto simp: update_task_def)

lemma save_cursor:
  assumes "t \<in> set (rd_tasks (save_task_failure i cur e n db))" "tk_id t = i"
  shows "tk_cursor t = cur"
proof -
  obtain t0 where t: "t = (if tk_id t0 = i then t0\<lparr>tk_cursor := cur, tk_error := (if e = [] then None else Some e), tk_updated := n\<rparr> else t0)"
    using update_task_mem [OF assms(1) [unfolded save_task_failure_def]] by blast
  then have "tk_id t0 = i" using assms(2) by (cases "tk_id t0 = i") simp_all
  then show ?thesis by (simp add: t)
qed

definition advanced :: "string \<Rightarrow> string \<Rightarrow> string \<Rightarrow> nat \<Rightarrow> retention_db \<Rightarrow> bool" where
  "advanced hunt owner task_id cursor db \<longleftrightarrow>
     (\<forall>t\<in>set (rd_tasks db). tk_id t = task_id \<longrightarrow>
        (\<forall>i<tk_cursor t. cursor \<le> i \<longrightarrow> i < length ARTIFACTS \<longrightarrow> cleared hunt owner (ARTIFACTS ! i) db))"

lemma failed_cleanup_advanced:
  assumes "deleted = take (length deleted) (drop cursor ARTIFACTS)"
    and "\<forall>d\<in>set deleted. cleared hunt owner d db"
    and "failed_cleanup hunt owner task_id cursor now deleted e db = (db', r)"
  shows "advanced hunt owner task_id cursor db' \<and> tasks_step task_id db db'
         \<and> (\<forall>h o1 b. cleared h o1 b db \<longrightarrow> cleared h o1 b db') \<and> cr_status r \<noteq> ''deleted''"
proof -
  have db': "db' = audit_cleanup hunt owner ''failed'' (take 500 e) now
        (save_task_failure task_id (cursor + length deleted) (take 500 e) now db)"
    and r: "cr_status r = ''retryable_failure''"
    using assms(3) by (auto simp: failed_cleanup_def)
  have "cleared hunt owner (ARTIFACTS ! i) db" if i: "cursor \<le> i" "i < cursor + length deleted" "i < length ARTIFACTS" for i
  proof -
    have "deleted ! (i - cursor) = take (length deleted) (drop cursor ARTIFACTS) ! (i - cursor)"
      by (rule arg_cong [OF assms(1)])
    also have "\<dots> = ARTIFACTS ! i" using i by simp
    finally have "ARTIFACTS ! i = deleted ! (i - cursor)" by simp
    moreover have "i - cursor < length deleted" using i by simp
    ultimately show ?thesis using assms(2) by simp
  qed
  then have "advanced hunt owner task_id cursor db'"
    unfolding advanced_def using save_cursor by (auto simp: db')
  moreover have "tasks_step task_id db db'"
    unfolding db' by (rule tasks_step_trans [OF tasks_step_save tasks_step_cong]) simp
  ultimately show ?thesis using r by (simp add: db')
qed

definition outcome_ok :: "string \<Rightarrow> string \<Rightarrow> string \<Rightarrow> nat \<Rightarrow> retention_db \<Rightarrow> retention_db \<Rightarrow> CleanupResult \<Rightarrow> bool" where
  "outcome_ok hunt owner task_id cursor db db' r \<longleftrightarrow>
     advanced hunt owner task_id cursor db' \<and> tasks_step task_id db db'
     \<and> (\<forall>h o1 b. cleared h o1 b db \<longrightarrow> cleared h o1 b db')
     \<and> (cr_status r = ''deleted'' \<longrightarrow> (\<forall>i<length ARTIFACTS. cursor \<le> i \<longrightarrow> cleared hunt owner (ARTIFACTS ! i) db'))"

lemma outcome_ok_failed:
  assumes "failed_cleanup hunt owner task_id cursor now deleted e db1 = (db', r)"
    and "deleted = take (length deleted) (drop cursor ARTIFACTS)" "\<forall>d\<in>set deleted. cleared hunt owner d db1"
    and "tasks_step task_id db db1" "\<forall>h o1 b. cleared h o1 b db \<longrightarrow> cleared h o1 b db1"
  shows "outcome_ok hunt owner task_id cursor db db' r"
  using failed_cleanup_advanced [OF assms(2,3,1)] assms(4,5) tasks_step_trans unfolding outcome_ok_def by blast

lemma outcome_ok_done:
  assumes "\<forall>i<length ARTIFACTS. cursor \<le> i \<longrightarrow> cleared hunt owner (ARTIFACTS ! i) db'"
    and "tasks_step task_id db db'" "\<forall>h o1 b. cleared h o1 b db \<longrightarrow> cleared h o1 b db'"
  shows "outcome_ok hunt owner task_id cursor db db' r"
  using assms by (auto simp: outcome_ok_def advanced_def)

lemma delete_hunt_outcome:
  assumes d: "delete_hunt fault resolve root hunt owner task_id cursor now paths db = (db', r)"
  shows "outcome_ok hunt owner task_id cursor db db' r"
proof (cases "fault AuditStarted")
  case (Some e)
  have f: "failed_cleanup hunt owner task_id cursor now [] e db = (db', r)" using d unfolding delete_hunt_def Some option.case .
  show ?thesis by (rule outcome_ok_failed [OF f]) simp_all
next
  case None
  note n1 = this
  let ?start = "audit_cleanup hunt owner ''started'' ''retention cleanup claimed'' now db"
  obtain db1 err1 where p: "remove_paths fault resolve root paths ?start = (db1, err1)"
    by (cases "remove_paths fault resolve root paths ?start")
  have t1: "tasks_step task_id db db1" and c1: "\<forall>h o1 b. cleared h o1 b db \<longrightarrow> cleared h o1 b db1"
    using remove_paths_tables [OF p] cleared_cong [of db1 db] by (auto intro: tasks_step_cong)
  show ?thesis
  proof (cases err1)
    case (Some e)
    have f: "failed_cleanup hunt owner task_id cursor now [] e db1 = (db', r)"
      using d unfolding delete_hunt_def n1 option.case p prod.case Some .
    show ?thesis by (rule outcome_ok_failed [OF f _ _ t1 c1]) simp_all
  next
    case None
    obtain db2 ds err2 where f: "delete_from fault hunt owner task_id now cursor (drop cursor ARTIFACTS) db1 = (db2, ds, err2)"
      by (cases "delete_from fault hunt owner task_id now cursor (drop cursor ARTIFACTS) db1")
    note cl = delete_from_cleared [OF f]
    have t2: "tasks_step task_id db db2" using t1 delete_from_tasks [OF f] by (rule tasks_step_trans)
    have c2: "\<forall>h o1 b. cleared h o1 b db \<longrightarrow> cleared h o1 b db2" using c1 cl by simp
    note ds = cl [THEN conjunct1] cl [THEN conjunct2, THEN conjunct2, THEN conjunct1]
    have fail: "outcome_ok hunt owner task_id cursor db db' r"
      if f: "failed_cleanup hunt owner task_id cursor now ds e db3 = (db', r)"
        and t: "tasks_step task_id db2 db3" and k: "\<And>h o1 b. cleared h o1 b db2 \<Longrightarrow> cleared h o1 b db3" for e db3
      by (rule outcome_ok_failed [OF f ds(1) _ tasks_step_trans [OF t2 t]]) (simp_all add: k ds(2) c2)
    show ?thesis
    proof (cases err2)
      case (Some e)
      have "failed_cleanup hunt owner task_id cursor now ds e db2 = (db', r)"
        using d unfolding delete_hunt_def n1 option.case p prod.case None f Some .
      then show ?thesis by (rule fail) simp_all
    next
      case none2: None
      have dropped: "ds = drop cursor ARTIFACTS" using cl none2 by simp
      have "ARTIFACTS ! i \<in> set ds" if i: "cursor \<le> i" "i < length ARTIFACTS" for i
      proof -
        have "ds ! (i - cursor) = ARTIFACTS ! i" "i - cursor < length ds" using i by (simp_all add: dropped)
        then show ?thesis using nth_mem [of "i - cursor" ds] by simp
      qed
      then have all: "\<forall>i<length ARTIFACTS. cursor \<le> i \<longrightarrow> cleared hunt owner (ARTIFACTS ! i) db2" using ds(2) by blast
      show ?thesis
      proof (cases "fault CompleteTask")
        case (Some e)
        have "failed_cleanup hunt owner task_id cursor now ds e db2 = (db', r)"
          using d unfolding delete_hunt_def n1 option.case p prod.case None f none2 Some .
        then show ?thesis by (rule fail) simp_all
      next
        case n3: None
        show ?thesis
        proof (cases "fault AuditSuccess")
          case (Some e)
          have "failed_cleanup hunt owner task_id cursor now ds e (complete_task task_id now db2) = (db', r)"
            using d unfolding delete_hunt_def n1 option.case p prod.case None f none2 n3 Some .
          then show ?thesis by (rule fail) (simp_all add: tasks_step_complete)
        next
          case n4: None
          have db': "db' = audit_cleanup hunt owner ''success'' ''all hunt artifacts deleted'' now (complete_task task_id now db2)"
            using d unfolding delete_hunt_def n1 option.case p prod.case None f none2 n3 n4 by simp
          have "tasks_step task_id db2 db'"
            unfolding db' by (rule tasks_step_trans [OF tasks_step_complete tasks_step_cong]) simp
          then have t3: "tasks_step task_id db db'" by (rule tasks_step_trans [OF t2])
          show ?thesis by (rule outcome_ok_done [OF _ t3]) (use all c2 in \<open>simp_all add: db'\<close>)
        qed
      qed
    qed
  qed
qed

lemma claim_task_Inr:
  assumes "claim_task hunt owner now fresh db = Inr (db1, task_id, cursor)" "progress hunt owner db"
  shows "progress hunt owner db1 \<and> (\<forall>h o1 b. cleared h o1 b db1 = cleared h o1 b db)
         \<and> rd_hunts db1 = rd_hunts db \<and> rd_tables db1 = rd_tables db
         \<and> (\<exists>t\<in>set (rd_tasks db1). tk_hunt t = hunt \<and> tk_owner t = owner \<and> tk_id t = task_id \<and> tk_cursor t = cursor)"
proof -
  let ?f = "\<lambda>t. if tk_hunt t = hunt
      then t\<lparr>tk_state := ''running'', tk_attempts := tk_attempts t + 1, tk_claimed := Some now, tk_updated := now\<rparr> else t"
  let ?new = "\<lparr>tk_id = fresh, tk_owner = owner, tk_hunt = hunt, tk_state = ''running'', tk_cursor = 0,
      tk_attempts = 1, tk_error = None, tk_claimed = None, tk_updated = now, tk_completed = None\<rparr>"
  define tasks where "tasks = (if list_ex (\<lambda>t. tk_hunt t = hunt) (rd_tasks db) then map ?f (rd_tasks db) else rd_tasks db @ [?new])"
  obtain t where t: "find (\<lambda>t. tk_hunt t = hunt \<and> tk_owner t = owner) tasks = Some t"
    and db1: "db1 = db\<lparr>rd_tasks := tasks\<rparr>" "task_id = tk_id t" "cursor = tk_cursor t"
    using assms(1) unfolding claim_task_def Let_def tasks_def [symmetric] by (auto split: option.splits)
  have f: "tk_hunt (?f t) = tk_hunt t" "tk_owner (?f t) = tk_owner t" "tk_cursor (?f t) = tk_cursor t" for t by simp_all
  have c: "cleared h o1 b db1 = cleared h o1 b db" for h o1 b by (rule cleared_cong) (simp_all add: db1)
  have p: "distinct (map tk_hunt tasks)
      \<and> (\<forall>t\<in>set tasks. tk_hunt t = hunt \<longrightarrow> tk_owner t = owner \<longrightarrow>
           (\<forall>i<tk_cursor t. i < length ARTIFACTS \<longrightarrow> cleared hunt owner (ARTIFACTS ! i) db))"
  proof (cases "list_ex (\<lambda>t. tk_hunt t = hunt) (rd_tasks db)")
    case True
    then have "tasks = map ?f (rd_tasks db)" by (simp add: tasks_def)
    then show ?thesis using assms(2) f unfolding progress_def by (simp only: map_map comp_def f set_map ball_simps) blast
  next
    case False
    then have "tasks = rd_tasks db @ [?new]" "hunt \<notin> tk_hunt ` set (rd_tasks db)" by (auto simp: tasks_def list_ex_iff)
    then show ?thesis using assms(2) unfolding progress_def by simp
  qed
  then have "progress hunt owner db1" unfolding progress_def using c by (simp add: db1)
  moreover have "t \<in> set tasks" "tk_hunt t = hunt" "tk_owner t = owner" using t by (auto simp: find_Some_iff)
  ultimately show ?thesis using c db1 by auto
qed

lemma tasks_step_hunts: "tasks_step i db db' \<Longrightarrow> map tk_hunt (rd_tasks db') = map tk_hunt (rd_tasks db)"
  unfolding tasks_step_def by (induction rule: list_all2_induct) (auto simp: same_task_def)

lemma tasks_step_mem:
  assumes "tasks_step i db db'" "t' \<in> set (rd_tasks db')"
  shows "\<exists>t\<in>set (rd_tasks db). same_task i t t'"
  using assms unfolding tasks_step_def by (induction rule: list_all2_induct) auto

lemma progress_outcome:
  assumes "progress hunt owner db1" "outcome_ok hunt owner task_id cursor db1 db2 r"
    and t: "t \<in> set (rd_tasks db1)" "tk_hunt t = hunt" "tk_owner t = owner" "tk_id t = task_id" "tk_cursor t = cursor"
  shows "progress hunt owner db2" and "cr_status r = ''deleted'' \<Longrightarrow> gone hunt owner db2"
proof -
  have s: "tasks_step task_id db1 db2" and keep: "\<And>b. cleared hunt owner b db1 \<Longrightarrow> cleared hunt owner b db2"
    and adv: "advanced hunt owner task_id cursor db2"
    using assms(2) by (auto simp: outcome_ok_def)
  have before: "cleared hunt owner (ARTIFACTS ! i) db2" if "i < cursor" "i < length ARTIFACTS" for i
    using assms(1) t that keep unfolding progress_def by blast
  have only: "tk_id x = task_id" if x: "x \<in> set (rd_tasks db2)" "tk_hunt x = hunt" for x
  proof -
    obtain y where y: "y \<in> set (rd_tasks db1)" "same_task task_id y x" using tasks_step_mem [OF s x(1)] by blast
    then have "tk_hunt y = tk_hunt t" using x t(2) by (simp add: same_task_def)
    then have "y = t" using assms(1) y(1) t(1) by (auto simp: progress_def distinct_map dest: inj_onD)
    then show ?thesis using y(2) t(4) by (simp add: same_task_def)
  qed
  have "cleared hunt owner (ARTIFACTS ! i) db2"
    if "x \<in> set (rd_tasks db2)" "tk_hunt x = hunt" "i < tk_cursor x" "i < length ARTIFACTS" for x i
    using that only [OF that(1,2)] adv before by (cases "i < cursor") (auto simp: advanced_def)
  then show "progress hunt owner db2"
    using assms(1) tasks_step_hunts [OF s] by (auto simp: progress_def)
  show "gone hunt owner db2" if "cr_status r = ''deleted''"
  proof -
    have "\<forall>i<length ARTIFACTS. cursor \<le> i \<longrightarrow> cleared hunt owner (ARTIFACTS ! i) db2"
      using assms(2) that by (simp add: outcome_ok_def)
    then show ?thesis using before unfolding gone_def by (metis not_le)
  qed
qed

subsection \<open>Attempts\<close>

lemma complete_progress: "progress hunt owner (complete_task i n db) = progress hunt owner db"
proof -
  let ?g = "\<lambda>t. if tk_id t = i then t\<lparr>tk_state := ''completed'', tk_completed := Some n, tk_updated := n\<rparr> else t"
  have g: "tk_hunt (?g t) = tk_hunt t" "tk_owner (?g t) = tk_owner t" "tk_cursor (?g t) = tk_cursor t" for t by simp_all
  have t: "rd_tasks (complete_task i n db) = map ?g (rd_tasks db)" by (simp add: complete_task_def update_task_def)
  show ?thesis unfolding progress_def t by (simp only: map_map comp_def set_map ball_simps g cleared_bookkeeping)
qed

lemma cleanup_hunt_progress:
  assumes "progress hunt owner db" "cleanup_hunt resolve root policy hunt owner a db = (db', r)"
  shows "progress hunt owner db' \<and> (\<forall>b. cleared hunt owner b db \<longrightarrow> cleared hunt owner b db')
         \<and> (\<forall>c. r = Inr c \<longrightarrow> cr_status c = ''deleted'' \<longrightarrow> gone hunt owner db')"
proof (cases "retention_utc (at_now a)")
  case (Inl e)
  then show ?thesis using assms by (auto simp: cleanup_hunt_def)
next
  case (Inr now)
  note u = this
  show ?thesis
  proof (cases "claim_task hunt owner now (at_fresh_id a) db")
    case (Inl e)
    then show ?thesis using assms u by (auto simp: cleanup_hunt_def)
  next
    case (Inr x)
    obtain db1 task_id cursor where x: "x = (db1, task_id, cursor)" by (cases x)
    note cl = Inr [unfolded x]
    note p1 = claim_task_Inr [OF cl assms(1)]
    obtain t where t: "t \<in> set (rd_tasks db1)" "tk_hunt t = hunt" "tk_owner t = owner" "tk_id t = task_id" "tk_cursor t = cursor"
      using p1 by blast
    have still: "progress hunt owner db' \<and> (\<forall>b. cleared hunt owner b db \<longrightarrow> cleared hunt owner b db')"
      if "db' = db1 \<or> db' = complete_task task_id now db1"
      using that p1 complete_progress by auto
    have not_deleted: "cr_status (finished hunt task_id ''already_missing'') \<noteq> ''deleted''"
      "cr_status (finished hunt task_id ''skipped_active'') \<noteq> ''deleted''"
      by (simp_all add: finished_def)
    show ?thesis
    proof (cases "lock_hunt hunt owner (at_current a) db1")
      case (Inl e)
      then have "(db', r) = (db1, Inl e)" using assms(2) u cl by (simp add: cleanup_hunt_def)
      then show ?thesis using still by simp
    next
      case (Inr snapshot)
      note lk = this
      show ?thesis
      proof (cases snapshot)
        case None
        then have "(db', r) = (complete_task task_id now db1, Inr (finished hunt task_id ''already_missing''))"
          using assms(2) u cl lk by (simp add: cleanup_hunt_def)
        then show ?thesis using still not_deleted by simp
      next
        case (Some s)
        show ?thesis
        proof (cases "retention_due s \<lparr>naive_us = now, utcoffset = Some 0\<rparr> policy")
          case (Inl e)
          then have "(db', r) = (db1, Inl e)" using assms(2) u cl lk Some by (simp add: cleanup_hunt_def)
          then show ?thesis using still by simp
        next
          case (Inr due)
          obtain db2 c where d: "delete_hunt (at_faults a) resolve root hunt owner task_id cursor now (artifact_paths hunt owner db1) db1 = (db2, c)"
            by (cases "delete_hunt (at_faults a) resolve root hunt owner task_id cursor now (artifact_paths hunt owner db1) db1")
          note o = delete_hunt_outcome [OF d]
          have r: "(db', r) = (if due then (db2, Inr c) else (complete_task task_id now db1, Inr (finished hunt task_id ''skipped_active'')))"
            using assms(2) u cl lk Some Inr d by (cases due) (simp_all add: cleanup_hunt_def)
          show ?thesis
          proof (cases due)
            case True
            then have "db' = db2" "r = Inr c" using r by simp_all
            moreover have "cleared hunt owner b db2" if "cleared hunt owner b db" for b
              using o p1 that by (simp add: outcome_ok_def)
            ultimately show ?thesis using progress_outcome [OF _ o t] p1 by simp
          next
            case False
            then show ?thesis using r still not_deleted by simp
          qed
        qed
      qed
    qed
  qed
qed

fun run_cleanups ::
  "(string \<Rightarrow> string list) \<Rightarrow> string list \<Rightarrow> RetentionPolicy \<Rightarrow> string \<Rightarrow> string \<Rightarrow> attempt list \<Rightarrow> retention_db \<Rightarrow>
   retention_db \<times> CleanupResult result list" where
  "run_cleanups resolve root policy hunt owner [] db = (db, [])"
| "run_cleanups resolve root policy hunt owner (a # as) db =
     (case cleanup_hunt resolve root policy hunt owner a db of
        (db1, r) \<Rightarrow> (case run_cleanups resolve root policy hunt owner as db1 of (db2, rs) \<Rightarrow> (db2, r # rs)))"

lemma run_cleanups_progress:
  assumes "progress hunt owner db" "run_cleanups resolve root policy hunt owner as db = (db', rs)"
  shows "(\<forall>b. cleared hunt owner b db \<longrightarrow> cleared hunt owner b db')
         \<and> (\<forall>c. Inr c \<in> set rs \<longrightarrow> cr_status c = ''deleted'' \<longrightarrow> gone hunt owner db')"
  using assms
proof (induction as arbitrary: db rs)
  case (Cons a as)
  obtain db1 r where c: "cleanup_hunt resolve root policy hunt owner a db = (db1, r)"
    by (cases "cleanup_hunt resolve root policy hunt owner a db")
  obtain rs' where rs: "run_cleanups resolve root policy hunt owner as db1 = (db', rs')" "rs = r # rs'"
    using Cons.prems(2) c by (auto split: prod.splits)
  note p = cleanup_hunt_progress [OF Cons.prems(1) c]
  note ih = Cons.IH [OF p [THEN conjunct1] rs(1)]
  have "gone hunt owner db'" if "gone hunt owner db1" using ih that unfolding gone_def by blast
  then show ?case using p ih unfolding rs(2) by (metis set_ConsD)
qed simp


subsection \<open>Other hunts\<close>

definition of_audit :: "string \<Rightarrow> string \<Rightarrow> cleanup_audit \<Rightarrow> bool" where
  "of_audit hunt owner a \<longleftrightarrow> ca_hunt a = hunt \<and> ca_owner a = owner"

text \<open>The rows of a hunt, in every table.\<close>

definition rows_of ::
  "string \<Rightarrow> string \<Rightarrow> retention_db \<Rightarrow> hunt_row list \<times> (string \<times> artifact_row list) list \<times> cleanup_audit list" where
  "rows_of hunt owner db =
     (filter (\<lambda>r. hr_hunt r = hunt \<and> hr_owner r = owner) (rd_hunts db),
      map (\<lambda>(n, rows). (n, filter (of_hunt hunt owner) rows)) (rd_tables db),
      filter (of_audit hunt owner) (rd_audit db))"

lemma rows_of_cong:
  "rd_hunts db' = rd_hunts db \<Longrightarrow> rd_tables db' = rd_tables db \<Longrightarrow> rd_audit db' = rd_audit db \<Longrightarrow>
   rows_of h o1 db' = rows_of h o1 db"
  by (simp add: rows_of_def)

lemma filter_implied: "(\<And>x. P x \<Longrightarrow> Q x) \<Longrightarrow> filter P (filter Q xs) = filter P xs"
  by (induction xs) auto

lemma rows_of_delete:
  assumes "(h, o1) \<noteq> (hunt, owner)"
  shows "rows_of h o1 (delete_rows k hunt owner db) = rows_of h o1 db"
proof (cases k)
  case HuntTable
  have "filter (\<lambda>r. hr_hunt r = h \<and> hr_owner r = o1) (filter (\<lambda>r. \<not> (hr_hunt r = hunt \<and> hr_owner r = owner)) xs)
      = filter (\<lambda>r. hr_hunt r = h \<and> hr_owner r = o1) xs" for xs
    using assms by (intro filter_implied) auto
  then show ?thesis using HuntTable by (simp add: rows_of_def del: filter_filter)
next
  case AuditTable
  have "filter (of_audit h o1) (filter (\<lambda>a. \<not> (ca_hunt a = hunt \<and> ca_owner a = owner)) xs) = filter (of_audit h o1) xs" for xs
    using assms by (intro filter_implied) (auto simp: of_audit_def)
  then show ?thesis using AuditTable by (simp add: rows_of_def del: filter_filter)
next
  case (ArtifactTable t)
  have "filter (of_hunt h o1) (filter (\<lambda>r. \<not> of_hunt hunt owner r) xs) = filter (of_hunt h o1) xs" for xs
    using assms by (intro filter_implied) (auto simp: of_hunt_def)
  then have "(\<lambda>(n, rows). (n, filter (of_hunt h o1) rows)) \<circ> (\<lambda>(n, rows). (n, if n = t then filter (\<lambda>r. \<not> of_hunt hunt owner r) rows else rows))
      = (\<lambda>(n, rows). (n, filter (of_hunt h o1) rows))"
    by (auto simp: fun_eq_iff simp del: filter_filter)
  then show ?thesis using ArtifactTable by (simp add: rows_of_def del: filter_filter)
qed

lemma rows_of_audit: "(h, o1) \<noteq> (hunt, owner) \<Longrightarrow> rows_of h o1 (audit_cleanup hunt owner c d n db) = rows_of h o1 db"
  by (auto simp: rows_of_def audit_cleanup_def of_audit_def)

lemma rows_of_task [simp]:
  "rows_of h o1 (save_task_failure i c e n db) = rows_of h o1 db" "rows_of h o1 (complete_task i n db) = rows_of h o1 db"
  by (rule rows_of_cong; simp add: save_task_failure_def complete_task_def)+

lemma delete_from_rows:
  "(h, o1) \<noteq> (hunt, owner) \<Longrightarrow> delete_from fault hunt owner task_id now index as db = (db', ds, err) \<Longrightarrow>
   rows_of h o1 db' = rows_of h o1 db"
proof (induction as arbitrary: index db db' ds)
  case (Cons a as)
  from Cons.prems(2) show ?case
  proof (cases rule: delete_from_ConsE)
    case (saved db1)
    then show ?thesis using rows_of_delete [OF Cons.prems(1)] by (auto simp: delete_artifact_eq)
  next
    case (onward db1 db2 ds')
    then show ?thesis
      using Cons.IH [OF Cons.prems(1) onward(2)] rows_of_delete [OF Cons.prems(1)] by (auto simp: delete_artifact_eq)
  qed simp
qed simp

lemma failed_cleanup_rows:
  "(h, o1) \<noteq> (hunt, owner) \<Longrightarrow> rows_of h o1 (fst (failed_cleanup hunt owner i c n d e db)) = rows_of h o1 db"
  by (simp add: failed_cleanup_def rows_of_audit)

lemma delete_hunt_rows:
  assumes "(h, o1) \<noteq> (hunt, owner)"
  shows "rows_of h o1 (fst (delete_hunt fault resolve root hunt owner task_id cursor now paths db)) = rows_of h o1 db"
proof -
  let ?start = "audit_cleanup hunt owner ''started'' ''retention cleanup claimed'' now db"
  obtain db1 err1 where p: "remove_paths fault resolve root paths ?start = (db1, err1)"
    by (cases "remove_paths fault resolve root paths ?start")
  obtain db2 ds err2 where f: "delete_from fault hunt owner task_id now cursor (drop cursor ARTIFACTS) db1 = (db2, ds, err2)"
    by (cases "delete_from fault hunt owner task_id now cursor (drop cursor ARTIFACTS) db1")
  have 1: "rows_of h o1 db1 = rows_of h o1 db"
    using remove_paths_tables [OF p] rows_of_cong [of db1 ?start h o1] rows_of_audit [OF assms] by metis
  have 2: "rows_of h o1 db2 = rows_of h o1 db" using delete_from_rows [OF assms f] 1 by simp
  show ?thesis
    unfolding delete_hunt_def p prod.case f
    using 1 2 by (simp add: failed_cleanup_rows [OF assms] rows_of_audit [OF assms] split: option.splits)
qed

text \<open>C28. Cleaning up one hunt leaves the rows of every other hunt, and of the same hunt id under
  another owner, exactly as they were - hunt, artifacts and audit trail - whether the attempt
  succeeds, is refused or fails.\<close>

theorem cleanup_scoped:
  assumes "(h, o1) \<noteq> (hunt, owner)"
  shows "rows_of h o1 (fst (cleanup_hunt resolve root policy hunt owner a db)) = rows_of h o1 db"
proof -
  have c: "rows_of h o1 db1 = rows_of h o1 db" if "claim_task hunt owner now fresh db = Inr (db1, x)" for now fresh db1 x
  proof -
    have "\<exists>ts. db1 = db\<lparr>rd_tasks := ts\<rparr>" using that by (auto simp: claim_task_def Let_def split: option.splits)
    then show ?thesis by (auto intro: rows_of_cong)
  qed
  show ?thesis
    unfolding cleanup_hunt_def using delete_hunt_rows [OF assms]
    by (auto simp: c split: sum.splits option.splits bool.splits prod.splits dest!: c) (metis fst_conv c)
qed

subsection \<open>Completion\<close>

lemma artifacts_known: "list_all (\<lambda>a. map_of TABLE_BY_ARTIFACT a \<noteq> None) ARTIFACTS"
  by code_simp

lemma delete_from_total:
  "list_all (\<lambda>a. map_of TABLE_BY_ARTIFACT a \<noteq> None) as \<Longrightarrow>
   \<exists>db'. delete_from (\<lambda>_. None) hunt owner task_id now index as db = (db', as, None) \<and> rd_files db' = rd_files db"
proof (induction as arbitrary: index db)
  case (Cons a as)
  obtain t where t: "map_of TABLE_BY_ARTIFACT a = Some t" using Cons.prems by auto
  have f: "rd_files (delete_rows k hunt owner db) = rd_files db" for k by (cases k) simp_all
  obtain db' where "delete_from (\<lambda>_. None) hunt owner task_id now (index + 1) as
      (save_task_failure task_id (index + 1) [] now (delete_rows (table_kind t) hunt owner db)) = (db', as, None)"
    "rd_files db' = rd_files (save_task_failure task_id (index + 1) [] now (delete_rows (table_kind t) hunt owner db))"
    using Cons.IH [of "index + 1"] Cons.prems by (metis list.pred_inject(2))
  then show ?case using t f by (simp add: delete_artifact_def save_task_failure_def)
qed simp

lemma remove_paths_total:
  "list_all (\<lambda>p. inside root (resolve p)) ps \<Longrightarrow>
   \<exists>db'. remove_paths (\<lambda>_. None) resolve root ps db = (db', None)
     \<and> rd_files db' = filter (\<lambda>f. \<not> list_ex (\<lambda>p. inside (resolve p) f) ps) (rd_files db)"
proof (induction ps arbitrary: db)
  case (Cons p ps)
  let ?db = "db\<lparr>rd_files := filter (\<lambda>f. \<not> inside (resolve p) f) (rd_files db)\<rparr>"
  obtain db' where "remove_paths (\<lambda>_. None) resolve root ps ?db = (db', None)"
    "rd_files db' = filter (\<lambda>f. \<not> list_ex (\<lambda>p. inside (resolve p) f) ps) (rd_files ?db)"
    using Cons.IH [of ?db] Cons.prems by auto
  then show ?case using Cons.prems by (simp add: remove_path_def Let_def conj_commute)
qed simp

lemma delete_hunt_total:
  assumes "list_all (\<lambda>p. inside root (resolve p)) paths"
  shows "\<exists>db' r. delete_hunt (\<lambda>_. None) resolve root hunt owner task_id 0 now paths db = (db', r)
    \<and> cr_status r = ''deleted'' \<and> cr_deleted r = ARTIFACTS \<and> gone hunt owner db'
    \<and> rd_files db' = filter (\<lambda>f. \<not> list_ex (\<lambda>p. inside (resolve p) f) paths) (rd_files db)"
proof -
  let ?start = "audit_cleanup hunt owner ''started'' ''retention cleanup claimed'' now db"
  obtain db1 where p: "remove_paths (\<lambda>_. None) resolve root paths ?start = (db1, None)"
    and f1: "rd_files db1 = filter (\<lambda>f. \<not> list_ex (\<lambda>p. inside (resolve p) f) paths) (rd_files ?start)"
    using remove_paths_total [of root resolve paths ?start] assms by blast
  obtain db2 where d: "delete_from (\<lambda>_. None) hunt owner task_id now 0 ARTIFACTS db1 = (db2, ARTIFACTS, None)" "rd_files db2 = rd_files db1"
    using delete_from_total [OF artifacts_known] by blast
  let ?final = "audit_cleanup hunt owner ''success'' ''all hunt artifacts deleted'' now (complete_task task_id now db2)"
  let ?r = "\<lparr>cr_hunt = hunt, cr_task = task_id, cr_status = ''deleted'', cr_deleted = ARTIFACTS, cr_error = None\<rparr>"
  have e: "delete_hunt (\<lambda>_. None) resolve root hunt owner task_id 0 now paths db = (?final, ?r)"
    unfolding delete_hunt_def option.case p prod.case drop0 d ..
  have "gone hunt owner ?final"
    using delete_hunt_outcome [OF e] unfolding outcome_ok_def gone_def by simp
  moreover have "rd_files ?final = rd_files db2" by (simp add: complete_task_def)
  ultimately show ?thesis using e f1 d(2) by simp
qed


text \<open>Another process takes the hunt up again.\<close>

definition resume_hunt :: "string \<Rightarrow> datetime \<Rightarrow> int \<Rightarrow> retention_db \<Rightarrow> retention_db" where
  "resume_hunt hunt updated lease db =
     db\<lparr>rd_hunts := map (\<lambda>r. if hr_hunt r = hunt then r\<lparr>hr_updated := updated, hr_lease := Some lease\<rparr> else r) (rd_hunts db)\<rparr>"

text \<open>The activity check does not protect a hunt that is resumed after it: \<open>lock_hunt\<close> ends its
  transaction when it returns, and what runs after the check deletes the hunt whatever its activity
  is by then.\<close>

theorem resumed_hunt_is_deleted:
  "cr_status (snd (delete_hunt (\<lambda>_. None) resolve root hunt owner task_id 0 now [] (resume_hunt hunt updated lease db))) = ''deleted''
   \<and> gone hunt owner (fst (delete_hunt (\<lambda>_. None) resolve root hunt owner task_id 0 now [] (resume_hunt hunt updated lease db)))"
  using delete_hunt_total [of root resolve "[]" hunt owner task_id now "resume_hunt hunt updated lease db"] by auto

subsection \<open>Examples\<close>

definition example_retention :: retention_db where
  "example_retention =
     \<lparr>rd_hunts = [\<lparr>hr_hunt = ''h1'', hr_owner = ''o1'', hr_state = ''finalized'',
                   hr_updated = \<lparr>naive_us = 0, utcoffset = Some 0\<rparr>, hr_lease = None\<rparr>,
                  \<lparr>hr_hunt = ''h2'', hr_owner = ''o1'', hr_state = ''running'',
                   hr_updated = \<lparr>naive_us = 0, utcoffset = Some 0\<rparr>, hr_lease = Some 9\<rparr>],
      rd_tables = [(''uploads'', [\<lparr>ar_hunt = ''h1'', ar_owner = ''o1'', ar_path = Some ''f''\<rparr>,
                                  \<lparr>ar_hunt = ''h2'', ar_owner = ''o1'', ar_path = Some ''g''\<rparr>])],
      rd_audit = [], rd_tasks = [], rd_files = [[''root'', ''f''], [''root'', ''g'']]\<rparr>"

definition example_resolve :: "string \<Rightarrow> string list" where "example_resolve p = [''root'', p]"

definition example_attempt :: attempt where
  "example_attempt = \<lparr>at_now = \<lparr>naive_us = 90 * DAY_US, utcoffset = Some 0\<rparr>, at_current = 90 * DAY_US,
     at_fresh_id = ''t1'', at_faults = (\<lambda>_. None)\<rparr>"

definition failing_attempt :: attempt where
  "failing_attempt = example_attempt\<lparr>at_faults := (\<lambda>s. if s = DeleteArtifact ''evidence'' then Some ''locked'' else None)\<rparr>"

lemma example_due:
  "retention_utc (at_now example_attempt) = Inr (90 * DAY_US)"
  "\<exists>s. lock_hunt ''h1'' ''o1'' (at_current example_attempt) example_retention = Inr (Some s)
     \<and> retention_due s \<lparr>naive_us = 90 * DAY_US, utcoffset = Some 0\<rparr> default_policy = Inr True"
  by (simp_all add: retention_utc_def example_attempt_def as_utc_def valid_utc_def MAX_US_def DAY_US_def lock_hunt_def
      example_retention_def row_snapshot_def retention_due_def snapshot_terminal_def TERMINAL_STATES_def add_days_def
      default_policy_def)

lemma example_paths: "artifact_paths ''h1'' ''o1'' example_retention = [''f'']"
  by (simp add: artifact_paths_def table_rows_def example_retention_def given_path_def of_hunt_def)


theorem cleanup_scoped_witness:
  "(''h2'', ''o1'') \<noteq> (''h1'', ''o1'')
   \<and> rows_of ''h2'' ''o1'' (fst (cleanup_hunt example_resolve [''root''] default_policy ''h1'' ''o1'' failing_attempt example_retention))
     = rows_of ''h2'' ''o1'' example_retention"
  using cleanup_scoped [of "''h2''" "''o1''" "''h1''" "''o1''"] by simp


end
