(* ===== verification/Evidence.thy ===== *)
theory Evidence
  imports SPLPolicy
begin

text \<open>
  \<^verbatim>\<open>services/evidence.py\<close>: normalized evidence, its canonical envelope and hash, the replay key,
  and the owner-scoped repository.  A Python value of a result row is a \<open>pyval\<close>: the JSON scalars
  without floats, lists, tuples, mappings with string keys, and a value of an unsupported type.
  A timestamp is a \<open>datetime\<close> of \<open>Common\<close>, \<open>None\<close> for the text \<open>unknown\<close>.  A database
  transaction is one step on the list of rows; whether the driver returns aware timestamps
  (PostgreSQL) or naive ones (SQLite) is the argument \<open>aware\<close>.  The theorems: a stored record comes
  back unchanged and only to its owner and hunt, replays change nothing, every reachable store
  loads without an integrity error, and equal hashes mean equal envelopes unless SHA-256 collides.
\<close>

subsection \<open>Result rows\<close>

datatype pyval =
    PNone
  | PBool bool
  | PInt int
  | PStr string
  | PList "pyval list"
  | PTuple "pyval list"
  | PMap "(string \<times> pyval) list"
  | PForeign string

fun freeze :: "pyval \<Rightarrow> pyval result" where
  "freeze (PMap kvs) =
     bindR (mapR (\<lambda>kv. bindR (freeze (snd kv)) (\<lambda>v. Inr (fst kv, v))) kvs) (\<lambda>m. Inr (PMap m))"
| "freeze (PList xs) = bindR (mapR freeze xs) (\<lambda>ys. Inr (PTuple ys))"
| "freeze (PTuple xs) = bindR (mapR freeze xs) (\<lambda>ys. Inr (PTuple ys))"
| "freeze (PForeign t) = Inl (ValueError (''selected_result contains unsupported value type: '' @ t))"
| "freeze v = Inr v"

text \<open>The ordinary value that \<open>json.dumps\<close> prints; an unsupported value makes it raise.\<close>

fun json_value :: "pyval \<Rightarrow> json result" where
  "json_value PNone = Inr JNull"
| "json_value (PBool b) = Inr (JBool b)"
| "json_value (PInt i) = Inr (JInt i)"
| "json_value (PStr s) = Inr (JStr s)"
| "json_value (PList xs) = bindR (mapR json_value xs) (\<lambda>ys. Inr (JList ys))"
| "json_value (PTuple xs) = bindR (mapR json_value xs) (\<lambda>ys. Inr (JList ys))"
| "json_value (PMap kvs) =
     bindR (mapR (\<lambda>kv. bindR (json_value (snd kv)) (\<lambda>v. Inr (fst kv, v))) kvs) (\<lambda>m. Inr (JObj m))"
| "json_value (PForeign t) = Inl (TypeError (''Object of type '' @ t @ '' is not JSON serializable''))"

text \<open>What a JSON column gives back.\<close>

fun of_json :: "json \<Rightarrow> pyval" where
  "of_json JNull = PNone"
| "of_json (JBool b) = PBool b"
| "of_json (JInt i) = PInt i"
| "of_json (JStr s) = PStr s"
| "of_json (JList xs) = PList (map of_json xs)"
| "of_json (JObj kvs) = PMap (map (\<lambda>kv. (fst kv, of_json (snd kv))) kvs)"

definition normalize_source_event_ref :: "string \<Rightarrow> string" where
  "normalize_source_event_ref s = (if strip s = [] then ''unknown'' else s)"

subsection \<open>Coverage of a query\<close>

definition truthy :: "json option \<Rightarrow> bool" where
  "truthy v = (v \<notin> {None, Some JNull, Some (JBool False), Some (JInt 0), Some (JStr []), Some (JList []), Some (JObj [])})"

definition outcome_accepted :: "json option \<Rightarrow> bool result" where
  "outcome_accepted v =
     (case v of
        None \<Rightarrow> Inr True
      | Some (JList _) \<Rightarrow> Inl (TypeError ''unhashable type'')
      | Some (JObj _) \<Rightarrow> Inl (TypeError ''unhashable type'')
      | Some j \<Rightarrow> Inr (j \<in> {JNull, JStr ''success'', JStr ''succeeded''}))"

definition more_available :: "json option \<Rightarrow> json option \<Rightarrow> bool" where
  "more_available retained available =
     (case (retained, available) of (Some (JInt r), Some (JInt a)) \<Rightarrow> a > r | _ \<Rightarrow> False)"

definition query_results_incomplete :: "(string \<times> json) list \<Rightarrow> bool result" where
  "query_results_incomplete query =
     (if map_of query ''status'' \<notin> {None, Some (JStr ''completed'')} then Inr True
      else bindR (outcome_accepted (map_of query ''outcome'')) (\<lambda>accepted.
        Inr (\<not> accepted \<or> truthy (map_of query ''truncated'') \<or> truthy (map_of query ''partial_fetch'')
             \<or> more_available (map_of query ''result_count'') (map_of query ''available_result_count''))))"

definition names_source :: "(string \<times> json) list \<Rightarrow> string \<Rightarrow> string \<Rightarrow> bool" where
  "names_source row field v =
     (case map_of row field of
        None \<Rightarrow> True
      | Some (JList items) \<Rightarrow> items \<noteq> [] \<and> list_all (\<lambda>j. j = JStr v) items
      | Some j \<Rightarrow> j = JStr v)"

definition result_source :: "(string \<times> json) list \<Rightarrow> (string \<times> string) list \<Rightarrow> string \<times> string" where
  "result_source row pairs =
     (case filter (\<lambda>pair. names_source row ''index'' (fst pair) \<and> names_source row ''sourcetype'' (snd pair)) pairs of
        [pair] \<Rightarrow> pair
      | _ \<Rightarrow> (''unknown'', ''unknown''))"

subsection \<open>Evidence records\<close>

record TruncationMetadata =
  tm_truncated :: bool
  tm_reason :: string
  tm_source_rows :: "int option"
  tm_retained_rows :: "int option"
  tm_source_bytes :: "int option"
  tm_retained_bytes :: "int option"

definition no_truncation :: TruncationMetadata where
  "no_truncation = \<lparr>tm_truncated = False, tm_reason = ''unknown'', tm_source_rows = None, tm_retained_rows = None,
     tm_source_bytes = None, tm_retained_bytes = None\<rparr>"

definition validate_truncation :: "TruncationMetadata \<Rightarrow> unit result" where
  "validate_truncation t =
     checks [count_field ''source_row_count'' (tm_source_rows t),
             count_field ''retained_row_count'' (tm_retained_rows t),
             count_field ''source_byte_count'' (tm_source_bytes t),
             count_field ''retained_byte_count'' (tm_retained_bytes t),
             ensure (\<not> exceeds (tm_retained_rows t) (tm_source_rows t))
               (ValueError ''retained_row_count cannot exceed source_row_count''),
             ensure (\<not> exceeds (tm_retained_bytes t) (tm_source_bytes t))
               (ValueError ''retained_byte_count cannot exceed source_byte_count''),
             ensure (\<not> (tm_truncated t \<and> tm_reason t = ''unknown''))
               (ValueError ''truncated evidence requires a reason'')]"

fun kind_value :: "EvidenceKind \<Rightarrow> string" where
  "kind_value RAW_EVENT = ''raw_event''"
| "kind_value AGGREGATE_ROW = ''aggregate_row''"

text \<open>The fields the hash binds, and the record that adds the identifier, the hash and the key.\<close>

record evidence_values =
  en_owner_id :: "uuid option"
  en_hunt_id :: uuid
  en_query_id :: uuid
  en_source_id :: string
  en_splunk_job_id :: string
  en_kind :: EvidenceKind
  en_index :: string
  en_sourcetype :: string
  en_event_time :: "datetime option"
  en_collected_at :: datetime
  en_source_event_ref :: string
  en_selected_result :: "(string \<times> pyval) list"
  en_truncation :: TruncationMetadata

record NormalizedEvidence = evidence_values +
  ne_evidence_id :: uuid
  ne_sha256 :: string
  ne_dedupe_key :: "string option"

definition timestamp_value :: "datetime option \<Rightarrow> string result" where
  "timestamp_value v = (case v of None \<Rightarrow> Inr ''unknown'' | Some d \<Rightarrow> canonical_utc d)"

definition opt_text :: "string option \<Rightarrow> json" where
  "opt_text v = (case v of None \<Rightarrow> JNull | Some s \<Rightarrow> JStr s)"

definition opt_int :: "int option \<Rightarrow> json" where
  "opt_int v = (case v of None \<Rightarrow> JNull | Some i \<Rightarrow> JInt i)"

definition truncation_json :: "TruncationMetadata \<Rightarrow> json" where
  "truncation_json t =
     JObj [(''truncated'', JBool (tm_truncated t)), (''reason'', JStr (tm_reason t)),
           (''source_row_count'', opt_int (tm_source_rows t)), (''retained_row_count'', opt_int (tm_retained_rows t)),
           (''source_byte_count'', opt_int (tm_source_bytes t)), (''retained_byte_count'', opt_int (tm_retained_bytes t))]"

definition identity_fields :: "'a evidence_values_scheme \<Rightarrow> string \<Rightarrow> (string \<times> json) list" where
  "identity_fields v event_time =
     [(''schema_version'', JStr ''1.0''), (''owner_id'', opt_text (en_owner_id v)),
      (''hunt_id'', JStr (en_hunt_id v)), (''query_id'', JStr (en_query_id v)),
      (''source_id'', JStr (en_source_id v)), (''splunk_job_id'', JStr (en_splunk_job_id v)),
      (''evidence_kind'', JStr (kind_value (en_kind v))), (''index'', JStr (en_index v)),
      (''sourcetype'', JStr (en_sourcetype v)), (''event_time_utc'', JStr event_time),
      (''source_event_ref'', JStr (normalize_source_event_ref (en_source_event_ref v)))]"

definition canonical_evidence_envelope :: "'a evidence_values_scheme \<Rightarrow> json result" where
  "canonical_evidence_envelope v =
     bindR (timestamp_value (en_event_time v)) (\<lambda>event_time.
     bindR (timestamp_value (Some (en_collected_at v))) (\<lambda>collected.
     bindR (json_value (PMap (en_selected_result v))) (\<lambda>selected.
       Inr (JObj (identity_fields v event_time @
              [(''collected_at_utc'', JStr collected), (''selected_result'', selected),
               (''truncation'', truncation_json (en_truncation v))])))))"

definition evidence_sha256 :: "'a evidence_values_scheme \<Rightarrow> string result" where
  "evidence_sha256 v =
     bindR (canonical_evidence_envelope v) (\<lambda>envelope. Inr (sha256_hex (encode (dumps_raw envelope))))"

definition evidence_identity :: "'a evidence_values_scheme \<Rightarrow> json result" where
  "evidence_identity v =
     bindR (timestamp_value (en_event_time v)) (\<lambda>event_time.
       if normalize_source_event_ref (en_source_event_ref v) = ''unknown'' then
         bindR (json_value (PMap (en_selected_result v))) (\<lambda>selected.
           Inr (JObj (identity_fields v event_time @ [(''selected_result'', selected)])))
       else Inr (JObj (identity_fields v event_time)))"

definition evidence_dedupe_key :: "'a evidence_values_scheme \<Rightarrow> string result" where
  "evidence_dedupe_key v =
     bindR (evidence_identity v) (\<lambda>ident. Inr (sha256_hex (encode (dumps_raw ident))))"

definition verify_evidence_integrity :: "NormalizedEvidence \<Rightarrow> bool result" where
  "verify_evidence_integrity e =
     (if \<not> is_ok (validate_sha256 (ne_sha256 e)) then Inr False
      else bindR (evidence_sha256 e) (\<lambda>h. Inr (ne_sha256 e = h)))"

subsection \<open>Validation and construction\<close>

definition utc_datetime :: "utc \<Rightarrow> datetime" where
  "utc_datetime t = \<lparr>naive_us = t, utcoffset = Some 0\<rparr>"

definition to_utc :: "datetime \<Rightarrow> datetime result" where
  "to_utc d = bindR (as_utc d) (\<lambda>t. Inr (utc_datetime t))"

definition opt_utc :: "datetime option \<Rightarrow> (datetime option) result" where
  "opt_utc v = (case v of None \<Rightarrow> Inr None | Some d \<Rightarrow> bindR (to_utc d) (\<lambda>u. Inr (Some u)))"

definition freeze_row :: "(string \<times> pyval) list \<Rightarrow> ((string \<times> pyval) list) result" where
  "freeze_row kvs =
     bindR (ensure (kvs \<noteq> []) (ValueError ''selected_result must contain at least one field'')) (\<lambda>_.
       mapR (\<lambda>kv. bindR (freeze (snd kv)) (\<lambda>v. Inr (fst kv, v))) kvs)"

definition validate_hash :: "NormalizedEvidence \<Rightarrow> NormalizedEvidence result" where
  "validate_hash e =
     bindR (validate_sha256 (ne_sha256 e)) (\<lambda>_.
     bindR (evidence_sha256 e) (\<lambda>expected.
     bindR (ensure (ne_sha256 e = expected) (ValueError ''sha256 does not match the canonical evidence envelope'')) (\<lambda>_.
       Inr e)))"

definition model_validate :: "NormalizedEvidence \<Rightarrow> NormalizedEvidence result" where
  "model_validate e =
     bindR (opt_utc (en_event_time e)) (\<lambda>event_time.
     bindR (to_utc (en_collected_at e)) (\<lambda>collected.
     bindR (freeze_row (en_selected_result e)) (\<lambda>selected.
     bindR (validate_truncation (en_truncation e)) (\<lambda>_.
       validate_hash (e\<lparr>en_event_time := event_time, en_collected_at := collected,
         en_source_event_ref := normalize_source_event_ref (en_source_event_ref e),
         en_selected_result := selected\<rparr>)))))"

text \<open>\<open>build_evidence\<close>: \<open>collected_at_utc or utc_now()\<close>, \<open>truncation or {}\<close> and
  \<open>evidence_id or uuid4()\<close> with the clock and the fresh identifier as arguments.\<close>

definition build_evidence ::
  "utc \<Rightarrow> uuid \<Rightarrow> evidence_values \<Rightarrow> datetime option \<Rightarrow> TruncationMetadata option \<Rightarrow> uuid option \<Rightarrow> NormalizedEvidence result" where
  "build_evidence now fresh args collected_at truncation evidence_id =
     bindR (to_utc (case collected_at of None \<Rightarrow> utc_datetime now | Some d \<Rightarrow> d)) (\<lambda>collected.
     let trunc = (case truncation of None \<Rightarrow> no_truncation | Some t \<Rightarrow> t) in
     bindR (validate_truncation trunc) (\<lambda>_.
     let vals = args\<lparr>en_collected_at := collected,
           en_source_event_ref := normalize_source_event_ref (en_source_event_ref args), en_truncation := trunc\<rparr> in
     bindR (evidence_sha256 vals) (\<lambda>digest.
     bindR (evidence_dedupe_key vals) (\<lambda>key.
       model_validate
         (evidence_values.extend vals
            (NormalizedEvidence.fields (case evidence_id of None \<Rightarrow> fresh | Some i \<Rightarrow> i) digest (Some key)))))))"

subsection \<open>Repository\<close>

record evidence_row =
  row_evidence_id :: uuid
  row_owner_id :: uuid
  row_hunt_id :: uuid
  row_query_id :: uuid
  row_source_id :: string
  row_splunk_job_id :: string
  row_kind :: EvidenceKind
  row_index :: string
  row_sourcetype :: string
  row_event_time :: "utc option"
  row_collected_at :: utc
  row_source_event_ref :: string
  row_selected_result :: json
  row_truncation :: TruncationMetadata
  row_sha256 :: string
  row_dedupe_key :: string
  row_created_at :: utc

definition db_timestamp :: "datetime option \<Rightarrow> (utc option) result" where
  "db_timestamp v = (case v of None \<Rightarrow> Inr None | Some d \<Rightarrow> bindR (ensure_utc d) (\<lambda>t. Inr (Some t)))"

definition evidence_to_row :: "uuid \<Rightarrow> NormalizedEvidence \<Rightarrow> evidence_row result" where
  "evidence_to_row owner e =
     bindR (db_timestamp (en_event_time e)) (\<lambda>event_time.
     bindR (ensure_utc (en_collected_at e)) (\<lambda>collected.
     bindR (json_value (PMap (en_selected_result e))) (\<lambda>selected.
     bindR (evidence_dedupe_key e) (\<lambda>key.
       Inr \<lparr>row_evidence_id = ne_evidence_id e, row_owner_id = owner, row_hunt_id = en_hunt_id e,
            row_query_id = en_query_id e, row_source_id = en_source_id e, row_splunk_job_id = en_splunk_job_id e,
            row_kind = en_kind e, row_index = en_index e, row_sourcetype = en_sourcetype e,
            row_event_time = event_time, row_collected_at = collected,
            row_source_event_ref = en_source_event_ref e, row_selected_result = selected,
            row_truncation = en_truncation e, row_sha256 = ne_sha256 e, row_dedupe_key = key,
            row_created_at = collected\<rparr>))))"

text \<open>A timestamp column as the driver returns it, and the repair of a naive one.\<close>

definition column_time :: "bool \<Rightarrow> utc \<Rightarrow> datetime" where
  "column_time aware t = \<lparr>naive_us = t, utcoffset = (if aware then Some 0 else None)\<rparr>"

definition replace_tzinfo :: "datetime \<Rightarrow> datetime" where
  "replace_tzinfo d = (if utcoffset d = None then d\<lparr>utcoffset := Some 0\<rparr> else d)"

definition row_fields :: "json \<Rightarrow> (string \<times> pyval) list result" where
  "row_fields j =
     (case of_json j of
        PMap kvs \<Rightarrow> Inr kvs
      | _ \<Rightarrow> Inl (ValueError ''selected_result must contain at least one field''))"

definition from_row :: "bool \<Rightarrow> evidence_row \<Rightarrow> NormalizedEvidence result" where
  "from_row aware row =
     bindR (row_fields (row_selected_result row)) (\<lambda>selected.
       model_validate
         \<lparr>en_owner_id = Some (row_owner_id row), en_hunt_id = row_hunt_id row, en_query_id = row_query_id row,
          en_source_id = row_source_id row, en_splunk_job_id = row_splunk_job_id row, en_kind = row_kind row,
          en_index = row_index row, en_sourcetype = row_sourcetype row,
          en_event_time = map_option (\<lambda>t. replace_tzinfo (column_time aware t)) (row_event_time row),
          en_collected_at = replace_tzinfo (column_time aware (row_collected_at row)),
          en_source_event_ref = row_source_event_ref row, en_selected_result = selected,
          en_truncation = row_truncation row, ne_evidence_id = row_evidence_id row,
          ne_sha256 = row_sha256 row, ne_dedupe_key = Some (row_dedupe_key row)\<rparr>)"

definition same_source :: "evidence_row \<Rightarrow> evidence_row \<Rightarrow> bool" where
  "same_source values row \<longleftrightarrow>
     row_owner_id row = row_owner_id values \<and> row_hunt_id row = row_hunt_id values
     \<and> row_dedupe_key row = row_dedupe_key values"

text \<open>The primary key; the unique key on owner, hunt and replay key is what the lookup has excluded.\<close>

definition insert_row :: "evidence_row list \<Rightarrow> evidence_row \<Rightarrow> evidence_row list result" where
  "insert_row db row =
     (if row_evidence_id row \<in> row_evidence_id ` set db \<or> list_ex (same_source row) db
        then Inl (RuntimeError ''IntegrityError'') else Inr (db @ [row]))"

definition save :: "bool \<Rightarrow> evidence_row list \<Rightarrow> NormalizedEvidence \<Rightarrow> (evidence_row list \<times> NormalizedEvidence) result" where
  "save aware db e =
     (case en_owner_id e of
        None \<Rightarrow> Inl (ValueError ''owner_id is required before persisting evidence'')
      | Some owner \<Rightarrow>
          bindR (verify_evidence_integrity e) (\<lambda>intact.
          bindR (ensure intact (ValueError ''refusing to persist evidence with an invalid hash'')) (\<lambda>_.
          bindR (evidence_to_row owner e) (\<lambda>row.
            case find (same_source row) db of
              Some existing \<Rightarrow> bindR (from_row aware existing) (\<lambda>old. Inr (db, old))
            | None \<Rightarrow> bindR (insert_row db row) (\<lambda>db'. Inr (db', e))))))"

definition get :: "bool \<Rightarrow> evidence_row list \<Rightarrow> uuid \<Rightarrow> uuid \<Rightarrow> uuid \<Rightarrow> (NormalizedEvidence option) result" where
  "get aware db evidence_id owner_id hunt_id =
     (case find (\<lambda>r. row_evidence_id r = evidence_id \<and> row_owner_id r = owner_id \<and> row_hunt_id r = hunt_id) db of
        None \<Rightarrow> Inr None
      | Some row \<Rightarrow> bindR (from_row aware row) (\<lambda>e. Inr (Some e)))"

subsection \<open>Freezing\<close>

lemma mapR_frozen:
  assumes "mapR f xs = Inr ys"
    and "\<And>x y. x \<in> set xs \<Longrightarrow> f x = Inr y \<Longrightarrow> f y = Inr y \<and> (\<exists>j. g x = Inr j \<and> g y = Inr j \<and> f (h j) = Inr y)"
  shows "mapR f ys = Inr ys \<and> (\<exists>js. mapR g xs = Inr js \<and> mapR g ys = Inr js \<and> mapR f (map h js) = Inr ys)"
  using assms
proof (induction xs arbitrary: ys)
  case Nil
  then show ?case by simp
next
  case (Cons x xs)
  then obtain y zs where y: "f x = Inr y" and zs: "mapR f xs = Inr zs" and ys: "ys = y # zs"
    by (auto simp: bindR_eq_Inr)
  have tail: "mapR f zs = Inr zs \<and> (\<exists>js. mapR g xs = Inr js \<and> mapR g zs = Inr js \<and> mapR f (map h js) = Inr zs)"
    using Cons.IH [OF zs] Cons.prems(2) by (meson list.set_intros(2))
  moreover have "f y = Inr y \<and> (\<exists>j. g x = Inr j \<and> g y = Inr j \<and> f (h j) = Inr y)"
    using Cons.prems(2) [OF _ y] by simp
  ultimately obtain j js where "f y = Inr y" "g x = Inr j" "g y = Inr j" "f (h j) = Inr y"
    "mapR f zs = Inr zs" "mapR g xs = Inr js" "mapR g zs = Inr js" "mapR f (map h js) = Inr zs" by blast
  then show ?case unfolding ys by (intro conjI exI [of _ "j # js"]) simp_all
qed

text \<open>A frozen value is a fixed point, prints like the value it came from, and is what a JSON
  column gives back after freezing again.\<close>

lemma freeze_facts:
  "freeze v = Inr w \<Longrightarrow> freeze w = Inr w \<and> (\<exists>j. json_value v = Inr j \<and> json_value w = Inr j \<and> freeze (of_json j) = Inr w)"
proof (induction v arbitrary: w rule: freeze.induct)
  case (1 kvs)
  define f where "f kv = bindR (freeze (snd kv)) (\<lambda>v. Inr (fst kv, v))" for kv :: "string \<times> pyval"
  define g where "g kv = bindR (json_value (snd kv)) (\<lambda>v. Inr (fst kv, v))" for kv :: "string \<times> pyval"
  define h where "h kv = (fst kv, of_json (snd kv))" for kv :: "string \<times> json"
  have eqs: "freeze (PMap zs) = bindR (mapR f zs) (\<lambda>m. Inr (PMap m))"
    "json_value (PMap zs) = bindR (mapR g zs) (\<lambda>m. Inr (JObj m))" for zs
    unfolding f_def [abs_def] g_def [abs_def] by simp_all
  have hs: "of_json (JObj js) = PMap (map h js)" for js unfolding h_def [abs_def] by simp
  obtain m where m: "mapR f kvs = Inr m" "w = PMap m" using 1(2) unfolding eqs by (auto simp: bindR_eq_Inr)
  have step: "f y = Inr y \<and> (\<exists>j. g x = Inr j \<and> g y = Inr j \<and> f (h j) = Inr y)"
    if x: "x \<in> set kvs" and fx: "f x = Inr y" for x y
  proof -
    obtain v where v: "freeze (snd x) = Inr v" "y = (fst x, v)" using fx unfolding f_def by (auto simp: bindR_eq_Inr)
    then obtain j where "freeze v = Inr v" "json_value (snd x) = Inr j" "json_value v = Inr j" "freeze (of_json j) = Inr v"
      using 1(1) [OF x v(1)] by blast
    then show ?thesis unfolding v(2) f_def g_def h_def by (intro conjI exI [of _ "(fst x, j)"]) simp_all
  qed
  obtain js where "mapR f m = Inr m" "mapR g kvs = Inr js" "mapR g m = Inr js" "mapR f (map h js) = Inr m"
    using mapR_frozen [OF m(1) step] by blast
  then show ?case unfolding m(2) eqs by (intro conjI exI [of _ "JObj js"]) (simp_all only: bindR_simps hs eqs)
next
  case (2 xs)
  then obtain ys where ys: "mapR freeze xs = Inr ys" "w = PTuple ys" by (auto simp: bindR_eq_Inr)
  obtain js where "mapR freeze ys = Inr ys" "mapR json_value xs = Inr js" "mapR json_value ys = Inr js"
    "mapR freeze (map of_json js) = Inr ys" using mapR_frozen [OF ys(1) 2(1)] by blast
  then show ?case unfolding ys(2) by (intro conjI exI [of _ "JList js"]) simp_all
next
  case (3 xs)
  then obtain ys where ys: "mapR freeze xs = Inr ys" "w = PTuple ys" by (auto simp: bindR_eq_Inr)
  obtain js where "mapR freeze ys = Inr ys" "mapR json_value xs = Inr js" "mapR json_value ys = Inr js"
    "mapR freeze (map of_json js) = Inr ys" using mapR_frozen [OF ys(1) 3(1)] by blast
  then show ?case unfolding ys(2) by (intro conjI exI [of _ "JList js"]) simp_all
qed auto

lemma freeze_row_PMap: "freeze_row kvs = Inr m \<longleftrightarrow> kvs \<noteq> [] \<and> freeze (PMap kvs) = Inr (PMap m)"
  unfolding freeze_row_def by (auto simp: bindR_eq_Inr ensure_eq_Inr)

lemma freeze_row_facts:
  assumes "freeze_row kvs = Inr m"
  shows "m \<noteq> [] \<and> freeze_row m = Inr m
    \<and> (\<exists>js. json_value (PMap kvs) = Inr (JObj js) \<and> json_value (PMap m) = Inr (JObj js)
          \<and> bindR (row_fields (JObj js)) freeze_row = Inr m)"
proof -
  have k: "kvs \<noteq> []" "freeze (PMap kvs) = Inr (PMap m)" using assms by (auto simp: freeze_row_PMap)
  then have "length m = length kvs" by (auto simp: bindR_eq_Inr mapR_Inr dest: list_all2_lengthD)
  then have m: "m \<noteq> []" using k(1) by auto
  obtain j where j: "freeze (PMap m) = Inr (PMap m)" "json_value (PMap kvs) = Inr j" "json_value (PMap m) = Inr j"
      "freeze (of_json j) = Inr (PMap m)"
    using freeze_facts [OF k(2)] by blast
  then obtain js where js: "j = JObj js" by (auto simp: bindR_eq_Inr)
  have "length js = length m" using j(3) js by (auto simp: bindR_eq_Inr mapR_Inr dest: list_all2_lengthD)
  then have "bindR (row_fields (JObj js)) freeze_row = Inr m"
    using j(4) m unfolding js by (auto simp: row_fields_def freeze_row_PMap)
  then show ?thesis using j(1,2,3) js m by (auto simp: freeze_row_PMap)
qed

subsection \<open>Valid records\<close>

definition utc_instant :: "datetime \<Rightarrow> bool" where
  "utc_instant d \<longleftrightarrow> utcoffset d = Some 0 \<and> valid_utc (naive_us d)"

definition sound :: "NormalizedEvidence \<Rightarrow> bool" where
  "sound e \<longleftrightarrow>
     (case en_event_time e of None \<Rightarrow> True | Some d \<Rightarrow> utc_instant d) \<and> utc_instant (en_collected_at e)
     \<and> freeze_row (en_selected_result e) = Inr (en_selected_result e)
     \<and> normalize_source_event_ref (en_source_event_ref e) = en_source_event_ref e
     \<and> validate_truncation (en_truncation e) = Inr () \<and> evidence_sha256 e = Inr (ne_sha256 e)"

lemma normalize_ref_idem: "normalize_source_event_ref (normalize_source_event_ref s) = normalize_source_event_ref s"
proof -
  have "strip ''unknown'' \<noteq> []" by (simp add: strip_def lstrip_def rstrip_def py_isspace_def)
  then show ?thesis unfolding normalize_source_event_ref_def by (cases "strip s = []") (simp_all only: refl if_True if_False)
qed

lemma to_utc_instant: "to_utc d = Inr u \<Longrightarrow> utc_instant u"
  unfolding to_utc_def as_utc_def by (auto simp: bindR_eq_Inr utc_instant_def utc_datetime_def split: option.splits if_splits)

lemma utc_instant_fixed: "utc_instant d \<Longrightarrow> to_utc d = Inr d \<and> as_utc d = Inr (naive_us d)"
  by (cases d) (simp add: to_utc_def as_utc_def utc_instant_def utc_datetime_def)

lemma opt_utc_instant: "opt_utc v = Inr u \<Longrightarrow> (case u of None \<Rightarrow> True | Some d \<Rightarrow> utc_instant d)"
  unfolding opt_utc_def by (auto simp: bindR_eq_Inr to_utc_instant split: option.splits)

lemma opt_utc_fixed: "(case v of None \<Rightarrow> True | Some d \<Rightarrow> utc_instant d) \<Longrightarrow> opt_utc v = Inr v"
  unfolding opt_utc_def by (cases v) (simp_all add: utc_instant_fixed)

lemma sha_is_digest: "evidence_sha256 v = Inr h \<Longrightarrow> validate_sha256 h = Inr h"
  unfolding evidence_sha256_def by (auto simp: bindR_eq_Inr digest_validates)

lemma model_validate_sound:
  assumes "model_validate e = Inr e'"
  shows "sound e'"
proof -
  obtain t c m where t: "opt_utc (en_event_time e) = Inr t" and c: "to_utc (en_collected_at e) = Inr c"
    and m: "freeze_row (en_selected_result e) = Inr m" and u: "validate_truncation (en_truncation e) = Inr ()"
    and h: "validate_hash (e\<lparr>en_event_time := t, en_collected_at := c,
         en_source_event_ref := normalize_source_event_ref (en_source_event_ref e), en_selected_result := m\<rparr>) = Inr e'"
    using assms unfolding model_validate_def by (auto simp: bindR_eq_Inr)
  from h have e': "e' = e\<lparr>en_event_time := t, en_collected_at := c,
         en_source_event_ref := normalize_source_event_ref (en_source_event_ref e), en_selected_result := m\<rparr>"
    and sha: "evidence_sha256 e' = Inr (ne_sha256 e')"
    unfolding validate_hash_def by (auto simp: bindR_eq_Inr ensure_eq_Inr)
  have "freeze_row m = Inr m" using freeze_row_facts [OF m] by blast
  then show ?thesis unfolding sound_def sha
    using opt_utc_instant [OF t] to_utc_instant [OF c] u by (simp add: e' normalize_ref_idem)
qed

lemma sound_validates:
  assumes "sound e"
  shows "model_validate e = Inr e"
proof -
  have "e\<lparr>en_event_time := en_event_time e, en_collected_at := en_collected_at e,
     en_source_event_ref := en_source_event_ref e, en_selected_result := en_selected_result e\<rparr> = e" by simp
  then show ?thesis using assms sha_is_digest [of e "ne_sha256 e"]
    unfolding sound_def model_validate_def validate_hash_def
    by (simp add: opt_utc_fixed utc_instant_fixed)
qed

lemma sound_verifies: "sound e \<Longrightarrow> verify_evidence_integrity e = Inr True"
  using sha_is_digest [of e "ne_sha256 e"] unfolding verify_evidence_integrity_def sound_def by simp

lemma hash_ignores_key:
  fixes e :: NormalizedEvidence
  shows "evidence_sha256 (e\<lparr>ne_dedupe_key := k\<rparr>) = evidence_sha256 e"
    and "evidence_dedupe_key (e\<lparr>ne_dedupe_key := k\<rparr>) = evidence_dedupe_key e"
  by (simp_all add: evidence_sha256_def canonical_evidence_envelope_def identity_fields_def
      evidence_dedupe_key_def evidence_identity_def cong: if_cong)

lemma sound_ignores_key: "sound (e\<lparr>ne_dedupe_key := k\<rparr>) = sound e"
  unfolding sound_def hash_ignores_key by simp

lemma sound_row:
  assumes "sound e" and "en_owner_id e = Some owner"
  obtains row where "evidence_to_row owner e = Inr row"
    and "from_row aware row = Inr (e\<lparr>ne_dedupe_key := Some (row_dedupe_key row)\<rparr>)"
    and "row_evidence_id row = ne_evidence_id e" and "row_owner_id row = owner" and "row_hunt_id row = en_hunt_id e"
    and "evidence_dedupe_key e = Inr (row_dedupe_key row)"
proof -
  obtain js where js: "json_value (PMap (en_selected_result e)) = Inr (JObj js)"
      "bindR (row_fields (JObj js)) freeze_row = Inr (en_selected_result e)"
    using assms(1) freeze_row_facts [of "en_selected_result e"] unfolding sound_def by auto
  obtain kvs where kvs: "row_fields (JObj js) = Inr kvs" "freeze_row kvs = Inr (en_selected_result e)"
    using js(2) by (auto simp: bindR_eq_Inr)
  have tv: "\<exists>s. timestamp_value (en_event_time e) = Inr s"
    using assms(1) unfolding sound_def timestamp_value_def
    by (auto simp: canonical_utc_def utc_instant_fixed split: option.splits)
  then obtain key where key: "evidence_dedupe_key e = Inr key"
    unfolding evidence_dedupe_key_def evidence_identity_def 
    by (cases "normalize_source_event_ref (en_source_event_ref e) = ''unknown''") (auto simp: js(1) simp del: json_value.simps)
  define et where "et = map_option naive_us (en_event_time e)"
  have et: "db_timestamp (en_event_time e) = Inr et"
    using assms(1) unfolding sound_def db_timestamp_def et_def ensure_utc_def
    by (auto simp: utc_instant_fixed split: option.splits)
  have ct: "ensure_utc (en_collected_at e) = Inr (naive_us (en_collected_at e))"
    using assms(1) unfolding sound_def ensure_utc_def by (simp add: utc_instant_fixed)
  have restored: "replace_tzinfo (column_time aware (naive_us d)) = d" if "utc_instant d" for d
    using that by (cases d) (simp add: replace_tzinfo_def column_time_def utc_instant_def)
  have times: "map_option (\<lambda>t. replace_tzinfo (column_time aware t)) et = en_event_time e"
      "replace_tzinfo (column_time aware (naive_us (en_collected_at e))) = en_collected_at e"
    using assms(1) restored unfolding sound_def et_def by (auto split: option.splits)
  define row where "row = \<lparr>row_evidence_id = ne_evidence_id e, row_owner_id = owner, row_hunt_id = en_hunt_id e,
            row_query_id = en_query_id e, row_source_id = en_source_id e, row_splunk_job_id = en_splunk_job_id e,
            row_kind = en_kind e, row_index = en_index e, row_sourcetype = en_sourcetype e,
            row_event_time = et, row_collected_at = naive_us (en_collected_at e),
            row_source_event_ref = en_source_event_ref e, row_selected_result = JObj js,
            row_truncation = en_truncation e, row_sha256 = ne_sha256 e, row_dedupe_key = key,
            row_created_at = naive_us (en_collected_at e)\<rparr>"
  have r: "evidence_to_row owner e = Inr row" unfolding evidence_to_row_def row_def by (simp add: et ct js(1) key del: json_value.simps)
  define e1 where "e1 = e\<lparr>en_selected_result := kvs, ne_dedupe_key := Some key\<rparr>"
  have f: "from_row aware row = model_validate e1"
    unfolding from_row_def row_def e1_def
    by (simp add: kvs(1) times) (rule arg_cong [where f = model_validate], rule NormalizedEvidence.equality, simp_all add: assms(2))
  have s: "sound (e\<lparr>ne_dedupe_key := Some key\<rparr>)" using assms(1) by (simp only: sound_ignores_key)
  have "model_validate e1 = model_validate (e\<lparr>ne_dedupe_key := Some key\<rparr>)"
    using assms(1) kvs(2) unfolding model_validate_def e1_def sound_def by simp
  then have "from_row aware row = Inr (e\<lparr>ne_dedupe_key := Some key\<rparr>)" using f sound_validates [OF s] by simp
  then show ?thesis using that [OF r] key unfolding row_def by simp
qed

subsection \<open>Construction succeeds\<close>

lemma timestamp_normalized: "opt_utc v = Inr u \<Longrightarrow> timestamp_value v = timestamp_value u \<and> is_ok (timestamp_value u)"
  unfolding opt_utc_def timestamp_value_def to_utc_def canonical_utc_def as_utc_def utc_datetime_def
  by (auto simp: bindR_eq_Inr split: option.splits if_splits)

text \<open>The plain envelope that \<open>build_evidence\<close> hashes and the one the validator recomputes agree, so
  a record whose parts are acceptable is always built.\<close>

lemma build_sound:
  assumes collected: "to_utc (case collected_at of None \<Rightarrow> utc_datetime now | Some d \<Rightarrow> d) = Inr c"
    and event: "opt_utc (en_event_time args) = Inr t"
    and selected: "freeze_row (en_selected_result args) = Inr m"
    and trunc: "validate_truncation (case truncation of None \<Rightarrow> no_truncation | Some u \<Rightarrow> u) = Inr ()"
  shows "\<exists>e key. build_evidence now fresh args collected_at truncation evidence_id = Inr e \<and> sound e
    \<and> en_owner_id e = en_owner_id args \<and> en_hunt_id e = en_hunt_id args \<and> en_selected_result e = m
    \<and> ne_evidence_id e = (case evidence_id of None \<Rightarrow> fresh | Some i \<Rightarrow> i)
    \<and> ne_dedupe_key e = Some key \<and> evidence_dedupe_key e = Inr key"
proof -
  define tr where "tr = (case truncation of None \<Rightarrow> no_truncation | Some u \<Rightarrow> u)"
  define vals where "vals = args\<lparr>en_collected_at := c,
     en_source_event_ref := normalize_source_event_ref (en_source_event_ref args), en_truncation := tr\<rparr>"
  define raw where "raw digest key = evidence_values.extend vals
     (NormalizedEvidence.fields (case evidence_id of None \<Rightarrow> fresh | Some i \<Rightarrow> i) digest (Some key))" for digest key
  define fin where "fin digest key = (raw digest key)\<lparr>en_event_time := t, en_collected_at := c,
     en_source_event_ref := normalize_source_event_ref (en_source_event_ref args), en_selected_result := m\<rparr>" for digest key
  have tv: "timestamp_value (en_event_time args) = timestamp_value t" "is_ok (timestamp_value t)"
    using timestamp_normalized [OF event] by simp_all
  have cv: "utc_instant c" using to_utc_instant [OF collected] .
  then have cok: "is_ok (timestamp_value (Some c))" by (simp add: timestamp_value_def canonical_utc_def utc_instant_fixed)
  obtain js where js: "json_value (PMap (en_selected_result args)) = Inr (JObj js)" "json_value (PMap m) = Inr (JObj js)"
    using freeze_row_facts [OF selected] by blast
  have env: "canonical_evidence_envelope (fin digest key) = canonical_evidence_envelope vals"
      "evidence_identity (fin digest key) = evidence_identity vals" for digest key
    unfolding canonical_evidence_envelope_def evidence_identity_def identity_fields_def fin_def raw_def vals_def
    by (simp_all add: tv(1) js normalize_ref_idem evidence_values.defs NormalizedEvidence.defs del: json_value.simps cong: if_cong)
  obtain s1 s2 where s: "timestamp_value t = Inr s1" "timestamp_value (Some c) = Inr s2"
    using tv(2) cok by (auto simp: is_ok_iff)
  have "is_ok (evidence_sha256 vals) \<and> is_ok (evidence_dedupe_key vals)"
    unfolding evidence_sha256_def evidence_dedupe_key_def canonical_evidence_envelope_def evidence_identity_def vals_def
    by (simp add: tv(1) s js(1) del: json_value.simps)
  then obtain digest key where h: "evidence_sha256 vals = Inr digest" "evidence_dedupe_key vals = Inr key"
    by (auto simp: is_ok_iff)
  define e where "e = fin digest key"
  have eh: "evidence_sha256 e = Inr digest" "evidence_dedupe_key e = Inr key" "ne_sha256 e = digest" "ne_dedupe_key e = Some key"
    using h unfolding evidence_sha256_def evidence_dedupe_key_def e_def env
    by (simp_all add: fin_def raw_def vals_def evidence_values.defs NormalizedEvidence.defs)
  have mv: "model_validate (raw digest key) = Inr e"
    unfolding model_validate_def using sha_is_digest [OF eh(1)] eh event selected trunc cv
    by (simp add: raw_def vals_def fin_def e_def utc_instant_fixed validate_hash_def tr_def normalize_ref_idem
        evidence_values.defs NormalizedEvidence.defs)
  have b: "build_evidence now fresh args collected_at truncation evidence_id = Inr e"
    unfolding build_evidence_def Let_def using h mv trunc unfolding raw_def vals_def tr_def
    by (simp add: collected)
  moreover have "sound e" using model_validate_sound [OF mv] .
  moreover have "en_owner_id e = en_owner_id args" "en_hunt_id e = en_hunt_id args" "en_selected_result e = m"
    "ne_evidence_id e = (case evidence_id of None \<Rightarrow> fresh | Some i \<Rightarrow> i)"
    by (simp_all add: e_def fin_def raw_def vals_def evidence_values.defs NormalizedEvidence.defs)
  ultimately show ?thesis using eh by blast
qed

subsection \<open>The store\<close>

lemma find_fresh:
  assumes "insert_row db row = Inr db'"
  shows "find P db' = (case find P db of Some r \<Rightarrow> Some r | None \<Rightarrow> if P row then Some row else None)"
  using assms unfolding insert_row_def by (auto simp: find_snoc split: if_splits)

definition store_ok :: "evidence_row list \<Rightarrow> bool" where
  "store_ok db \<longleftrightarrow> distinct (map row_evidence_id db)
     \<and> distinct (map (\<lambda>r. (row_owner_id r, row_hunt_id r, row_dedupe_key r)) db)
     \<and> list_all (\<lambda>r. \<exists>e. sound e \<and> en_owner_id e = Some (row_owner_id r) \<and> en_hunt_id e = row_hunt_id r
          \<and> ne_evidence_id e = row_evidence_id r \<and> from_row True r = Inr e \<and> from_row False r = Inr e) db"

definition save_step :: "bool \<Rightarrow> evidence_row list \<Rightarrow> NormalizedEvidence \<Rightarrow> evidence_row list result" where
  "save_step aware db e = bindR (save aware db e) (\<lambda>r. Inr (fst r))"

lemma save_step_ok:
  assumes "store_ok db" and "model_validate e = Inr e" and "save_step aware db e = Inr db'"
  shows "store_ok db'"
proof -
  have s: "sound e" using model_validate_sound [OF assms(2)] .
  obtain owner where o: "en_owner_id e = Some owner" using assms(3)
    unfolding save_step_def save_def by (cases "en_owner_id e") auto
  obtain row where row: "evidence_to_row owner e = Inr row"
      "from_row True row = Inr (e\<lparr>ne_dedupe_key := Some (row_dedupe_key row)\<rparr>)"
      "row_evidence_id row = ne_evidence_id e" "row_owner_id row = owner" "row_hunt_id row = en_hunt_id e"
    using sound_row [OF s o] by metis
  have row2: "from_row False row = Inr (e\<lparr>ne_dedupe_key := Some (row_dedupe_key row)\<rparr>)"
    using sound_row [OF s o, of False] row(1) by (metis sum.inject(2))
  have sk: "sound (e\<lparr>ne_dedupe_key := Some (row_dedupe_key row)\<rparr>)" using s by (simp only: sound_ignores_key)
  have goodrow: "\<exists>e. sound e \<and> en_owner_id e = Some (row_owner_id row) \<and> en_hunt_id e = row_hunt_id row
          \<and> ne_evidence_id e = row_evidence_id row \<and> from_row True row = Inr e \<and> from_row False row = Inr e"
    by (rule exI [of _ "e\<lparr>ne_dedupe_key := Some (row_dedupe_key row)\<rparr>"]) (use sk row row2 o in simp)
  show ?thesis
  proof (cases "find (same_source row) db")
    case None
    then have ins: "insert_row db row = Inr db'"
      using assms(3) sound_verifies [OF s] unfolding save_step_def save_def by (auto simp: o row(1) bindR_eq_Inr)
    then have db': "db' = db @ [row]" "row_evidence_id row \<notin> row_evidence_id ` set db" "\<not> list_ex (same_source row) db"
      unfolding insert_row_def by (simp_all split: if_splits)
    have "(row_owner_id row, row_hunt_id row, row_dedupe_key row)
        \<notin> (\<lambda>r. (row_owner_id r, row_hunt_id r, row_dedupe_key r)) ` set db"
      using db'(3) unfolding list_ex_iff same_source_def by force
    then show ?thesis using assms(1) goodrow db'(2) unfolding store_ok_def db'(1) by simp
  next
    case (Some old)
    then have "db' = db" using assms(3) sound_verifies [OF s] unfolding save_step_def save_def
      by (auto simp: o row(1) bindR_eq_Inr)
    then show ?thesis using assms(1) by simp
  qed
qed

interpretation evidence_store: guarded_machine "save_step aware" store_ok "\<lambda>e. model_validate e = Inr e" for aware
  by unfold_locales (rule save_step_ok)

lemma get_loads:
  assumes "store_ok db"
  shows "\<exists>found. get aware db evidence_id owner_id hunt_id = Inr found
    \<and> (case found of None \<Rightarrow> True
       | Some e \<Rightarrow> ne_evidence_id e = evidence_id \<and> en_owner_id e = Some owner_id \<and> en_hunt_id e = hunt_id
           \<and> verify_evidence_integrity e = Inr True)"
proof (cases "find (\<lambda>r. row_evidence_id r = evidence_id \<and> row_owner_id r = owner_id \<and> row_hunt_id r = hunt_id) db")
  case None
  then show ?thesis by (simp add: get_def)
next
  case (Some r)
  then have r: "r \<in> set db" "row_evidence_id r = evidence_id" "row_owner_id r = owner_id" "row_hunt_id r = hunt_id"
    by (auto simp: find_Some_iff)
  then obtain e where e: "sound e" "en_owner_id e = Some owner_id" "en_hunt_id e = hunt_id" "ne_evidence_id e = evidence_id"
      "from_row True r = Inr e" "from_row False r = Inr e"
    using assms unfolding store_ok_def list_all_iff by metis
  have "from_row aware r = Inr e" using e(5,6) by (cases aware) simp_all
  then have "get aware db evidence_id owner_id hunt_id = Inr (Some e)" using Some by (simp add: get_def)
  then show ?thesis using e sound_verifies by auto
qed

text \<open>Whatever sequence of saves the repository has accepted from an empty table, a lookup never
  raises: it returns nothing, or a record of exactly the requested evidence, owner and hunt whose
  stored hash still matches its envelope; and no two rows share a primary key or a replay key.\<close>

theorem evidence_store_loads:
  assumes "run_steps (save_step aware) [] es = Inr db" and "\<And>e. e \<in> set es \<Longrightarrow> model_validate e = Inr e"
  shows "\<exists>found. get aware db evidence_id owner_id hunt_id = Inr found
    \<and> (case found of None \<Rightarrow> True
       | Some e \<Rightarrow> ne_evidence_id e = evidence_id \<and> en_owner_id e = Some owner_id \<and> en_hunt_id e = hunt_id
           \<and> verify_evidence_integrity e = Inr True)
    \<and> distinct (map row_evidence_id db)
    \<and> distinct (map (\<lambda>r. (row_owner_id r, row_hunt_id r, row_dedupe_key r)) db)"
proof -
  have "store_ok []" by (simp add: store_ok_def)
  then have ok: "store_ok db" using evidence_store.run_inv [OF _ assms(2,1)] by blast
  then show ?thesis using get_loads [OF ok, of aware evidence_id owner_id hunt_id] unfolding store_ok_def by blast
qed

definition example_args :: evidence_values where
  "example_args = \<lparr>en_owner_id = Some ''u1'', en_hunt_id = ''h1'', en_query_id = ''q1'', en_source_id = ''splunk'',
     en_splunk_job_id = ''sid'', en_kind = RAW_EVENT, en_index = ''main'', en_sourcetype = ''sysmon'',
     en_event_time = Some \<lparr>naive_us = 63000000000000000, utcoffset = Some 3600000000\<rparr>,
     en_collected_at = utc_datetime 0, en_source_event_ref = ''  '',
     en_selected_result = [(''host'', PStr ''a''), (''ports'', PList [PInt 22, PInt 80])],
     en_truncation = no_truncation\<rparr>"

lemma example_frozen:
  "freeze_row (en_selected_result example_args) = Inr [(''host'', PStr ''a''), (''ports'', PTuple [PInt 22, PInt 80])]"
  by (simp add: example_args_def freeze_row_def)

lemma example_built:
  obtains e key where "build_evidence 63000000000000000 ''e1'' example_args None None None = Inr e" "sound e"
    "en_owner_id e = Some ''u1''" "en_hunt_id e = ''h1''" "ne_evidence_id e = ''e1''"
    "ne_dedupe_key e = Some key" "evidence_dedupe_key e = Inr key"
proof -
  have "to_utc (case None of None \<Rightarrow> utc_datetime 63000000000000000 | Some d \<Rightarrow> d) = Inr (utc_datetime 63000000000000000)"
    by (simp add: to_utc_def as_utc_def utc_datetime_def valid_utc_def MAX_US_def)
  moreover have "opt_utc (en_event_time example_args) = Inr (Some (utc_datetime 62999996400000000))"
    by (simp add: example_args_def opt_utc_def to_utc_def as_utc_def utc_datetime_def valid_utc_def MAX_US_def)
  moreover have "validate_truncation (case None of None \<Rightarrow> no_truncation | Some u \<Rightarrow> u) = Inr ()"
    by (simp add: validate_truncation_def no_truncation_def count_field_def exceeds_def)
  ultimately show ?thesis
    using build_sound [OF _ _ example_frozen, where collected_at = None and now = 63000000000000000 and truncation = None
        and fresh = "''e1''" and evidence_id = None] that
    by (auto simp: example_args_def)
qed

theorem evidence_store_loads_witness:
  "\<exists>e db. run_steps (save_step True) [] [e] = Inr db \<and> length db = 1
     \<and> is_ok (get True db ''e1'' ''u1'' ''h1'') \<and> distinct (map row_evidence_id db)"
proof (rule example_built)
  fix e key
  assume e: "sound e" "en_owner_id e = Some ''u1''" "en_hunt_id e = ''h1''"
  obtain row where row: "evidence_to_row ''u1'' e = Inr row" using sound_row [OF e(1,2)] by blast
  have run: "run_steps (save_step True) [] [e] = Inr [row]"
    using sound_verifies [OF e(1)] by (simp add: save_step_def save_def e(2) row insert_row_def)
  have "is_ok (get True [row] ''e1'' ''u1'' ''h1'') \<and> distinct (map row_evidence_id [row])"
    using evidence_store_loads [OF run, of "''e1''" "''u1''" "''h1''"] sound_validates [OF e(1)] by auto
  then show ?thesis using run by (intro exI [of _ e] exI [of _ "[row]"]) simp
qed

text \<open>C17. A round trip: acceptable arguments always build a record, and saving it to a table that
  holds neither its identifier nor its replay key stores it so that the owner reads back exactly
  the record that was built, another owner or hunt reads nothing, and saving it again changes
  nothing and returns the same record.\<close>

theorem evidence_round_trip:
  assumes "is_ok (to_utc (case collected_at of None \<Rightarrow> utc_datetime now | Some d \<Rightarrow> d))"
    and "is_ok (opt_utc (en_event_time args))" and "is_ok (freeze_row (en_selected_result args))"
    and "is_ok (validate_truncation (case truncation of None \<Rightarrow> no_truncation | Some u \<Rightarrow> u))"
    and owner: "en_owner_id args = Some owner" and fresh: "fresh \<notin> row_evidence_id ` set db"
  shows "\<exists>e key. build_evidence now fresh args collected_at truncation None = Inr e \<and> ne_dedupe_key e = Some key
    \<and> (list_ex (\<lambda>r. row_owner_id r = owner \<and> row_hunt_id r = en_hunt_id args \<and> row_dedupe_key r = key) db
       \<or> (\<exists>db'. save aware db e = Inr (db', e)
            \<and> get aware db' fresh owner (en_hunt_id args) = Inr (Some e)
            \<and> save aware db' e = Inr (db', e)
            \<and> (\<forall>o' h'. (o', h') = (owner, en_hunt_id args) \<or> get aware db' fresh o' h' = Inr None)))"
proof -
  obtain c t m where p: "to_utc (case collected_at of None \<Rightarrow> utc_datetime now | Some d \<Rightarrow> d) = Inr c"
      "opt_utc (en_event_time args) = Inr t" "freeze_row (en_selected_result args) = Inr m"
      "validate_truncation (case truncation of None \<Rightarrow> no_truncation | Some u \<Rightarrow> u) = Inr ()"
    using assms(1-4) by (auto simp: is_ok_iff)
  from build_sound [OF p, of fresh None] obtain e key
    where b: "build_evidence now fresh args collected_at truncation None = Inr e" and s: "sound e"
      and o: "en_owner_id e = Some owner" and h: "en_hunt_id e = en_hunt_id args" and i: "ne_evidence_id e = fresh"
      and k: "ne_dedupe_key e = Some key" "evidence_dedupe_key e = Inr key"
    using owner by auto
  obtain row where row: "evidence_to_row owner e = Inr row" "from_row aware row = Inr (e\<lparr>ne_dedupe_key := Some (row_dedupe_key row)\<rparr>)"
      "row_evidence_id row = fresh" "row_owner_id row = owner" "row_hunt_id row = en_hunt_id args" "row_dedupe_key row = key"
    using sound_row [OF s o, of aware] h i k(2) by auto
  have loaded: "from_row aware row = Inr e" using row(2) k(1) unfolding row(6) by simp
  let ?dup = "list_ex (\<lambda>r. row_owner_id r = owner \<and> row_hunt_id r = en_hunt_id args \<and> row_dedupe_key r = key) db"
  have dup: "list_ex (same_source row) db = ?dup" unfolding same_source_def row(4-6) ..
  show ?thesis
  proof (cases ?dup)
    case True
    then show ?thesis using b k(1) by blast
  next
    case False
    then have n: "find (same_source row) db = None" using dup by (auto simp: find_None_iff list_ex_iff)
    have ins: "insert_row db row = Inr (db @ [row])" using False dup fresh row(3) by (simp add: insert_row_def)
    have v: "verify_evidence_integrity e = Inr True" using sound_verifies [OF s] .
    have "save aware db e = Inr (db @ [row], e)" by (simp add: save_def o v row(1) n ins)
    moreover have "save aware (db @ [row]) e = Inr (db @ [row], e)"
      by (simp add: save_def o v row(1) find_fresh [OF ins] n same_source_def loaded)
    moreover have "get aware (db @ [row]) fresh o' h' = (if (o', h') = (owner, en_hunt_id args) then Inr (Some e) else Inr None)" for o' h'
    proof -
      have absent: "find (\<lambda>r. row_evidence_id r = fresh \<and> row_owner_id r = o' \<and> row_hunt_id r = h') db = None"
        using fresh by (auto simp: find_None_iff)
      show ?thesis unfolding get_def find_fresh [OF ins] absent by (simp add: row(3-5) loaded)
    qed
    then have "get aware (db @ [row]) fresh owner (en_hunt_id args) = Inr (Some e)"
      "\<forall>o' h'. (o', h') = (owner, en_hunt_id args) \<or> get aware (db @ [row]) fresh o' h' = Inr None" by simp_all
    ultimately have "\<exists>db'. save aware db e = Inr (db', e) \<and> get aware db' fresh owner (en_hunt_id args) = Inr (Some e)
            \<and> save aware db' e = Inr (db', e)
            \<and> (\<forall>o' h'. (o', h') = (owner, en_hunt_id args) \<or> get aware db' fresh o' h' = Inr None)"
      by (intro exI [of _ "db @ [row]"] conjI)
    then show ?thesis using b k(1) by (intro exI [of _ e] exI [of _ key] conjI disjI2)
  qed
qed

theorem evidence_round_trip_witness:
  "\<exists>e db. build_evidence 63000000000000000 ''e1'' example_args None None None = Inr e
     \<and> save False [] e = Inr (db, e) \<and> get False db ''e1'' ''u1'' ''h1'' = Inr (Some e)
     \<and> get False db ''e1'' ''u2'' ''h1'' = Inr None"
proof -
  have "is_ok (to_utc (case None of None \<Rightarrow> utc_datetime 63000000000000000 | Some d \<Rightarrow> d))"
    by (simp add: to_utc_def as_utc_def utc_datetime_def valid_utc_def MAX_US_def)
  moreover have "is_ok (opt_utc (en_event_time example_args))"
    by (simp add: example_args_def opt_utc_def to_utc_def as_utc_def utc_datetime_def valid_utc_def MAX_US_def)
  moreover have "is_ok (freeze_row (en_selected_result example_args))" by (simp add: example_frozen)
  moreover have "is_ok (validate_truncation (case None of None \<Rightarrow> no_truncation | Some u \<Rightarrow> u))"
    by (simp add: validate_truncation_def no_truncation_def count_field_def exceeds_def)
  moreover have args: "en_owner_id example_args = Some ''u1''" "en_hunt_id example_args = ''h1''" by (simp_all add: example_args_def)
  moreover have "''e1'' \<notin> row_evidence_id ` set []" by simp
  ultimately obtain e db where e: "build_evidence 63000000000000000 ''e1'' example_args None None None = Inr e"
      "save False [] e = Inr (db, e)" "get False db ''e1'' ''u1'' ''h1'' = Inr (Some e)"
      "\<forall>o' h'. (o', h') = (''u1'', ''h1'') \<or> get False db ''e1'' o' h' = Inr None"
    using evidence_round_trip [where collected_at = None and now = 63000000000000000 and args = example_args
        and truncation = None and owner = "''u1''" and fresh = "''e1''" and db = "[]" and aware = False] by auto
  moreover have "get False db ''e1'' ''u2'' ''h1'' = Inr None" using e(4) [THEN spec, of "''u2''", THEN spec, of "''h1''"] by simp
  ultimately show ?thesis by blast
qed

subsection \<open>The hash binds every field\<close>

lemma isoformat_suffix: "\<exists>x. isoformat t = x @ ''+00:00''"
  unfolding isoformat_def Let_def by (simp split: prod.splits)

lemma serialize_inject:
  assumes "valid_utc a" and "valid_utc b" and "serialize_utc a = serialize_utc b"
  shows "a = b"
proof -
  obtain x y where x: "isoformat a = x @ ''+00:00''" and y: "isoformat b = y @ ''+00:00''"
    using isoformat_suffix by metis
  have "x = y" using assms(3) by (simp add: serialize_utc_def x y)
  then show ?thesis using isoformat_inject [OF assms(1,2)] x y by simp
qed

lemma serialize_known: "serialize_utc t \<noteq> ''unknown''"
proof
  assume "serialize_utc t = ''unknown''"
  then have "last (serialize_utc t) = last ''unknown''" by (rule arg_cong)
  then show False by (simp add: serialize_utc_def)
qed

definition event_text :: "datetime option \<Rightarrow> string" where
  "event_text v = (case v of None \<Rightarrow> ''unknown'' | Some d \<Rightarrow> serialize_utc (naive_us d))"

lemma event_text_inject:
  assumes "case v of None \<Rightarrow> True | Some d \<Rightarrow> utc_instant d" and "case w of None \<Rightarrow> True | Some d \<Rightarrow> utc_instant d"
    and "event_text v = event_text w"
  shows "v = w"
proof (cases v; cases w)
  fix d d' assume vw: "v = Some d" "w = Some d'"
  then have "naive_us d = naive_us d'"
    using assms serialize_inject [of "naive_us d" "naive_us d'"] by (simp add: event_text_def utc_instant_def)
  then show ?thesis using assms(1,2) vw by (cases d; cases d') (simp add: utc_instant_def)
qed (use assms(3) serialize_known in \<open>simp_all add: event_text_def eq_commute\<close>)

lemma opt_text_inject [simp]: "sort_keys (opt_text a) = sort_keys (opt_text b) \<longleftrightarrow> a = b"
  by (cases a; cases b) (simp_all add: opt_text_def)

lemma opt_int_inject [simp]: "sort_keys (opt_int a) = sort_keys (opt_int b) \<longleftrightarrow> a = b"
  by (cases a; cases b) (simp_all add: opt_int_def)

lemma kind_value_inject [simp]: "kind_value a = kind_value b \<longleftrightarrow> a = b"
  by (cases a; cases b) simp_all

lemma truncation_inject:
  assumes "sort_keys (truncation_json t) = sort_keys (truncation_json u)"
  shows "t = u"
proof -
  have k: "map_option sort_keys (map_of (case truncation_json t of JObj kvs \<Rightarrow> kvs) key)
      = map_option sort_keys (map_of (case truncation_json u of JObj kvs \<Rightarrow> kvs) key)" for key
    unfolding truncation_json_def json.case
    by (rule sorted_object_inject) (use assms in \<open>simp_all only: truncation_json_def\<close>, simp_all)
  show ?thesis
    using k [of "''truncated''"] k [of "''reason''"] k [of "''source_row_count''"] k [of "''retained_row_count''"]
      k [of "''source_byte_count''"] k [of "''retained_byte_count''"]
    by (cases t; cases u) (simp add: truncation_json_def)
qed

definition envelope_fields :: "'a evidence_values_scheme \<Rightarrow> json \<Rightarrow> (string \<times> json) list" where
  "envelope_fields v selected = identity_fields v (event_text (en_event_time v)) @
     [(''collected_at_utc'', JStr (event_text (Some (en_collected_at v)))), (''selected_result'', selected),
      (''truncation'', truncation_json (en_truncation v))]"

lemma sound_envelope:
  assumes "sound e"
  obtains selected where "json_value (PMap (en_selected_result e)) = Inr selected"
    and "canonical_evidence_envelope e = Inr (JObj (envelope_fields e selected))"
proof -
  obtain js where js: "json_value (PMap (en_selected_result e)) = Inr (JObj js)"
    using assms freeze_row_facts [of "en_selected_result e"] unfolding sound_def by auto
  have "timestamp_value v = Inr (event_text v)" if "case v of None \<Rightarrow> True | Some d \<Rightarrow> utc_instant d" for v
    using that by (cases v) (simp_all add: timestamp_value_def event_text_def canonical_utc_def utc_instant_fixed)
  then have "timestamp_value (en_event_time e) = Inr (event_text (en_event_time e))"
    "timestamp_value (Some (en_collected_at e)) = Inr (event_text (Some (en_collected_at e)))"
    using assms unfolding sound_def by simp_all
  then show ?thesis using that [OF js] js
    by (simp add: canonical_evidence_envelope_def envelope_fields_def del: json_value.simps)
qed

lemma envelope_fields_inject:
  assumes "sort_keys (JObj (envelope_fields a x)) = sort_keys (JObj (envelope_fields b y))"
  shows "map_option sort_keys (map_of (envelope_fields a x) k) = map_option sort_keys (map_of (envelope_fields b y) k)"
  by (rule sorted_object_inject [OF assms]) (simp_all add: envelope_fields_def identity_fields_def)

text \<open>C16. The hash binds the whole record: for two valid records the bytes that are hashed are equal
  exactly when owner, hunt, query, source, job, kind, index, sourcetype, both times, the source
  reference, the truncation metadata and the selected result (up to the order of its keys) are
  equal.  So an altered record keeps its stored hash only if SHA-256 collides on these bytes.\<close>

theorem evidence_hash_binds_fields:
  assumes "model_validate a = Inr a" and "model_validate b = Inr b"
  shows "map_sum id (\<lambda>j. encode (dumps_raw j)) (canonical_evidence_envelope a)
      = map_sum id (\<lambda>j. encode (dumps_raw j)) (canonical_evidence_envelope b) \<longleftrightarrow>
    en_owner_id a = en_owner_id b \<and> en_hunt_id a = en_hunt_id b \<and> en_query_id a = en_query_id b
    \<and> en_source_id a = en_source_id b \<and> en_splunk_job_id a = en_splunk_job_id b \<and> en_kind a = en_kind b
    \<and> en_index a = en_index b \<and> en_sourcetype a = en_sourcetype b \<and> en_event_time a = en_event_time b
    \<and> en_collected_at a = en_collected_at b \<and> en_source_event_ref a = en_source_event_ref b
    \<and> en_truncation a = en_truncation b
    \<and> map_sum id sort_keys (json_value (PMap (en_selected_result a)))
        = map_sum id sort_keys (json_value (PMap (en_selected_result b)))" (is "?bytes \<longleftrightarrow> ?fields")
proof -
  have s: "sound a" "sound b" using assms model_validate_sound by blast+
  obtain x where x: "json_value (PMap (en_selected_result a)) = Inr x"
      "canonical_evidence_envelope a = Inr (JObj (envelope_fields a x))" using sound_envelope [OF s(1)] .
  obtain y where y: "json_value (PMap (en_selected_result b)) = Inr y"
      "canonical_evidence_envelope b = Inr (JObj (envelope_fields b y))" using sound_envelope [OF s(2)] .
  have bytes: "?bytes \<longleftrightarrow> sort_keys (JObj (envelope_fields a x)) = sort_keys (JObj (envelope_fields b y))"
    unfolding x(2) y(2) map_sum.simps sum.inject using encode_inject dumps_raw_inject dumps_raw_def by metis
  show ?thesis
  proof
    assume ?bytes
    then have eq: "sort_keys (JObj (envelope_fields a x)) = sort_keys (JObj (envelope_fields b y))" unfolding bytes .
    note k = envelope_fields_inject [OF eq] and f = envelope_fields_def identity_fields_def
    have times: "en_event_time a = en_event_time b" "Some (en_collected_at a) = Some (en_collected_at b)"
      using s k [of "''event_time_utc''"] k [of "''collected_at_utc''"] unfolding sound_def
      by (intro event_text_inject; simp add: f)+
    have refs: "en_source_event_ref a = en_source_event_ref b"
      using s k [of "''source_event_ref''"] unfolding sound_def by (simp add: f)
    have "sort_keys (truncation_json (en_truncation a)) = sort_keys (truncation_json (en_truncation b))"
      "sort_keys x = sort_keys y" using k [of "''truncation''"] k [of "''selected_result''"] by (simp_all add: f)
    then have rest: "en_truncation a = en_truncation b" "sort_keys x = sort_keys y" using truncation_inject by auto
    have ids: "en_owner_id a = en_owner_id b" "en_hunt_id a = en_hunt_id b" "en_query_id a = en_query_id b"
        "en_source_id a = en_source_id b" "en_splunk_job_id a = en_splunk_job_id b" "en_kind a = en_kind b"
        "en_index a = en_index b" "en_sourcetype a = en_sourcetype b"
      using k [of "''owner_id''"] k [of "''hunt_id''"] k [of "''query_id''"] k [of "''source_id''"]
        k [of "''splunk_job_id''"] k [of "''evidence_kind''"] k [of "''index''"] k [of "''sourcetype''"]
      by (simp_all add: f)
    show ?fields unfolding x(1) y(1) map_sum.simps using times refs rest ids by simp
  next
    assume ?fields
    then have "map (\<lambda>kv. (fst kv, sort_keys (snd kv))) (envelope_fields a x)
        = map (\<lambda>kv. (fst kv, sort_keys (snd kv))) (envelope_fields b y)"
      unfolding x(1) y(1) map_sum.simps sum.inject envelope_fields_def identity_fields_def by simp
    then show ?bytes unfolding bytes sort_keys.simps by simp
  qed
qed

theorem evidence_hash_binds_fields_witness:
  "\<exists>a. model_validate a = Inr a
     \<and> map_sum id (\<lambda>j. encode (dumps_raw j)) (canonical_evidence_envelope a)
       = map_sum id (\<lambda>j. encode (dumps_raw j)) (canonical_evidence_envelope (a\<lparr>ne_dedupe_key := None\<rparr>))"
proof (rule example_built)
  fix e key assume e: "sound e"
  then have v: "model_validate e = Inr e" "model_validate (e\<lparr>ne_dedupe_key := None\<rparr>) = Inr (e\<lparr>ne_dedupe_key := None\<rparr>)"
    using sound_ignores_key by (simp_all add: sound_validates)
  show ?thesis using evidence_hash_binds_fields [OF v] v(1) by (intro exI [of _ e]) simp
qed

subsection \<open>The repository as a map\<close>

text \<open>The abstract specification: a partial map from owner, hunt and replay key to records, in which
  the first record under a key stays.\<close>

type_synonym evidence_key = "uuid \<times> uuid \<times> string"

definition remember ::
  "(evidence_key \<Rightarrow> NormalizedEvidence option) \<Rightarrow> evidence_key \<Rightarrow> NormalizedEvidence
    \<Rightarrow> (evidence_key \<Rightarrow> NormalizedEvidence option) \<times> NormalizedEvidence" where
  "remember m k e = (case m k of None \<Rightarrow> (m(k \<mapsto> e), e) | Some old \<Rightarrow> (m, old))"

definition row_key :: "evidence_row \<Rightarrow> evidence_key" where
  "row_key r = (row_owner_id r, row_hunt_id r, row_dedupe_key r)"

definition evidence_map :: "bool \<Rightarrow> evidence_row list \<Rightarrow> evidence_key \<Rightarrow> NormalizedEvidence option" where
  "evidence_map aware db k =
     (case find (\<lambda>r. row_key r = k) db of
        None \<Rightarrow> None
      | Some r \<Rightarrow> (case from_row aware r of Inr e \<Rightarrow> Some e | Inl _ \<Rightarrow> None))"

lemma same_source_key: "same_source row = (\<lambda>r. row_key r = row_key row)"
  by (auto simp: same_source_def row_key_def)

lemma store_row_loads:
  assumes "store_ok db" and "r \<in> set db"
  shows "\<exists>e. from_row aware r = Inr e"
proof -
  obtain e where "from_row True r = Inr e" "from_row False r = Inr e"
    using assms unfolding store_ok_def list_all_iff by blast
  then show ?thesis by (cases aware) simp_all
qed

text \<open>C15. The repository refines the map: on every store the saves can reach, saving a built record
  with an unused identifier succeeds, and the new table and the value returned are those of the
  abstract operation, so the first record under a replay key is kept and returned to later saves.\<close>

theorem evidence_store_refines_map:
  assumes "run_steps (save_step aware) [] es = Inr db" and "\<And>e. e \<in> set es \<Longrightarrow> model_validate e = Inr e"
    and "model_validate e = Inr e" and "en_owner_id e = Some owner"
    and "evidence_dedupe_key e = Inr key" and "ne_dedupe_key e = Some key"
    and "ne_evidence_id e \<notin> row_evidence_id ` set db"
  shows "\<exists>db' r. save aware db e = Inr (db', r)
    \<and> (evidence_map aware db', r) = remember (evidence_map aware db) (owner, en_hunt_id e, key) e"
proof -
  have "store_ok []" by (simp add: store_ok_def)
  then have ok: "store_ok db" using evidence_store.run_inv [OF _ assms(2,1)] by blast
  have s: "sound e" using model_validate_sound [OF assms(3)] .
  obtain row where row: "evidence_to_row owner e = Inr row" "from_row aware row = Inr (e\<lparr>ne_dedupe_key := Some (row_dedupe_key row)\<rparr>)"
      "row_evidence_id row = ne_evidence_id e" "row_owner_id row = owner" "row_hunt_id row = en_hunt_id e" "row_dedupe_key row = key"
    using sound_row [OF s assms(4), of aware] assms(5) by auto
  have loaded: "from_row aware row = Inr e" using row(2) assms(6) unfolding row(6) by simp
  have rk: "row_key row = (owner, en_hunt_id e, key)" unfolding row_key_def row(4-6) ..
  have v: "verify_evidence_integrity e = Inr True" using sound_verifies [OF s] .
  show ?thesis
  proof (cases "find (\<lambda>r. row_key r = row_key row) db")
    case (Some old)
    then have "old \<in> set db" by (auto simp: find_Some_iff)
    then obtain x where x: "from_row aware old = Inr x" using store_row_loads [OF ok] by blast
    have "save aware db e = Inr (db, x)" by (simp add: save_def assms(4) v row(1) same_source_key Some x)
    moreover have "evidence_map aware db (owner, en_hunt_id e, key) = Some x"
      using Some x by (simp add: evidence_map_def rk)
    ultimately show ?thesis by (simp add: remember_def)
  next
    case None
    then have ins: "insert_row db row = Inr (db @ [row])"
      using assms(7) row(3) by (auto simp: insert_row_def same_source_key find_None_iff list_ex_iff)
    have "save aware db e = Inr (db @ [row], e)" by (simp add: save_def assms(4) v row(1) same_source_key None ins)
    moreover have "evidence_map aware db (row_key row) = None" using None by (simp add: evidence_map_def)
    moreover have "evidence_map aware (db @ [row]) = (evidence_map aware db)(row_key row \<mapsto> e)"
    proof
      fix k show "evidence_map aware (db @ [row]) k = ((evidence_map aware db)(row_key row \<mapsto> e)) k"
        using None loaded by (cases "find (\<lambda>r. row_key r = k) db") (auto simp: evidence_map_def find_fresh [OF ins])
    qed
    ultimately show ?thesis by (simp add: remember_def rk)
  qed
qed

theorem evidence_store_refines_map_witness:
  "\<exists>e key db. save False [] e = Inr (db, e) \<and> evidence_map False db (''u1'', ''h1'', key) = Some e"
proof (rule example_built)
  fix e key assume e: "sound e" "en_owner_id e = Some ''u1''" "en_hunt_id e = ''h1''"
    and k: "ne_dedupe_key e = Some key" "evidence_dedupe_key e = Inr key"
  have "run_steps (save_step False) [] [] = Inr []" by simp
  from evidence_store_refines_map [OF this _ sound_validates [OF e(1)] e(2) k(2,1)]
  obtain db r where r: "save False [] e = Inr (db, r)"
      "(evidence_map False db, r) = remember (evidence_map False []) (''u1'', ''h1'', key) e" using e(3) by auto
  have "evidence_map False [] k = None" for k by (simp add: evidence_map_def)
  then have "r = e" "evidence_map False db (''u1'', ''h1'', key) = Some e" using r(2) by (simp_all add: remember_def)
  then show ?thesis using r(1) by blast
qed

end
