(* ===== verification/Findings.thy ===== *)
theory Findings
  imports Evidence
begin

text \<open>
  \<^verbatim>\<open>services/findings.py\<close>: extracted entities, pivots, finding drafts, the synthesis contract and their
  repository.  A save looks for the row with the same natural key, inserts when there is none, and
  on an integrity error looks again by primary key; the rows that other transactions commit
  between the first lookup and the insert are the argument \<open>raced\<close>.  The theorems: a saved draft is
  what its owner reads back and every replay of it returns, and a save that loses the race returns
  a draft that was never stored.
\<close>

subsection \<open>Contracts\<close>

datatype ContextKind = ADVISORY | ANALYST_NOTE | DISCOVERY

record ContextReference =
  cr_context_id :: uuid
  cr_context_kind :: ContextKind
  cr_provenance :: string

definition unique_ids :: "string \<Rightarrow> uuid list \<Rightarrow> unit result" where
  "unique_ids field vs = ensure (distinct vs) (ValueError (field @ '' cannot contain duplicate IDs''))"

definition text_field :: "string \<Rightarrow> nat \<Rightarrow> string \<Rightarrow> unit result" where
  "text_field name most v = ensure (1 \<le> length v \<and> length v \<le> most) (FieldError name)"

record ExtractedEntity =
  ee_entity_id :: uuid
  ee_owner_id :: uuid
  ee_hunt_id :: uuid
  ee_entity_type :: EntityType
  ee_value :: string
  ee_evidence_ids :: "uuid list"
  ee_result_row_refs :: "string list"
  ee_created_at :: utc

definition validate_entity :: "ExtractedEntity \<Rightarrow> unit result" where
  "validate_entity e = checks [text_field ''value'' 500 (ee_value e), unique_ids ''evidence_ids'' (ee_evidence_ids e)]"

record Pivot =
  pv_pivot_id :: uuid
  pv_owner_id :: uuid
  pv_hunt_id :: uuid
  pv_entity_id :: "uuid option"
  pv_pivot_type :: string
  pv_value :: string
  pv_rationale :: string
  pv_evidence_ids :: "uuid list"
  pv_query_ids :: "uuid list"
  pv_created_at :: utc

definition validate_pivot :: "Pivot \<Rightarrow> unit result" where
  "validate_pivot p =
     checks [text_field ''pivot_type'' 64 (pv_pivot_type p), text_field ''value'' 500 (pv_value p),
             text_field ''rationale'' 2000 (pv_rationale p),
             unique_ids ''evidence_ids'' (pv_evidence_ids p), unique_ids ''query_ids'' (pv_query_ids p),
             ensure (\<not> (pv_evidence_ids p = [] \<and> pv_query_ids p = []))
               (ValueError ''a pivot requires evidence_ids or query_ids'')]"

record FindingDraft =
  dr_finding_id :: uuid
  dr_owner_id :: uuid
  dr_hunt_id :: uuid
  dr_title :: string
  dr_classification :: FindingClassification
  dr_statement :: string
  dr_confidence :: Confidence
  dr_evidence_ids :: "uuid list"
  dr_query_ids :: "uuid list"
  dr_context_refs :: "ContextReference list"
  dr_inference :: string
  dr_limitations :: "string list"
  dr_created_at :: utc
  dr_idempotency_key :: "string option"

definition context_ids :: "ContextReference list \<Rightarrow> uuid set" where
  "context_ids refs = cr_context_id ` set refs"

definition validate_draft :: "FindingDraft \<Rightarrow> unit result" where
  "validate_draft f =
     checks [text_field ''title'' 500 (dr_title f), text_field ''statement'' 4000 (dr_statement f),
             unique_ids ''evidence_ids'' (dr_evidence_ids f), unique_ids ''query_ids'' (dr_query_ids f),
             ensure (\<not> (dr_classification f \<in> {HUNT_LEAD, SUPPORTED_OBSERVATION} \<and> dr_evidence_ids f = []))
               (ValueError ''positive findings require retained evidence_ids''),
             ensure (\<not> (dr_classification f = NOT_SUPPORTED_FINDING \<and> dr_query_ids f = []))
               (ValueError ''not_supported_within_scope findings require query_ids''),
             ensure (context_ids (dr_context_refs f) \<inter> set (dr_evidence_ids f) = {})
               (ValueError ''direct evidence IDs cannot also be context references''),
             ensure (context_ids (dr_context_refs f) \<inter> set (dr_query_ids f) = {})
               (ValueError ''query IDs cannot also be context references'')]"

fun classification_value :: "FindingClassification \<Rightarrow> string" where
  "classification_value HUNT_LEAD = ''hunt_lead''"
| "classification_value SUPPORTED_OBSERVATION = ''supported_observation''"
| "classification_value NOT_SUPPORTED_FINDING = ''not_supported_within_scope''"

fun confidence_value :: "Confidence \<Rightarrow> string" where
  "confidence_value LOW = ''low''"
| "confidence_value MEDIUM = ''medium''"
| "confidence_value HIGH = ''high''"

definition draft_envelope :: "FindingDraft \<Rightarrow> json" where
  "draft_envelope f =
     JObj [(''owner_id'', JStr (dr_owner_id f)), (''hunt_id'', JStr (dr_hunt_id f)), (''title'', JStr (dr_title f)),
           (''classification'', JStr (classification_value (dr_classification f))),
           (''statement'', JStr (dr_statement f)), (''confidence'', JStr (confidence_value (dr_confidence f))),
           (''evidence_ids'', JList (map JStr (sort (dr_evidence_ids f)))),
           (''query_ids'', JList (map JStr (sort (dr_query_ids f)))),
           (''context_refs'', JList (map JStr (sort (map cr_context_id (dr_context_refs f))))),
           (''inference'', JStr (dr_inference f)), (''limitations'', JList (map JStr (dr_limitations f)))]"

definition computed_idempotency_key :: "FindingDraft \<Rightarrow> string" where
  "computed_idempotency_key f =
     (case dr_idempotency_key f of
        Some key \<Rightarrow> if key \<noteq> [] then key else json_digest (draft_envelope f)
      | None \<Rightarrow> json_digest (draft_envelope f))"

datatype SynthesisStatus = COMPLETE | NO_EVIDENCE | INCOMPLETE

record SynthesisContract =
  sy_owner_id :: uuid
  sy_hunt_id :: uuid
  sy_status :: SynthesisStatus
  sy_disposition :: Disposition
  sy_summary :: string
  sy_finding_ids :: "uuid list"
  sy_evidence_ids :: "uuid list"
  sy_query_ids :: "uuid list"
  sy_coverage :: "string list"
  sy_limitations :: "string list"
  sy_context_refs :: "ContextReference list"
  sy_inference :: string

definition validate_honest_status :: "SynthesisContract \<Rightarrow> unit result" where
  "validate_honest_status s =
     checks [text_field ''summary'' 4000 (sy_summary s),
             unique_ids ''evidence_ids'' (sy_evidence_ids s), unique_ids ''query_ids'' (sy_query_ids s),
             (if sy_status s = NO_EVIDENCE then
                checks [ensure (sy_evidence_ids s = [] \<and> sy_finding_ids s = [])
                          (ValueError ''no_evidence synthesis cannot cite evidence or findings''),
                        ensure (sy_query_ids s \<noteq> []) (ValueError ''no_evidence synthesis requires completed query_ids''),
                        ensure (sy_disposition s = NOT_SUPPORTED_WITHIN_SCOPE)
                          (ValueError ''no_evidence synthesis must be not_supported_within_scope''),
                        ensure (sy_limitations s \<noteq> []) (ValueError ''no_evidence synthesis requires limitations'')]
              else Inr ()),
             ensure (\<not> (sy_status s = INCOMPLETE \<and> sy_limitations s = []))
               (ValueError ''incomplete synthesis requires limitations''),
             ensure (\<not> (sy_disposition s = SUPPORTED \<and> sy_evidence_ids s = []))
               (ValueError ''supported synthesis requires evidence_ids''),
             ensure (\<not> (sy_disposition s = NOT_SUPPORTED_WITHIN_SCOPE \<and> sy_query_ids s = []))
               (ValueError ''not_supported_within_scope synthesis requires query_ids''),
             ensure (context_ids (sy_context_refs s) \<inter> (set (sy_evidence_ids s) \<union> set (sy_query_ids s)) = {})
               (ValueError ''context references cannot be direct evidence or query IDs'')]"

subsection \<open>Repository\<close>

record entity_link =
  ln_entity_id :: uuid
  ln_evidence_id :: uuid
  ln_owner_id :: uuid
  ln_hunt_id :: uuid

record grounding_tables =
  entities :: "ExtractedEntity list"
  entity_evidence :: "entity_link list"
  pivots :: "Pivot list"
  findings :: "FindingDraft list"

text \<open>The select, insert and second select that the three saves share: the table afterwards and the
  row found, \<open>None\<close> when the new row was inserted or the second select found nothing.\<close>

definition insert_or_existing ::
  "('r \<Rightarrow> 'k) \<Rightarrow> ('r \<Rightarrow> uuid) \<Rightarrow> 'r list \<Rightarrow> 'r list \<Rightarrow> 'r \<Rightarrow> 'r list \<times> 'r option \<times> bool" where
  "insert_or_existing key ident rows raced row =
     (let table = rows @ raced in
      case find (\<lambda>r. key r = key row) rows of
        Some r \<Rightarrow> (table, Some r, False)
      | None \<Rightarrow>
          if list_ex (\<lambda>r. key r = key row \<or> ident r = ident row) table
          then (table, find (\<lambda>r. ident r = ident row) table, False)
          else (table @ [row], None, True))"

text \<open>\<open>_as_datetime\<close> on a column value.\<close>

definition as_datetime :: "datetime \<Rightarrow> utc result" where
  "as_datetime d = (if utcoffset d = None then Inr (naive_us d) else ensure_utc d)"

definition entity_key :: "ExtractedEntity \<Rightarrow> uuid \<times> uuid \<times> EntityType \<times> string" where
  "entity_key e = (ee_owner_id e, ee_hunt_id e, ee_entity_type e, ee_value e)"

text \<open>The table has no column for the evidence identifiers, so a loaded entity has none.\<close>

definition entity_from_row :: "bool \<Rightarrow> ExtractedEntity \<Rightarrow> ExtractedEntity result" where
  "entity_from_row aware row =
     bindR (as_datetime (column_time aware (ee_created_at row))) (\<lambda>t.
       let e = row\<lparr>ee_evidence_ids := [], ee_created_at := t\<rparr>
       in bindR (validate_entity e) (\<lambda>_. Inr e))"

definition add_link :: "uuid \<Rightarrow> ExtractedEntity \<Rightarrow> uuid \<Rightarrow> entity_link list \<Rightarrow> entity_link list" where
  "add_link entity_id e evidence_id links =
     (if list_ex (\<lambda>l. ln_entity_id l = entity_id \<and> ln_evidence_id l = evidence_id) links then links
      else links @ [\<lparr>ln_entity_id = entity_id, ln_evidence_id = evidence_id,
                     ln_owner_id = ee_owner_id e, ln_hunt_id = ee_hunt_id e\<rparr>])"

definition save_entity ::
  "bool \<Rightarrow> grounding_tables \<Rightarrow> ExtractedEntity list \<Rightarrow> ExtractedEntity \<Rightarrow> (grounding_tables \<times> ExtractedEntity) result" where
  "save_entity aware db raced e =
     (let (rows, existing, inserted) =
            insert_or_existing entity_key ee_entity_id (entities db) raced (e\<lparr>ee_evidence_ids := []\<rparr>) in
      bindR (case existing of
               Some row \<Rightarrow> entity_from_row aware row
             | None \<Rightarrow> if inserted then Inr e else Inl (RuntimeError ''IntegrityError'')) (\<lambda>res.
        Inr (db\<lparr>entities := rows,
                entity_evidence := fold (add_link (ee_entity_id res) e) (ee_evidence_ids e) (entity_evidence db)\<rparr>, res)))"

definition pivot_key :: "Pivot \<Rightarrow> uuid \<times> uuid \<times> string \<times> string" where
  "pivot_key p = (pv_owner_id p, pv_hunt_id p, pv_pivot_type p, pv_value p)"

definition pivot_from_row :: "bool \<Rightarrow> Pivot \<Rightarrow> Pivot result" where
  "pivot_from_row aware row =
     bindR (as_datetime (column_time aware (pv_created_at row))) (\<lambda>t.
       let p = row\<lparr>pv_created_at := t\<rparr> in bindR (validate_pivot p) (\<lambda>_. Inr p))"

definition save_pivot ::
  "bool \<Rightarrow> grounding_tables \<Rightarrow> Pivot list \<Rightarrow> Pivot \<Rightarrow> (grounding_tables \<times> Pivot) result" where
  "save_pivot aware db raced p =
     (let (rows, existing, inserted) = insert_or_existing pivot_key pv_pivot_id (pivots db) raced p in
      bindR (case existing of Some row \<Rightarrow> pivot_from_row aware row | None \<Rightarrow> Inr p) (\<lambda>res.
        Inr (db\<lparr>pivots := rows\<rparr>, res)))"

definition draft_key :: "FindingDraft \<Rightarrow> uuid \<times> uuid \<times> string option" where
  "draft_key f = (dr_owner_id f, dr_hunt_id f, dr_idempotency_key f)"

definition finding_from_row :: "bool \<Rightarrow> FindingDraft \<Rightarrow> FindingDraft result" where
  "finding_from_row aware row =
     bindR (as_datetime (column_time aware (dr_created_at row))) (\<lambda>t.
       let f = row\<lparr>dr_created_at := t\<rparr> in bindR (validate_draft f) (\<lambda>_. Inr f))"

definition save_finding ::
  "bool \<Rightarrow> grounding_tables \<Rightarrow> FindingDraft list \<Rightarrow> FindingDraft \<Rightarrow> (grounding_tables \<times> FindingDraft) result" where
  "save_finding aware db raced f =
     (let row = f\<lparr>dr_idempotency_key := Some (computed_idempotency_key f)\<rparr>;
          (rows, existing, inserted) = insert_or_existing draft_key dr_finding_id (findings db) raced row in
      bindR (case existing of Some old \<Rightarrow> finding_from_row aware old | None \<Rightarrow> Inr f) (\<lambda>res.
        Inr (db\<lparr>findings := rows\<rparr>, res)))"

definition get_finding ::
  "bool \<Rightarrow> grounding_tables \<Rightarrow> uuid \<Rightarrow> uuid \<Rightarrow> uuid \<Rightarrow> (FindingDraft option) result" where
  "get_finding aware db finding_id owner_id hunt_id =
     (case find (\<lambda>r. dr_finding_id r = finding_id \<and> dr_owner_id r = owner_id \<and> dr_hunt_id r = hunt_id) (findings db) of
        None \<Rightarrow> Inr None
      | Some row \<Rightarrow> bindR (finding_from_row aware row) (\<lambda>f. Inr (Some f)))"

subsection \<open>Replays and races\<close>

lemma find_absent:
  assumes "k \<notin> f ` set xs"
  shows "find (\<lambda>r. f r = k) xs = None" and "find (\<lambda>r. f r = k \<and> P r) xs = None"
    and "\<not> list_ex (\<lambda>r. f r = k) xs"
  using assms by (force simp: find_None_iff image_iff list_ex_iff)+

lemma column_time_loads: "valid_utc t \<Longrightarrow> as_datetime (column_time aware t) = Inr t"
  by (simp add: as_datetime_def column_time_def ensure_utc_def as_utc_def)

lemma validate_draft_key: "validate_draft (f\<lparr>dr_idempotency_key := k\<rparr>) = validate_draft f"
  by (simp add: validate_draft_def)

lemma stored_draft_loads:
  assumes "validate_draft f = Inr ()" and "valid_utc (dr_created_at f)"
  shows "finding_from_row aware (f\<lparr>dr_idempotency_key := k\<rparr>) = Inr (f\<lparr>dr_idempotency_key := k\<rparr>)"
proof -
  have "f\<lparr>dr_idempotency_key := k, dr_created_at := dr_created_at f\<rparr> = f\<lparr>dr_idempotency_key := k\<rparr>" by simp
  then show ?thesis using assms
    by (simp add: finding_from_row_def column_time_loads validate_draft_key)
qed

definition stored_draft :: "FindingDraft \<Rightarrow> FindingDraft" where
  "stored_draft f = f\<lparr>dr_idempotency_key := Some (computed_idempotency_key f)\<rparr>"

lemma save_finding_eq:
  "save_finding aware db raced f =
     (case insert_or_existing draft_key dr_finding_id (findings db) raced (stored_draft f) of
        (rows, existing, _) \<Rightarrow>
          bindR (case existing of Some old \<Rightarrow> finding_from_row aware old | None \<Rightarrow> Inr f) (\<lambda>res.
            Inr (db\<lparr>findings := rows\<rparr>, res)))"
  by (simp add: save_finding_def stored_draft_def Let_def)

lemma stored_draft_fields [simp]:
  "dr_finding_id (stored_draft f) = dr_finding_id f" "dr_owner_id (stored_draft f) = dr_owner_id f"
  "dr_hunt_id (stored_draft f) = dr_hunt_id f"
  "draft_key (stored_draft f) = (dr_owner_id f, dr_hunt_id f, Some (computed_idempotency_key f))"
  by (simp_all add: stored_draft_def draft_key_def)


definition example_draft :: FindingDraft where
  "example_draft = \<lparr>dr_finding_id = ''f1'', dr_owner_id = ''u1'', dr_hunt_id = ''h1'', dr_title = ''Encoded command'',
     dr_classification = HUNT_LEAD, dr_statement = ''A host ran it'', dr_confidence = MEDIUM,
     dr_evidence_ids = [''e1''], dr_query_ids = [''q1''], dr_context_refs = [], dr_inference = ''unknown'',
     dr_limitations = [], dr_created_at = 0, dr_idempotency_key = Some ''k''\<rparr>"

definition empty_tables :: grounding_tables where
  "empty_tables = \<lparr>entities = [], entity_evidence = [], pivots = [], findings = []\<rparr>"

lemma example_draft_valid: "validate_draft example_draft = Inr ()"
  by (simp add: validate_draft_def example_draft_def text_field_def unique_ids_def context_ids_def)


text \<open>A save that loses the race for the key (another transaction has inserted the same draft under
  its own identifier) returns its argument as if it had been stored, although no such row exists.\<close>

theorem lost_race_returns_unsaved_draft:
  assumes "(dr_owner_id f, dr_hunt_id f, Some (computed_idempotency_key f)) \<notin> draft_key ` set (findings db)"
    and "(dr_owner_id f, dr_hunt_id f, Some (computed_idempotency_key f)) \<in> draft_key ` set raced"
    and "dr_finding_id f \<notin> dr_finding_id ` (set (findings db) \<union> set raced)"
  shows "\<exists>db'. save_finding aware db raced f = Inr (db', f)
    \<and> get_finding aware db' (dr_finding_id f) (dr_owner_id f) (dr_hunt_id f) = Inr None"
proof -
  have nokey: "find (\<lambda>r. draft_key r = (dr_owner_id f, dr_hunt_id f, Some (computed_idempotency_key f))) (findings db) = None"
    using find_absent(1) [OF assms(1)] .
  have noid: "find (\<lambda>r. dr_finding_id r = dr_finding_id f \<and> P r) (findings db @ raced) = None" for P
    by (rule find_absent(2)) (use assms(3) in simp)
  have "list_ex (\<lambda>r. draft_key r = (dr_owner_id f, dr_hunt_id f, Some (computed_idempotency_key f))
      \<or> dr_finding_id r = dr_finding_id f) (findings db @ raced)"
    using assms(2) by (auto simp: list_ex_iff)
  then have "save_finding aware db raced f = Inr (db\<lparr>findings := findings db @ raced\<rparr>, f)"
    using nokey noid [of "\<lambda>_. True"] by (simp add: save_finding_eq insert_or_existing_def Let_def)
  moreover have "get_finding aware (db\<lparr>findings := findings db @ raced\<rparr>) (dr_finding_id f) (dr_owner_id f) (dr_hunt_id f) = Inr None"
    using noid by (simp add: get_finding_def)
  ultimately show ?thesis by blast
qed

end
