(* ===== verification/Citations.thy ===== *)
theory Citations
  imports Findings "HOL-Library.Sublist"
begin

text \<open>
  \<^verbatim>\<open>services/citations.py\<close>: owner-scoped validation of the citations of findings, stop decisions,
  syntheses and reports.  The lookups are functions from identifiers to typed records (evidence
  records of \<open>Evidence\<close>, ledger views of queries), so the conversions \<open>_lookup\<close>, \<open>_attr\<close> and \<open>_uuid\<close> are
  the identity and a missing lineage query cannot occur.  A validation returns the list of issues;
  the theorems say exactly what an empty list means.
\<close>

subsection \<open>Records\<close>

record QueryCitationRecord =
  qc_query_id :: uuid
  qc_owner_id :: uuid
  qc_hunt_id :: uuid
  qc_status :: string
  qc_outcome :: "string option"
  qc_truncated :: bool
  qc_partial_fetch :: bool

definition successful :: "string option \<Rightarrow> bool" where
  "successful outcome = (case outcome of None \<Rightarrow> True | Some s \<Rightarrow> lower s \<in> {''success'', ''succeeded''})"

definition completed :: "QueryCitationRecord \<Rightarrow> bool" where
  "completed q \<longleftrightarrow> successful (qc_outcome q) \<and> lower (qc_status q) \<in> {''completed'', ''succeeded'', ''success''}"

record CitationValidationResult =
  cv_valid :: bool
  cv_issues :: "string list"
  cv_evidence_ids :: "uuid list"
  cv_query_ids :: "uuid list"

definition validate_result :: "CitationValidationResult \<Rightarrow> CitationValidationResult result" where
  "validate_result r =
     bindR (checks [ensure (\<not> (cv_valid r \<and> cv_issues r \<noteq> [])) (ValueError ''a valid citation result cannot contain issues''),
                    ensure (\<not> (\<not> cv_valid r \<and> cv_issues r = [])) (ValueError ''an invalid citation result requires issues'')])
       (\<lambda>_. Inr r)"

subsection \<open>The shared checks\<close>

fun dedupe_from :: "uuid list \<Rightarrow> uuid list \<Rightarrow> uuid list \<times> string list" where
  "dedupe_from seen [] = ([], [])"
| "dedupe_from seen (v # vs) =
     (if v \<in> set seen
      then (let (unique, issues) = dedupe_from seen vs in (unique, (''duplicate_citation:'' @ v) # issues))
      else (let (unique, issues) = dedupe_from (v # seen) vs in (v # unique, issues)))"

definition dedupe :: "uuid list \<Rightarrow> uuid list \<times> string list" where
  "dedupe vs = dedupe_from [] vs"

definition issue_if :: "bool \<Rightarrow> string \<Rightarrow> string list" where
  "issue_if b s = (if b then [s] else [])"

record check_state =
  ck_issues :: "string list"
  ck_queries :: "uuid list"
  ck_truncated :: bool

definition check_evidence ::
  "(uuid \<Rightarrow> NormalizedEvidence option) \<Rightarrow> uuid \<Rightarrow> uuid \<Rightarrow> check_state \<Rightarrow> uuid \<Rightarrow> check_state result" where
  "check_evidence evidence_lookup owner_id hunt_id st evidence_id =
     (case evidence_lookup evidence_id of
        None \<Rightarrow> Inr (st\<lparr>ck_issues := ck_issues st @ [''evidence_not_found:'' @ evidence_id]\<rparr>)
      | Some e \<Rightarrow>
          bindR (verify_evidence_integrity e) (\<lambda>intact.
            Inr \<lparr>ck_issues = ck_issues st
                   @ issue_if (en_owner_id e \<noteq> Some owner_id) (''evidence_owner_mismatch:'' @ evidence_id)
                   @ issue_if (en_hunt_id e \<noteq> hunt_id) (''evidence_hunt_mismatch:'' @ evidence_id)
                   @ issue_if (\<not> intact) (''evidence_integrity_mismatch:'' @ evidence_id),
                 ck_queries = (if en_query_id e \<in> set (ck_queries st) then ck_queries st
                               else ck_queries st @ [en_query_id e]),
                 ck_truncated = (ck_truncated st \<or> tm_truncated (en_truncation e))\<rparr>))"

definition check_query ::
  "(uuid \<Rightarrow> QueryCitationRecord option) \<Rightarrow> uuid \<Rightarrow> uuid \<Rightarrow> bool \<Rightarrow> uuid \<Rightarrow> string list" where
  "check_query query_lookup owner_id hunt_id require_query query_id =
     (case query_lookup query_id of
        None \<Rightarrow> [''query_not_found:'' @ query_id]
      | Some q \<Rightarrow>
          issue_if (qc_owner_id q \<noteq> owner_id) (''query_owner_mismatch:'' @ query_id)
          @ issue_if (qc_hunt_id q \<noteq> hunt_id) (''query_hunt_mismatch:'' @ query_id)
          @ issue_if (\<not> completed q) (''query_not_completed:'' @ query_id)
          @ issue_if (require_query \<and> (qc_truncated q \<or> qc_partial_fetch q)) (''query_coverage_incomplete:'' @ query_id))"

record citation_lookups =
  evidence_lookup :: "uuid \<Rightarrow> NormalizedEvidence option"
  query_lookup :: "uuid \<Rightarrow> QueryCitationRecord option"

record citation_request =
  rq_evidence_ids :: "uuid list"
  rq_query_ids :: "uuid list"
  rq_owner_id :: uuid
  rq_hunt_id :: uuid
  rq_require_evidence :: bool
  rq_require_query :: bool
  rq_reject_evidence :: bool
  rq_limitations :: "string list"

definition discloses_truncation :: "string list \<Rightarrow> bool" where
  "discloses_truncation limitations \<longleftrightarrow> list_ex (\<lambda>v. sublist ''trunc'' (lower v)) limitations"

definition base_checks :: "citation_lookups \<Rightarrow> citation_request \<Rightarrow> CitationValidationResult result" where
  "base_checks src rq =
     (let (unique_evidence, duplicate_evidence) = dedupe (rq_evidence_ids rq);
          (unique_queries, duplicate_queries) = dedupe (rq_query_ids rq);
          issues = duplicate_evidence @ duplicate_queries
            @ issue_if (rq_require_evidence rq \<and> unique_evidence = []) ''evidence_required''
            @ issue_if (rq_require_query rq \<and> unique_queries = []) ''completed_query_required''
            @ issue_if (rq_reject_evidence rq \<and> unique_evidence \<noteq> []) ''evidence_not_allowed_for_query_grounded_claim''
      in bindR (run_steps (check_evidence (evidence_lookup src) (rq_owner_id rq) (rq_hunt_id rq))
                  \<lparr>ck_issues = issues, ck_queries = unique_queries, ck_truncated = False\<rparr> unique_evidence) (\<lambda>st.
           let issues = fromkeys (ck_issues st
                 @ issue_if (ck_truncated st \<and> \<not> discloses_truncation (rq_limitations rq)) ''truncation_not_disclosed''
                 @ concat (map (check_query (query_lookup src) (rq_owner_id rq) (rq_hunt_id rq) (rq_require_query rq)) (ck_queries st)))
           in validate_result \<lparr>cv_valid = (issues = []), cv_issues = issues, cv_evidence_ids = unique_evidence,
                cv_query_ids = ck_queries st\<rparr>))"

text \<open>The common end of \<open>validate_finding\<close> and \<open>validate_synthesis\<close>.\<close>

definition with_issue :: "bool \<Rightarrow> string \<Rightarrow> CitationValidationResult \<Rightarrow> CitationValidationResult result" where
  "with_issue b s r =
     (let issues = cv_issues r @ issue_if b s in
      if issues \<noteq> [] then
        validate_result \<lparr>cv_valid = False, cv_issues = fromkeys issues, cv_evidence_ids = cv_evidence_ids r,
          cv_query_ids = cv_query_ids r\<rparr>
      else Inr r)"

subsection \<open>The validators\<close>

definition finding_request :: "FindingDraft \<Rightarrow> uuid \<Rightarrow> uuid \<Rightarrow> citation_request" where
  "finding_request f owner hunt =
     \<lparr>rq_evidence_ids = dr_evidence_ids f, rq_query_ids = dr_query_ids f, rq_owner_id = owner, rq_hunt_id = hunt,
      rq_require_evidence = (dr_classification f \<in> {HUNT_LEAD, SUPPORTED_OBSERVATION}),
      rq_require_query = (dr_classification f = NOT_SUPPORTED_FINDING),
      rq_reject_evidence = (dr_classification f = NOT_SUPPORTED_FINDING), rq_limitations = dr_limitations f\<rparr>"

definition validate_finding ::
  "citation_lookups \<Rightarrow> FindingDraft \<Rightarrow> uuid option \<Rightarrow> uuid option \<Rightarrow> CitationValidationResult result" where
  "validate_finding src f owner_id hunt_id =
     (let owner = (case owner_id of Some o' \<Rightarrow> o' | None \<Rightarrow> dr_owner_id f);
          hunt = (case hunt_id of Some h \<Rightarrow> h | None \<Rightarrow> dr_hunt_id f)
      in bindR (base_checks src (finding_request f owner hunt)) (\<lambda>r.
           with_issue (context_ids (dr_context_refs f) \<inter> (set (cv_evidence_ids r) \<union> set (cv_query_ids r)) \<noteq> {})
             ''evidence_context_inseparable'' r))"

definition by_disposition ::
  "Disposition \<Rightarrow> uuid list \<Rightarrow> uuid list \<Rightarrow> uuid \<Rightarrow> uuid \<Rightarrow> bool \<Rightarrow> string list \<Rightarrow> citation_request" where
  "by_disposition d evidence_ids query_ids owner hunt reject limitations =
     \<lparr>rq_evidence_ids = evidence_ids, rq_query_ids = query_ids, rq_owner_id = owner, rq_hunt_id = hunt,
      rq_require_evidence = (d = SUPPORTED), rq_require_query = (d = NOT_SUPPORTED_WITHIN_SCOPE),
      rq_reject_evidence = reject, rq_limitations = limitations\<rparr>"

definition validate_stop_decision ::
  "citation_lookups \<Rightarrow> StopDecision \<Rightarrow> uuid \<Rightarrow> uuid \<Rightarrow> CitationValidationResult result" where
  "validate_stop_decision src d owner_id hunt_id =
     base_checks src (by_disposition (sd_disposition d) (sd_evidence_ids d) (sd_query_ids d) owner_id hunt_id
       (sd_disposition d = NOT_SUPPORTED_WITHIN_SCOPE) (sd_limitations d))"

definition validate_synthesis :: "citation_lookups \<Rightarrow> SynthesisContract \<Rightarrow> CitationValidationResult result" where
  "validate_synthesis src s =
     bindR (base_checks src (by_disposition (sy_disposition s) (sy_evidence_ids s) (sy_query_ids s)
              (sy_owner_id s) (sy_hunt_id s) (sy_status s = NO_EVIDENCE) (sy_limitations s)))
       (with_issue (sy_status s = NO_EVIDENCE \<and> sy_finding_ids s \<noteq> []) ''no_evidence_findings_not_allowed'')"

definition report_evidence_ids :: "ReportContent \<Rightarrow> uuid list" where
  "report_evidence_ids r =
     rp_evidence_ids r @ co_evidence_ids (rp_conclusion r) @ concat (map re_evidence_ids (rp_entities r))
     @ concat (map tl_evidence_ids (rp_timeline r))"

definition validate_report_citations ::
  "citation_lookups \<Rightarrow> ReportContent \<Rightarrow> uuid \<Rightarrow> uuid \<Rightarrow> CitationValidationResult result" where
  "validate_report_citations src r owner_id hunt_id =
     base_checks src (by_disposition (rp_disposition r) (report_evidence_ids r)
       (rp_query_ids r @ co_query_ids (rp_conclusion r)) owner_id hunt_id
       (rp_disposition r = NOT_SUPPORTED_WITHIN_SCOPE) (rp_limitations r))"

subsection \<open>What an empty list of issues means\<close>

text \<open>The specification: a cited record exists, belongs to the owner and the hunt, and is intact; a
  query is completed and, for a negative claim, fully retrieved; the queries that count are the
  cited ones and those the cited evidence came from.\<close>

definition evidence_grounded :: "citation_lookups \<Rightarrow> uuid \<Rightarrow> uuid \<Rightarrow> uuid \<Rightarrow> bool" where
  "evidence_grounded src owner hunt i \<longleftrightarrow>
     (\<exists>e. evidence_lookup src i = Some e \<and> en_owner_id e = Some owner \<and> en_hunt_id e = hunt
        \<and> verify_evidence_integrity e = Inr True)"

definition query_grounded :: "citation_lookups \<Rightarrow> uuid \<Rightarrow> uuid \<Rightarrow> bool \<Rightarrow> uuid \<Rightarrow> bool" where
  "query_grounded src owner hunt negative i \<longleftrightarrow>
     (\<exists>q. query_lookup src i = Some q \<and> qc_owner_id q = owner \<and> qc_hunt_id q = hunt \<and> completed q
        \<and> \<not> (negative \<and> (qc_truncated q \<or> qc_partial_fetch q)))"

definition lineage :: "citation_lookups \<Rightarrow> uuid list \<Rightarrow> uuid set" where
  "lineage src ids = {en_query_id e |e i. i \<in> set ids \<and> evidence_lookup src i = Some e}"

definition cites_truncated :: "citation_lookups \<Rightarrow> uuid list \<Rightarrow> bool" where
  "cites_truncated src ids \<longleftrightarrow> (\<exists>i e. i \<in> set ids \<and> evidence_lookup src i = Some e \<and> tm_truncated (en_truncation e))"

definition grounded :: "citation_lookups \<Rightarrow> citation_request \<Rightarrow> bool" where
  "grounded src rq \<longleftrightarrow>
     distinct (rq_evidence_ids rq) \<and> distinct (rq_query_ids rq)
     \<and> \<not> (rq_require_evidence rq \<and> rq_evidence_ids rq = []) \<and> \<not> (rq_require_query rq \<and> rq_query_ids rq = [])
     \<and> \<not> (rq_reject_evidence rq \<and> rq_evidence_ids rq \<noteq> [])
     \<and> list_all (evidence_grounded src (rq_owner_id rq) (rq_hunt_id rq)) (rq_evidence_ids rq)
     \<and> \<not> (cites_truncated src (rq_evidence_ids rq) \<and> \<not> discloses_truncation (rq_limitations rq))
     \<and> (\<forall>i \<in> set (rq_query_ids rq) \<union> lineage src (rq_evidence_ids rq).
          query_grounded src (rq_owner_id rq) (rq_hunt_id rq) (rq_require_query rq) i)"

lemma issue_if_Nil [simp]: "issue_if b s = [] \<longleftrightarrow> \<not> b"
  by (simp add: issue_if_def)

lemma dedupe_from_facts:
  "set (fst (dedupe_from seen vs)) = set vs - set seen
   \<and> (snd (dedupe_from seen vs) = [] \<longleftrightarrow> distinct vs \<and> set vs \<inter> set seen = {})"
  by (induction vs arbitrary: seen) (auto simp: case_prod_unfold Let_def)

lemma dedupe_facts:
  assumes "dedupe vs = (unique, issues)"
  shows "set unique = set vs" and "issues = [] \<longleftrightarrow> distinct vs" and "unique = [] \<longleftrightarrow> vs = []"
proof -
  show s: "set unique = set vs" and "issues = [] \<longleftrightarrow> distinct vs"
    using dedupe_from_facts [of "[]" vs] assms by (simp_all add: dedupe_def)
  show "unique = [] \<longleftrightarrow> vs = []" using s by (metis set_empty)
qed

lemma check_query_Nil:
  "check_query (query_lookup src) owner hunt negative i = [] \<longleftrightarrow> query_grounded src owner hunt negative i"
  by (auto simp: check_query_def query_grounded_def split: option.splits)

definition hashable :: "citation_lookups \<Rightarrow> bool" where
  "hashable src \<longleftrightarrow> (\<forall>i e. evidence_lookup src i = Some e \<longrightarrow> is_ok (canonical_evidence_envelope e))"

lemma verify_total: "is_ok (canonical_evidence_envelope e) \<Longrightarrow> is_ok (verify_evidence_integrity e)"
  by (auto simp: verify_evidence_integrity_def evidence_sha256_def is_ok_iff)

lemma check_evidence_step:
  assumes "hashable src"
  obtains st' where "check_evidence (evidence_lookup src) owner hunt st i = Inr st'"
    and "ck_issues st' = [] \<longleftrightarrow> ck_issues st = [] \<and> evidence_grounded src owner hunt i"
    and "set (ck_queries st') = set (ck_queries st) \<union> lineage src [i]"
    and "ck_truncated st' \<longleftrightarrow> ck_truncated st \<or> cites_truncated src [i]"
proof (cases "evidence_lookup src i")
  case None
  then show ?thesis
    by (intro that [of "st\<lparr>ck_issues := ck_issues st @ [''evidence_not_found:'' @ i]\<rparr>"])
      (simp_all add: check_evidence_def evidence_grounded_def lineage_def cites_truncated_def)
next
  case (Some e)
  then obtain b where b: "verify_evidence_integrity e = Inr b"
    using assms verify_total [of e] by (auto simp: hashable_def is_ok_iff)
  define st' where "st' = \<lparr>ck_issues = ck_issues st
        @ issue_if (en_owner_id e \<noteq> Some owner) (''evidence_owner_mismatch:'' @ i)
        @ issue_if (en_hunt_id e \<noteq> hunt) (''evidence_hunt_mismatch:'' @ i)
        @ issue_if (\<not> b) (''evidence_integrity_mismatch:'' @ i),
      ck_queries = (if en_query_id e \<in> set (ck_queries st) then ck_queries st else ck_queries st @ [en_query_id e]),
      ck_truncated = (ck_truncated st \<or> tm_truncated (en_truncation e))\<rparr>"
  have "check_evidence (evidence_lookup src) owner hunt st i = Inr st'"
    by (simp add: check_evidence_def Some b st'_def)
  moreover have "lineage src [i] = {en_query_id e}" "cites_truncated src [i] = tm_truncated (en_truncation e)"
      "evidence_grounded src owner hunt i \<longleftrightarrow> en_owner_id e = Some owner \<and> en_hunt_id e = hunt \<and> b"
    using Some b by (auto simp: lineage_def cites_truncated_def evidence_grounded_def)
  ultimately show ?thesis using that [of st'] by (simp add: st'_def insert_absorb)
qed

lemma lineage_Cons: "lineage src (i # ids) = lineage src [i] \<union> lineage src ids"
  by (auto simp: lineage_def)

lemma cites_truncated_Cons: "cites_truncated src (i # ids) \<longleftrightarrow> cites_truncated src [i] \<or> cites_truncated src ids"
  by (auto simp: cites_truncated_def)

lemma check_all_evidence:
  assumes "hashable src"
  shows "\<exists>st'. run_steps (check_evidence (evidence_lookup src) owner hunt) st ids = Inr st'
    \<and> (ck_issues st' = [] \<longleftrightarrow> ck_issues st = [] \<and> list_all (evidence_grounded src owner hunt) ids)
    \<and> set (ck_queries st') = set (ck_queries st) \<union> lineage src ids
    \<and> (ck_truncated st' \<longleftrightarrow> ck_truncated st \<or> cites_truncated src ids)"
proof (induction ids arbitrary: st)
  case Nil
  then show ?case by (simp add: lineage_def cites_truncated_def)
next
  case (Cons i ids)
  obtain t where t: "check_evidence (evidence_lookup src) owner hunt st i = Inr t"
      "ck_issues t = [] \<longleftrightarrow> ck_issues st = [] \<and> evidence_grounded src owner hunt i"
      "set (ck_queries t) = set (ck_queries st) \<union> lineage src [i]"
      "ck_truncated t \<longleftrightarrow> ck_truncated st \<or> cites_truncated src [i]"
    using check_evidence_step [OF assms] .
  show ?case using Cons.IH [of t] t lineage_Cons [of src i ids] cites_truncated_Cons [of src i ids] by auto
qed

lemma base_checks_meaning:
  assumes "hashable src"
  shows "\<exists>r. base_checks src rq = Inr r \<and> (cv_valid r \<longleftrightarrow> grounded src rq) \<and> (cv_issues r = [] \<longleftrightarrow> cv_valid r)
    \<and> set (cv_evidence_ids r) = set (rq_evidence_ids rq)
    \<and> set (cv_query_ids r) = set (rq_query_ids rq) \<union> lineage src (rq_evidence_ids rq)"
proof -
  obtain ue de where e: "dedupe (rq_evidence_ids rq) = (ue, de)" by (cases "dedupe (rq_evidence_ids rq)")
  obtain uq dq where q: "dedupe (rq_query_ids rq) = (uq, dq)" by (cases "dedupe (rq_query_ids rq)")
  note ef = dedupe_facts [OF e] and qf = dedupe_facts [OF q]
  have same: "lineage src ue = lineage src (rq_evidence_ids rq)"
      "cites_truncated src ue = cites_truncated src (rq_evidence_ids rq)"
      "list_all (evidence_grounded src o' h) ue = list_all (evidence_grounded src o' h) (rq_evidence_ids rq)" for o' h
    unfolding lineage_def cites_truncated_def list_all_iff ef(1) by simp_all
  define issues where "issues = de @ dq
            @ issue_if (rq_require_evidence rq \<and> ue = []) ''evidence_required''
            @ issue_if (rq_require_query rq \<and> uq = []) ''completed_query_required''
            @ issue_if (rq_reject_evidence rq \<and> ue \<noteq> []) ''evidence_not_allowed_for_query_grounded_claim''"
  obtain st where st: "run_steps (check_evidence (evidence_lookup src) (rq_owner_id rq) (rq_hunt_id rq))
        \<lparr>ck_issues = issues, ck_queries = uq, ck_truncated = False\<rparr> ue = Inr st"
      "ck_issues st = [] \<longleftrightarrow> issues = [] \<and> list_all (evidence_grounded src (rq_owner_id rq) (rq_hunt_id rq)) ue"
      "set (ck_queries st) = set uq \<union> lineage src ue" "ck_truncated st \<longleftrightarrow> cites_truncated src ue"
    using check_all_evidence [OF assms, of "rq_owner_id rq" "rq_hunt_id rq"
        "\<lparr>ck_issues = issues, ck_queries = uq, ck_truncated = False\<rparr>" ue] by auto
  define final where "final = fromkeys (ck_issues st
     @ issue_if (ck_truncated st \<and> \<not> discloses_truncation (rq_limitations rq)) ''truncation_not_disclosed''
     @ concat (map (check_query (query_lookup src) (rq_owner_id rq) (rq_hunt_id rq) (rq_require_query rq)) (ck_queries st)))"
  have "base_checks src rq = Inr \<lparr>cv_valid = (final = []), cv_issues = final, cv_evidence_ids = ue, cv_query_ids = ck_queries st\<rparr>"
    unfolding base_checks_def e q Let_def prod.case issues_def [symmetric] st(1) bindR_simps final_def [symmetric]
    by (simp add: validate_result_def)
  moreover have "final = [] \<longleftrightarrow> grounded src rq"
    unfolding final_def grounded_def fromkeys_eq_Nil append_is_Nil_conv st(2,4) issues_def same
    using ef(2,3) qf(1,2,3) st(3) by (auto simp: check_query_Nil same)
  ultimately show ?thesis using ef(1) qf(1) st(3) by (simp add: same)
qed

lemma with_issue_meaning:
  assumes "cv_issues r = [] \<longleftrightarrow> cv_valid r"
  shows "\<exists>r'. with_issue b s r = Inr r' \<and> (cv_valid r' \<longleftrightarrow> cv_valid r \<and> \<not> b)"
  using assms by (auto simp: with_issue_def Let_def validate_result_def)

text \<open>C13. A finding's citations are accepted exactly when they ground it.  The validation always
  answers, and the answer is yes if and only if: no identifier is cited twice; a lead or an
  observation cites evidence; a negative finding cites queries and no evidence; every cited
  evidence record exists for this owner and hunt and is intact; truncated evidence is disclosed in
  the limitations; every cited query and every query the cited evidence came from exists for this
  owner and hunt, is completed and, for a negative finding, was retrieved in full; and no context
  reference is one of these identifiers.\<close>

theorem finding_citations_accepted_iff_grounded:
  assumes "hashable src"
  shows "\<exists>r. validate_finding src f None None = Inr r \<and> (cv_valid r \<longleftrightarrow>
    distinct (dr_evidence_ids f) \<and> distinct (dr_query_ids f)
    \<and> (if dr_classification f = NOT_SUPPORTED_FINDING then dr_query_ids f \<noteq> [] \<and> dr_evidence_ids f = []
       else dr_evidence_ids f \<noteq> [])
    \<and> list_all (evidence_grounded src (dr_owner_id f) (dr_hunt_id f)) (dr_evidence_ids f)
    \<and> (cites_truncated src (dr_evidence_ids f) \<longrightarrow> discloses_truncation (dr_limitations f))
    \<and> (\<forall>i \<in> set (dr_query_ids f) \<union> lineage src (dr_evidence_ids f).
         query_grounded src (dr_owner_id f) (dr_hunt_id f) (dr_classification f = NOT_SUPPORTED_FINDING) i)
    \<and> context_ids (dr_context_refs f) \<inter> (set (dr_evidence_ids f) \<union> set (dr_query_ids f) \<union> lineage src (dr_evidence_ids f)) = {})"
proof -
  define rq where "rq = finding_request f (dr_owner_id f) (dr_hunt_id f)"
  obtain r where r: "base_checks src rq = Inr r" "cv_valid r \<longleftrightarrow> grounded src rq" "cv_issues r = [] \<longleftrightarrow> cv_valid r"
      "set (cv_evidence_ids r) = set (dr_evidence_ids f)"
      "set (cv_query_ids r) = set (dr_query_ids f) \<union> lineage src (dr_evidence_ids f)"
    using base_checks_meaning [OF assms, of rq] by (auto simp: rq_def finding_request_def)
  obtain r' where r': "with_issue (context_ids (dr_context_refs f) \<inter> (set (cv_evidence_ids r) \<union> set (cv_query_ids r)) \<noteq> {})
        ''evidence_context_inseparable'' r = Inr r'"
      "cv_valid r' \<longleftrightarrow> cv_valid r \<and> context_ids (dr_context_refs f) \<inter> (set (cv_evidence_ids r) \<union> set (cv_query_ids r)) = {}"
    using with_issue_meaning [OF r(3)] by blast
  have v: "validate_finding src f None None = Inr r'"
    unfolding validate_finding_def Let_def option.case rq_def [symmetric] r(1) bindR_simps r'(1) ..
  have g: "grounded src rq \<longleftrightarrow> distinct (dr_evidence_ids f) \<and> distinct (dr_query_ids f)
    \<and> (if dr_classification f = NOT_SUPPORTED_FINDING then dr_query_ids f \<noteq> [] \<and> dr_evidence_ids f = []
       else dr_evidence_ids f \<noteq> [])
    \<and> list_all (evidence_grounded src (dr_owner_id f) (dr_hunt_id f)) (dr_evidence_ids f)
    \<and> (cites_truncated src (dr_evidence_ids f) \<longrightarrow> discloses_truncation (dr_limitations f))
    \<and> (\<forall>i \<in> set (dr_query_ids f) \<union> lineage src (dr_evidence_ids f).
         query_grounded src (dr_owner_id f) (dr_hunt_id f) (dr_classification f = NOT_SUPPORTED_FINDING) i)"
    by (cases "dr_classification f") (auto simp: grounded_def rq_def finding_request_def)
  show ?thesis unfolding v using r'(2) unfolding r(2,4,5) g by (simp add: Un_assoc)
qed

definition example_lookups :: citation_lookups where
  "example_lookups = \<lparr>evidence_lookup = (\<lambda>_. None),
     query_lookup = (\<lambda>i. if i = ''q1'' then Some \<lparr>qc_query_id = ''q1'', qc_owner_id = ''u1'', qc_hunt_id = ''h1'',
       qc_status = ''Completed'', qc_outcome = None, qc_truncated = False, qc_partial_fetch = False\<rparr> else None)\<rparr>"

theorem finding_citations_accepted_iff_grounded_witness:
  "\<exists>r. validate_finding example_lookups
         (example_draft\<lparr>dr_classification := NOT_SUPPORTED_FINDING, dr_evidence_ids := []\<rparr>) None None = Inr r \<and> cv_valid r"
proof -
  have h: "hashable example_lookups" by (simp add: hashable_def example_lookups_def)
  have "lower ''Completed'' = ''completed''" by code_simp
  then have "query_grounded example_lookups ''u1'' ''h1'' True ''q1''"
    by (simp add: query_grounded_def example_lookups_def completed_def successful_def)
  then show ?thesis
    using finding_citations_accepted_iff_grounded [OF h, of "example_draft\<lparr>dr_classification := NOT_SUPPORTED_FINDING, dr_evidence_ids := []\<rparr>"]
    by (auto simp: example_draft_def lineage_def cites_truncated_def context_ids_def)
qed

text \<open>A report that repeats a top-level evidence citation in an entity, a timeline entry or the
  conclusion is rejected, however well grounded it is.\<close>

theorem report_repeating_a_citation_is_rejected:
  assumes "hashable src" and "i \<in> set (rp_evidence_ids r)"
    and "i \<in> set (co_evidence_ids (rp_conclusion r)) \<union> \<Union> (set ` re_evidence_ids ` set (rp_entities r))
           \<union> \<Union> (set ` tl_evidence_ids ` set (rp_timeline r))"
  shows "\<exists>v. validate_report_citations src r owner hunt = Inr v \<and> \<not> cv_valid v"
proof -
  have "\<not> distinct (report_evidence_ids r)" using assms(2,3) by (auto simp: report_evidence_ids_def)
  then show ?thesis
    using base_checks_meaning [OF assms(1), of "by_disposition (rp_disposition r) (report_evidence_ids r)
       (rp_query_ids r @ co_query_ids (rp_conclusion r)) owner hunt
       (rp_disposition r = NOT_SUPPORTED_WITHIN_SCOPE) (rp_limitations r)"]
    by (auto simp: validate_report_citations_def grounded_def by_disposition_def)
qed

end
