(* ===== verification/McpAuthorization.thy ===== *)
theory McpAuthorization
  imports Common "HOL-Library.Sublist" "HOL-Library.AList"
begin

text \<open>
  \<^verbatim>\<open>mcp/authorization.py\<close>: the database-authoritative check of an MCP request and the reservation of its
  idempotency key.  A request and a database row are mappings from names to values; the database is
  a list of named tables with their columns, read in one transaction.  What Python's library makes
  of texts and containers (\<open>datetime.fromisoformat\<close>, \<open>json.loads\<close>, \<open>int\<close> of a text, \<open>str\<close> of a
  container or timestamp) is the argument \<open>python\<close>, about which nothing is assumed; \<open>str\<close> of the
  other scalars is written out.  The theorem says what an authorized context guarantees about the
  stored rows, and that an idempotency key is reserved once.
\<close>

subsection \<open>Denials\<close>

datatype AuthorizationCode =
    INVALID_REQUEST | UNAUTHENTICATED_SUBJECT | SCHEMA_UNAVAILABLE | DATABASE_FAILURE | EXECUTION_NOT_FOUND
  | HUNT_MISMATCH | OWNER_MISMATCH | DEPLOYMENT_SCOPE_MISMATCH | APPROVAL_MISSING | APPROVAL_MISMATCH
  | PLAN_MISSING | PLAN_MISMATCH | CONFIG_MISSING | CONFIG_MISMATCH | DISCOVERY_MISSING | DISCOVERY_MISMATCH
  | QUERY_MISSING | QUERY_MISMATCH | QUESTION_MISMATCH | PURPOSE_MISMATCH | INFORMATION_GAIN_MISMATCH
  | POLICY_MISMATCH | HASH_MISMATCH | SCOPE_MISMATCH | LIMIT_MISMATCH | LEASE_MISSING | LEASE_EXPIRED
  | LEASE_OWNER_MISMATCH | EXECUTION_CANCELLED | EXECUTION_TERMINAL | AUTHORIZATION_EXPIRED
  | AUTHORIZATION_REVOKED | IDEMPOTENCY_MISMATCH | REPLAY_CODE | REPLAY_CONFLICT | AUDIT_UNAVAILABLE
  | SEMANTIC_SKILL_REQUIRED | SEMANTIC_CAPABILITY_MISSING | SEMANTIC_CAPABILITY_AMBIGUOUS | SEMANTIC_NO_MATCH

datatype denial = Denied AuthorizationCode string "string option" | Raised py_error

type_synonym 'a authz = "denial + 'a"

definition deny :: "AuthorizationCode \<Rightarrow> string \<Rightarrow> string option \<Rightarrow> denial" where
  "deny category detail request_id = Denied category (take 256 detail) request_id"

definition TERMINAL_STATES :: "string list" where
  "TERMINAL_STATES = [''cancelled'', ''canceled'', ''completed'', ''failed'', ''budget_exhausted'', ''succeeded'',
     ''success'', ''stopped'', ''terminal'', ''closed'']"

definition RUNNING_STATES :: "string list" where
  "RUNNING_STATES = [''active'', ''claimed'', ''in_progress'', ''investigating'', ''running'']"

definition USABLE_CAPABILITY_STATES :: "string list" where
  "USABLE_CAPABILITY_STATES = [''available'', ''usable'', ''verified'', ''active'', ''selected'']"

subsection \<open>Values\<close>

datatype val =
    XNone
  | XBool bool
  | XInt int
  | XStr string
  | XTime datetime
  | XList "val list"
  | XMap "(string \<times> val) list"

type_synonym fields = "(string \<times> val) list"

record python =
  py_fromisoformat :: "string \<Rightarrow> datetime option"
  py_loads :: "string \<Rightarrow> val option"
  py_int_text :: "string \<Rightarrow> int option"
  py_repr :: "val \<Rightarrow> string"

fun py_str :: "python \<Rightarrow> val \<Rightarrow> string" where
  "py_str rt XNone = ''None''"
| "py_str rt (XBool b) = (if b then ''True'' else ''False'')"
| "py_str rt (XInt i) = int_text i"
| "py_str rt (XStr s) = s"
| "py_str rt v = py_repr rt v"

definition opt_str :: "python \<Rightarrow> val option \<Rightarrow> string" where
  "opt_str rt v = (case v of None \<Rightarrow> ''None'' | Some x \<Rightarrow> py_str rt x)"

fun py_bool :: "val option \<Rightarrow> bool" where
  "py_bool None = False"
| "py_bool (Some XNone) = False"
| "py_bool (Some (XBool b)) = b"
| "py_bool (Some (XInt i)) = (i \<noteq> 0)"
| "py_bool (Some (XStr s)) = (s \<noteq> [])"
| "py_bool (Some (XTime d)) = True"
| "py_bool (Some (XList xs)) = (xs \<noteq> [])"
| "py_bool (Some (XMap kvs)) = (kvs \<noteq> [])"

fun py_int :: "python \<Rightarrow> val \<Rightarrow> int authz" where
  "py_int rt (XInt i) = Inr i"
| "py_int rt (XBool b) = Inr (if b then 1 else 0)"
| "py_int rt (XStr s) =
     (case py_int_text rt s of Some i \<Rightarrow> Inr i | None \<Rightarrow> Inl (Raised (ValueError ''invalid literal for int()'')))"
| "py_int rt _ = Inl (Raised (TypeError ''int() argument''))"

definition blank :: "val option \<Rightarrow> bool" where
  "blank v \<longleftrightarrow> v = None \<or> v = Some (XStr [])"

definition py_or :: "val option \<Rightarrow> val option \<Rightarrow> val option" where
  "py_or a b = (if py_bool a then a else b)"

subsection \<open>Reading requests and rows\<close>

definition field :: "fields \<Rightarrow> string \<Rightarrow> val option" where
  "field r name = (case map_of r name of Some XNone \<Rightarrow> None | v \<Rightarrow> v)"

fun row_value :: "fields \<Rightarrow> string list \<Rightarrow> val option" where
  "row_value row [] = None"
| "row_value row (name # names) = (case field row name of Some v \<Rightarrow> Some v | None \<Rightarrow> row_value row names)"

definition SECTIONS :: "string list" where
  "SECTIONS = [''scope'', ''query'', ''policy'', ''limits'', ''capability'', ''authorization'']"

fun section_value :: "fields \<Rightarrow> string list \<Rightarrow> string \<Rightarrow> val option" where
  "section_value request [] name = None"
| "section_value request (s # ss) name =
     (case map_of request s of
        Some (XMap kvs) \<Rightarrow> (case field kvs name of Some v \<Rightarrow> Some v | None \<Rightarrow> section_value request ss name)
      | _ \<Rightarrow> section_value request ss name)"

fun request_value :: "fields \<Rightarrow> string list \<Rightarrow> val option" where
  "request_value request [] = None"
| "request_value request (name # names) =
     (case field request name of
        Some v \<Rightarrow> Some v
      | None \<Rightarrow> (case section_value request SECTIONS name of
                   Some v \<Rightarrow> Some v
                 | None \<Rightarrow> request_value request names))"

definition json_column :: "python \<Rightarrow> val option \<Rightarrow> val \<Rightarrow> val" where
  "json_column rt v fallback =
     (case v of
        Some (XMap kvs) \<Rightarrow> XMap kvs
      | Some (XList xs) \<Rightarrow> XList xs
      | Some (XStr s) \<Rightarrow> (case py_loads rt s of Some j \<Rightarrow> j | None \<Rightarrow> fallback)
      | _ \<Rightarrow> fallback)"

definition replace_Z :: "string \<Rightarrow> string" where
  "replace_Z s = concat (map (\<lambda>c. if c = CHR ''Z'' then ''+00:00'' else [c]) s)"

definition aware_utc :: "datetime \<Rightarrow> (int option) authz" where
  "aware_utc d =
     (if utcoffset d = None then Inr (Some (naive_us d))
      else (case as_utc d of Inr t \<Rightarrow> Inr (Some t) | Inl e \<Rightarrow> Inl (Raised e)))"

definition utc_value :: "python \<Rightarrow> val option \<Rightarrow> (int option) authz" where
  "utc_value rt v =
     (case v of
        Some (XStr s) \<Rightarrow> (case py_fromisoformat rt (replace_Z s) of None \<Rightarrow> Inr None | Some d \<Rightarrow> aware_utc d)
      | Some (XTime d) \<Rightarrow> aware_utc d
      | _ \<Rightarrow> Inr None)"

definition same_time :: "python \<Rightarrow> val option \<Rightarrow> val option \<Rightarrow> bool authz" where
  "same_time rt left right =
     bindR (utc_value rt left) (\<lambda>l. bindR (utc_value rt right) (\<lambda>r. Inr (l \<noteq> None \<and> r \<noteq> None \<and> l = r)))"

definition norm_list :: "python \<Rightarrow> val option \<Rightarrow> (string list) option" where
  "norm_list rt v =
     (case v of
        Some (XStr s) \<Rightarrow> Some [s]
      | Some (XList items) \<Rightarrow> Some (sort (remdups (map (py_str rt) items)))
      | _ \<Rightarrow> None)"

definition as_mapping :: "val \<Rightarrow> fields" where
  "as_mapping v = (case v of XMap kvs \<Rightarrow> kvs | _ \<Rightarrow> [])"

definition with_aliases :: "(val \<Rightarrow> val) \<Rightarrow> fields \<Rightarrow> (string \<times> string list) list \<Rightarrow> fields \<Rightarrow> fields" where
  "with_aliases decode row aliases source =
     fold (\<lambda>(target, names) res.
       case row_value row names of None \<Rightarrow> res | Some v \<Rightarrow> AList.update target (decode v) res) aliases source"

definition SCOPE_ALIASES :: "(string \<times> string list) list" where
  "SCOPE_ALIASES =
     [(''earliest_utc'', [''earliest_utc'', ''earliest'', ''start_time_utc'', ''start_utc'']),
      (''latest_utc'', [''latest_utc'', ''latest'', ''end_time_utc'', ''end_utc'']),
      (''indexes'', [''indexes'', ''approved_indexes'', ''index_scope'']),
      (''sourcetypes'', [''sourcetypes'', ''approved_sourcetypes'', ''sourcetype_scope'']),
      (''requested_fields'', [''requested_fields'', ''fields'', ''approved_fields''])]"

definition LIMIT_ALIASES :: "(string \<times> string list) list" where
  "LIMIT_ALIASES =
     [(''max_results'', [''max_results'', ''result_limit'', ''row_limit'']),
      (''max_bytes'', [''max_bytes'', ''byte_limit'', ''result_byte_limit'']),
      (''timeout_seconds'', [''timeout_seconds'', ''query_timeout_seconds'', ''timeout''])]"

definition POLICY_ALIASES :: "(string \<times> string list) list" where
  "POLICY_ALIASES =
     [(''version'', [''policy_version'', ''query_policy_version'']),
      (''hash'', [''policy_hash'', ''query_policy_hash'', ''policy_sha256'', ''query_policy_sha256''])]"

definition scope_of :: "python \<Rightarrow> fields \<Rightarrow> fields" where
  "scope_of rt row =
     with_aliases (\<lambda>v. json_column rt (Some v) v) row SCOPE_ALIASES
       (as_mapping (json_column rt (row_value row [''scope'', ''approved_scope'', ''time_scope'']) (XMap [])))"

definition limits_of :: "python \<Rightarrow> fields \<Rightarrow> fields" where
  "limits_of rt row =
     with_aliases (\<lambda>v. v) row LIMIT_ALIASES
       (as_mapping (json_column rt (row_value row [''limits'', ''enforced_limits'', ''query_limits'']) (XMap [])))"

definition policy_of :: "python \<Rightarrow> fields \<Rightarrow> fields" where
  "policy_of rt row =
     with_aliases (\<lambda>v. v) row POLICY_ALIASES
       (as_mapping (json_column rt (row_value row [''policy'', ''query_policy'', ''policy_snapshot'']) (XMap [])))"

subsection \<open>Tables\<close>

record db_table =
  t_columns :: "string list"
  t_rows :: "fields list"

type_synonym database = "(string \<times> db_table) list"

fun find_table :: "database \<Rightarrow> string list \<Rightarrow> db_table option" where
  "find_table db [] = None"
| "find_table db (name # names) = (case map_of db name of Some t \<Rightarrow> Some t | None \<Rightarrow> find_table db names)"

text \<open>A column compared with a value; \<open>NULL\<close> equals nothing.\<close>

definition column_is :: "fields \<Rightarrow> string \<times> val \<Rightarrow> bool" where
  "column_is row kv \<longleftrightarrow> field row (fst kv) = Some (snd kv)"

definition lookup_any :: "db_table \<Rightarrow> (string \<times> val option) list \<Rightarrow> fields option" where
  "lookup_any table values =
     (let conditions = List.map_filter (\<lambda>(k, v). if k \<in> set (t_columns table) then map_option (Pair k) v else None) values in
      if conditions = [] then None
      else (case take 2 (filter (\<lambda>r. list_all (column_is r) conditions) (t_rows table)) of
              [row] \<Rightarrow> Some row
            | _ \<Rightarrow> None))"

subsection \<open>Checks\<close>

definition required_request :: "fields \<Rightarrow> string option \<Rightarrow> unit authz" where
  "required_request request request_id =
     (let missing =
            (case request_id of Some _ \<Rightarrow> False | None \<Rightarrow> blank (request_value request [''request_id'']))
            \<or> blank (request_value request [''hunt_id'']) \<or> blank (request_value request [''approval_id''])
            \<or> blank (request_value request [''plan_id''])
            \<or> blank (request_value request [''execution_config_snapshot_id'', ''config_snapshot_id''])
            \<or> blank (request_value request [''discovery_snapshot_id'']) \<or> blank (request_value request [''query_id''])
            \<or> blank (request_value request [''execution_id'', ''execution_job_id''])
      in ensure (\<not> missing) (deny INVALID_REQUEST ''required assertion missing'' request_id))"

definition differs :: "python \<Rightarrow> val option \<Rightarrow> val option \<Rightarrow> bool" where
  "differs rt a b \<longleftrightarrow> a \<noteq> None \<and> b \<noteq> None \<and> opt_str rt a \<noteq> opt_str rt b"

definition disagrees :: "python \<Rightarrow> val option \<Rightarrow> val option \<Rightarrow> bool" where
  "disagrees rt a b \<longleftrightarrow> a = None \<or> b = None \<or> opt_str rt a \<noteq> opt_str rt b"

definition deny_if_not_equal ::
  "python \<Rightarrow> fields \<Rightarrow> fields \<Rightarrow> string list \<Rightarrow> AuthorizationCode \<Rightarrow> string option \<Rightarrow> (val option) authz" where
  "deny_if_not_equal rt request server names category rid =
     (let assertion = request_value request names; persisted = row_value server names in
      bindR (ensure (\<not> differs rt assertion persisted) (deny category ''persisted authorization mismatch'' rid)) (\<lambda>_.
        Inr (if persisted \<noteq> None then persisted else assertion)))"

definition is_hash :: "string \<Rightarrow> bool" where
  "is_hash s \<longleftrightarrow> length s = 64 \<and> list_all lower_hex s"

definition row_texts :: "python \<Rightarrow> fields list \<Rightarrow> string list \<Rightarrow> string list" where
  "row_texts rt rows names =
     map (opt_str rt) (filter (\<lambda>v. \<not> blank v) (map (\<lambda>row. row_value row names) rows))"

definition check_hash ::
  "python \<Rightarrow> fields \<Rightarrow> fields list \<Rightarrow> string list \<Rightarrow> string list \<Rightarrow> AuthorizationCode \<Rightarrow> string option \<Rightarrow> string authz" where
  "check_hash rt request rows request_names row_names category rid =
     (let assertion = request_value request request_names; values = row_texts rt rows row_names in
      bindR (ensure (\<not> (blank assertion \<and> values = [])) (deny category ''authorization hash missing'' rid)) (\<lambda>_.
      bindR (if py_bool assertion then Inr (opt_str rt assertion)
             else (case values of v # _ \<Rightarrow> Inr v | [] \<Rightarrow> Inl (Raised (RuntimeError ''IndexError'')))) (\<lambda>selected.
      bindR (ensure (is_hash selected) (deny category ''authorization hash invalid'' rid)) (\<lambda>_.
      bindR (ensure (list_all (\<lambda>v. v = selected) values) (deny category ''persisted authorization hash mismatch'' rid)) (\<lambda>_.
        Inr selected)))))"

definition check_time :: "python \<Rightarrow> fields \<Rightarrow> fields \<Rightarrow> string option \<Rightarrow> string \<Rightarrow> unit authz" where
  "check_time rt request scope rid name =
     (let assertion = request_value request [name]; persisted = field scope name in
      if assertion = None \<or> persisted = None then Inl (deny SCOPE_MISMATCH ''approved time scope mismatch'' rid)
      else bindR (same_time rt assertion persisted) (\<lambda>same.
             ensure same (deny SCOPE_MISMATCH ''approved time scope mismatch'' rid)))"

definition check_names :: "python \<Rightarrow> fields \<Rightarrow> fields \<Rightarrow> string option \<Rightarrow> string \<Rightarrow> unit authz" where
  "check_names rt request scope rid name =
     (let assertion = norm_list rt (request_value request [name]); persisted = norm_list rt (field scope name) in
      ensure (assertion \<noteq> None \<and> persisted \<noteq> None \<and> assertion = persisted)
        (deny SCOPE_MISMATCH ''approved telemetry scope mismatch'' rid))"

definition check_scope :: "python \<Rightarrow> fields \<Rightarrow> fields \<Rightarrow> string option \<Rightarrow> fields authz" where
  "check_scope rt request source rid =
     (let scope = scope_of rt source;
          requested_fields = request_value request [''requested_fields'']; persisted_fields = field scope ''requested_fields'' in
      bindR (check_time rt request scope rid ''earliest_utc'') (\<lambda>_.
      bindR (check_time rt request scope rid ''latest_utc'') (\<lambda>_.
      bindR (check_names rt request scope rid ''indexes'') (\<lambda>_.
      bindR (check_names rt request scope rid ''sourcetypes'') (\<lambda>_.
      bindR (ensure (\<not> (requested_fields \<noteq> None \<and> persisted_fields \<noteq> None
                       \<and> norm_list rt requested_fields \<noteq> norm_list rt persisted_fields))
               (deny SCOPE_MISMATCH ''approved field scope mismatch'' rid)) (\<lambda>_.
        Inr scope))))))"

definition check_limit :: "python \<Rightarrow> fields \<Rightarrow> fields \<Rightarrow> string option \<Rightarrow> string \<Rightarrow> unit authz" where
  "check_limit rt request limits rid name =
     (case (request_value request [name], field limits name) of
        (Some assertion, Some persisted) \<Rightarrow>
          bindR (py_int rt assertion) (\<lambda>a.
          bindR (py_int rt persisted) (\<lambda>p.
          bindR (ensure (a = p) (deny LIMIT_MISMATCH ''enforced limit mismatch'' rid)) (\<lambda>_.
            ensure (\<not> a \<le> 0) (deny LIMIT_MISMATCH ''invalid enforced limit'' rid))))
      | _ \<Rightarrow> Inl (deny LIMIT_MISMATCH ''enforced limit mismatch'' rid))"

definition check_limits :: "python \<Rightarrow> fields \<Rightarrow> fields \<Rightarrow> string option \<Rightarrow> fields authz" where
  "check_limits rt request source rid =
     (let limits = limits_of rt source in
      bindR (check_limit rt request limits rid ''max_results'') (\<lambda>_.
      bindR (check_limit rt request limits rid ''max_bytes'') (\<lambda>_.
      bindR (check_limit rt request limits rid ''timeout_seconds'') (\<lambda>_.
        Inr limits))))"

fun first_some :: "'a option list \<Rightarrow> 'a option" where
  "first_some [] = None"
| "first_some (x # xs) = (case x of Some v \<Rightarrow> Some v | None \<Rightarrow> first_some xs)"

definition check_policy :: "python \<Rightarrow> fields \<Rightarrow> fields list \<Rightarrow> string option \<Rightarrow> fields authz" where
  "check_policy rt request rows rid =
     (let policies = filter (\<lambda>p. p \<noteq> []) (map (policy_of rt) rows);
          version = request_value request [''policy_version'', ''query_policy_version''];
          hash_value = request_value request [''policy_hash'', ''query_policy_hash'', ''policy_sha256''];
          server_version = first_some (map (\<lambda>p. field p ''version'') policies);
          server_hash = first_some (map (\<lambda>p. field p ''hash'') policies) in
      bindR (ensure (policies \<noteq> []) (deny POLICY_MISMATCH ''query policy missing'' rid)) (\<lambda>_.
      bindR (ensure (\<not> disagrees rt version server_version) (deny POLICY_MISMATCH ''query policy mismatch'' rid)) (\<lambda>_.
      bindR (ensure (hash_value = None \<and> server_hash = None
                     \<or> (hash_value \<noteq> None \<and> server_hash \<noteq> None \<and> is_hash (opt_str rt hash_value)
                        \<and> opt_str rt hash_value = opt_str rt server_hash))
               (deny POLICY_MISMATCH ''query policy hash mismatch'' rid)) (\<lambda>_.
      bindR (ensure (list_all (\<lambda>p. field p ''version'' \<in> {None, server_version} \<and> field p ''hash'' \<in> {None, server_hash}) policies)
               (deny POLICY_MISMATCH ''persisted query policy mismatch'' rid)) (\<lambda>_.
        Inr ((''version'', the server_version)
             # (if py_bool server_hash then [(''hash'', the server_hash)] else [])))))))"

definition STATUS_NAMES :: "string list" where
  "STATUS_NAMES = [''status'', ''state'', ''phase'']"

definition is_cancelled :: "python \<Rightarrow> fields \<Rightarrow> bool" where
  "is_cancelled rt row \<longleftrightarrow>
     py_bool (row_value row [''cancelled'', ''canceled'', ''cancellation_requested'', ''cancel_requested''])
     \<or> lower (opt_str rt (row_value row STATUS_NAMES)) \<in> {''cancelled'', ''canceled'', ''cancellation_requested''}"

fun statuses_of :: "python \<Rightarrow> string option \<Rightarrow> fields list \<Rightarrow> (string list) authz" where
  "statuses_of rt rid [] = Inr []"
| "statuses_of rt rid (row # rows) =
     (case row_value row STATUS_NAMES of
        None \<Rightarrow> statuses_of rt rid rows
      | Some status \<Rightarrow>
          (let normalized = lower (py_str rt status) in
           bindR (ensure (normalized \<notin> set TERMINAL_STATES) (deny EXECUTION_TERMINAL ''execution is terminal'' rid)) (\<lambda>_.
           bindR (statuses_of rt rid rows) (\<lambda>rest. Inr (normalized # rest)))))"

definition check_expiry :: "python \<Rightarrow> string option \<Rightarrow> int \<Rightarrow> fields \<Rightarrow> unit authz" where
  "check_expiry rt rid now row =
     (case row_value row [''authorization_expires_at_utc'', ''expires_at_utc'', ''execution_expires_at_utc''] of
        None \<Rightarrow> Inr ()
      | Some expiry \<Rightarrow>
          bindR (utc_value rt (Some expiry)) (\<lambda>t.
            ensure (\<not> (t = None \<or> the t \<le> now)) (deny AUTHORIZATION_EXPIRED ''authorization expired'' rid)))"

definition check_execution_state :: "python \<Rightarrow> fields \<Rightarrow> fields \<Rightarrow> string option \<Rightarrow> int \<Rightarrow> unit authz" where
  "check_execution_state rt execution hunt rid now =
     bindR (ensure (\<not> (is_cancelled rt execution \<or> is_cancelled rt hunt))
              (deny EXECUTION_CANCELLED ''execution cancelled'' rid)) (\<lambda>_.
     bindR (statuses_of rt rid [execution, hunt]) (\<lambda>statuses.
     bindR (ensure (\<not> (statuses = [] \<or> list_ex (\<lambda>s. s \<notin> set RUNNING_STATES) statuses))
              (deny EXECUTION_TERMINAL ''execution is not investigating'' rid)) (\<lambda>_.
     bindR (check_expiry rt rid now execution) (\<lambda>_. check_expiry rt rid now hunt))))"

definition check_lease :: "python \<Rightarrow> fields \<Rightarrow> string option \<Rightarrow> string option \<Rightarrow> int \<Rightarrow> unit authz" where
  "check_lease rt job worker_id rid now =
     (let owner = row_value job [''lease_owner'', ''worker_id'', ''claimed_by'', ''owner_id''];
          status = row_value job [''status'', ''state''] in
      bindR (ensure (worker_id \<noteq> None \<and> worker_id \<noteq> Some [])
               (deny LEASE_OWNER_MISMATCH ''worker identity missing'' rid)) (\<lambda>_.
      bindR (ensure (owner \<noteq> None) (deny LEASE_MISSING ''worker lease missing'' rid)) (\<lambda>_.
      bindR (ensure (opt_str rt owner = the worker_id) (deny LEASE_OWNER_MISMATCH ''worker lease owner mismatch'' rid)) (\<lambda>_.
      bindR (utc_value rt (row_value job [''lease_expires_at_utc'', ''lease_expires_at'', ''expires_at_utc'', ''lease_deadline_utc''])) (\<lambda>expiry.
      bindR (ensure (expiry \<noteq> None) (deny LEASE_MISSING ''worker lease expiry missing'' rid)) (\<lambda>_.
      bindR (ensure (\<not> the expiry \<le> now) (deny LEASE_EXPIRED ''worker lease expired'' rid)) (\<lambda>_.
        ensure (\<not> (status \<noteq> None \<and> lower (opt_str rt status) \<notin> set RUNNING_STATES))
          (deny LEASE_MISSING ''worker lease is not claimed'' rid))))))))"

definition revocation_matches ::
  "db_table \<Rightarrow> (string \<times> string) list \<Rightarrow> string \<Rightarrow> string \<Rightarrow> fields \<Rightarrow> bool" where
  "revocation_matches table keys execution_id execution_job_id row \<longleftrightarrow>
     list_all (\<lambda>(k, v). k \<notin> set (t_columns table) \<or> column_is row (k, XStr v)) keys
     \<and> (if ''execution_job_id'' \<in> set (t_columns table)
        then column_is row (''execution_job_id'', XStr execution_job_id) \<or> field row ''execution_job_id'' = None
        else ''execution_id'' \<notin> set (t_columns table)
             \<or> column_is row (''execution_id'', XStr execution_id) \<or> field row ''execution_id'' = None)"

fun deny_revoked :: "python \<Rightarrow> string option \<Rightarrow> int \<Rightarrow> fields list \<Rightarrow> unit authz" where
  "deny_revoked rt rid now [] = Inr ()"
| "deny_revoked rt rid now (row # rows) =
     bindR (utc_value rt (row_value row [''revoked_at_utc'', ''created_at_utc'', ''timestamp_utc''])) (\<lambda>t.
     bindR (ensure (\<not> (t = None \<or> the t \<le> now)) (deny AUTHORIZATION_REVOKED ''authorization revoked'' rid)) (\<lambda>_.
       deny_revoked rt rid now rows))"

definition check_revocation ::
  "python \<Rightarrow> db_table option \<Rightarrow> string \<Rightarrow> string \<Rightarrow> string \<Rightarrow> string \<Rightarrow> string \<Rightarrow> string option \<Rightarrow> int \<Rightarrow> unit authz" where
  "check_revocation rt table deployment_scope_id hunt_id execution_id execution_job_id approval_id rid now =
     (case table of
        None \<Rightarrow> Inr ()
      | Some t \<Rightarrow>
          bindR (ensure (list_ex (\<lambda>k. k \<in> set (t_columns t))
                   [''deployment_scope_id'', ''hunt_id'', ''approval_id'', ''execution_job_id'', ''execution_id''])
                   (deny SCHEMA_UNAVAILABLE ''revocation schema incomplete'' rid)) (\<lambda>_.
            deny_revoked rt rid now
              (take 2 (filter (revocation_matches t
                 [(''deployment_scope_id'', deployment_scope_id), (''hunt_id'', hunt_id), (''approval_id'', approval_id)]
                 execution_id execution_job_id) (t_rows t)))))"

subsection \<open>Semantic capabilities\<close>

definition skill_mismatch :: "python \<Rightarrow> fields \<Rightarrow> fields \<Rightarrow> bool" where
  "skill_mismatch rt request selection \<longleftrightarrow>
     differs rt (request_value request [''skill_id'']) (row_value selection [''skill_id'', ''primary_skill_id''])
     \<or> differs rt (request_value request [''skill_version'']) (row_value selection [''skill_version'', ''version''])
     \<or> differs rt (request_value request [''skill_sha256'']) (row_value selection [''skill_sha256'', ''content_sha256'', ''skill_hash''])"

definition status_text :: "python \<Rightarrow> val option \<Rightarrow> string" where
  "status_text rt v = (case v of None \<Rightarrow> [] | Some x \<Rightarrow> lower (py_str rt x))"

definition binding_applies :: "python \<Rightarrow> val option \<Rightarrow> string \<Rightarrow> string \<Rightarrow> fields \<Rightarrow> bool" where
  "binding_applies rt requested hunt_id discovery_id row \<longleftrightarrow>
     row_value row [''hunt_id''] \<in> {None, Some (XStr hunt_id)}
     \<and> row_value row [''discovery_snapshot_id'', ''snapshot_id''] \<in> {None, Some (XStr discovery_id)}
     \<and> \<not> (requested \<noteq> None
          \<and> opt_str rt (row_value row [''capability_id'', ''capability'', ''capability_name'', ''name'']) \<noteq> opt_str rt requested)"

definition binding_usable :: "python \<Rightarrow> fields \<Rightarrow> bool" where
  "binding_usable rt row \<longleftrightarrow>
     (let usable = row_value row [''usable'', ''is_usable'', ''available''];
          row_status = status_text rt (row_value row [''status'', ''state'']) in
      \<not> (usable = Some (XBool False) \<or> usable = None \<and> row_status \<notin> set USABLE_CAPABILITY_STATES)
      \<and> \<not> (row_status \<noteq> [] \<and> row_status \<notin> set USABLE_CAPABILITY_STATES \<and> usable \<noteq> Some (XBool True)))"

fun usable_bindings :: "python \<Rightarrow> val option \<Rightarrow> string \<Rightarrow> string \<Rightarrow> string option \<Rightarrow> fields list \<Rightarrow> (fields list) authz" where
  "usable_bindings rt requested hunt_id discovery_id rid [] = Inr []"
| "usable_bindings rt requested hunt_id discovery_id rid (row # rows) =
     (if \<not> binding_applies rt requested hunt_id discovery_id row then usable_bindings rt requested hunt_id discovery_id rid rows
      else bindR (ensure (\<not> py_bool (row_value row [''ambiguous'', ''is_ambiguous'']))
                    (deny SEMANTIC_CAPABILITY_AMBIGUOUS ''capability mapping ambiguous'' rid)) (\<lambda>_.
           bindR (usable_bindings rt requested hunt_id discovery_id rid rows) (\<lambda>rest.
             Inr (if binding_usable rt row then row # rest else rest))))"

definition selected_skill :: "database \<Rightarrow> string \<Rightarrow> string \<Rightarrow> fields option" where
  "selected_skill db hunt_id discovery_id =
     (case find_table db [''hunt_skill_selections'', ''skill_selections'', ''plan_skill_selections''] of
        None \<Rightarrow> None
      | Some t \<Rightarrow>
          (case lookup_any t [(''hunt_id'', Some (XStr hunt_id)), (''discovery_snapshot_id'', Some (XStr discovery_id))] of
             Some row \<Rightarrow> Some row
           | None \<Rightarrow> lookup_any t [(''hunt_id'', Some (XStr hunt_id))]))"

definition semantic_capabilities ::
  "python \<Rightarrow> database \<Rightarrow> fields \<Rightarrow> string \<Rightarrow> string \<Rightarrow> string option \<Rightarrow> (fields list) authz" where
  "semantic_capabilities rt db request hunt_id discovery_id rid =
     (case selected_skill db hunt_id discovery_id of
        None \<Rightarrow> Inl (deny SEMANTIC_SKILL_REQUIRED ''selected pinned skill missing'' rid)
      | Some selection \<Rightarrow>
          bindR (ensure (status_text rt (row_value selection [''selection_status'', ''status''])
                           \<in> {''selected'', ''pinned'', ''approved'', ''active''}
                         \<and> row_value selection [''pinned'', ''is_pinned'', ''selected''] \<noteq> Some (XBool False))
                   (deny SEMANTIC_SKILL_REQUIRED ''selected pinned skill missing'' rid)) (\<lambda>_.
          bindR (ensure (\<not> skill_mismatch rt request selection)
                   (deny SEMANTIC_SKILL_REQUIRED ''selected skill mismatch'' rid)) (\<lambda>_.
          case find_table db [''capability_bindings'', ''hunt_capability_bindings'', ''capabilities'', ''telemetry_capabilities''] of
            None \<Rightarrow> Inl (deny SEMANTIC_CAPABILITY_MISSING ''usable capability missing'' rid)
          | Some t \<Rightarrow>
              (let named = request_value request [''capability_id'', ''capability'', ''capability_name'', ''required_capability''];
                   requested = (if blank named then request_value request [''tool'', ''operation''] else named) in
               bindR (usable_bindings rt requested hunt_id discovery_id rid (take 100 (t_rows t))) (\<lambda>rows.
               bindR (ensure (\<not> length rows > 1) (deny SEMANTIC_CAPABILITY_AMBIGUOUS ''capability mapping ambiguous'' rid)) (\<lambda>_.
               bindR (ensure (rows \<noteq> []) (deny SEMANTIC_CAPABILITY_MISSING ''usable capability missing'' rid)) (\<lambda>_.
                 Inr rows)))))))"

definition is_semantic :: "python \<Rightarrow> fields \<Rightarrow> bool" where
  "is_semantic rt request \<longleftrightarrow>
     (let operation_type = status_text rt (request_value request [''operation_type'']);
          tool = status_text rt (request_value request [''tool'', ''operation'']) in
      operation_type \<in> {''semantic'', ''capability''}
      \<or> (tool \<notin> {[], ''generic'', ''generic_spl'', ''execute_spl'', ''run_spl'', ''search_spl''}
         \<and> \<not> sublist ''generic'' tool \<and> \<not> sublist ''spl'' tool))"

subsection \<open>Authorization\<close>

record AuthorizedMCPContext =
  cx_request_id :: string
  cx_tool :: string
  cx_authenticated_subject :: string
  cx_worker_id :: string
  cx_deployment_scope_id :: string
  cx_owner_id :: string
  cx_hunt_id :: string
  cx_execution_id :: string
  cx_execution_job_id :: "string option"
  cx_approval_id :: string
  cx_plan_id :: string
  cx_plan_version :: "int option"
  cx_plan_sha256 :: string
  cx_config_snapshot_id :: string
  cx_config_sha256 :: string
  cx_discovery_snapshot_id :: string
  cx_query_id :: string
  cx_question_id :: string
  cx_purpose :: string
  cx_expected_information_gain :: string
  cx_scope :: fields
  cx_policy :: fields
  cx_limits :: fields
  cx_query :: fields
  cx_capability_bindings :: "fields list"

text \<open>The eight rows that a request names, and the execution identifier they give.\<close>

record bound_rows =
  b_job :: fields
  b_execution :: fields
  b_hunt :: fields
  b_approval :: fields
  b_plan :: fields
  b_config :: fields
  b_discovery :: fields
  b_query :: fields
  b_execution_id :: string

definition persisted_id :: "python \<Rightarrow> fields option \<Rightarrow> string \<Rightarrow> string" where
  "persisted_id rt row execution_id =
     (case row of
        None \<Rightarrow> execution_id
      | Some r \<Rightarrow> (case row_value r [''execution_id'', ''hunt_execution_id''] of
                     None \<Rightarrow> execution_id
                   | Some v \<Rightarrow> py_str rt v))"

definition execution_lookup :: "db_table \<Rightarrow> val option \<Rightarrow> string \<Rightarrow> string \<Rightarrow> (string \<times> val option) list" where
  "execution_lookup table execution_job_id execution_id hunt_id =
     (if py_bool execution_job_id \<and> ''execution_job_id'' \<in> set (t_columns table) then [(''execution_job_id'', execution_job_id)]
      else if ''execution_id'' \<in> set (t_columns table) then [(''execution_id'', Some (XStr execution_id))]
      else if ''hunt_execution_id'' \<in> set (t_columns table) then [(''hunt_execution_id'', Some (XStr execution_id))]
      else if ''hunt_id'' \<in> set (t_columns table) then [(''hunt_id'', Some (XStr hunt_id))]
      else [])"

definition require_table :: "database \<Rightarrow> string list \<Rightarrow> string option \<Rightarrow> db_table authz" where
  "require_table db names rid =
     (case find_table db names of
        None \<Rightarrow> Inl (deny SCHEMA_UNAVAILABLE ''authorization schema incomplete'' rid)
      | Some t \<Rightarrow> Inr t)"

definition require_row :: "fields option \<Rightarrow> AuthorizationCode \<Rightarrow> string \<Rightarrow> string option \<Rightarrow> fields authz" where
  "require_row row category detail rid = (case row of None \<Rightarrow> Inl (deny category detail rid) | Some r \<Rightarrow> Inr r)"

definition load_rows :: "python \<Rightarrow> database \<Rightarrow> fields \<Rightarrow> string option \<Rightarrow> bound_rows authz" where
  "load_rows rt db request rid =
     (let asserted = request_value request [''execution_id'']; job_id = request_value request [''execution_job_id''];
          hunt_id = opt_str rt (request_value request [''hunt_id'']);
          approval_id = XStr (opt_str rt (request_value request [''approval_id'']));
          plan_id = XStr (opt_str rt (request_value request [''plan_id'']));
          config_id = XStr (opt_str rt (request_value request [''execution_config_snapshot_id'', ''config_snapshot_id'']));
          discovery_id = XStr (opt_str rt (request_value request [''discovery_snapshot_id'']));
          query_id = XStr (opt_str rt (request_value request [''query_id''])) in
      bindR (require_table db [''execution_jobs'', ''execution_job'', ''hunt_execution_jobs''] rid) (\<lambda>job_table.
      bindR (require_table db [''hunt_executions'', ''executions'', ''hunt_execution''] rid) (\<lambda>execution_table.
      bindR (require_table db [''hunts'', ''hunt''] rid) (\<lambda>hunt_table.
      bindR (require_table db [''plan_approvals'', ''approvals'', ''hunt_approvals'', ''approval''] rid) (\<lambda>approval_table.
      bindR (require_table db [''plans'', ''hunt_plans'', ''hunt_plan''] rid) (\<lambda>plan_table.
      bindR (require_table db [''execution_config_snapshots'', ''execution_configs'', ''execution_configuration_snapshots''] rid) (\<lambda>config_table.
      bindR (require_table db [''discovery_snapshots'', ''discovery_snapshot''] rid) (\<lambda>discovery_table.
      bindR (require_table db [''query_ledger'', ''queries'', ''query_records'', ''hunt_queries''] rid) (\<lambda>query_table.
      let job = lookup_any job_table [(''execution_job_id'', job_id), (''job_id'', job_id), (''execution_id'', asserted)];
          execution_id = persisted_id rt job (opt_str rt (py_or asserted job_id));
          execution = lookup_any execution_table (execution_lookup execution_table job_id execution_id hunt_id);
          execution_id = persisted_id rt execution execution_id;
          hunt = lookup_any hunt_table [(''hunt_id'', Some (XStr hunt_id)), (''id'', Some (XStr hunt_id))] in
      bindR (require_row job EXECUTION_NOT_FOUND ''execution not found'' rid) (\<lambda>job.
      bindR (require_row execution EXECUTION_NOT_FOUND ''execution not found'' rid) (\<lambda>execution.
      bindR (require_row hunt HUNT_MISMATCH ''hunt not found'' rid) (\<lambda>hunt.
      bindR (require_row (lookup_any approval_table [(''approval_id'', Some approval_id), (''id'', Some approval_id)])
               APPROVAL_MISSING ''approval missing'' rid) (\<lambda>approval.
      bindR (require_row (lookup_any plan_table [(''plan_id'', Some plan_id), (''id'', Some plan_id)])
               PLAN_MISSING ''plan missing'' rid) (\<lambda>plan.
      bindR (require_row (lookup_any config_table [(''execution_config_snapshot_id'', Some config_id),
                            (''config_snapshot_id'', Some config_id), (''id'', Some config_id)])
               CONFIG_MISSING ''execution config missing'' rid) (\<lambda>config.
      bindR (require_row (lookup_any discovery_table [(''discovery_snapshot_id'', Some discovery_id),
                            (''snapshot_id'', Some discovery_id), (''id'', Some discovery_id)])
               DISCOVERY_MISSING ''discovery missing'' rid) (\<lambda>discovery.
      bindR (require_row (lookup_any query_table [(''query_id'', Some query_id), (''id'', Some query_id)])
               QUERY_MISSING ''query missing'' rid) (\<lambda>query.
        Inr \<lparr>b_job = job, b_execution = execution, b_hunt = hunt, b_approval = approval, b_plan = plan,
             b_config = config, b_discovery = discovery, b_query = query, b_execution_id = execution_id\<rparr>)))))))))))))))))"

definition all_rows :: "bound_rows \<Rightarrow> fields list" where
  "all_rows b = [b_job b, b_execution b, b_hunt b, b_approval b, b_plan b, b_config b, b_discovery b, b_query b]"

definition check_deployment :: "python \<Rightarrow> fields \<Rightarrow> bound_rows \<Rightarrow> string option \<Rightarrow> unit authz" where
  "check_deployment rt request b rid =
     ensure (list_all (\<lambda>row. \<not> disagrees rt (request_value request [''deployment_scope_id''])
                (row_value row [''deployment_scope_id'', ''customer_scope_id'', ''scope_id''])) (all_rows b))
       (deny DEPLOYMENT_SCOPE_MISMATCH ''deployment scope mismatch'' rid)"

definition bound_to :: "fields \<Rightarrow> string list \<Rightarrow> string \<Rightarrow> bool" where
  "bound_to row names v \<longleftrightarrow> row_value row names \<in> {None, Some (XStr v)}"

definition check_identifiers :: "python \<Rightarrow> fields \<Rightarrow> bound_rows \<Rightarrow> string option \<Rightarrow> unit authz" where
  "check_identifiers rt request b rid =
     (let mismatch = (\<lambda>row names. differs rt (row_value row names) (request_value request [hd names]));
          detail = ''authorization identifier mismatch'' in
      bindR (ensure (\<not> mismatch (b_approval b) [''approval_id'', ''id'']) (deny APPROVAL_MISMATCH detail rid)) (\<lambda>_.
      bindR (ensure (\<not> mismatch (b_plan b) [''plan_id'', ''id'']) (deny PLAN_MISMATCH detail rid)) (\<lambda>_.
      bindR (ensure (\<not> mismatch (b_config b) [''execution_config_snapshot_id'', ''config_snapshot_id'', ''id''])
               (deny CONFIG_MISMATCH detail rid)) (\<lambda>_.
      bindR (ensure (\<not> mismatch (b_discovery b) [''discovery_snapshot_id'', ''snapshot_id'', ''id''])
               (deny DISCOVERY_MISMATCH detail rid)) (\<lambda>_.
        ensure (\<not> mismatch (b_query b) [''query_id'', ''id'']) (deny QUERY_MISMATCH detail rid))))))"

definition check_questions :: "python \<Rightarrow> fields \<Rightarrow> fields \<Rightarrow> string option \<Rightarrow> unit authz" where
  "check_questions rt request query rid =
     (let mismatch = (\<lambda>name row_names. disagrees rt (request_value request [name]) (row_value query row_names)) in
      bindR (ensure (\<not> mismatch ''question_id'' [''question_id'', ''approved_question_id''])
               (deny QUESTION_MISMATCH ''query assertion mismatch'' rid)) (\<lambda>_.
      bindR (ensure (\<not> mismatch ''purpose'' [''purpose'', ''query_purpose''])
               (deny PURPOSE_MISMATCH ''query assertion mismatch'' rid)) (\<lambda>_.
        ensure (\<not> mismatch ''expected_information_gain'' [''expected_information_gain'', ''eig''])
          (deny INFORMATION_GAIN_MISMATCH ''query assertion mismatch'' rid))))"

definition check_links :: "bound_rows \<Rightarrow> string \<Rightarrow> string \<Rightarrow> string \<Rightarrow> string \<Rightarrow> string \<Rightarrow> string option \<Rightarrow> unit authz" where
  "check_links b hunt_id approval_id plan_id config_id discovery_id rid =
     bindR (ensure (bound_to (b_plan b) [''execution_config_snapshot_id'', ''config_snapshot_id''] config_id
                    \<and> bound_to (b_plan b) [''discovery_snapshot_id''] discovery_id)
              (deny PLAN_MISMATCH ''plan snapshot mismatch'' rid)) (\<lambda>_.
     bindR (ensure (bound_to (b_approval b) [''hunt_id''] hunt_id \<and> bound_to (b_approval b) [''plan_id''] plan_id)
              (deny APPROVAL_MISMATCH ''approval binding mismatch'' rid)) (\<lambda>_.
       ensure (bound_to (b_query b) [''execution_id''] (b_execution_id b) \<and> bound_to (b_query b) [''approval_id''] approval_id)
         (deny QUERY_MISMATCH ''query execution mismatch'' rid)))"

definition job_identifier :: "python \<Rightarrow> fields \<Rightarrow> bound_rows \<Rightarrow> string" where
  "job_identifier rt request b =
     (case py_or (request_value request [''execution_job_id'']) (row_value (b_job b) [''execution_job_id'', ''job_id'']) of
        None \<Rightarrow> []
      | Some v \<Rightarrow> py_str rt v)"

definition context_of ::
  "python \<Rightarrow> fields \<Rightarrow> string \<Rightarrow> val option \<Rightarrow> val option \<Rightarrow> bound_rows \<Rightarrow> int option \<Rightarrow> string \<Rightarrow> string
    \<Rightarrow> fields \<Rightarrow> fields \<Rightarrow> fields \<Rightarrow> fields list \<Rightarrow> AuthorizedMCPContext" where
  "context_of rt request request_id subject worker b version plan_hash config_hash scope policy limits bindings =
     \<lparr>cx_request_id = request_id,
      cx_tool = (case request_value request [''tool'', ''operation''] of None \<Rightarrow> ''generic_spl'' | Some v \<Rightarrow> py_str rt v),
      cx_authenticated_subject = opt_str rt subject, cx_worker_id = opt_str rt worker,
      cx_deployment_scope_id = opt_str rt (request_value request [''deployment_scope_id'']),
      cx_owner_id = opt_str rt (row_value (b_hunt b) [''owner_id'', ''user_id'', ''account_id'']),
      cx_hunt_id = opt_str rt (request_value request [''hunt_id'']), cx_execution_id = b_execution_id b,
      cx_execution_job_id = (if job_identifier rt request b = [] then None else Some (job_identifier rt request b)),
      cx_approval_id = opt_str rt (request_value request [''approval_id'']),
      cx_plan_id = opt_str rt (request_value request [''plan_id'']), cx_plan_version = version, cx_plan_sha256 = plan_hash,
      cx_config_snapshot_id = opt_str rt (request_value request [''execution_config_snapshot_id'', ''config_snapshot_id'']),
      cx_config_sha256 = config_hash,
      cx_discovery_snapshot_id = opt_str rt (request_value request [''discovery_snapshot_id'']),
      cx_query_id = opt_str rt (request_value request [''query_id'']),
      cx_question_id = opt_str rt (request_value request [''question_id'']),
      cx_purpose = opt_str rt (request_value request [''purpose'']),
      cx_expected_information_gain = opt_str rt (request_value request [''expected_information_gain'']),
      cx_scope = scope, cx_policy = policy, cx_limits = limits, cx_query = b_query b, cx_capability_bindings = bindings\<rparr>"

definition authorize_rows ::
  "python \<Rightarrow> database \<Rightarrow> fields \<Rightarrow> string \<Rightarrow> val option \<Rightarrow> val option \<Rightarrow> int \<Rightarrow> AuthorizedMCPContext authz" where
  "authorize_rows rt db request request_id subject worker now =
     (let rid = Some request_id;
          hunt_id = opt_str rt (request_value request [''hunt_id'']);
          approval_id = opt_str rt (request_value request [''approval_id'']);
          plan_id = opt_str rt (request_value request [''plan_id'']);
          config_id = opt_str rt (request_value request [''execution_config_snapshot_id'', ''config_snapshot_id'']);
          discovery_id = opt_str rt (request_value request [''discovery_snapshot_id'']);
          deployment = opt_str rt (request_value request [''deployment_scope_id'']) in
      bindR (load_rows rt db request rid) (\<lambda>b.
      bindR (check_deployment rt request b rid) (\<lambda>_.
      let owner = row_value (b_hunt b) [''owner_id'', ''user_id'', ''account_id''] in
      bindR (ensure (owner \<noteq> None) (deny OWNER_MISMATCH ''hunt owner missing'' rid)) (\<lambda>_.
      bindR (ensure (bound_to (b_job b) [''hunt_id''] hunt_id \<and> bound_to (b_execution b) [''hunt_id''] hunt_id
                     \<and> bound_to (b_query b) [''hunt_id''] hunt_id)
               (deny HUNT_MISMATCH ''cross-hunt authorization'' rid)) (\<lambda>_.
      bindR (check_lease rt (b_job b) (if py_bool worker then Some (opt_str rt worker) else None) rid now) (\<lambda>_.
      bindR (check_execution_state rt (b_execution b) (b_hunt b) rid now) (\<lambda>_.
      bindR (check_identifiers rt request b rid) (\<lambda>_.
      bindR (deny_if_not_equal rt request (b_plan b) [''plan_version''] PLAN_MISMATCH rid) (\<lambda>plan_version.
      bindR (check_hash rt request [b_approval b, b_plan b] [''plan_sha256'', ''approved_plan_sha256'']
               [''plan_sha256'', ''approved_plan_sha256'', ''content_sha256''] HASH_MISMATCH rid) (\<lambda>plan_hash.
      bindR (check_hash rt request [b_approval b, b_config b] [''execution_config_sha256'', ''config_sha256'']
               [''execution_config_sha256'', ''config_sha256'', ''content_sha256''] HASH_MISMATCH rid) (\<lambda>config_hash.
      bindR (check_hash rt request [b_query b] [''query_sha256'', ''query_hash'']
               [''query_sha256'', ''query_hash'', ''normalized_query_sha256'', ''spl_sha256'', ''cache_key''] QUERY_MISMATCH rid) (\<lambda>_.
      bindR (check_links b hunt_id approval_id plan_id config_id discovery_id rid) (\<lambda>_.
      bindR (check_questions rt request (b_query b) rid) (\<lambda>_.
      bindR (check_policy rt request [b_execution b, b_approval b, b_plan b, b_config b, b_discovery b, b_query b] rid) (\<lambda>policy.
      bindR (check_scope rt request (if scope_of rt (b_query b) \<noteq> [] then b_query b else b_plan b) rid) (\<lambda>scope.
      bindR (check_limits rt request (if limits_of rt (b_query b) \<noteq> [] then b_query b else b_config b) rid) (\<lambda>limits.
      bindR (check_revocation rt (find_table db [''execution_authorization_revocations'', ''authorization_revocations''])
               deployment hunt_id (b_execution_id b) (job_identifier rt request b) approval_id rid now) (\<lambda>_.
      bindR (if is_semantic rt request then semantic_capabilities rt db request hunt_id discovery_id rid else Inr []) (\<lambda>bindings.
      bindR (case plan_version of None \<Rightarrow> Inr None | Some v \<Rightarrow> bindR (py_int rt v) (\<lambda>i. Inr (Some i))) (\<lambda>version.
        Inr (context_of rt request request_id subject worker b version plan_hash config_hash scope policy limits bindings)))))))))))))))))))))"

text \<open>\<open>_configured_subject\<close>: the explicit subject, or the first configured attribute that is set.\<close>

definition configured_subject :: "string option list \<Rightarrow> string option \<Rightarrow> string option" where
  "configured_subject settings explicit =
     (case explicit of
        Some (c # s) \<Rightarrow> Some (c # s)
      | _ \<Rightarrow> first_some (filter (\<lambda>v. v \<noteq> Some []) settings))"

definition or_text :: "string option \<Rightarrow> string option \<Rightarrow> string option" where
  "or_text a b = (case a of Some (c # s) \<Rightarrow> Some (c # s) | _ \<Rightarrow> b)"

record authorization_call =
  ac_authenticated_subject :: "string option"
  ac_configured_service_subject :: "string option"
  ac_service_subject :: "string option"
  ac_settings :: "string option list"
  ac_envelope_worker_id :: "string option"
  ac_worker_id :: "string option"

definition authorize_mcp_tool_request ::
  "python \<Rightarrow> database \<Rightarrow> fields \<Rightarrow> authorization_call \<Rightarrow> int \<Rightarrow> AuthorizedMCPContext authz" where
  "authorize_mcp_tool_request rt db request call now =
     (let raw = (let v = request_value request [''request_id''] in if py_bool v then take 128 (opt_str rt v) else []);
          rid = (if raw = [] then None else Some raw);
          asserted_subject = request_value request [''authenticated_subject''];
          subject = py_or (map_option XStr (ac_authenticated_subject call)) asserted_subject;
          configured = configured_subject (ac_settings call) (or_text (ac_configured_service_subject call) (ac_service_subject call));
          named_worker = or_text (ac_envelope_worker_id call) (ac_worker_id call);
          worker = py_or (map_option XStr named_worker) (request_value request [''worker_id'']);
          asserted_worker = request_value request [''worker_id'', ''lease_owner''] in
      bindR (ensure (py_bool subject \<and> configured \<noteq> None \<and> configured \<noteq> Some [] \<and> Some (opt_str rt subject) = configured)
               (deny UNAUTHENTICATED_SUBJECT ''service subject not authorized'' rid)) (\<lambda>_.
      bindR (ensure (\<not> (ac_authenticated_subject call \<noteq> None
                       \<and> asserted_subject \<notin> {None, map_option XStr (ac_authenticated_subject call)}))
               (deny UNAUTHENTICATED_SUBJECT ''service subject assertion mismatch'' rid)) (\<lambda>_.
      bindR (required_request request rid) (\<lambda>_.
      let request_id = opt_str rt (request_value request [''request_id'']) in
      bindR (ensure (\<not> (named_worker \<noteq> None \<and> asserted_worker \<notin> {None, worker}))
               (deny LEASE_OWNER_MISMATCH ''worker lease assertion mismatch'' (Some request_id))) (\<lambda>_.
        authorize_rows rt db request request_id subject worker now)))))"

subsection \<open>Replay and reservation\<close>

fun val_json :: "val \<Rightarrow> json option" where
  "val_json XNone = Some JNull"
| "val_json (XBool b) = Some (JBool b)"
| "val_json (XInt i) = Some (JInt i)"
| "val_json (XStr s) = Some (JStr s)"
| "val_json (XTime d) = None"
| "val_json (XList xs) = (let ys = map val_json xs in if None \<in> set ys then None else Some (JList (map the ys)))"
| "val_json (XMap kvs) =
     (let ys = map (\<lambda>kv. (fst kv, val_json (snd kv))) kvs in
      if None \<in> snd ` set ys then None else Some (JObj (map (\<lambda>kv. (fst kv, the (snd kv))) ys)))"

definition action_digest :: "fields \<Rightarrow> string authz" where
  "action_digest action =
     (case val_json (XMap action) of
        None \<Rightarrow> Inl (Raised (ValueError ''MCP action must be JSON-serializable''))
      | Some j \<Rightarrow> Inr (sha256_hex (encode (dumps_raw j))))"

definition deterministic_sid :: "string \<Rightarrow> string authz" where
  "deterministic_sid request_id =
     (if request_id = [] \<or> length request_id > 128
      then Inl (Raised (ValueError ''request_id must contain 1 to 128 characters''))
      else Inr (sha256_hex (encode (''mcp:sid:'' @ request_id))))"

definition DIGEST_KEYS :: "string list" where
  "DIGEST_KEYS = [''tool'', ''operation'', ''hunt_id'', ''execution_id'', ''query_id'', ''approval_id'', ''idempotency_key'',
     ''plan_sha256'', ''execution_config_sha256'', ''policy_version'']"

definition request_digest :: "python \<Rightarrow> fields \<Rightarrow> string authz" where
  "request_digest rt request =
     (let digest = request_value request [''action_digest''] in
      if py_bool digest then
        bindR (ensure (is_hash (opt_str rt digest))
                 (deny INVALID_REQUEST ''action digest invalid'' (map_option (py_str rt) (request_value request [''request_id''])))) (\<lambda>_.
          Inr (opt_str rt digest))
      else action_digest (List.map_filter (\<lambda>k. map_option (Pair k) (request_value request [k])) DIGEST_KEYS))"

datatype ReplayStatus = NEW | REPLAY | CONFLICT | UNAVAILABLE

record ReplayCheck =
  rc_status :: ReplayStatus
  rc_request_id :: "string option"
  rc_action_digest :: "string option"

definition holds_key :: "val \<Rightarrow> val \<Rightarrow> fields \<Rightarrow> bool" where
  "holds_key subject key row \<longleftrightarrow>
     column_is row (''authenticated_subject'', subject) \<and> column_is row (''idempotency_key'', key)"

definition classify :: "python \<Rightarrow> db_table \<Rightarrow> val \<Rightarrow> val \<Rightarrow> string \<Rightarrow> ReplayCheck" where
  "classify rt ledger subject key digest =
     (case find (holds_key subject key) (t_rows ledger) of
        None \<Rightarrow> \<lparr>rc_status = NEW, rc_request_id = None, rc_action_digest = None\<rparr>
      | Some row \<Rightarrow>
          (let existing = row_value row [''action_digest''];
               request_id = (case row_value row [''request_id''] of None \<Rightarrow> [] | Some v \<Rightarrow> py_str rt v) in
           \<lparr>rc_status = (if opt_str rt existing = digest then REPLAY else CONFLICT),
            rc_request_id = (if request_id = [] then None else Some request_id),
            rc_action_digest = (if py_bool existing then Some (opt_str rt existing) else None)\<rparr>))"

definition check_mcp_request_replay :: "python \<Rightarrow> database \<Rightarrow> val option \<Rightarrow> val option \<Rightarrow> string \<Rightarrow> string option \<Rightarrow> ReplayCheck authz" where
  "check_mcp_request_replay rt db subject key digest rid =
     bindR (ensure (py_bool subject \<and> py_bool key \<and> digest \<noteq> []) (deny INVALID_REQUEST ''replay assertions missing'' rid)) (\<lambda>_.
     case find_table db [''mcp_tool_requests''] of
       None \<Rightarrow> Inr \<lparr>rc_status = UNAVAILABLE, rc_request_id = None, rc_action_digest = None\<rparr>
     | Some ledger \<Rightarrow>
         bindR (ensure (''authenticated_subject'' \<in> set (t_columns ledger) \<and> ''idempotency_key'' \<in> set (t_columns ledger))
                  (deny SCHEMA_UNAVAILABLE ''request ledger schema incomplete'' None)) (\<lambda>_.
           Inr (classify rt ledger (the subject) (the key) digest)))"

definition only_columns :: "db_table \<Rightarrow> fields \<Rightarrow> fields" where
  "only_columns t data = filter (\<lambda>kv. fst kv \<in> set (t_columns t)) data"

definition add_row :: "string \<Rightarrow> fields \<Rightarrow> database \<Rightarrow> database" where
  "add_row name row db =
     map (\<lambda>(n, t). (n, if n = name then t\<lparr>t_rows := t_rows t @ [only_columns t row]\<rparr> else t)) db"

text \<open>The primary key and the unique key of the request ledger.\<close>

definition ledger_conflict :: "db_table \<Rightarrow> fields \<Rightarrow> bool" where
  "ledger_conflict ledger row \<longleftrightarrow>
     list_ex (\<lambda>r. (field r ''request_id'' \<noteq> None \<and> field r ''request_id'' = field row ''request_id'')
        \<or> (field r ''authenticated_subject'' \<noteq> None \<and> field r ''authenticated_subject'' = field row ''authenticated_subject''
           \<and> field r ''idempotency_key'' \<noteq> None \<and> field r ''idempotency_key'' = field row ''idempotency_key'')) (t_rows ledger)"

definition value_or :: "python \<Rightarrow> string \<Rightarrow> val option \<Rightarrow> val" where
  "value_or rt fallback v = (case v of None \<Rightarrow> XStr fallback | Some x \<Rightarrow> XStr (py_str rt x))"

definition audit_row :: "python \<Rightarrow> fields \<Rightarrow> string \<Rightarrow> val \<Rightarrow> string \<Rightarrow> int \<Rightarrow> fields" where
  "audit_row rt request request_id subject audit_id now =
     [(''audit_id'', XStr audit_id),
      (''hunt_id'', (case request_value request [''hunt_id''] of None \<Rightarrow> XNone | Some v \<Rightarrow> v)),
      (''request_id'', XStr request_id), (''actor_type'', XStr ''worker''), (''actor_id'', XStr (py_str rt subject)),
      (''action'', value_or rt ''mcp_tool'' (request_value request [''tool'', ''operation''])),
      (''object_type'', XStr ''mcp_tool_request''), (''object_id'', XStr request_id), (''outcome'', XStr ''success''),
      (''detail'', XStr ''pre-submit authorization reservation''),
      (''timestamp_utc'', XTime \<lparr>naive_us = now, utcoffset = Some 0\<rparr>)]"

definition ledger_row :: "python \<Rightarrow> fields \<Rightarrow> string \<Rightarrow> val \<Rightarrow> val \<Rightarrow> string \<Rightarrow> string \<Rightarrow> int \<Rightarrow> fields" where
  "ledger_row rt request request_id subject key digest sid now =
     [(''request_id'', XStr request_id), (''authenticated_subject'', XStr (py_str rt subject)),
      (''idempotency_key'', XStr (py_str rt key)), (''action_digest'', XStr digest),
      (''tool'', value_or rt ''mcp_tool'' (request_value request [''tool'', ''operation''])), (''status'', XStr ''reserved''),
      (''deployment_scope_id'', value_or rt [] (request_value request [''deployment_scope_id''])),
      (''hunt_id'', value_or rt [] (request_value request [''hunt_id''])),
      (''execution_id'', (case request_value request [''execution_id''] of None \<Rightarrow> XNone | Some v \<Rightarrow> v)),
      (''query_id'', (case request_value request [''query_id''] of None \<Rightarrow> XNone | Some v \<Rightarrow> v)),
      (''approval_id'', value_or rt [] (request_value request [''approval_id''])),
      (''execution_config_snapshot_id'', value_or rt [] (request_value request [''execution_config_snapshot_id'', ''config_snapshot_id''])),
      (''deterministic_sid'', XStr sid),
      (''created_at_utc'', XTime \<lparr>naive_us = now, utcoffset = Some 0\<rparr>),
      (''updated_at_utc'', XTime \<lparr>naive_us = now, utcoffset = Some 0\<rparr>)]"

text \<open>One transaction.  \<open>audit_fault\<close> and \<open>ledger_fault\<close> are database errors of the two writes; an exception
  rolls the transaction back, so the database is only returned on success.  After a conflict the
  key is looked up again, with the same outcome as the first lookup.\<close>

definition write_reservation ::
  "python \<Rightarrow> database \<Rightarrow> db_table \<Rightarrow> fields \<Rightarrow> val \<Rightarrow> val \<Rightarrow> string \<Rightarrow> string \<Rightarrow> bool \<Rightarrow> bool \<Rightarrow> string \<Rightarrow> int
     \<Rightarrow> (database \<times> ReplayCheck) authz" where
  "write_reservation rt db ledger request subject key digest request_id audit_fault ledger_fault audit_id now =
     (if audit_fault then Inl (deny AUDIT_UNAVAILABLE ''pre-submit audit failed'' (Some request_id))
      else bindR (deterministic_sid request_id) (\<lambda>sid.
        if ledger_fault then Inl (deny AUDIT_UNAVAILABLE ''pre-submit audit failed'' (Some request_id))
        else (let row = ledger_row rt request request_id subject key digest sid now in
              if ledger_conflict ledger row then Inl (deny REPLAY_CONFLICT ''idempotency key conflict'' (Some request_id))
              else Inr (add_row ''mcp_tool_requests'' row
                          (add_row ''audit_records'' (audit_row rt request request_id subject audit_id now) db),
                        \<lparr>rc_status = NEW, rc_request_id = Some request_id, rc_action_digest = Some digest\<rparr>))))"

definition reserve_in ::
  "python \<Rightarrow> database \<Rightarrow> fields \<Rightarrow> val option \<Rightarrow> val option \<Rightarrow> string \<Rightarrow> string \<Rightarrow> bool \<Rightarrow> bool \<Rightarrow> string \<Rightarrow> int
     \<Rightarrow> (database \<times> ReplayCheck) authz" where
  "reserve_in rt db request subject key digest request_id audit_fault ledger_fault audit_id now =
     (case (find_table db [''mcp_tool_requests''], find_table db [''audit_records'']) of
        (Some ledger, Some audit) \<Rightarrow>
          bindR (check_mcp_request_replay rt db subject key digest (Some request_id)) (\<lambda>existing.
          if rc_status existing = REPLAY then Inr (db, existing)
          else if rc_status existing \<noteq> NEW then Inl (deny REPLAY_CONFLICT ''idempotency key conflict'' (Some request_id))
          else write_reservation rt db ledger request (the subject) (the key) digest request_id
                 audit_fault ledger_fault audit_id now)
      | _ \<Rightarrow> Inl (deny AUDIT_UNAVAILABLE ''pre-submit audit unavailable'' (Some request_id)))"

definition reserve_mcp_request ::
  "python \<Rightarrow> database \<Rightarrow> fields \<Rightarrow> bool \<Rightarrow> bool \<Rightarrow> string \<Rightarrow> int \<Rightarrow> (database \<times> ReplayCheck) authz" where
  "reserve_mcp_request rt db request audit_fault ledger_fault audit_id now =
     (let subject = request_value request [''authenticated_subject'']; key = request_value request [''idempotency_key''];
          given = request_value request [''request_id'']; request_id = (if py_bool given then opt_str rt given else []) in
      bindR (request_digest rt request) (\<lambda>digest.
      bindR (ensure (py_bool subject \<and> py_bool key \<and> request_id \<noteq> [])
               (deny INVALID_REQUEST ''reservation assertions missing'' (if request_id = [] then None else Some request_id))) (\<lambda>_.
        reserve_in rt db request subject key digest request_id audit_fault ledger_fault audit_id now)))"

subsection \<open>What an authorized context guarantees\<close>

lemma check_hash_Inr:
  assumes "check_hash rt request rows request_names row_names category rid = Inr h"
  shows "is_hash h" and "list_all (\<lambda>v. v = h) (row_texts rt rows row_names)"
  using assms unfolding check_hash_def Let_def by (auto simp: bindR_eq_Inr ensure_eq_Inr)

lemma check_lease_Inr:
  assumes "check_lease rt job (if py_bool worker then Some (opt_str rt worker) else None) rid now = Inr ()"
  shows "opt_str rt (row_value job [''lease_owner'', ''worker_id'', ''claimed_by'', ''owner_id'']) = opt_str rt worker"
    and "\<exists>t. utc_value rt (row_value job [''lease_expires_at_utc'', ''lease_expires_at'', ''expires_at_utc'', ''lease_deadline_utc'']) = Inr (Some t) \<and> now < t"
  using assms unfolding check_lease_def Let_def by (auto simp: bindR_eq_Inr ensure_eq_Inr split: if_splits)

lemma statuses_of_Inr:
  assumes "statuses_of rt rid rows = Inr ss" and "row \<in> set rows" and "row_value row STATUS_NAMES = Some v"
  shows "lower (py_str rt v) \<in> set ss"
  using assms
proof (induction rows arbitrary: ss)
  case (Cons r rs)
  show ?case
  proof (cases "row_value r STATUS_NAMES")
    case None
    then show ?thesis using Cons.IH [of ss] Cons.prems by auto
  next
    case (Some w)
    then obtain rest where "statuses_of rt rid rs = Inr rest" "ss = lower (py_str rt w) # rest"
      using Cons.prems(1) by (auto simp: bindR_eq_Inr Let_def)
    then show ?thesis using Cons.IH [of rest] Cons.prems(2,3) Some by auto
  qed
qed simp

definition in_progress :: "python \<Rightarrow> fields \<Rightarrow> bool" where
  "in_progress rt row \<longleftrightarrow> \<not> is_cancelled rt row
     \<and> (\<forall>v. row_value row STATUS_NAMES = Some v \<longrightarrow> lower (py_str rt v) \<in> set RUNNING_STATES)"

lemma check_execution_state_Inr:
  assumes "check_execution_state rt execution hunt rid now = Inr ()"
  shows "in_progress rt execution" and "in_progress rt hunt"
proof -
  obtain ss where c: "\<not> is_cancelled rt execution" "\<not> is_cancelled rt hunt"
    and s: "statuses_of rt rid [execution, hunt] = Inr ss" "list_all (\<lambda>s. s \<in> set RUNNING_STATES) ss"
    using assms unfolding check_execution_state_def
    by (auto simp only: bindR_eq_Inr ensure_eq_Inr list_ex_iff list_all_iff)
  have "\<And>r v. r \<in> set [execution, hunt] \<Longrightarrow> row_value r STATUS_NAMES = Some v \<Longrightarrow> lower (py_str rt v) \<in> set RUNNING_STATES"
    using statuses_of_Inr [OF s(1)] s(2) unfolding list_all_iff by blast
  then show "in_progress rt execution" "in_progress rt hunt" using c unfolding in_progress_def by auto
qed

definition same_instant :: "python \<Rightarrow> val option \<Rightarrow> val option \<Rightarrow> bool" where
  "same_instant rt a b \<longleftrightarrow> (\<exists>t. utc_value rt a = Inr (Some t) \<and> utc_value rt b = Inr (Some t))"

lemma check_time_Inr:
  "check_time rt request scope rid name = Inr () \<Longrightarrow> same_instant rt (request_value request [name]) (field scope name)"
  unfolding check_time_def Let_def same_time_def same_instant_def
  by (auto simp: bindR_eq_Inr ensure_eq_Inr split: if_splits)

lemma check_scope_Inr:
  assumes "check_scope rt request source rid = Inr scope"
  shows "scope = scope_of rt source"
    and "same_instant rt (request_value request [''earliest_utc'']) (field scope ''earliest_utc'')"
    and "same_instant rt (request_value request [''latest_utc'']) (field scope ''latest_utc'')"
    and "norm_list rt (request_value request [''indexes'']) = norm_list rt (field scope ''indexes'')"
    and "norm_list rt (request_value request [''sourcetypes'']) = norm_list rt (field scope ''sourcetypes'')"
proof -
  have s: "scope = scope_of rt source"
    and t: "check_time rt request (scope_of rt source) rid ''earliest_utc'' = Inr ()"
      "check_time rt request (scope_of rt source) rid ''latest_utc'' = Inr ()"
    and n: "check_names rt request (scope_of rt source) rid ''indexes'' = Inr ()"
      "check_names rt request (scope_of rt source) rid ''sourcetypes'' = Inr ()"
    using assms unfolding check_scope_def Let_def by (auto simp only: bindR_eq_Inr sum.inject) simp_all
  show "scope = scope_of rt source" by (rule s)
  show "same_instant rt (request_value request [''earliest_utc'']) (field scope ''earliest_utc'')"
    "same_instant rt (request_value request [''latest_utc'']) (field scope ''latest_utc'')"
    unfolding s using t by (auto dest: check_time_Inr)
  show "norm_list rt (request_value request [''indexes'']) = norm_list rt (field scope ''indexes'')"
    "norm_list rt (request_value request [''sourcetypes'']) = norm_list rt (field scope ''sourcetypes'')"
    using n unfolding s check_names_def Let_def ensure_eq_Inr by blast+
qed

definition enforced :: "python \<Rightarrow> fields \<Rightarrow> fields \<Rightarrow> string \<Rightarrow> bool" where
  "enforced rt request limits name \<longleftrightarrow>
     (\<exists>a p n. request_value request [name] = Some a \<and> field limits name = Some p
        \<and> py_int rt a = Inr n \<and> py_int rt p = Inr n \<and> 0 < n)"

lemma check_limit_Inr: "check_limit rt request limits rid name = Inr () \<Longrightarrow> enforced rt request limits name"
  unfolding check_limit_def enforced_def
  by (auto simp: bindR_eq_Inr ensure_eq_Inr split: option.splits)

lemma check_limits_Inr:
  assumes "check_limits rt request source rid = Inr limits"
  shows "limits = limits_of rt source"
    and "list_all (enforced rt request limits) [''max_results'', ''max_bytes'', ''timeout_seconds'']"
proof -
  have l: "limits = limits_of rt source" "check_limit rt request (limits_of rt source) rid ''max_results'' = Inr ()"
    "check_limit rt request (limits_of rt source) rid ''max_bytes'' = Inr ()"
    "check_limit rt request (limits_of rt source) rid ''timeout_seconds'' = Inr ()"
    using assms unfolding check_limits_def Let_def by (auto simp only: bindR_eq_Inr sum.inject) simp_all
  show "limits = limits_of rt source" by (rule l(1))
  show "list_all (enforced rt request limits) [''max_results'', ''max_bytes'', ''timeout_seconds'']"
    unfolding l(1) using l(2-4) by (simp add: check_limit_Inr)
qed

lemma check_deployment_Inr:
  assumes "check_deployment rt request b rid = Inr ()" and "row \<in> set (all_rows b)"
  shows "opt_str rt (row_value row [''deployment_scope_id'', ''customer_scope_id'', ''scope_id''])
    = opt_str rt (request_value request [''deployment_scope_id''])"
  using assms unfolding check_deployment_def ensure_eq_Inr list_all_iff disagrees_def by metis

lemma deny_revoked_Inr:
  assumes "deny_revoked rt rid now rows = Inr ()" and "row \<in> set rows"
  shows "\<exists>t. utc_value rt (row_value row [''revoked_at_utc'', ''created_at_utc'', ''timestamp_utc'']) = Inr (Some t) \<and> now < t"
  using assms by (induction rows) (auto simp: bindR_eq_Inr ensure_eq_Inr)

lemma bindR_E:
  assumes "bindR r f = Inr y"
  obtains x where "r = Inr x" and "f x = Inr y"
  using assms by (auto simp: bindR_eq_Inr)

lemma ensure_E:
  assumes "bindR (ensure c e) f = Inr y"
  obtains "c" and "f () = Inr y"
  using assms by (auto simp: bindR_eq_Inr ensure_eq_Inr)

definition lease_names :: "string list" where
  "lease_names = [''lease_owner'', ''worker_id'', ''claimed_by'', ''owner_id'']"

definition lease_expiry_names :: "string list" where
  "lease_expiry_names = [''lease_expires_at_utc'', ''lease_expires_at'', ''expires_at_utc'', ''lease_deadline_utc'']"

definition deployment_names :: "string list" where
  "deployment_names = [''deployment_scope_id'', ''customer_scope_id'', ''scope_id'']"

definition plan_hash_names :: "string list" where
  "plan_hash_names = [''plan_sha256'', ''approved_plan_sha256'', ''content_sha256'']"

definition config_hash_names :: "string list" where
  "config_hash_names = [''execution_config_sha256'', ''config_sha256'', ''content_sha256'']"

definition scope_row :: "python \<Rightarrow> bound_rows \<Rightarrow> fields" where
  "scope_row rt b = (if scope_of rt (b_query b) \<noteq> [] then b_query b else b_plan b)"

definition limits_row :: "python \<Rightarrow> bound_rows \<Rightarrow> fields" where
  "limits_row rt b = (if limits_of rt (b_query b) \<noteq> [] then b_query b else b_config b)"

lemmas row_names = lease_names_def lease_expiry_names_def deployment_names_def plan_hash_names_def config_hash_names_def
  scope_row_def limits_row_def

lemma context_fields:
  fixes rt request rid subject worker b version ph ch scope policy limits bindings
  defines "cx \<equiv> context_of rt request rid subject worker b version ph ch scope policy limits bindings"
  shows "cx_request_id cx = rid" "cx_authenticated_subject cx = opt_str rt subject" "cx_worker_id cx = opt_str rt worker"
    "cx_deployment_scope_id cx = opt_str rt (request_value request [''deployment_scope_id''])"
    "cx_owner_id cx = opt_str rt (row_value (b_hunt b) [''owner_id'', ''user_id'', ''account_id''])"
    "cx_hunt_id cx = opt_str rt (request_value request [''hunt_id''])" "cx_execution_id cx = b_execution_id b"
    "cx_approval_id cx = opt_str rt (request_value request [''approval_id''])"
    "cx_plan_id cx = opt_str rt (request_value request [''plan_id''])" "cx_plan_sha256 cx = ph" "cx_config_sha256 cx = ch"
    "cx_config_snapshot_id cx = opt_str rt (request_value request [''execution_config_snapshot_id'', ''config_snapshot_id''])"
    "cx_discovery_snapshot_id cx = opt_str rt (request_value request [''discovery_snapshot_id''])"
    "cx_scope cx = scope" "cx_limits cx = limits" "cx_query cx = b_query b"
  unfolding cx_def context_of_def by simp_all

lemma authorize_rows_Inr:
  assumes "authorize_rows rt db request request_id subject worker now = Inr cx"
  obtains b where "load_rows rt db request (Some request_id) = Inr b"
    and "check_deployment rt request b (Some request_id) = Inr ()"
    and "bound_to (b_job b) [''hunt_id''] (cx_hunt_id cx)" "bound_to (b_execution b) [''hunt_id''] (cx_hunt_id cx)"
      "bound_to (b_query b) [''hunt_id''] (cx_hunt_id cx)"
    and "check_lease rt (b_job b) (if py_bool worker then Some (opt_str rt worker) else None) (Some request_id) now = Inr ()"
    and "check_execution_state rt (b_execution b) (b_hunt b) (Some request_id) now = Inr ()"
    and "is_hash (cx_plan_sha256 cx)" "list_all (\<lambda>v. v = cx_plan_sha256 cx) (row_texts rt [b_approval b, b_plan b] plan_hash_names)"
    and "is_hash (cx_config_sha256 cx)" "list_all (\<lambda>v. v = cx_config_sha256 cx) (row_texts rt [b_approval b, b_config b] config_hash_names)"
    and "check_links b (cx_hunt_id cx) (cx_approval_id cx) (cx_plan_id cx) (cx_config_snapshot_id cx) (cx_discovery_snapshot_id cx) (Some request_id) = Inr ()"
    and "check_scope rt request (scope_row rt b) (Some request_id) = Inr (cx_scope cx)"
    and "check_limits rt request (limits_row rt b) (Some request_id) = Inr (cx_limits cx)"
    and "check_revocation rt (find_table db [''execution_authorization_revocations'', ''authorization_revocations''])
           (cx_deployment_scope_id cx) (cx_hunt_id cx) (b_execution_id b) (job_identifier rt request b) (cx_approval_id cx) (Some request_id) now = Inr ()"
    and "cx_request_id cx = request_id" "cx_authenticated_subject cx = opt_str rt subject" "cx_worker_id cx = opt_str rt worker"
      "cx_deployment_scope_id cx = opt_str rt (request_value request [''deployment_scope_id''])"
      "cx_owner_id cx = opt_str rt (row_value (b_hunt b) [''owner_id'', ''user_id'', ''account_id''])"
      "cx_query cx = b_query b" "cx_execution_id cx = b_execution_id b"
  using assms unfolding authorize_rows_def Let_def row_names
proof (elim ensure_E bindR_E, goal_cases)
  case (1 b u1 u2 u3 u4 pv ph ch u5 u6 u7 policy scope limits u8 bindings version)
  have cx: "cx = context_of rt request request_id subject worker b version ph ch scope policy limits bindings"
    using 1 by blast
  have units: "u1 = ()" "u2 = ()" "u3 = ()" "u4 = ()" "u6 = ()" "u7 = ()" "u8 = ()" by simp_all
  note facts = 1(2-) [unfolded units]
  show ?case
    by (rule 1(1) [of b, unfolded cx context_fields])
      (fact facts | rule refl | rule check_hash_Inr, fact facts | use facts in blast)+
qed

lemma authorize_Inr:
  assumes "authorize_mcp_tool_request rt db request call now = Inr cx"
  obtains request_id subject worker where "authorize_rows rt db request request_id subject worker now = Inr cx"
    and "configured_subject (ac_settings call) (or_text (ac_configured_service_subject call) (ac_service_subject call))
      = Some (opt_str rt subject)"
  using assms unfolding authorize_mcp_tool_request_def Let_def
proof (elim ensure_E bindR_E, goal_cases)
  case (1 u)
  show ?case by (rule 1(1)) (fact 1 | use 1(2) in simp)+
qed

lemma check_revocation_Inr:
  assumes "check_revocation rt (Some t) deployment hunt_id execution_id job_id approval_id rid now = Inr ()"
    and "row \<in> set (take 2 (filter (revocation_matches t
           [(''deployment_scope_id'', deployment), (''hunt_id'', hunt_id), (''approval_id'', approval_id)] execution_id job_id) (t_rows t)))"
  shows "\<exists>s. utc_value rt (row_value row [''revoked_at_utc'', ''created_at_utc'', ''timestamp_utc'']) = Inr (Some s) \<and> now < s"
proof -
  have "deny_revoked rt rid now (take 2 (filter (revocation_matches t
       [(''deployment_scope_id'', deployment), (''hunt_id'', hunt_id), (''approval_id'', approval_id)] execution_id job_id) (t_rows t))) = Inr ()"
    using assms(1) unfolding check_revocation_def option.case by (elim ensure_E)
  then show ?thesis using deny_revoked_Inr assms(2) by blast
qed

text \<open>C4. What an authorized context guarantees.  Its eight stored rows exist and all carry the
  asserted deployment; the caller is the configured service; job, execution and query belong to
  the hunt, whose owner is the context's owner; the job is leased to the context's worker and the lease is
  unexpired; execution and hunt are neither cancelled nor in a state other than running; the plan and
  configuration hashes of the context are digests that equal every stored one; the approval, plan
  and query rows link to each other; the query, scope and limits handed to the provider are the
  stored ones; and the request asserted the same window, indexes, sourcetypes and positive limits.\<close>

theorem authorized_context_is_bound:
  assumes "authorize_mcp_tool_request rt db request call now = Inr cx"
  shows "\<exists>b. load_rows rt db request (Some (cx_request_id cx)) = Inr b
    \<and> configured_subject (ac_settings call) (or_text (ac_configured_service_subject call) (ac_service_subject call))
        = Some (cx_authenticated_subject cx)
    \<and> list_all (\<lambda>row. opt_str rt (row_value row deployment_names) = cx_deployment_scope_id cx) (all_rows b)
    \<and> opt_str rt (row_value (b_hunt b) [''owner_id'', ''user_id'', ''account_id'']) = cx_owner_id cx
    \<and> list_all (\<lambda>row. bound_to row [''hunt_id''] (cx_hunt_id cx)) [b_job b, b_execution b, b_query b, b_approval b]
    \<and> opt_str rt (row_value (b_job b) lease_names) = cx_worker_id cx
    \<and> (\<exists>t. utc_value rt (row_value (b_job b) lease_expiry_names) = Inr (Some t) \<and> now < t)
    \<and> in_progress rt (b_execution b) \<and> in_progress rt (b_hunt b)
    \<and> is_hash (cx_plan_sha256 cx) \<and> list_all (\<lambda>v. v = cx_plan_sha256 cx) (row_texts rt [b_approval b, b_plan b] plan_hash_names)
    \<and> is_hash (cx_config_sha256 cx) \<and> list_all (\<lambda>v. v = cx_config_sha256 cx) (row_texts rt [b_approval b, b_config b] config_hash_names)
    \<and> bound_to (b_approval b) [''plan_id''] (cx_plan_id cx) \<and> bound_to (b_query b) [''approval_id''] (cx_approval_id cx)
    \<and> cx_query cx = b_query b \<and> cx_scope cx = scope_of rt (scope_row rt b) \<and> cx_limits cx = limits_of rt (limits_row rt b)
    \<and> list_all (\<lambda>name. same_instant rt (request_value request [name]) (field (cx_scope cx) name)) [''earliest_utc'', ''latest_utc'']
    \<and> list_all (\<lambda>name. norm_list rt (request_value request [name]) = norm_list rt (field (cx_scope cx) name)) [''indexes'', ''sourcetypes'']
    \<and> list_all (enforced rt request (cx_limits cx)) [''max_results'', ''max_bytes'', ''timeout_seconds'']"
proof (rule authorize_Inr [OF assms])
  fix request_id subject worker
  assume rows: "authorize_rows rt db request request_id subject worker now = Inr cx"
    and conf: "configured_subject (ac_settings call) (or_text (ac_configured_service_subject call) (ac_service_subject call))
      = Some (opt_str rt subject)"
  show ?thesis
  proof (rule authorize_rows_Inr [OF rows], goal_cases)
    case (1 b)
    have deployment: "list_all (\<lambda>row. opt_str rt (row_value row deployment_names) = cx_deployment_scope_id cx) (all_rows b)"
      unfolding list_all_iff using check_deployment_Inr [OF 1(2)] 1(19) by (simp add: deployment_names_def)
    have links: "bound_to (b_approval b) [''hunt_id''] (cx_hunt_id cx)" "bound_to (b_approval b) [''plan_id''] (cx_plan_id cx)"
        "bound_to (b_query b) [''approval_id''] (cx_approval_id cx)"
      using 1(12) unfolding check_links_def by (auto simp only: bindR_eq_Inr ensure_eq_Inr)
    note lease = check_lease_Inr [OF 1(6), folded lease_names_def lease_expiry_names_def 1(18)]
      and state = check_execution_state_Inr [OF 1(7)]
      and scope = check_scope_Inr [OF 1(13)] and limits = check_limits_Inr [OF 1(14)]
    show ?case
      by (rule exI [of _ b], intro conjI)
        (use 1(1,3-5,8-11,16,17,20,21) conf deployment links lease state scope limits in \<open>simp_all only: list.pred_inject simp_thms\<close>)
  qed
qed

definition example_python :: python where
  "example_python = \<lparr>py_fromisoformat = (\<lambda>_. None), py_loads = (\<lambda>_. None), py_int_text = (\<lambda>_. None), py_repr = (\<lambda>_. [])\<rparr>"

definition example_hash :: string where "example_hash = replicate 64 (CHR ''a'')"

definition example_time :: "int \<Rightarrow> val" where "example_time t = XTime \<lparr>naive_us = t, utcoffset = Some 0\<rparr>"

definition example_request :: fields where
  "example_request =
     [(''request_id'', XStr ''r1''), (''authenticated_subject'', XStr ''svc''), (''worker_id'', XStr ''w1''), (''idempotency_key'', XStr ''k1''),
      (''deployment_scope_id'', XStr ''d1''), (''hunt_id'', XStr ''h1''), (''execution_id'', XStr ''x1''), (''approval_id'', XStr ''a1''),
      (''plan_id'', XStr ''p1''), (''execution_config_snapshot_id'', XStr ''c1''), (''discovery_snapshot_id'', XStr ''s1''),
      (''query_id'', XStr ''q1''), (''plan_sha256'', XStr example_hash), (''execution_config_sha256'', XStr example_hash),
      (''query_sha256'', XStr example_hash), (''action_digest'', XStr example_hash), (''question_id'', XStr ''n1''), (''purpose'', XStr ''find''),
      (''expected_information_gain'', XStr ''high''), (''policy_version'', XStr ''1.3''), (''earliest_utc'', example_time 1), (''latest_utc'', example_time 2),
      (''indexes'', XList [XStr ''main'']), (''sourcetypes'', XList [XStr ''sysmon'']),
      (''max_results'', XInt 10), (''max_bytes'', XInt 100), (''timeout_seconds'', XInt 5)]"

definition example_table :: "fields \<Rightarrow> db_table" where
  "example_table row = \<lparr>t_columns = map fst row, t_rows = [row]\<rparr>"

definition example_rows :: bound_rows where
  "example_rows =
     (let d = (''deployment_scope_id'', XStr ''d1'') in
      \<lparr>b_job = [d, (''execution_id'', XStr ''x1''), (''hunt_id'', XStr ''h1''), (''worker_id'', XStr ''w1''),
          (''lease_expires_at_utc'', example_time 100), (''status'', XStr ''claimed'')],
       b_execution = [d, (''execution_id'', XStr ''x1''), (''hunt_id'', XStr ''h1''), (''status'', XStr ''running'')],
       b_hunt = [d, (''hunt_id'', XStr ''h1''), (''owner_id'', XStr ''u1''), (''status'', XStr ''running'')],
       b_approval = [d, (''approval_id'', XStr ''a1''), (''hunt_id'', XStr ''h1''), (''plan_id'', XStr ''p1''), (''status'', XStr ''rejected'')],
       b_plan = [d, (''plan_id'', XStr ''p1''), (''plan_sha256'', XStr example_hash)],
       b_config = [d, (''execution_config_snapshot_id'', XStr ''c1''), (''config_sha256'', XStr example_hash)],
       b_discovery = [d, (''discovery_snapshot_id'', XStr ''s1'')],
       b_query = [d, (''query_id'', XStr ''q1''), (''question_id'', XStr ''n1''), (''purpose'', XStr ''find''),
          (''expected_information_gain'', XStr ''high''), (''policy_version'', XStr ''1.3''),
          (''earliest_utc'', example_time 1), (''latest_utc'', example_time 2), (''indexes'', XList [XStr ''main'']),
          (''sourcetypes'', XList [XStr ''sysmon'']), (''max_results'', XInt 10), (''max_bytes'', XInt 100), (''timeout_seconds'', XInt 5)],
       b_execution_id = ''x1''\<rparr>)"

definition example_database :: database where
  "example_database =
     [(''execution_jobs'', example_table (b_job example_rows)), (''hunt_executions'', example_table (b_execution example_rows)),
      (''hunts'', example_table (b_hunt example_rows)), (''plan_approvals'', example_table (b_approval example_rows)),
      (''plans'', example_table (b_plan example_rows)), (''execution_config_snapshots'', example_table (b_config example_rows)),
      (''discovery_snapshots'', example_table (b_discovery example_rows)), (''query_ledger'', example_table (b_query example_rows))]"

definition example_call :: authorization_call where
  "example_call = \<lparr>ac_authenticated_subject = Some ''svc'', ac_configured_service_subject = Some ''svc'', ac_service_subject = None,
     ac_settings = [], ac_envelope_worker_id = Some ''w1'', ac_worker_id = None\<rparr>"

lemmas example_eval = example_request_def field_def SECTIONS_def opt_str_def

lemma example_asserted:
  "request_value example_request [''request_id''] = Some (XStr ''r1'')"
  "request_value example_request [''authenticated_subject''] = Some (XStr ''svc'')"
  "request_value example_request [''worker_id''] = Some (XStr ''w1'')"
  "request_value example_request [''worker_id'', ''lease_owner''] = Some (XStr ''w1'')"
  "request_value example_request [''deployment_scope_id''] = Some (XStr ''d1'')"
  "request_value example_request [''hunt_id''] = Some (XStr ''h1'')"
  "request_value example_request [''execution_id''] = Some (XStr ''x1'')"
  "request_value example_request [''execution_id'', ''execution_job_id''] = Some (XStr ''x1'')"
  "request_value example_request [''approval_id''] = Some (XStr ''a1'')"
  "request_value example_request [''plan_id''] = Some (XStr ''p1'')"
  "request_value example_request [''execution_config_snapshot_id''] = Some (XStr ''c1'')"
  "request_value example_request [''execution_config_snapshot_id'', ''config_snapshot_id''] = Some (XStr ''c1'')"
  "request_value example_request [''discovery_snapshot_id''] = Some (XStr ''s1'')"
  "request_value example_request [''query_id''] = Some (XStr ''q1'')"
  "request_value example_request [''plan_sha256'', ''approved_plan_sha256''] = Some (XStr example_hash)"
  "request_value example_request [''execution_config_sha256'', ''config_sha256''] = Some (XStr example_hash)"
  "request_value example_request [''query_sha256'', ''query_hash''] = Some (XStr example_hash)"
  "request_value example_request [''question_id''] = Some (XStr ''n1'')"
  "request_value example_request [''purpose''] = Some (XStr ''find'')"
  "request_value example_request [''expected_information_gain''] = Some (XStr ''high'')"
  "request_value example_request [''policy_version'', ''query_policy_version''] = Some (XStr ''1.3'')"
  "request_value example_request [''earliest_utc''] = Some (example_time 1)"
  "request_value example_request [''latest_utc''] = Some (example_time 2)"
  "request_value example_request [''indexes''] = Some (XList [XStr ''main''])"
  "request_value example_request [''sourcetypes''] = Some (XList [XStr ''sysmon''])"
  "request_value example_request [''max_results''] = Some (XInt 10)"
  "request_value example_request [''max_bytes''] = Some (XInt 100)"
  "request_value example_request [''timeout_seconds''] = Some (XInt 5)"
  by (simp_all add: example_eval example_time_def)

lemma example_not_asserted:
  "request_value example_request [''execution_job_id''] = None" "request_value example_request [''requested_fields''] = None"
  "request_value example_request [''plan_version''] = None" "request_value example_request [''tool'', ''operation''] = None"
  "request_value example_request [''operation_type''] = None"
  "request_value example_request [''policy_hash'', ''query_policy_hash'', ''policy_sha256''] = None"
  by (simp_all add: example_eval)

lemma example_loaded: "load_rows example_python example_database example_request (Some ''r1'') = Inr example_rows"
  unfolding load_rows_def Let_def example_asserted example_not_asserted
  by (simp add: example_database_def example_table_def example_rows_def require_table_def require_row_def
      lookup_any_def column_is_def field_def opt_str_def py_or_def persisted_id_def execution_lookup_def List.map_filter_simps Let_def)

lemma example_hash_ok: "is_hash example_hash"
  by (simp add: is_hash_def example_hash_def lower_hex_def list_all_iff)

lemmas example_row_eval = example_rows_def Let_def field_def opt_str_def example_time_def bound_to_def STATUS_NAMES_def
  utc_value_def aware_utc_def as_utc_def valid_utc_def MAX_US_def

lemma lower_letters:
  "lower_char (CHR ''a'') = CHR ''a''" "lower_char (CHR ''c'') = CHR ''c''" "lower_char (CHR ''d'') = CHR ''d''" "lower_char (CHR ''e'') = CHR ''e''" "lower_char (CHR ''g'') = CHR ''g''" "lower_char (CHR ''i'') = CHR ''i''" "lower_char (CHR ''l'') = CHR ''l''" "lower_char (CHR ''m'') = CHR ''m''" "lower_char (CHR ''n'') = CHR ''n''" "lower_char (CHR ''r'') = CHR ''r''" "lower_char (CHR ''u'') = CHR ''u''"
  by code_simp+

lemma example_checks_1:
  "check_deployment example_python example_request example_rows (Some ''r1'') = Inr ()"
  "check_lease example_python (b_job example_rows) (Some ''w1'') (Some ''r1'') 50 = Inr ()"
  "check_execution_state example_python (b_execution example_rows) (b_hunt example_rows) (Some ''r1'') 50 = Inr ()"
  "check_identifiers example_python example_request example_rows (Some ''r1'') = Inr ()"
  "deny_if_not_equal example_python example_request (b_plan example_rows) [''plan_version''] PLAN_MISMATCH (Some ''r1'') = Inr None"
  "check_links example_rows ''h1'' ''a1'' ''p1'' ''c1'' ''s1'' (Some ''r1'') = Inr ()"
  "check_questions example_python example_request (b_query example_rows) (Some ''r1'') = Inr ()"
  by (simp_all add: check_deployment_def check_lease_def check_execution_state_def check_identifiers_def deny_if_not_equal_def
      check_links_def check_questions_def all_rows_def disagrees_def differs_def example_asserted example_not_asserted
      is_cancelled_def lower_letters RUNNING_STATES_def TERMINAL_STATES_def check_expiry_def example_row_eval
      del: request_value.simps)

lemma example_checks_2:
  "check_hash example_python example_request [b_approval example_rows, b_plan example_rows] [''plan_sha256'', ''approved_plan_sha256'']
     [''plan_sha256'', ''approved_plan_sha256'', ''content_sha256''] HASH_MISMATCH (Some ''r1'') = Inr example_hash"
  "check_hash example_python example_request [b_approval example_rows, b_config example_rows] [''execution_config_sha256'', ''config_sha256'']
     [''execution_config_sha256'', ''config_sha256'', ''content_sha256''] HASH_MISMATCH (Some ''r1'') = Inr example_hash"
  "check_hash example_python example_request [b_query example_rows] [''query_sha256'', ''query_hash'']
     [''query_sha256'', ''query_hash'', ''normalized_query_sha256'', ''spl_sha256'', ''cache_key''] QUERY_MISMATCH (Some ''r1'') = Inr example_hash"
proof -
  have "example_hash \<noteq> []" by (simp add: example_hash_def)
  then show "check_hash example_python example_request [b_approval example_rows, b_plan example_rows] [''plan_sha256'', ''approved_plan_sha256'']
     [''plan_sha256'', ''approved_plan_sha256'', ''content_sha256''] HASH_MISMATCH (Some ''r1'') = Inr example_hash"
  "check_hash example_python example_request [b_approval example_rows, b_config example_rows] [''execution_config_sha256'', ''config_sha256'']
     [''execution_config_sha256'', ''config_sha256'', ''content_sha256''] HASH_MISMATCH (Some ''r1'') = Inr example_hash"
  "check_hash example_python example_request [b_query example_rows] [''query_sha256'', ''query_hash'']
     [''query_sha256'', ''query_hash'', ''normalized_query_sha256'', ''spl_sha256'', ''cache_key''] QUERY_MISMATCH (Some ''r1'') = Inr example_hash"
    by (simp_all add: check_hash_def row_texts_def blank_def example_asserted example_hash_ok example_row_eval
      del: request_value.simps)
qed

lemma example_query_columns:
  "scope_of example_python (b_query example_rows) =
     [(''earliest_utc'', example_time 1), (''latest_utc'', example_time 2), (''indexes'', XList [XStr ''main'']), (''sourcetypes'', XList [XStr ''sysmon''])]"
  "limits_of example_python (b_query example_rows) = [(''max_results'', XInt 10), (''max_bytes'', XInt 100), (''timeout_seconds'', XInt 5)]"
  by (simp_all add: scope_of_def limits_of_def with_aliases_def SCOPE_ALIASES_def LIMIT_ALIASES_def json_column_def as_mapping_def
      example_rows_def Let_def field_def example_time_def)

lemma example_checks_3:
  "is_ok (check_policy example_python example_request [b_execution example_rows, b_approval example_rows, b_plan example_rows,
     b_config example_rows, b_discovery example_rows, b_query example_rows] (Some ''r1''))"
  by (simp add: check_policy_def policy_of_def with_aliases_def POLICY_ALIASES_def json_column_def as_mapping_def disagrees_def
      example_asserted example_not_asserted example_row_eval del: request_value.simps)

lemma example_checks_4:
  "is_ok (check_scope example_python example_request (b_query example_rows) (Some ''r1''))"
  "is_ok (check_limits example_python example_request (b_query example_rows) (Some ''r1''))"
  unfolding check_scope_def check_limits_def Let_def example_query_columns
  by (simp_all add: check_time_def check_names_def norm_list_def same_time_def check_limit_def
      example_asserted example_not_asserted field_def example_time_def utc_value_def aware_utc_def as_utc_def valid_utc_def MAX_US_def
      del: request_value.simps)

lemma example_authorized: "is_ok (authorize_mcp_tool_request example_python example_database example_request example_call 50)"
proof -
  obtain policy scope limits where p: "check_policy example_python example_request [b_execution example_rows, b_approval example_rows, b_plan example_rows,
     b_config example_rows, b_discovery example_rows, b_query example_rows] (Some ''r1'') = Inr policy"
    and s: "check_scope example_python example_request (b_query example_rows) (Some ''r1'') = Inr scope"
    and l: "check_limits example_python example_request (b_query example_rows) (Some ''r1'') = Inr limits"
    using example_checks_3 example_checks_4 by (auto simp: is_ok_iff)
  have rows: "row_value (b_hunt example_rows) [''owner_id'', ''user_id'', ''account_id''] = Some (XStr ''u1'')"
      "bound_to (b_job example_rows) [''hunt_id''] ''h1''" "bound_to (b_execution example_rows) [''hunt_id''] ''h1''"
      "bound_to (b_query example_rows) [''hunt_id''] ''h1''"
    by (simp_all add: example_row_eval)
  have sem: "\<not> is_semantic example_python example_request"
    by (simp add: is_semantic_def status_text_def example_not_asserted del: request_value.simps)
  have norev: "find_table example_database [''execution_authorization_revocations'', ''authorization_revocations''] = None"
    by (simp add: example_database_def)
  have "is_ok (authorize_rows example_python example_database example_request ''r1'' subject (Some (XStr ''w1'')) 50)" for subject
    unfolding authorize_rows_def Let_def example_asserted example_not_asserted opt_str_def option.case py_str.simps
      example_loaded bindR_simps example_checks_1 example_checks_2 rows norev
    by (simp add: example_checks_1 example_query_columns p s l sem rows check_revocation_def del: request_value.simps)
  moreover have "required_request example_request (Some ''r1'') = Inr ()"
    by (simp add: required_request_def example_asserted blank_def del: request_value.simps)
  ultimately show ?thesis
    unfolding authorize_mcp_tool_request_def Let_def example_asserted
    by (simp add: example_call_def configured_subject_def or_text_def py_or_def opt_str_def del: request_value.simps)
qed

theorem authorized_context_is_bound_witness:
  "\<exists>cx b. authorize_mcp_tool_request example_python example_database example_request example_call 50 = Inr cx
    \<and> load_rows example_python example_database example_request (Some (cx_request_id cx)) = Inr b
    \<and> cx_query cx = b_query b \<and> is_hash (cx_plan_sha256 cx)"
proof -
  obtain cx where cx: "authorize_mcp_tool_request example_python example_database example_request example_call 50 = Inr cx"
    using example_authorized by (auto simp: is_ok_iff)
  show ?thesis using authorized_context_is_bound [OF cx] cx by blast
qed

subsection \<open>What authorization does not look at\<close>

text \<open>The status of the approval is not read: the request above is authorized although its approval is
  rejected.\<close>

lemma rejected_approval_is_authorized:
  "\<exists>cx. authorize_mcp_tool_request example_python example_database example_request example_call 50 = Inr cx"
  "row_value (b_approval example_rows) [''status''] = Some (XStr ''rejected'')"
  using example_authorized by (simp_all add: is_ok_iff example_row_eval)

text \<open>Of the revocations that match only two are fetched, in no stated order: two that lie in the future hide
  every later row, whatever it says.\<close>

lemma revocations_beyond_two_are_ignored:
  assumes "list_all (revocation_matches t [(''deployment_scope_id'', d), (''hunt_id'', h), (''approval_id'', a)] x j) [r1, r2]"
    and "t_rows t = r1 # r2 # rest"
  shows "check_revocation rt (Some t) d h x j a rid now = check_revocation rt (Some (t\<lparr>t_rows := [r1, r2]\<rparr>)) d h x j a rid now"
proof -
  have same: "revocation_matches (t\<lparr>t_rows := [r1, r2]\<rparr>) keys x j = revocation_matches t keys x j" for keys
    unfolding revocation_matches_def by simp
  show ?thesis using assms unfolding check_revocation_def option.case same by (simp add: numeral_2_eq_2)
qed

text \<open>Hunts live in the table \<open>workflow_hunts\<close>; without one of the expected names no request is authorized.\<close>

lemma missing_hunts_table_denies:
  assumes "find_table db [''hunts'', ''hunt''] = None"
  shows "\<not> is_ok (authorize_mcp_tool_request rt db request call now)"
proof
  assume "is_ok (authorize_mcp_tool_request rt db request call now)"
  then obtain cx where "authorize_mcp_tool_request rt db request call now = Inr cx" by (auto simp: is_ok_iff)
  then obtain i s w where "authorize_rows rt db request i s w now = Inr cx" by (rule authorize_Inr)
  then obtain b where "load_rows rt db request (Some i) = Inr b" by (rule authorize_rows_Inr)
  then obtain t where "require_table db [''hunts'', ''hunt''] (Some i) = Inr t"
    unfolding load_rows_def Let_def by (elim bindR_E)
  then show False using assms by (simp add: require_table_def del: find_table.simps)
qed

subsection \<open>A key is reserved once\<close>

lemma field_only_columns: "field (only_columns t data) n = (if n \<in> set (t_columns t) then field data n else None)"
proof -
  have "map_of (only_columns t data) n = (if n \<in> set (t_columns t) then map_of data n else None)"
    unfolding only_columns_def by (induction data) auto
  then show ?thesis by (simp add: field_def)
qed

lemma find_table_add_row:
  "find_table (add_row name row db) [n] =
     map_option (\<lambda>t. if n = name then t\<lparr>t_rows := t_rows t @ [only_columns t row]\<rparr> else t) (find_table db [n])"
proof -
  have "map_of (add_row name row db) n =
      map_option (\<lambda>t. if n = name then t\<lparr>t_rows := t_rows t @ [only_columns t row]\<rparr> else t) (map_of db n)"
    unfolding add_row_def by (induction db) auto
  then show ?thesis by (simp split: option.splits)
qed

lemma request_digest_nonempty: "request_digest rt request = Inr d \<Longrightarrow> d \<noteq> []"
proof -
  assume d: "request_digest rt request = Inr d"
  have "length d = 64"
  proof (cases "py_bool (request_value request [''action_digest''])")
    case True
    then show ?thesis using d by (auto simp: request_digest_def Let_def is_hash_def bindR_eq_Inr ensure_eq_Inr)
  next
    case False
    then show ?thesis using d hexdigest_form
      by (auto simp: request_digest_def Let_def action_digest_def split: option.splits)
  qed
  then show ?thesis by auto
qed

definition ledger_columns :: "string list" where
  "ledger_columns = [''authenticated_subject'', ''idempotency_key'', ''action_digest'', ''request_id'']"

lemma ledger_row_fields:
  "field (ledger_row rt request i s k d sid now) ''authenticated_subject'' = Some (XStr (py_str rt s))"
  "field (ledger_row rt request i s k d sid now) ''idempotency_key'' = Some (XStr (py_str rt k))"
  "field (ledger_row rt request i s k d sid now) ''action_digest'' = Some (XStr d)"
  "field (ledger_row rt request i s k d sid now) ''request_id'' = Some (XStr i)"
  by (simp_all add: ledger_row_def field_def)

lemma write_reservation_Inr:
  assumes "write_reservation rt db ledger request s k d i af lf aid now = Inr (db', r)"
  obtains sid where "db' = add_row ''mcp_tool_requests'' (ledger_row rt request i s k d sid now)
                             (add_row ''audit_records'' (audit_row rt request i s aid now) db)"
    and "r = \<lparr>rc_status = NEW, rc_request_id = Some i, rc_action_digest = Some d\<rparr>"
  using assms unfolding write_reservation_def Let_def by (auto simp: bindR_eq_Inr split: if_splits)

lemma reserve_in_Inr:
  assumes "reserve_in rt db request (Some s) (Some k) d i af lf aid now = Inr (db', r)"
  obtains (replay) "rc_status r = REPLAY" "db' = db"
  | (new) ledger audit sid where "find_table db [''mcp_tool_requests''] = Some ledger" "find_table db [''audit_records''] = Some audit"
      "find (holds_key s k) (t_rows ledger) = None"
      "db' = add_row ''mcp_tool_requests'' (ledger_row rt request i s k d sid now)
               (add_row ''audit_records'' (audit_row rt request i s aid now) db)"
      "r = \<lparr>rc_status = NEW, rc_request_id = Some i, rc_action_digest = Some d\<rparr>"
proof -
  obtain ledger audit where t: "find_table db [''mcp_tool_requests''] = Some ledger" "find_table db [''audit_records''] = Some audit"
    using assms unfolding reserve_in_def by (auto simp del: find_table.simps split: option.splits)
  obtain existing where e: "check_mcp_request_replay rt db (Some s) (Some k) d (Some i) = Inr existing"
    and rest: "(if rc_status existing = REPLAY then Inr (db, existing)
          else if rc_status existing \<noteq> NEW then Inl (deny REPLAY_CONFLICT ''idempotency key conflict'' (Some i))
          else write_reservation rt db ledger request s k d i af lf aid now) = Inr (db', r)"
    using assms unfolding reserve_in_def t prod.case option.case option.sel by (rule bindR_E)
  show ?thesis
  proof (cases "rc_status existing = REPLAY")
    case True
    then show ?thesis using rest replay by simp
  next
    case False
    then have st: "rc_status existing = NEW" and w: "write_reservation rt db ledger request s k d i af lf aid now = Inr (db', r)"
      using rest by (auto split: if_splits)
    have "find (holds_key s k) (t_rows ledger) = None"
      using e st unfolding check_mcp_request_replay_def t option.case option.sel
      by (elim ensure_E) (auto simp: classify_def Let_def split: option.splits if_splits)
    with w show ?thesis using new [OF t] by (rule_tac write_reservation_Inr [OF w]) simp
  qed
qed

lemma replay_after_row:
  assumes "find_table db [''mcp_tool_requests''] = Some ledger" and "t_rows ledger = rows @ [row]"
    and "set ledger_columns \<subseteq> set (t_columns ledger)" and "find (holds_key (XStr s) (XStr k)) rows = None"
    and "field row ''authenticated_subject'' = Some (XStr s)" "field row ''idempotency_key'' = Some (XStr k)"
    and "field row ''action_digest'' = Some (XStr d)" "field row ''request_id'' = Some (XStr i)"
    and "d \<noteq> []" "i \<noteq> []" "s \<noteq> []" "k \<noteq> []" "d' \<noteq> []"
  shows "check_mcp_request_replay rt db (Some (XStr s)) (Some (XStr k)) d' rid =
     Inr \<lparr>rc_status = (if d = d' then REPLAY else CONFLICT), rc_request_id = Some i, rc_action_digest = Some d\<rparr>"
proof -
  have "find (holds_key (XStr s) (XStr k)) (t_rows ledger) = Some row"
    using assms(2,4-6) by (simp add: find_append holds_key_def column_is_def)
  then have "classify rt ledger (XStr s) (XStr k) d' =
     \<lparr>rc_status = (if d = d' then REPLAY else CONFLICT), rc_request_id = Some i, rc_action_digest = Some d\<rparr>"
    using assms(7-10) by (simp add: classify_def opt_str_def)
  then show ?thesis using assms(1,3,9-13) by (simp add: check_mcp_request_replay_def ledger_columns_def ensure_def del: find_table.simps)
qed

lemma py_bool_str: "py_bool (Some (XStr s)) \<longleftrightarrow> s \<noteq> []"
  by simp

text \<open>C5.  Once a request has been reserved, its idempotency key is taken: any later request of the
  same subject under that key is answered from the ledger without writing anything, as a replay that
  names the first request when the two digests agree, and as a conflict when they differ, whatever
  the later request's identifier is.\<close>

theorem reservation_happens_once:
  assumes "reserve_mcp_request rt db request audit_fault ledger_fault audit_id now = Inr (db', r)" and "rc_status r = NEW"
    and "find_table db [''mcp_tool_requests''] = Some ledger" and "set ledger_columns \<subseteq> set (t_columns ledger)"
    and "request_value request [''authenticated_subject''] = Some (XStr subject)" "request_value request [''idempotency_key''] = Some (XStr key)"
    and "request_value later [''authenticated_subject''] = Some (XStr subject)" "request_value later [''idempotency_key''] = Some (XStr key)"
    and "request_value later [''request_id''] = Some (XStr later_id)" and "later_id \<noteq> []"
    and "request_digest rt request = Inr digest" and "request_digest rt later = Inr later_digest"
  shows "reserve_mcp_request rt db' later audit_fault' ledger_fault' audit_id' now' =
     (if later_digest = digest then Inr (db', r\<lparr>rc_status := REPLAY\<rparr>)
      else Inl (deny REPLAY_CONFLICT ''idempotency key conflict'' (Some later_id)))"
proof -
  define i where "i = (if py_bool (request_value request [''request_id'']) then opt_str rt (request_value request [''request_id'']) else [])"
  have ne: "subject \<noteq> []" "key \<noteq> []" "i \<noteq> []"
    and go: "reserve_in rt db request (Some (XStr subject)) (Some (XStr key)) digest i audit_fault ledger_fault audit_id now = Inr (db', r)"
    using assms(1) unfolding reserve_mcp_request_def Let_def i_def [symmetric] assms(5,6,11) bindR_simps py_bool_str
    by (auto elim!: ensure_E)
  obtain ledger0 audit sid where t: "find_table db [''mcp_tool_requests''] = Some ledger0" "find_table db [''audit_records''] = Some audit"
      and unheld: "find (holds_key (XStr subject) (XStr key)) (t_rows ledger0) = None"
      and db': "db' = add_row ''mcp_tool_requests'' (ledger_row rt request i (XStr subject) (XStr key) digest sid now)
               (add_row ''audit_records'' (audit_row rt request i (XStr subject) audit_id now) db)"
      and r: "r = \<lparr>rc_status = NEW, rc_request_id = Some i, rc_action_digest = Some digest\<rparr>"
    using go assms(2) by (elim reserve_in_Inr) (simp, blast)
  define row where "row = only_columns ledger (ledger_row rt request i (XStr subject) (XStr key) digest sid now)"
  have led: "find_table db' [''mcp_tool_requests''] = Some (ledger\<lparr>t_rows := t_rows ledger @ [row]\<rparr>)"
    unfolding db' find_table_add_row assms(3) row_def by simp
  have aud: "\<exists>a. find_table db' [''audit_records''] = Some a"
    unfolding db' find_table_add_row t(2) by simp
  have same: "ledger0 = ledger" using t(1) assms(3) by simp
  have fields: "field row ''authenticated_subject'' = Some (XStr subject)" "field row ''idempotency_key'' = Some (XStr key)"
      "field row ''action_digest'' = Some (XStr digest)" "field row ''request_id'' = Some (XStr i)"
    using assms(4) unfolding row_def field_only_columns ledger_row_fields ledger_columns_def by simp_all
  have d: "digest \<noteq> []" "later_digest \<noteq> []" using assms(11,12) request_digest_nonempty by blast+
  have check: "check_mcp_request_replay rt db' (Some (XStr subject)) (Some (XStr key)) later_digest (Some later_id) =
     Inr \<lparr>rc_status = (if digest = later_digest then REPLAY else CONFLICT), rc_request_id = Some i, rc_action_digest = Some digest\<rparr>"
    by (rule replay_after_row [OF led _ _ _ fields d(1) ne(3,1,2) d(2)]) (use assms(4) unheld same in simp_all)
  have "reserve_in rt db' later (Some (XStr subject)) (Some (XStr key)) later_digest later_id audit_fault' ledger_fault' audit_id' now' =
     (if later_digest = digest then Inr (db', r\<lparr>rc_status := REPLAY\<rparr>)
      else Inl (deny REPLAY_CONFLICT ''idempotency key conflict'' (Some later_id)))"
    using aud unfolding reserve_in_def led check by (auto simp: r)
  then show ?thesis
    unfolding reserve_mcp_request_def Let_def assms(7-9,12) bindR_simps py_bool_str using ne assms(10) by (simp add: opt_str_def ensure_def)
qed

definition example_ledgers :: database where
  "example_ledgers = [(''mcp_tool_requests'', \<lparr>t_columns = ledger_columns, t_rows = []\<rparr>),
     (''audit_records'', \<lparr>t_columns = [''audit_id'', ''request_id''], t_rows = []\<rparr>)]"

definition example_reservation :: "string \<Rightarrow> char \<Rightarrow> fields" where
  "example_reservation request_id c = [(''authenticated_subject'', XStr ''worker''), (''idempotency_key'', XStr ''k1''),
     (''request_id'', XStr request_id), (''action_digest'', XStr (replicate 64 c))]"

lemma example_reservation_values:
  "request_value (example_reservation i c) [''authenticated_subject''] = Some (XStr ''worker'')"
  "request_value (example_reservation i c) [''idempotency_key''] = Some (XStr ''k1'')"
  "request_value (example_reservation i c) [''request_id''] = Some (XStr i)"
  "request_value (example_reservation i c) [''action_digest''] = Some (XStr (replicate 64 c))"
  by (simp_all add: example_reservation_def field_def)

lemma example_reservation_digest:
  "c \<in> set ''ab'' \<Longrightarrow> request_digest example_python (example_reservation i c) = Inr (replicate 64 c)"
  by (auto simp: request_digest_def example_reservation_values opt_str_def is_hash_def ensure_def list_all_iff lower_hex_def simp del: request_value.simps)

lemma example_reserved:
  "\<exists>db' r. reserve_mcp_request example_python example_ledgers (example_reservation ''r1'' CHR ''a'') False False ''a1'' 5 = Inr (db', r)
     \<and> rc_status r = NEW"
  unfolding reserve_mcp_request_def Let_def example_reservation_values
  by (simp add: example_reservation_digest opt_str_def ensure_def reserve_in_def example_ledgers_def check_mcp_request_replay_def
      ledger_columns_def classify_def write_reservation_def deterministic_sid_def ledger_conflict_def del: request_value.simps)

theorem reservation_happens_once_witness:
  "\<exists>db' r. reserve_mcp_request example_python example_ledgers (example_reservation ''r1'' CHR ''a'') False False ''a1'' 5 = Inr (db', r)
     \<and> reserve_mcp_request example_python db' (example_reservation ''r2'' CHR ''a'') False False ''a2'' 6 = Inr (db', r\<lparr>rc_status := REPLAY\<rparr>)
     \<and> reserve_mcp_request example_python db' (example_reservation ''r3'' CHR ''b'') False False ''a3'' 7
         = Inl (deny REPLAY_CONFLICT ''idempotency key conflict'' (Some ''r3''))"
proof -
  obtain db' r where n: "reserve_mcp_request example_python example_ledgers (example_reservation ''r1'' CHR ''a'') False False ''a1'' 5 = Inr (db', r)"
      "rc_status r = NEW"
    using example_reserved by blast
  have led: "find_table example_ledgers [''mcp_tool_requests''] = Some \<lparr>t_columns = ledger_columns, t_rows = []\<rparr>"
    by (simp add: example_ledgers_def)
  note once = reservation_happens_once [OF n led _ example_reservation_values(1,2) example_reservation_values(1-3) _ example_reservation_digest example_reservation_digest]
  have "reserve_mcp_request example_python db' (example_reservation ''r2'' CHR ''a'') False False ''a2'' 6 = Inr (db', r\<lparr>rc_status := REPLAY\<rparr>)"
    by (subst once) simp_all
  moreover have "reserve_mcp_request example_python db' (example_reservation ''r3'' CHR ''b'') False False ''a3'' 7
         = Inl (deny REPLAY_CONFLICT ''idempotency key conflict'' (Some ''r3''))"
    by (subst once) simp_all
  ultimately show ?thesis using n(1) by blast
qed

end
