(* ===== verification/JsonData.thy ===== *)
theory JsonData
  imports Common
begin

text \<open>
  JSON values as the services use them: the errors of \<^verbatim>\<open>domain/errors.py\<close>, \<open>dict.get\<close>, subscripts, iteration,
  \<open>==\<close>, \<open>str\<close>, and \<open>json.dumps\<close> with its standard separators.  That text determines the value
  up to the order of keys (\<open>dumps_text_inject\<close>).
\<close>

datatype workflow_error =
    NotFound string
  | Conflict string
  | Validation string
  | IntegrationUnavailable string
  | Crash py_error

type_synonym 'a outcome = "workflow_error + 'a"
type_synonym json_fields = "(string \<times> json) list"

text \<open>\<open>str\<close> of a list or dictionary, and the instant that \<open>datetime.fromisoformat\<close> reads from a text whose \<open>Z\<close>
  was replaced, \<open>None\<close> when it raises or the result has no offset.\<close>

record json_env =
  container_text :: "json \<Rightarrow> string"
  instant_of :: "string \<Rightarrow> int option"

subsection \<open>Python on JSON values\<close>

text \<open>\<open>json.dumps\<close> with its standard separators.\<close>

fun dumps_text :: "(char \<Rightarrow> string) \<Rightarrow> json \<Rightarrow> string" where
  "dumps_text esc JNull = ''null''"
| "dumps_text esc (JBool b) = (if b then ''true'' else ''false'')"
| "dumps_text esc (JInt i) = int_text i"
| "dumps_text esc (JStr s) = str_text esc s"
| "dumps_text esc (JList xs) = ''['' @ join '', '' (map (dumps_text esc) xs) @ '']''"
| "dumps_text esc (JObj kvs) = ''{'' @ join '', '' (map (\<lambda>kv. str_text esc (fst kv) @ '': '' @ dumps_text esc (snd kv)) kvs) @ ''}''"

definition sorted_text :: "json \<Rightarrow> string" where
  "sorted_text j = dumps_text escape_char (sort_keys j)"

text \<open>\<open>str(value)\<close>, \<open>dict.get\<close>, the elements a \<open>for\<close> loop sees, and \<open>==\<close>, for which a dictionary has no
  order and \<open>True\<close> is 1.\<close>

fun json_str :: "json_env \<Rightarrow> json \<Rightarrow> string" where
  "json_str env JNull = ''None''"
| "json_str env (JBool b) = (if b then ''True'' else ''False'')"
| "json_str env (JInt i) = int_text i"
| "json_str env (JStr s) = s"
| "json_str env j = container_text env j"

definition get_or :: "json_fields \<Rightarrow> string \<Rightarrow> json \<Rightarrow> json" where
  "get_or kvs k d = (case map_of kvs k of Some v \<Rightarrow> v | None \<Rightarrow> d)"

definition field_of :: "json_fields \<Rightarrow> string \<Rightarrow> json outcome" where
  "field_of kvs k = (case map_of kvs k of None \<Rightarrow> Inl (Crash (KeyError k)) | Some v \<Rightarrow> Inr v)"

fun iterate :: "json \<Rightarrow> json list outcome" where
  "iterate (JList xs) = Inr xs"
| "iterate (JObj kvs) = Inr (map (\<lambda>kv. JStr (fst kv)) kvs)"
| "iterate (JStr s) = Inr (map (\<lambda>c. JStr [c]) s)"
| "iterate _ = Inl (Crash (TypeError ''object is not iterable''))"

fun as_number :: "json \<Rightarrow> json" where
  "as_number (JBool b) = JInt (if b then 1 else 0)"
| "as_number (JList xs) = JList (map as_number xs)"
| "as_number (JObj kvs) = JObj (map (\<lambda>kv. (fst kv, as_number (snd kv))) kvs)"
| "as_number j = j"

definition json_equal :: "json \<Rightarrow> json \<Rightarrow> bool" where
  "json_equal a b \<longleftrightarrow> sort_keys (as_number a) = sort_keys (as_number b)"

fun text_json :: "json \<Rightarrow> bool" where
  "text_json (JStr s) \<longleftrightarrow> strip s \<noteq> []"
| "text_json _ \<longleftrightarrow> False"

fun list_json :: "json \<Rightarrow> bool" where
  "list_json (JList xs) \<longleftrightarrow> True"
| "list_json _ \<longleftrightarrow> False"

fun object_json :: "json \<Rightarrow> bool" where
  "object_json (JObj kvs) \<longleftrightarrow> True"
| "object_json _ \<longleftrightarrow> False"

fun elements :: "json \<Rightarrow> json list" where
  "elements (JList xs) = xs"
| "elements _ = []"

fun object_fields :: "json \<Rightarrow> json_fields" where
  "object_fields (JObj kvs) = kvs"
| "object_fields _ = []"

fun hashable :: "json \<Rightarrow> bool" where
  "hashable (JList _) \<longleftrightarrow> False"
| "hashable (JObj _) \<longleftrightarrow> False"
| "hashable _ \<longleftrightarrow> True"

definition objects :: "json list \<Rightarrow> json_fields list" where
  "objects js = map object_fields (filter object_json js)"

text \<open>An exception of a pure helper inside the service.\<close>

definition crashing :: "'a result \<Rightarrow> 'a outcome" where
  "crashing r = (case r of Inl e \<Rightarrow> Inl (Crash e) | Inr x \<Rightarrow> Inr x)"

subsection \<open>Spaced text determines the value\<close>

text \<open>A scanner that drops the spaces outside string literals; it turns the spaced text into the compact one.\<close>

fun squeeze :: "bool \<Rightarrow> string \<Rightarrow> string" where
  "squeeze inside [] = []"
| "squeeze False (c # cs) = (if c = CHR '' '' then squeeze False cs else c # squeeze (c = dquote) cs)"
| "squeeze True (c # cs) =
     (if c = backslash then (case cs of [] \<Rightarrow> [c] | d # ds \<Rightarrow> c # d # squeeze True ds) else c # squeeze (c \<noteq> dquote) cs)"

definition transparent :: "(char \<Rightarrow> string) \<Rightarrow> bool" where
  "transparent esc \<longleftrightarrow> (\<forall>c r. squeeze True (esc c @ r) = esc c @ squeeze True r)"

lemma squeeze_body:
  "transparent esc \<Longrightarrow> squeeze True (concat (map esc s) @ dquote # r) = concat (map esc s) @ dquote # squeeze False r"
proof (induction s)
  case Nil
  show ?case by simp
next
  case (Cons c s)
  then show ?case by (simp add: transparent_def)
qed

lemma squeeze_str: "transparent esc \<Longrightarrow> squeeze False (str_text esc s @ r) = str_text esc s @ squeeze False r"
  using squeeze_body [of esc s r] by (simp add: str_text_def)

lemma squeeze_plain: "list_all (\<lambda>c. c \<noteq> CHR '' '' \<and> c \<noteq> dquote) t \<Longrightarrow> squeeze False (t @ r) = t @ squeeze False r"
  by (induction t) auto

lemma squeeze_int: "squeeze False (int_text i @ r) = int_text i @ squeeze False r"
proof (rule squeeze_plain)
  have "list_all ascii_digit (nat_text n)" for n using nat_text_digits by blast
  moreover have "ascii_digit c \<Longrightarrow> c \<noteq> CHR '' '' \<and> c \<noteq> dquote" for c by (auto simp: ascii_digit_def)
  ultimately show "list_all (\<lambda>c. c \<noteq> CHR '' '' \<and> c \<noteq> dquote) (int_text i)"
    by (auto simp: int_text_def list_all_iff)
qed

lemma squeeze_join:
  assumes "\<And>x r. x \<in> set xs \<Longrightarrow> squeeze False (f x @ r) = g x @ squeeze False r"
  shows "squeeze False (join '', '' (map f xs) @ r) = join '','' (map g xs) @ squeeze False r"
  using assms
proof (induction xs)
  case (Cons x xs)
  then show ?case by (cases xs) (simp_all add:)
qed simp

lemma squeeze_dumps:
  assumes "transparent esc"
  shows "squeeze False (dumps_text esc j @ r) = render esc j @ squeeze False r"
proof (induction j arbitrary: r)
  case (JBool b)
  then show ?case by (cases b) (simp_all add: squeeze_plain)
next
  case (JList xs)
  have "squeeze False (join '', '' (map (dumps_text esc) xs) @ t) = join '','' (map (render esc) xs) @ squeeze False t" for t
    by (rule squeeze_join) (use JList in blast)
  then show ?case by simp
next
  case (JObj kvs)
  have "squeeze False (join '', '' (map (\<lambda>kv. str_text esc (fst kv) @ '': '' @ dumps_text esc (snd kv)) kvs) @ t)
      = join '','' (map (\<lambda>kv. str_text esc (fst kv) @ '':'' @ render esc (snd kv)) kvs) @ squeeze False t" for t
  proof (rule squeeze_join)
    fix kv u
    assume "kv \<in> set kvs"
    moreover have "snd kv \<in> Basic_BNFs.snds kv" by (simp add: snds.simps)
    ultimately have "squeeze False (dumps_text esc (snd kv) @ u) = render esc (snd kv) @ squeeze False u" by (rule JObj)
    then show "squeeze False ((str_text esc (fst kv) @ '': '' @ dumps_text esc (snd kv)) @ u)
        = (str_text esc (fst kv) @ '':'' @ render esc (snd kv)) @ squeeze False u"
      by (simp add: squeeze_str [OF assms])
  qed
  then show ?case by simp
qed (simp_all add: squeeze_plain squeeze_int squeeze_str [OF assms])

lemma hex_digit_plain: "n < 16 \<Longrightarrow> hex_digit n \<noteq> backslash \<and> hex_digit n \<noteq> dquote"
  using hex_digit_lower [of n] by (auto simp: lower_hex_def)

lemma transparent_escapes: "transparent escape_char" "transparent escape_raw"
proof -
  have "code c div 16 < 16" "code c mod 16 < 16" for c using code_less [of c] by (simp_all add: less_mult_imp_div_less)
  then have "squeeze True (escape_char c @ r) = escape_char c @ squeeze True r" for c r
    using hex_digit_plain [of "code c div 16"] hex_digit_plain [of "code c mod 16"]
    by (auto simp: escape_char_def)
  moreover have "squeeze True (escape_raw c @ r) = escape_raw c @ squeeze True r" for c r
    using calculation by (cases "c = dquote") (auto simp: escape_raw_def)
  ultimately show "transparent escape_char" "transparent escape_raw" by (simp_all add: transparent_def)
qed

lemma dumps_text_inject:
  "dumps_text escape_char x = dumps_text escape_char y \<Longrightarrow> x = y" "dumps_text escape_raw x = dumps_text escape_raw y \<Longrightarrow> x = y"
proof -
  have r: "render esc x = squeeze False (dumps_text esc x)" if "transparent esc" for esc x
    using squeeze_dumps [OF that, of x "[]"] by simp
  show "dumps_text escape_char x = dumps_text escape_char y \<Longrightarrow> x = y"
    using r [OF transparent_escapes(1)] ascii.render_inject by metis
  show "dumps_text escape_raw x = dumps_text escape_raw y \<Longrightarrow> x = y"
    using r [OF transparent_escapes(2)] raw.render_inject by metis
qed

end
