(* ===== verification/EvidenceViews.thy ===== *)
theory EvidenceViews
  imports Evidence Auth JsonData "HOL-Library.AList" "HOL-Library.Product_Lexorder"
begin

text \<open>
  The views of the retained evidence in \<^verbatim>\<open>services/evidence.py\<close> that the report, the model context and the
  results page are built from: times of records, the timeline, time bounds, grouping of identical
  records, groups of advisory leads, typed counts of field values, the activity around the leads and
  the paged lookup.  A record is the fields of a JSON object; reading a missing key raises as the code does.
\<close>

subsection \<open>Times of records\<close>

definition raw_record :: "json_fields \<Rightarrow> bool" where
  "raw_record row \<longleftrightarrow> get_or row ''evidence_kind'' (JStr ''raw_event'') = JStr ''raw_event''"

definition raw_event_time :: "json_env \<Rightarrow> json_fields \<Rightarrow> int option" where
  "raw_event_time env row =
     (if \<not> raw_record row then None
      else case map_of row ''event_time_utc'' of Some (JStr s) \<Rightarrow> instant_of env s | _ \<Rightarrow> None)"

text \<open>The sort key of the code: known times in order, unknown times last.\<close>

definition time_key :: "int option \<Rightarrow> bool \<times> int" where
  "time_key stamp = (case stamp of None \<Rightarrow> (True, 0) | Some t \<Rightarrow> (False, t))"

definition stamp_json :: "int option \<Rightarrow> json" where
  "stamp_json stamp = (case stamp of None \<Rightarrow> JNull | Some t \<Rightarrow> JStr (serialize_utc t))"

definition stamp_text :: "int option \<Rightarrow> string" where
  "stamp_text stamp = (case stamp of None \<Rightarrow> ''unknown'' | Some t \<Rightarrow> serialize_utc t)"

definition named :: "json_env \<Rightarrow> string \<Rightarrow> string \<Rightarrow> json_fields \<Rightarrow> string" where
  "named env k missing row = json_str env (get_or row k (JStr missing))"

text \<open>A dictionary built from a list of rows: the last row of a key wins.\<close>

definition last_named :: "(json_fields \<Rightarrow> string) \<Rightarrow> json_fields list \<Rightarrow> string \<Rightarrow> json_fields option" where
  "last_named key rows k = find (\<lambda>row. key row = k) (rev rows)"

definition key_text :: "json_env \<Rightarrow> string \<Rightarrow> json_fields \<Rightarrow> string" where
  "key_text env k row = json_str env (get_or row k JNull)"

definition stored_list :: "json_fields \<Rightarrow> string \<Rightarrow> json list outcome" where
  "stored_list results k = iterate (get_or results k (JList []))"

subsection \<open>Timeline\<close>

definition retrieval_status :: "json_fields option \<Rightarrow> string outcome" where
  "retrieval_status query =
     (case query of
        None \<Rightarrow> Inr ''unknown''
      | Some q \<Rightarrow> bindR (crashing (query_results_incomplete q)) (\<lambda>incomplete.
          Inr (if incomplete then ''incomplete'' else if get_or q ''status'' JNull = JStr ''completed'' then ''complete'' else ''unknown'')))"

definition observations :: "json_env \<Rightarrow> json list \<Rightarrow> json_fields list" where
  "observations env evidence = sort_key (\<lambda>row. time_key (raw_event_time env row)) (filter raw_record (objects evidence))"

definition retained_timeline :: "json_env \<Rightarrow> json_fields \<Rightarrow> json_fields list outcome" where
  "retained_timeline env results =
     bindR (stored_list results ''queries'') (\<lambda>queries.
     bindR (stored_list results ''evidence'') (\<lambda>evidence.
       mapR (\<lambda>row.
         (let query_id = named env ''query_id'' ''unknown'' row in
          bindR (retrieval_status (last_named (key_text env ''query_id'') (objects queries) query_id)) (\<lambda>coverage.
            Inr [(''evidence_id'', JStr (named env ''evidence_id'' ''unknown'' row)), (''query_id'', JStr query_id),
                 (''event_time_utc'', JStr (stamp_text (raw_event_time env row))), (''query_coverage'', JStr coverage)])))
         (observations env evidence)))"

subsection \<open>Time bounds\<close>

definition known_times :: "json_env \<Rightarrow> json_fields list \<Rightarrow> int list" where
  "known_times env rows = map the (filter (\<lambda>s. s \<noteq> None) (map (raw_event_time env) rows))"

definition bounds_note :: "string \<Rightarrow> string \<Rightarrow> nat \<Rightarrow> nat \<Rightarrow> nat \<Rightarrow> string" where
  "bounds_note earliest latest known unknown aggregate =
     (if known \<noteq> 0
      then ''Retained raw-event timestamps: '' @ earliest @ '' to '' @ latest @ '' ('' @ nat_text known @ '' record(s)). ''
      else ''Retained records do not establish raw-event time bounds. '')
     @ (if unknown \<noteq> 0 \<or> aggregate \<noteq> 0
        then ''Excluded '' @ nat_text unknown @ '' record(s) with unknown time and '' @ nat_text aggregate @ '' aggregate row(s) from those bounds. ''
        else [])
     @ ''Point observations do not establish continuous activity or telemetry coverage throughout the approved hunt window.''"

definition evidence_time_bounds :: "json_env \<Rightarrow> json_fields list \<Rightarrow> json_fields" where
  "evidence_time_bounds env rows =
     (let stamps = known_times env rows;
          aggregate = length (filter (\<lambda>r. \<not> raw_record r) rows);
          unknown = length (filter (\<lambda>r. raw_record r \<and> raw_event_time env r = None) rows);
          earliest = (if stamps = [] then ''unknown'' else serialize_utc (Min (set stamps)));
          latest = (if stamps = [] then ''unknown'' else serialize_utc (Max (set stamps))) in
      [(''first_observed_utc'', JStr earliest), (''last_observed_utc'', JStr latest),
       (''timestamped_record_count'', JInt (int (length stamps))), (''unknown_time_record_count'', JInt (int unknown)),
       (''aggregate_row_count'', JInt (int aggregate)), (''continuous_coverage_established'', JBool False),
       (''limitation'', JStr (bounds_note earliest latest (length stamps) unknown aggregate))])"

subsection \<open>Identical records\<close>

text \<open>\<open>row.get("selected_result", {})\<close>, on which the code then calls \<open>get\<close>.\<close>

definition event_of :: "json_fields \<Rightarrow> json_fields outcome" where
  "event_of row =
     (case get_or row ''selected_result'' (JObj []) of
        JObj event \<Rightarrow> Inr event
      | _ \<Rightarrow> Inl (Crash (TypeError ''object has no attribute get'')))"

fun nonempty_text :: "json \<Rightarrow> bool" where
  "nonempty_text (JStr s) \<longleftrightarrow> s \<noteq> []"
| "nonempty_text _ \<longleftrightarrow> False"

definition event_identity :: "json_fields \<Rightarrow> json option" where
  "event_identity event = find nonempty_text (map (\<lambda>k. get_or event k JNull) [''_cd'', ''event_id''])"

definition query_pairs :: "json_env \<Rightarrow> json \<Rightarrow> (string \<times> (string \<times> string) list) outcome" where
  "query_pairs env query =
     (let q = object_fields query in
      bindR (field_of q ''query_id'') (\<lambda>i.
      bindR (case source_pairs (json_str env (get_or q ''spl'' (JStr []))) of
               Inl (ValueError _) \<Rightarrow> Inr [] | r \<Rightarrow> crashing r) (\<lambda>pairs.
        Inr (json_str env i, pairs))))"

text \<open>The text under which identical representations are grouped; \<open>None\<close> for a record that is never grouped.\<close>

definition group_key :: "json_env \<Rightarrow> (string \<times> (string \<times> string) list) list \<Rightarrow> json_fields \<Rightarrow> string option outcome" where
  "group_key env pairs row =
     bindR (event_of row) (\<lambda>event.
     case (raw_record row, event_identity event) of
       (True, Some identity) \<Rightarrow>
         bindR (field_of row ''query_id'') (\<lambda>query_id.
           (let source = result_source event (case map_of pairs (json_str env query_id) of None \<Rightarrow> [] | Some ps \<Rightarrow> ps);
                namespace = (if source \<noteq> (''unknown'', ''unknown'') then JList [JStr (fst source), JStr (snd source)]
                             else JList [JStr ''query'', query_id]) in
            Inr (Some (dumps_text escape_raw (sort_keys
              (JList [namespace, identity, get_or row ''event_time_utc'' JNull, JObj event]))))))
     | _ \<Rightarrow> Inr None)"

definition origin_of :: "json_fields \<Rightarrow> json_fields" where
  "origin_of row = filter (\<lambda>kv. fst kv \<noteq> ''selected_result'') row"

definition add_origin :: "json_fields \<Rightarrow> json_fields \<Rightarrow> json_fields outcome" where
  "add_origin row origin =
     (case get_or row ''duplicate_references'' (JList []) of
        JList origins \<Rightarrow> Inr (AList.update ''duplicate_references'' (JList (origins @ [JObj origin])) row)
      | _ \<Rightarrow> Inl (Crash (TypeError ''object has no attribute append'')))"

text \<open>The output is kept with the keys of its groups; a record joins the first group of its key.\<close>

fun join_group :: "string \<Rightarrow> json_fields \<Rightarrow> (string option \<times> json_fields) list \<Rightarrow> (string option \<times> json_fields) list outcome" where
  "join_group k row [] = Inr [(Some k, row)]"
| "join_group k row ((k', first) # rest) =
     (if k' = Some k then bindR (add_origin first (origin_of row)) (\<lambda>first'. Inr ((k', first') # rest))
      else bindR (join_group k row rest) (\<lambda>rest'. Inr ((k', first) # rest')))"

fun compact_rows :: "json_env \<Rightarrow> (string \<times> (string \<times> string) list) list \<Rightarrow> json_fields list \<Rightarrow>
    (string option \<times> json_fields) list \<Rightarrow> (string option \<times> json_fields) list outcome" where
  "compact_rows env pairs [] out = Inr out"
| "compact_rows env pairs (row # rows) out =
     bindR (group_key env pairs row) (\<lambda>key.
     bindR (case key of None \<Rightarrow> Inr (out @ [(None, row)]) | Some k \<Rightarrow> join_group k row out) (compact_rows env pairs rows))"

definition compact_evidence_records :: "json_env \<Rightarrow> json_fields list \<Rightarrow> json list \<Rightarrow> json_fields list outcome" where
  "compact_evidence_records env records queries =
     bindR (mapR (query_pairs env) queries) (\<lambda>pairs.
     bindR (compact_rows env (rev pairs) records []) (\<lambda>out. Inr (map snd out)))"

subsection \<open>Advisory leads\<close>

definition LEAD_IDENTITY :: "string list" where
  "LEAD_IDENTITY = [''host'', ''process_guid'', ''user'', ''session_id'']"

definition fields_of :: "json \<Rightarrow> json_fields outcome" where
  "fields_of j = (case j of JObj kvs \<Rightarrow> Inr kvs | _ \<Rightarrow> Inl (Crash (TypeError ''object has no attribute get'')))"

definition set_in :: "json_fields \<Rightarrow> string \<Rightarrow> bool" where
  "set_in kvs k = truthy (map_of kvs k)"

fun any_of :: "('a \<Rightarrow> bool outcome) \<Rightarrow> 'a list \<Rightarrow> bool outcome" where
  "any_of f [] = Inr False"
| "any_of f (x # xs) = bindR (f x) (\<lambda>b. if b then Inr True else any_of f xs)"

definition advisory_match :: "json_fields \<Rightarrow> bool outcome" where
  "advisory_match row =
     (if \<not> raw_record row then Inr False else
     bindR (fields_of (get_or row ''advisory_ioc_comparison'' (JObj []))) (\<lambda>comparison.
     if set_in comparison ''matched_file_name_literals'' \<or> set_in comparison ''matched_domain_literals'' then Inr True
     else bindR (iterate (get_or comparison ''hash_literals'' (JList [])))
       (any_of (\<lambda>item. bindR (fields_of item) (\<lambda>i. Inr (set_in i ''matches_extracted_advisory_hash''))))))"

fun known_text :: "json \<Rightarrow> bool" where
  "known_text (JStr s) \<longleftrightarrow> strip s \<noteq> [] \<and> casefold s \<notin> {''unknown'', ''null'', ''none''}"
| "known_text _ \<longleftrightarrow> False"

definition lead_identity :: "json_fields \<Rightarrow> json_fields" where
  "lead_identity event = map (\<lambda>k. (k, get_or event k JNull)) (filter (\<lambda>k. known_text (get_or event k JNull)) LEAD_IDENTITY)"

definition has_fields :: "string list \<Rightarrow> json_fields \<Rightarrow> bool" where
  "has_fields ks kvs \<longleftrightarrow> list_all (\<lambda>k. map_of kvs k \<noteq> None) ks"

datatype lead_key = SharedIdentity json_fields | RecordKey string

definition lead_key_of :: "json_fields \<Rightarrow> string \<Rightarrow> lead_key" where
  "lead_key_of event evidence_id =
     (let identity = lead_identity event;
          ambiguous = list_ex (\<lambda>k. map_of event k \<noteq> None \<and> map_of identity k = None) LEAD_IDENTITY in
      if \<not> ambiguous \<and> has_fields [''host'', ''process_guid''] identity then SharedIdentity identity else RecordKey evidence_id)"

record lead_group =
  lg_lead :: string
  lg_identity :: json_fields
  lg_evidence :: "string list"

definition row_identifiers :: "json_env \<Rightarrow> json_fields \<Rightarrow> string list outcome" where
  "row_identifiers env row =
     bindR (field_of row ''evidence_id'') (\<lambda>i.
     bindR (stored_list row ''duplicate_references'') (\<lambda>origins.
     bindR (mapR (\<lambda>origin. bindR (fields_of origin) (\<lambda>kvs. field_of kvs ''evidence_id'')) origins) (\<lambda>others.
       Inr (map (json_str env) (i # others)))))"

fun add_to_group :: "lead_key \<Rightarrow> json_fields \<Rightarrow> string list \<Rightarrow> (lead_key \<times> lead_group) list \<Rightarrow> (lead_key \<times> lead_group) list" where
  "add_to_group k identity ids [] = [(k, \<lparr>lg_lead = hd ids, lg_identity = identity, lg_evidence = fromkeys ids\<rparr>)]"
| "add_to_group k identity ids ((k', g) # gs) =
     (if k' = k then (k', g\<lparr>lg_evidence := fromkeys (lg_evidence g @ ids)\<rparr>) # gs else (k', g) # add_to_group k identity ids gs)"

fun group_leads :: "json_env \<Rightarrow> json_fields list \<Rightarrow> (lead_key \<times> lead_group) list \<Rightarrow> (lead_key \<times> lead_group) list outcome" where
  "group_leads env [] groups = Inr groups"
| "group_leads env (row # rows) groups =
     bindR (advisory_match row) (\<lambda>matched.
     if \<not> matched then group_leads env rows groups
     else bindR (event_of row) (\<lambda>event.
          bindR (row_identifiers env row) (\<lambda>ids.
            group_leads env rows (add_to_group (lead_key_of event (hd ids)) (lead_identity event) ids groups))))"

definition by_time :: "json_env \<Rightarrow> json_fields list \<Rightarrow> json_fields list" where
  "by_time env rows = sort_key (\<lambda>row. time_key (raw_event_time env row)) rows"

definition advisory_lead_groups :: "json_env \<Rightarrow> json_fields list \<Rightarrow> lead_group list outcome" where
  "advisory_lead_groups env records = bindR (group_leads env (by_time env records) []) (\<lambda>groups. Inr (map snd groups))"

subsection \<open>Typed counts of field values\<close>

definition COUNTED_FIELDS :: "string list" where
  "COUNTED_FIELDS = [''host'', ''user'', ''src_ip'', ''dest_ip'', ''process_guid'', ''process'', ''session_id'']"

fun scalar_key :: "json \<Rightarrow> (string \<times> string) option" where
  "scalar_key (JStr s) = Some (''str'', dumps_text escape_raw (JStr s))"
| "scalar_key (JInt i) = Some (''int'', dumps_text escape_raw (JInt i))"
| "scalar_key (JBool b) = Some (''bool'', dumps_text escape_raw (JBool b))"
| "scalar_key _ = None"

fun members :: "json \<Rightarrow> json list" where
  "members (JList xs) = xs"
| "members j = [j]"

definition member_keys :: "json \<Rightarrow> (string \<times> string) list" where
  "member_keys v = remdups (map the (filter (\<lambda>k. k \<noteq> None) (map scalar_key (members v))))"

definition field_count :: "json_fields list \<Rightarrow> string \<Rightarrow> json" where
  "field_count events field =
     (let keys = map (\<lambda>event. member_keys (get_or event field JNull)) events in
      JObj [(''field'', JStr field),
        (''distinct_literal_value_count'', JInt (int (length (remdups (concat keys))))),
        (''distinct_unambiguous_value_count'', JInt (int (length (remdups (concat (filter (\<lambda>ks. length ks = 1) keys)))))),
        (''rows_with_missing_or_nonscalar_value'', JInt (int (length (filter (\<lambda>ks. ks = []) keys)))),
        (''rows_with_multiple_distinct_values'', JInt (int (length (filter (\<lambda>ks. length ks > 1) keys))))])"

definition retained_field_counts :: "json_fields list \<Rightarrow> string list \<Rightarrow> json list outcome" where
  "retained_field_counts rows wanted =
     (if wanted = [] then Inr []
      else bindR (mapR (\<lambda>row. bindR (field_of row ''selected_result'') fields_of) rows) (\<lambda>events.
        Inr (map (field_count events) (fromkeys wanted))))"

subsection \<open>Activity around the leads\<close>

record activity_lead =
  al_evidence :: "json list"
  al_identity :: json_fields
  al_anchor :: "int option"
  al_scopes :: "string list"
  al_limitation :: "string option"

record activity_scope =
  as_id :: string
  as_identity :: json_fields
  as_rows :: "json_fields list"

fun first_wins :: "('k \<times> 'v) list \<Rightarrow> ('k \<times> 'v) list" where
  "first_wins [] = []"
| "first_wins (x # xs) = x # filter (\<lambda>y. fst y \<noteq> fst x) (first_wins xs)"

definition lead_entry :: "json_env \<Rightarrow> json_fields \<Rightarrow> (string \<times> activity_lead) list outcome" where
  "lead_entry env lead =
     (let identifiers = get_or lead ''lead_evidence_ids'' (JList []) in
      if \<not> truthy (Some identifiers) then Inr []
      else bindR (iterate identifiers) (\<lambda>ids.
           bindR (field_of lead ''identity_fields'') (\<lambda>j. bindR (fields_of j) (\<lambda>identity.
             Inr [(json_str env (hd ids), \<lparr>al_evidence = ids, al_identity = identity, al_anchor = None, al_scopes = [], al_limitation = None\<rparr>)]))))"

definition coverage_leads :: "json_env \<Rightarrow> json_fields \<Rightarrow> (string \<times> activity_lead) list outcome" where
  "coverage_leads env results =
     bindR (stored_list results ''question_answers'') (\<lambda>answers.
     bindR (mapR (\<lambda>a. bindR (fields_of a) (\<lambda>answer. bindR (stored_list answer ''lead_coverage'') (\<lambda>leads.
              bindR (mapR (\<lambda>l. bindR (fields_of l) (lead_entry env)) leads) (\<lambda>entries. Inr (concat entries))))) answers) (\<lambda>found.
       Inr (first_wins (concat found))))"

definition evidence_rows :: "json list \<Rightarrow> json_fields list" where
  "evidence_rows evidence = filter (\<lambda>row. raw_record row \<and> object_json (get_or row ''selected_result'' JNull)) (objects evidence)"

definition selected_of :: "json_fields \<Rightarrow> json_fields" where
  "selected_of row = object_fields (get_or row ''selected_result'' JNull)"

fun original_row :: "(string \<Rightarrow> json_fields option) \<Rightarrow> json \<Rightarrow> json_fields list outcome" where
  "original_row find_row (JStr i) = Inr (case find_row i of None \<Rightarrow> [] | Some row \<Rightarrow> [row])"
| "original_row find_row j = (if hashable j then Inr [] else Inl (Crash (TypeError ''unhashable type'')))"

text \<open>What the identity of a lead selects: the exact process and the session, or a reason why nothing is selected.\<close>

definition SESSION_FIELDS :: "string list" where
  "SESSION_FIELDS = [''host'', ''user'', ''session_id'']"

fun contradicts :: "json_fields \<Rightarrow> json_fields \<Rightarrow> string \<Rightarrow> bool" where
  "contradicts event identity k \<longleftrightarrow>
     (case map_of event k of None \<Rightarrow> False | Some (JStr s) \<Rightarrow> map_of identity k \<noteq> Some (JStr s) | Some _ \<Rightarrow> True)"

definition pick_fields :: "string list \<Rightarrow> json_fields \<Rightarrow> json_fields" where
  "pick_fields ks kvs = map (\<lambda>k. (k, get_or kvs k JNull)) ks"

definition lead_filters :: "json_fields \<Rightarrow> json_fields list \<Rightarrow> json_fields list \<times> string option" where
  "lead_filters identity originals =
     (case originals of
        [] \<Rightarrow> ([], Some ''Original lead records are unavailable; related activity cannot be selected.'')
      | first # _ \<Rightarrow>
          if list_ex (contradicts (selected_of first) identity) LEAD_IDENTITY
          then ([], Some ''Missing or ambiguous native identity prevents an exact related-record selection. Original observations remain in the timeline.'')
          else
            (let filters = (if has_fields [''host'', ''process_guid''] identity then [identity] else [])
                   @ (if has_fields SESSION_FIELDS identity then [pick_fields SESSION_FIELDS identity] else []) in
             (filters,
              if filters = []
              then Some ''Native fields do not identify an exact process or session selection. Original observations remain in the timeline.''
              else if map_of identity ''process_guid'' = None
              then Some ''Process identity is unavailable; only the recorded host, user and session context is selected.''
              else None)))"

definition scope_key :: "json_fields \<Rightarrow> json_fields" where
  "scope_key selected = sort_key fst selected"

text \<open>One dictionary of scopes for all leads, numbered in the order of their first use.\<close>

fun use_scopes :: "json_fields list \<Rightarrow> (json_fields \<times> activity_scope) list \<Rightarrow> (json_fields \<times> activity_scope) list \<times> string list" where
  "use_scopes [] scopes = (scopes, [])"
| "use_scopes (selected # more_filters) scopes =
     (let key = scope_key selected; fresh = \<lparr>as_id = ''scope_'' @ nat_text (length scopes + 1), as_identity = selected, as_rows = []\<rparr>;
          scopes' = (if map_of scopes key = None then scopes @ [(key, fresh)] else scopes);
          (final, ids) = use_scopes more_filters scopes' in
      (final, as_id (the (map_of scopes' key)) # ids))"

fun place_leads :: "json_env \<Rightarrow> (string \<Rightarrow> json_fields option) \<Rightarrow> activity_lead list \<Rightarrow>
    (json_fields \<times> activity_scope) list \<Rightarrow> ((json_fields \<times> activity_scope) list \<times> activity_lead list) outcome" where
  "place_leads env find_row [] scopes = Inr (scopes, [])"
| "place_leads env find_row (lead # leads) scopes =
     bindR (mapR (original_row find_row) (al_evidence lead)) (\<lambda>found.
       (let originals = concat found; stamps = known_times env originals;
            (filters, limitation) = lead_filters (al_identity lead) originals;
            (scopes', ids) = use_scopes filters scopes in
        bindR (place_leads env find_row leads scopes') (\<lambda>(final, placed).
          Inr (final, lead\<lparr>al_anchor := (if stamps = [] then None else Some (Min (set stamps))),
                           al_scopes := ids, al_limitation := limitation\<rparr> # placed))))"

text \<open>A record belongs to a scope when its event has the scope's literal texts; the code looks the scopes up by the sets of
  fields that occur, to read every record once.\<close>

definition in_scope :: "json_fields \<Rightarrow> json_fields \<Rightarrow> bool" where
  "in_scope key row \<longleftrightarrow>
     list_all (\<lambda>(k, v). case map_of (selected_of row) k of Some (JStr s) \<Rightarrow> v = JStr s | _ \<Rightarrow> False) key"

definition grouped :: "('a \<Rightarrow> 'k) \<Rightarrow> 'a list \<Rightarrow> ('k \<times> 'a list) list" where
  "grouped f xs = map (\<lambda>k. (k, filter (\<lambda>x. f x = k) xs)) (fromkeys (map f xs))"

definition action_of :: "json_fields \<Rightarrow> json" where
  "action_of row = (let a = get_or (selected_of row) ''action'' JNull in if text_json a then a else JNull)"

definition scope_coverage :: "json_env \<Rightarrow> json_fields list \<Rightarrow> string \<times> json_fields list \<Rightarrow> json outcome" where
  "scope_coverage env queries part =
     (let query = last_named (key_text env ''query_id'') queries (fst part) in
      bindR (retrieval_status query) (\<lambda>status.
        (let q = (case query of None \<Rightarrow> [] | Some kvs \<Rightarrow> kvs) in
         Inr (JObj [(''query_id'', JStr (fst part)), (''retrieval_status'', JStr status),
           (''matching_raw_record_count'', JInt (int (length (snd part)))),
           (''earliest_utc'', get_or q ''earliest_utc'' JNull), (''latest_utc'', get_or q ''latest_utc'' JNull)]))))"

definition scope_json :: "json_env \<Rightarrow> json_fields list \<Rightarrow> activity_scope \<Rightarrow> json outcome" where
  "scope_json env queries scope =
     (let rows = as_rows scope in
      bindR (mapR (scope_coverage env queries) (grouped (named env ''query_id'' ''unknown'') rows)) (\<lambda>coverage.
      bindR (mapR (\<lambda>row. field_of row ''evidence_id'') rows) (\<lambda>ids.
      bindR (retained_field_counts rows COUNTED_FIELDS) (\<lambda>counts.
        Inr (JObj [(''scope_id'', JStr (as_id scope)), (''identity_fields'', JObj (as_identity scope)),
          (''evidence_ids'', JList (map (\<lambda>i. JStr (json_str env i)) ids)), (''raw_record_count'', JInt (int (length rows))),
          (''time_bounds'', JObj (evidence_time_bounds env rows)), (''fields'', JList counts), (''query_coverage'', JList coverage),
          (''actions'', JList (map (\<lambda>(action, part). JObj ([(''action'', action), (''raw_record_count'', JInt (int (length part)))]
              @ evidence_time_bounds env part)) (grouped action_of rows)))])))))"

subsection \<open>Periods\<close>

definition bisect_left :: "int list \<Rightarrow> int \<Rightarrow> nat" where
  "bisect_left ts a = length (takeWhile (\<lambda>t. t < a) ts)"

definition bisect_right :: "int list \<Rightarrow> int \<Rightarrow> nat" where
  "bisect_right ts a = length (takeWhile (\<lambda>t. t \<le> a) ts)"

record period =
  pe_name :: string
  pe_count :: nat
  pe_first :: "int option"
  pe_last :: "int option"

definition periods_of :: "json_env \<Rightarrow> int option \<Rightarrow> json_fields list \<Rightarrow> period list" where
  "periods_of env anchor rows =
     (let ts = known_times env rows in
      (case anchor of
         None \<Rightarrow> []
       | Some a \<Rightarrow>
           (let left = bisect_left ts a; right = bisect_right ts a in
            map (\<lambda>(name, start, stop). \<lparr>pe_name = name, pe_count = stop - start, pe_first = Some (ts ! start), pe_last = Some (ts ! (stop - 1))\<rparr>)
              (filter (\<lambda>(name, start, stop). stop > start)
                [(''before'', 0, left), (''at'', left, right), (''after'', right, length ts)])))
      @ (let unknown = (if anchor = None then length rows else length rows - length ts) in
         if unknown = 0 then [] else [\<lparr>pe_name = ''unknown'', pe_count = unknown, pe_first = None, pe_last = None\<rparr>]))"

definition period_json :: "period \<Rightarrow> json" where
  "period_json p =
     JObj [(''relative_to_lead'', JStr (pe_name p)), (''raw_record_count'', JInt (int (pe_count p))),
       (''first_event_time_utc'', stamp_json (pe_first p)), (''last_event_time_utc'', stamp_json (pe_last p))]"

definition lead_json :: "json_env \<Rightarrow> activity_scope list \<Rightarrow> activity_lead \<Rightarrow> json" where
  "lead_json env scopes lead =
     JObj [(''lead_evidence_ids'', JList (al_evidence lead)), (''identity_fields'', JObj (al_identity lead)),
       (''anchor_event_time_utc'', stamp_json (al_anchor lead)),
       (''scopes'', JList (map (\<lambda>i. JObj [(''scope_id'', JStr i),
          (''periods'', JList (map period_json (periods_of env (al_anchor lead)
             (case find (\<lambda>s. as_id s = i) scopes of None \<Rightarrow> [] | Some s \<Rightarrow> as_rows s))))]) (al_scopes lead))),
       (''limitation'', case al_limitation lead of None \<Rightarrow> JNull | Some m \<Rightarrow> JStr m)]"

definition timeline_rows :: "(string \<Rightarrow> json_fields option) \<Rightarrow> json_fields list \<Rightarrow> json_fields list" where
  "timeline_rows find_row timeline =
     concat (map (\<lambda>entry. case get_or entry ''evidence_id'' JNull of
        JStr i \<Rightarrow> (case find_row i of None \<Rightarrow> [] | Some row \<Rightarrow> [row]) | _ \<Rightarrow> []) timeline)"

definition retained_lead_activity :: "json_env \<Rightarrow> json_fields \<Rightarrow> (json list \<times> json list) outcome" where
  "retained_lead_activity env results =
     bindR (coverage_leads env results) (\<lambda>leads.
     if leads = [] then Inr ([], [])
     else
       bindR (stored_list results ''evidence'') (\<lambda>evidence.
       (let find_row = last_named (key_text env ''evidence_id'') (evidence_rows evidence) in
        bindR (retained_timeline env results) (\<lambda>timeline.
        bindR (place_leads env find_row (map snd leads) []) (\<lambda>(scopes, placed).
        bindR (bindR (stored_list results ''queries'') (mapR fields_of)) (\<lambda>queries.
          (let rows = timeline_rows find_row timeline;
               filled = map (\<lambda>(key, scope). scope\<lparr>as_rows := filter (in_scope key) rows\<rparr>) scopes in
           bindR (mapR (scope_json env queries) filled) (\<lambda>shown.
             Inr (map (lead_json env filled) placed, shown)))))))))"

subsection \<open>Lookup\<close>

record lookup_request =
  lr_query_ids :: "string list"
  lr_filters :: json_fields
  lr_earliest :: "datetime option"
  lr_latest :: "datetime option"
  lr_offset :: int
  lr_limit :: int
  lr_max_rows :: int
  lr_distinct :: "string list"
  lr_include :: bool

record retained_page =
  rp_inventory :: json_fields
  rp_groups :: nat
  rp_offset :: int
  rp_limit :: int
  rp_next :: "int option"
  rp_records :: "json_fields list"

definition completed_queries :: "json_env \<Rightarrow> json_fields \<Rightarrow> (string \<times> json_fields) list outcome" where
  "completed_queries env results =
     bindR (stored_list results ''queries'') (\<lambda>queries.
       mapR (\<lambda>q. bindR (field_of q ''query_id'') (\<lambda>i. Inr (json_str env i, q)))
         (filter (\<lambda>q. get_or q ''status'' JNull = JStr ''completed'') (objects queries)))"

definition bound_of :: "datetime option \<Rightarrow> int option outcome" where
  "bound_of b =
     (case b of
        None \<Rightarrow> Inr None
      | Some d \<Rightarrow>
          if utcoffset d = None then Inl (Validation ''retained evidence lookup time bounds must include a timezone'')
          else Inr (Some (naive_us d - the (utcoffset d))))"

definition check_lookup :: "(string \<times> json_fields) list \<Rightarrow> lookup_request \<Rightarrow> (int option \<times> int option) outcome" where
  "check_lookup completed rq =
     bindR (ensure (lr_query_ids rq \<noteq> [] \<and> set (lr_query_ids rq) \<subseteq> fst ` set completed)
              (Validation ''retained evidence lookup requires completed queries from this hunt'')) (\<lambda>_.
     bindR (ensure (0 \<le> lr_offset rq \<and> 0 < lr_limit rq \<and> 0 < lr_max_rows rq)
              (Validation ''retained evidence lookup requires a nonnegative offset and positive row limits'')) (\<lambda>_.
     bindR (bound_of (lr_earliest rq)) (\<lambda>earliest.
     bindR (bound_of (lr_latest rq)) (\<lambda>latest.
     bindR (ensure (\<not> (case (earliest, latest) of (Some a, Some b) \<Rightarrow> a \<ge> b | _ \<Rightarrow> False))
              (Validation ''retained evidence lookup requires an increasing time window'')) (\<lambda>_.
     bindR (ensure (list_all (\<lambda>k. strip k \<noteq> []) (map fst (lr_filters rq) @ lr_distinct rq))
              (Validation ''retained evidence lookup field names must be nonempty strings'')) (\<lambda>_.
     bindR (ensure (list_all (\<lambda>(_, v). scalar_key v \<noteq> None) (lr_filters rq))
              (Validation ''retained evidence lookup filters require finite scalar values'')) (\<lambda>_.
       Inr (earliest, latest))))))))"

definition retained_rows :: "json_env \<Rightarrow> string list \<Rightarrow> json list \<Rightarrow> json_fields list" where
  "retained_rows env query_ids evidence = filter (\<lambda>row. key_text env ''query_id'' row \<in> set query_ids) (objects evidence)"

definition passes_filters :: "json_fields \<Rightarrow> json_fields \<Rightarrow> bool" where
  "passes_filters filters event \<longleftrightarrow>
     list_all (\<lambda>(k, v). scalar_key v \<in> scalar_key ` set (members (get_or event k JNull))) filters"

definition candidate :: "json_fields \<Rightarrow> json_fields \<Rightarrow> bool" where
  "candidate filters row \<longleftrightarrow>
     raw_record row
     \<and> (case get_or row ''selected_result'' (JObj []) of JObj event \<Rightarrow> passes_filters filters event | _ \<Rightarrow> False)"

definition windowed :: "int option \<times> int option \<Rightarrow> bool" where
  "windowed window \<longleftrightarrow> window \<noteq> (None, None)"

definition in_window :: "int option \<times> int option \<Rightarrow> int option \<Rightarrow> bool" where
  "in_window window stamp \<longleftrightarrow>
     \<not> windowed window
     \<or> (case stamp of
          None \<Rightarrow> False
        | Some t \<Rightarrow> (case fst window of None \<Rightarrow> True | Some a \<Rightarrow> a \<le> t) \<and> (case snd window of None \<Rightarrow> True | Some b \<Rightarrow> t < b))"

definition matching_rows :: "json_env \<Rightarrow> json_fields \<Rightarrow> int option \<times> int option \<Rightarrow> json_fields list \<Rightarrow> json_fields list" where
  "matching_rows env filters window rows =
     by_time env (filter (\<lambda>row. in_window window (raw_event_time env row)) (filter (candidate filters) rows))"

definition unobserved :: "json_fields \<Rightarrow> json_fields list \<Rightarrow> string list" where
  "unobserved filters rows =
     (let seen = concat (map (\<lambda>row. map fst (object_fields (get_or row ''selected_result'' JNull))) (filter raw_record rows)) in
      sort (filter (\<lambda>k. k \<notin> set seen) (remdups (map fst filters))))"

definition lookup_coverage :: "json_env \<Rightarrow> (string \<times> json_fields) list \<Rightarrow> json_fields list \<Rightarrow> string \<Rightarrow> json" where
  "lookup_coverage env completed rows query_id =
     (let q = (case map_of (rev completed) query_id of None \<Rightarrow> [] | Some kvs \<Rightarrow> kvs) in
      JObj [(''query_id'', JStr query_id), (''result_count'', get_or q ''result_count'' JNull),
        (''retained_evidence_count'', JInt (int (length (filter (\<lambda>row. key_text env ''query_id'' row = query_id) rows)))),
        (''query_truncated'', get_or q ''truncated'' JNull), (''available_result_count'', get_or q ''available_result_count'' JNull),
        (''retrieval_stop_reason'', get_or q ''retrieval_stop_reason'' JNull)])"

definition LOOKUP_LIMITATION :: string where
  "LOOKUP_LIMITATION = ''Counts cover matching retained raw rows and literal field values, not all source events or confirmed affected entities. Multivalue fields remain ambiguous. Repeated records do not increase distinct literal counts. Missing values and truncated searches prevent complete scope claims.''"

definition UNOBSERVED_LIMITATION :: string where
  "UNOBSERVED_LIMITATION = '' A filter field was not observed in the retained raw records; zero matches does not establish absence in the searched source.''"

definition inventory_of :: "json_env \<Rightarrow> lookup_request \<Rightarrow> int option \<times> int option \<Rightarrow> (string \<times> json_fields) list \<Rightarrow>
    json_fields list \<Rightarrow> json_fields list \<Rightarrow> json list \<Rightarrow> json_fields" where
  "inventory_of env rq window completed rows matching counts =
     (let ids = sort (remdups (lr_query_ids rq)); missing = unobserved (lr_filters rq) rows in
      [(''scope'', JObj [(''query_ids'', JList (map JStr ids)), (''filters'', JObj (lr_filters rq)),
          (''earliest_utc'', stamp_json (fst window)), (''latest_utc'', stamp_json (snd window))]),
       (''query_coverage'', JList (map (lookup_coverage env completed rows) ids)),
       (''matching_raw_record_count'', JInt (int (length matching))),
       (''aggregate_rows_excluded'', JInt (int (length (filter (\<lambda>row. \<not> raw_record row) rows)))),
       (''unobserved_filter_fields'', JList (map JStr missing)),
       (''unknown_time_rows_excluded_by_window'', JInt (int (length (filter (\<lambda>row. candidate (lr_filters rq) row
          \<and> windowed window \<and> raw_event_time env row = None) rows)))),
       (''observed_time_bounds'', JObj (evidence_time_bounds env matching)), (''distinct_fields'', JList counts),
       (''limitation'', JStr (LOOKUP_LIMITATION @ (if missing = [] then [] else UNOBSERVED_LIMITATION)))])"

definition page_of :: "lookup_request \<Rightarrow> json_fields \<Rightarrow> json_fields list \<Rightarrow> retained_page" where
  "page_of rq inventory groups =
     (let limit = min (lr_limit rq) (lr_max_rows rq); shown = take (nat limit) (drop (nat (lr_offset rq)) groups);
          next_offset = lr_offset rq + int (length shown) in
      \<lparr>rp_inventory = inventory, rp_groups = length groups, rp_offset = lr_offset rq, rp_limit = limit,
       rp_next = (if next_offset < int (length groups) then Some next_offset else None), rp_records = shown\<rparr>)"

definition lookup_retained_evidence :: "json_env \<Rightarrow> json_fields \<Rightarrow> lookup_request \<Rightarrow> (json_fields + retained_page) outcome" where
  "lookup_retained_evidence env results rq =
     bindR (completed_queries env results) (\<lambda>completed.
     bindR (check_lookup completed rq) (\<lambda>window.
     bindR (stored_list results ''evidence'') (\<lambda>evidence.
       (let rows = retained_rows env (lr_query_ids rq) evidence;
            matching = matching_rows env (lr_filters rq) window rows in
        bindR (retained_field_counts matching (lr_distinct rq)) (\<lambda>counts.
          (let inventory = inventory_of env rq window completed rows matching counts in
           if \<not> lr_include rq then Inr (Inl inventory)
           else bindR (compact_evidence_records env matching (map (\<lambda>kv. JObj (snd kv)) completed)) (\<lambda>groups.
                  Inr (Inr (page_of rq inventory groups)))))))))"

subsection \<open>Grouping keeps every record\<close>

text \<open>What a row stands for: its own fields and those of its duplicates, each with the row's event up to key order.\<close>

definition plain_origin :: "json_fields \<Rightarrow> json_fields" where
  "plain_origin row = filter (\<lambda>kv. fst kv \<notin> {''selected_result'', ''duplicate_references''}) row"

definition event_json :: "json_fields \<Rightarrow> json" where
  "event_json row = sort_keys (get_or row ''selected_result'' (JObj []))"

definition represented :: "json_fields \<Rightarrow> (json_fields \<times> json) list" where
  "represented row =
     map (\<lambda>origin. (origin, event_json row))
       (plain_origin row # map object_fields (elements (get_or row ''duplicate_references'' (JList []))))"

definition unmerged :: "json_fields \<Rightarrow> bool" where
  "unmerged row \<longleftrightarrow> map_of row ''duplicate_references'' = None"

lemma filter_update: "\<not> P (k, v) \<Longrightarrow> (\<And>v'. \<not> P (k, v')) \<Longrightarrow> filter P (AList.update k v kvs) = filter P kvs"
  by (induction kvs) auto

lemma get_or_update: "get_or (AList.update k v kvs) k' d = (if k' = k then v else get_or kvs k' d)"
  by (simp add: get_or_def update_conv')

lemma unmerged_origin: "unmerged row \<Longrightarrow> origin_of row = plain_origin row"
  unfolding unmerged_def origin_of_def plain_origin_def
  by (rule filter_cong) (auto simp: map_of_eq_None_iff image_iff)

lemma represented_unmerged: "unmerged row \<Longrightarrow> represented row = [(origin_of row, event_json row)]"
  by (simp add: represented_def unmerged_origin) (simp add: get_or_def unmerged_def)

lemma add_origin_represented:
  assumes "add_origin first origin = Inr first'"
  shows "represented first' = represented first @ [(origin, event_json first)]" and "event_json first' = event_json first"
proof -
  obtain origins where o: "get_or first ''duplicate_references'' (JList []) = JList origins"
      "first' = AList.update ''duplicate_references'' (JList (origins @ [JObj origin])) first"
    using assms by (auto simp: add_origin_def split: json.splits)
  show e: "event_json first' = event_json first" by (simp add: event_json_def o(2) get_or_update)
  have "plain_origin first' = plain_origin first" unfolding plain_origin_def o(2) by (rule filter_update) auto
  then show "represented first' = represented first @ [(origin, event_json first)]"
    using e o(1) by (simp add: represented_def o(2) get_or_update)
qed

definition keyed_by_event :: "(string option \<times> json_fields) list \<Rightarrow> bool" where
  "keyed_by_event out \<longleftrightarrow>
     (\<forall>(k, row) \<in> set out. k = None \<or> (\<exists>js. k = Some (dumps_text escape_raw (JList (js @ [event_json row])))))"

lemma group_key_event:
  assumes "group_key env pairs row = Inr (Some k)"
  shows "\<exists>js. k = dumps_text escape_raw (JList (js @ [event_json row]))"
proof -
  obtain event a b c where e: "event_of row = Inr event" "k = dumps_text escape_raw (sort_keys (JList [a, b, c, JObj event]))"
    using assms by (auto simp: group_key_def result_simps Let_def simp del: dumps_text.simps sort_keys.simps split: bool.splits option.splits if_splits)
  have "event_json row = sort_keys (JObj event)" using e(1) by (auto simp: event_of_def event_json_def split: json.splits)
  then have "k = dumps_text escape_raw (JList ([sort_keys a, sort_keys b, sort_keys c] @ [event_json row]))"
    unfolding e(2) by simp
  then show ?thesis by blast
qed

lemma join_group_represented:
  assumes "join_group k row out = Inr out'" and "unmerged row" and "keyed_by_event out"
    and "k = dumps_text escape_raw (JList (js @ [event_json row]))"
  shows "keyed_by_event out'
    \<and> mset (concat (map (represented \<circ> snd) out')) = mset (concat (map (represented \<circ> snd) out)) + mset (represented row)"
  using assms(1,3)
proof (induction out arbitrary: out')
  case Nil
  then show ?case using assms(4) by (auto simp: keyed_by_event_def simp del: dumps_text.simps)
next
  case (Cons p rest)
  obtain k' first where p: "p = (k', first)" by (cases p)
  show ?case
  proof (cases "k' = Some k")
    case True
    obtain first' where f: "add_origin first (origin_of row) = Inr first'" "out' = (k', first') # rest"
      using Cons.prems(1) by (auto simp: p True result_simps)
    obtain js' where "k = dumps_text escape_raw (JList (js' @ [event_json first]))"
      using Cons.prems(2) by (auto simp: keyed_by_event_def p True simp del: dumps_text.simps)
    then have same: "event_json first = event_json row" using assms(4) dumps_text_inject(2) [of "JList (js' @ [event_json first])" "JList (js @ [event_json row])"] by (simp del: dumps_text.simps)
    note a = add_origin_represented [OF f(1)]
    show ?thesis
      using Cons.prems(2) a same represented_unmerged [OF assms(2)] by (simp add: f(2) p keyed_by_event_def del: dumps_text.simps)
  next
    case False
    obtain rest' where r: "join_group k row rest = Inr rest'" "out' = (k', first) # rest'"
      using Cons.prems(1) False by (auto simp: p result_simps)
    have "keyed_by_event rest" using Cons.prems(2) by (simp add: keyed_by_event_def del: dumps_text.simps)
    from Cons.IH [OF r(1) this] show ?thesis using Cons.prems(2) by (simp add: r(2) p keyed_by_event_def del: dumps_text.simps)
  qed
qed

lemma compact_rows_represented:
  assumes "compact_rows env pairs rows out = Inr out'" and "\<forall>row \<in> set rows. unmerged row" and "keyed_by_event out"
  shows "mset (concat (map (represented \<circ> snd) out')) = mset (concat (map (represented \<circ> snd) out)) + mset (concat (map represented rows))"
  using assms
proof (induction rows arbitrary: out)
  case (Cons row rows)
  obtain key mid where m: "group_key env pairs row = Inr key" "compact_rows env pairs rows mid = Inr out'"
      "(case key of None \<Rightarrow> Inr (out @ [(None, row)]) | Some k \<Rightarrow> join_group k row out) = Inr mid"
    using Cons.prems(1) by (auto simp: result_simps)
  have "keyed_by_event mid
    \<and> mset (concat (map (represented \<circ> snd) mid)) = mset (concat (map (represented \<circ> snd) out)) + mset (represented row)"
  proof (cases key)
    case None
    then have "mid = out @ [(None, row)]" using m(3) by simp
    then show ?thesis using Cons.prems(3) by (simp add: keyed_by_event_def del: dumps_text.simps)
  next
    case (Some k)
    then obtain js where "k = dumps_text escape_raw (JList (js @ [event_json row]))" using m(1) group_key_event by blast
    then show ?thesis using join_group_represented m(3) Some Cons.prems(2,3) by simp
  qed
  then show ?case using Cons.IH [OF m(2)] Cons.prems(2) by (simp add: comp_def)
qed simp

text \<open>Grouping identical records loses none and changes none: the rows and the duplicates listed with them stand for
  exactly the given records, each with all its fields and its own event up to the order of keys.\<close>

lemma compact_represented:
  assumes "compact_evidence_records env records queries = Inr out" and "list_all unmerged records"
  shows "mset (concat (map represented out)) = mset (map (\<lambda>row. (origin_of row, event_json row)) records)"
proof -
  obtain pairs pout where c: "compact_rows env pairs records [] = Inr pout" "out = map snd pout"
    using assms(1) by (auto simp: compact_evidence_records_def result_simps)
  have "concat (map represented records) = map (\<lambda>row. (origin_of row, event_json row)) records"
    using assms(2) by (induction records) (simp_all add: represented_unmerged)
  then show ?thesis
    using compact_rows_represented [OF c(1)] assms(2) by (simp add: c(2) list_all_iff keyed_by_event_def comp_def)
qed

subsection \<open>Paging\<close>

text \<open>A client that follows \<open>next_offset\<close> until there is none; \<open>fuel\<close> bounds the number of pages.\<close>

fun walk :: "nat \<Rightarrow> json_env \<Rightarrow> json_fields \<Rightarrow> lookup_request \<Rightarrow> json_fields list outcome" where
  "walk 0 env results rq = Inr []"
| "walk (Suc fuel) env results rq =
     bindR (lookup_retained_evidence env results rq) (\<lambda>r.
     case r of
       Inl _ \<Rightarrow> Inr []
     | Inr page \<Rightarrow>
         (case rp_next page of
            None \<Rightarrow> Inr (rp_records page)
          | Some offset \<Rightarrow> bindR (walk fuel env results (rq\<lparr>lr_offset := offset\<rparr>)) (\<lambda>rest. Inr (rp_records page @ rest))))"

lemma check_lookup_offset:
  assumes "check_lookup completed rq = Inr window" and "0 \<le> offset"
  shows "check_lookup completed (rq\<lparr>lr_offset := offset\<rparr>) = Inr window"
  using assms unfolding check_lookup_def by (simp add: result_simps)

lemma lookup_offset:
  assumes "lookup_retained_evidence env results rq = Inr (Inr page)" and "0 \<le> offset"
  obtains completed window evidence inventory groups where
    "completed_queries env results = Inr completed" "check_lookup completed rq = Inr window" "stored_list results ''evidence'' = Inr evidence"
    "compact_evidence_records env (matching_rows env (lr_filters rq) window (retained_rows env (lr_query_ids rq) evidence))
       (map (\<lambda>kv. JObj (snd kv)) completed) = Inr groups"
    "page = page_of rq inventory groups"
    "\<And>offset. 0 \<le> offset \<Longrightarrow> lookup_retained_evidence env results (rq\<lparr>lr_offset := offset\<rparr>)
       = Inr (Inr (page_of (rq\<lparr>lr_offset := offset\<rparr>) inventory groups))"
proof -
  obtain completed window evidence counts groups where o:
      "completed_queries env results = Inr completed" "check_lookup completed rq = Inr window" "stored_list results ''evidence'' = Inr evidence"
      "retained_field_counts (matching_rows env (lr_filters rq) window (retained_rows env (lr_query_ids rq) evidence)) (lr_distinct rq) = Inr counts"
      "lr_include rq"
      "compact_evidence_records env (matching_rows env (lr_filters rq) window (retained_rows env (lr_query_ids rq) evidence))
         (map (\<lambda>kv. JObj (snd kv)) completed) = Inr groups"
      "page = page_of rq (inventory_of env rq window completed (retained_rows env (lr_query_ids rq) evidence)
         (matching_rows env (lr_filters rq) window (retained_rows env (lr_query_ids rq) evidence)) counts) groups"
    using assms(1) unfolding lookup_retained_evidence_def Let_def bindR_eq_Inr by (auto simp: result_simps split: if_splits)
  have inv: "inventory_of env (rq\<lparr>lr_offset := i\<rparr>) = inventory_of env rq" for i
    by (intro ext) (simp add: inventory_of_def)
  show ?thesis
  proof (rule that [OF o(1,2,3,6,7)])
    fix i :: int
    assume "0 \<le> i"
    note c = check_lookup_offset [OF o(2) this]
    show "lookup_retained_evidence env results (rq\<lparr>lr_offset := i\<rparr>) = Inr (Inr (page_of (rq\<lparr>lr_offset := i\<rparr>)
       (inventory_of env rq window completed (retained_rows env (lr_query_ids rq) evidence)
         (matching_rows env (lr_filters rq) window (retained_rows env (lr_query_ids rq) evidence)) counts) groups))"
      unfolding lookup_retained_evidence_def Let_def using o(1,3,4,5,6) c by (simp add: inv)
  qed
qed

lemma walk_drops:
  assumes "\<And>offset. 0 \<le> offset \<Longrightarrow> lookup_retained_evidence env results (rq\<lparr>lr_offset := offset\<rparr>)
       = Inr (Inr (page_of (rq\<lparr>lr_offset := offset\<rparr>) inventory groups))"
    and "0 < min (lr_limit rq) (lr_max_rows rq)" and "length groups - k < fuel"
  shows "walk fuel env results (rq\<lparr>lr_offset := int k\<rparr>) = Inr (drop k groups)"
  using assms(3)
proof (induction fuel arbitrary: k)
  case (Suc fuel)
  let ?n = "nat (min (lr_limit rq) (lr_max_rows rq))"
  have n: "0 < ?n" using assms(2) by simp
  have here: "lookup_retained_evidence env results (rq\<lparr>lr_offset := int k\<rparr>) = Inr (Inr (page_of (rq\<lparr>lr_offset := int k\<rparr>) inventory groups))"
    by (rule assms(1)) simp
  show ?case
  proof (cases "k + length (take ?n (drop k groups)) < length groups")
    case True
    then have k: "length (take ?n (drop k groups)) = ?n" "k + ?n < length groups" by (simp_all add: min_def split: if_splits)
    have "length groups - (k + ?n) < fuel" using Suc.prems k(2) n by arith
    from Suc.IH [OF this] have "walk fuel env results (rq\<lparr>lr_offset := int k + int ?n\<rparr>) = Inr (drop (k + ?n) groups)" by simp
    then show ?thesis
      using k here by (simp add: page_of_def Let_def) (metis add.commute append_take_drop_id drop_drop)
  next
    case False
    then have "take ?n (drop k groups) = drop k groups" by (simp add: min_def split: if_splits)
    then show ?thesis using False here by (simp add: page_of_def Let_def)
  qed
qed simp


subsection \<open>Leads are grouped by identity\<close>

definition lead_ids :: "json_env \<Rightarrow> json_fields \<Rightarrow> string list" where
  "lead_ids env row = (case row_identifiers env row of Inr ids \<Rightarrow> ids | Inl _ \<Rightarrow> [])"

definition lead_event :: "json_fields \<Rightarrow> json_fields" where
  "lead_event row = (case event_of row of Inr event \<Rightarrow> event | Inl _ \<Rightarrow> [])"

definition lead_key_in :: "json_env \<Rightarrow> json_fields \<Rightarrow> lead_key" where
  "lead_key_in env row = lead_key_of (lead_event row) (hd (lead_ids env row))"

definition lead_of :: "json_env \<Rightarrow> json_fields list \<Rightarrow> lead_group" where
  "lead_of env rows =
     \<lparr>lg_lead = hd (lead_ids env (hd rows)), lg_identity = lead_identity (lead_event (hd rows)),
      lg_evidence = fromkeys (concat (map (lead_ids env) rows))\<rparr>"

lemma fromkeys_snoc: "fromkeys (xs @ [x]) = (if x \<in> set xs then fromkeys xs else fromkeys xs @ [x])"
  by (induction xs) auto

lemma fromkeys_filter: "fromkeys (filter P xs) = filter P (fromkeys xs)"
  by (induction xs) (auto simp: filter_filter conj_commute intro!: filter_cong)

lemma fromkeys_append: "fromkeys (xs @ ys) = fromkeys xs @ filter (\<lambda>y. y \<notin> set xs) (fromkeys ys)"
  by (induction xs) (auto simp: filter_filter intro!: filter_cong)

lemma fromkeys_again: "fromkeys (fromkeys xs @ ys) = fromkeys (xs @ ys)"
  by (simp add: fromkeys_append fromkeys_distinct)

lemma add_to_group_member:
  assumes "distinct (map fst gs)" and "k \<in> fst ` set gs"
  shows "add_to_group k identity ids gs = map (\<lambda>(k', g). (k', if k' = k then g\<lparr>lg_evidence := fromkeys (lg_evidence g @ ids)\<rparr> else g)) gs"
  using assms
proof (induction gs)
  case (Cons p gs)
  obtain k' g where p: "p = (k', g)" by (cases p)
  show ?case
  proof (cases "k' = k")
    case True
    then have "k \<notin> fst ` set gs" using Cons.prems(1) p by simp
    then have "map (\<lambda>(k', g). (k', if k' = k then g\<lparr>lg_evidence := fromkeys (lg_evidence g @ ids)\<rparr> else g)) gs = gs"
      by (intro map_idI) (auto simp: image_iff)
    then show ?thesis using p True by simp
  next
    case False
    then show ?thesis using Cons p by auto
  qed
qed simp

lemma add_to_group_fresh:
  "k \<notin> fst ` set gs \<Longrightarrow> add_to_group k identity ids gs = gs @ [(k, \<lparr>lg_lead = hd ids, lg_identity = identity, lg_evidence = fromkeys ids\<rparr>)]"
  by (induction gs) auto

definition lead_table :: "json_env \<Rightarrow> json_fields list \<Rightarrow> (lead_key \<times> lead_group) list" where
  "lead_table env rows = map (\<lambda>(k, part). (k, lead_of env part)) (grouped (lead_key_in env) rows)"

lemma lead_table_keys: "map fst (lead_table env rows) = fromkeys (map (lead_key_in env) rows)"
  by (simp add: lead_table_def grouped_def comp_def)

lemma lead_table_snoc:
  "add_to_group (lead_key_in env row) (lead_identity (lead_event row)) (lead_ids env row) (lead_table env rows) = lead_table env (rows @ [row])"
proof (cases "lead_key_in env row \<in> set (map (lead_key_in env) rows)")
  case True
  let ?k = "lead_key_in env row"
  have "lead_of env (filter (\<lambda>x. lead_key_in env x = k) (rows @ [row]))
      = (if k = ?k then (lead_of env (filter (\<lambda>x. lead_key_in env x = k) rows))
           \<lparr>lg_evidence := fromkeys (lg_evidence (lead_of env (filter (\<lambda>x. lead_key_in env x = k) rows)) @ lead_ids env row)\<rparr>
         else lead_of env (filter (\<lambda>x. lead_key_in env x = k) rows))" for k
  proof (cases "k = ?k")
    case k: True
    have "filter (\<lambda>x. lead_key_in env x = ?k) rows \<noteq> []" using True by (auto simp: filter_empty_conv)
    then show ?thesis using k by (simp add: lead_of_def fromkeys_again)
  qed simp
  moreover have "distinct (map fst (lead_table env rows))" "?k \<in> fst ` set (lead_table env rows)"
    using True lead_table_keys [of env rows] by (simp_all flip: set_map)
  note add_to_group_member [OF this]
  ultimately show ?thesis using True by (simp add: lead_table_def grouped_def fromkeys_snoc)
next
  case False
  let ?k = "lead_key_in env row"
  have n: "filter (\<lambda>x. lead_key_in env x = ?k) rows = []" using False by (auto simp: filter_empty_conv image_iff)
  have "?k \<notin> fst ` set (lead_table env rows)" using False lead_table_keys [of env rows] by (simp flip: set_map)
  moreover have "map (\<lambda>k. (k, lead_of env (filter (\<lambda>x. lead_key_in env x = k) (rows @ [row])))) (fromkeys (map (lead_key_in env) rows))
      = map (\<lambda>k. (k, lead_of env (filter (\<lambda>x. lead_key_in env x = k) rows))) (fromkeys (map (lead_key_in env) rows))"
    using False by (intro map_cong) auto
  ultimately show ?thesis
    using False n by (simp add: add_to_group_fresh lead_table_def grouped_def fromkeys_snoc comp_def) (simp add: lead_of_def)
qed

lemma group_leads_table:
  assumes "group_leads env rows (lead_table env seen) = Inr gs"
  shows "gs = lead_table env (seen @ filter (\<lambda>row. advisory_match row = Inr True) rows)
    \<and> (\<forall>row \<in> set rows. advisory_match row = Inr True \<longrightarrow> is_ok (event_of row) \<and> is_ok (row_identifiers env row))"
  using assms
proof (induction rows arbitrary: seen)
  case (Cons row rows)
  obtain matched where m: "advisory_match row = Inr matched" using Cons.prems by (auto simp: result_simps)
  show ?case
  proof (cases matched)
    case True
    obtain event ids where e: "event_of row = Inr event" "row_identifiers env row = Inr ids"
        "group_leads env rows (add_to_group (lead_key_of event (hd ids)) (lead_identity event) ids (lead_table env seen)) = Inr gs"
      using Cons.prems m True by (auto simp: result_simps)
    moreover have "lead_key_in env row = lead_key_of event (hd ids)" using e(1,2) by (simp add: lead_key_in_def lead_event_def lead_ids_def)
    ultimately have "group_leads env rows (lead_table env (seen @ [row])) = Inr gs"
      using lead_table_snoc [of env row seen] by (simp add: row_key_def lead_event_def lead_ids_def)
    from Cons.IH [OF this] show ?thesis using m True e by simp
  next
    case False
    then show ?thesis using Cons.prems Cons.IH [of seen] m by simp
  qed
qed simp

text \<open>Leads are the advisory matches grouped by identity.  The groups are those of the records that match the
  advisory, in the order of their times: one group for every process identity or, where the identity is
  missing or ambiguous, for every record; a group is led by its earliest record and lists all evidence of its
  records and their duplicates once.\<close>

theorem lead_groups_by_identity:
  assumes "advisory_lead_groups env records = Inr gs"
  shows "gs = map (\<lambda>(_, part). lead_of env part)
      (grouped (lead_key_in env) (by_time env (filter (\<lambda>row. advisory_match row = Inr True) records)))
    \<and> (\<Union>g \<in> set gs. set (lg_evidence g)) = (\<Union>row \<in> {row \<in> set records. advisory_match row = Inr True}. set (lead_ids env row))"
proof -
  let ?m = "by_time env (filter (\<lambda>row. advisory_match row = Inr True) records)"
  have "lead_table env [] = []" by (simp add: lead_table_def grouped_def)
  then obtain table where t: "group_leads env (by_time env records) (lead_table env []) = Inr table" "gs = map snd table"
    using assms by (auto simp: advisory_lead_groups_def result_simps)
  have m: "filter (\<lambda>row. advisory_match row = Inr True) (by_time env records) = ?m" by (simp add: by_time_def filter_sort)
  then have gs: "gs = map (\<lambda>(_, part). lead_of env part) (grouped (lead_key_in env) ?m)"
    using group_leads_table [OF t(1)] by (simp add: t(2) lead_table_def case_prod_unfold comp_def)
  have "set ?m = {row \<in> set records. advisory_match row = Inr True}" by (simp add: by_time_def)
  moreover have "(\<Union>g \<in> set gs. set (lg_evidence g)) = (\<Union>row \<in> set ?m. set (lead_ids env row))"
    unfolding gs by (auto simp: grouped_def lead_of_def)
  ultimately show ?thesis using gs by simp
qed

subsection \<open>Periods count the records\<close>

definition relation_to :: "json_env \<Rightarrow> int option \<Rightarrow> json_fields \<Rightarrow> string" where
  "relation_to env anchor row =
     (case (anchor, raw_event_time env row) of
        (Some a, Some t) \<Rightarrow> if t < a then ''before'' else if t = a then ''at'' else ''after''
      | _ \<Rightarrow> ''unknown'')"

lemma sorted_takeWhile_less:
  fixes ts :: "int list"
  shows "sorted ts \<Longrightarrow> length (takeWhile (\<lambda>t. t < a) ts) = length (filter (\<lambda>t. t < a) ts)"
    and "sorted ts \<Longrightarrow> length (takeWhile (\<lambda>t. t \<le> a) ts) = length (filter (\<lambda>t. t \<le> a) ts)"
  by (induction ts) (force simp: filter_empty_conv)+

lemma bisect_counts:
  assumes "sorted ts"
  shows "bisect_left ts a = length (filter (\<lambda>t. t < a) ts)"
    and "bisect_right ts a - bisect_left ts a = length (filter (\<lambda>t. t = a) ts)"
    and "length ts - bisect_right ts a = length (filter (\<lambda>t. a < t) ts)"
proof -
  have split: "length (filter (\<lambda>t. t \<le> a) ts) = length (filter (\<lambda>t. t < a) ts) + length (filter (\<lambda>t. t = a) ts)"
      "length ts = length (filter (\<lambda>t. t \<le> a) ts) + length (filter (\<lambda>t. a < t) ts)"
    by (induction ts) auto
  show "bisect_left ts a = length (filter (\<lambda>t. t < a) ts)"
    "bisect_right ts a - bisect_left ts a = length (filter (\<lambda>t. t = a) ts)"
    "length ts - bisect_right ts a = length (filter (\<lambda>t. a < t) ts)"
    using sorted_takeWhile_less [OF assms, of a] split by (simp_all add: bisect_left_def bisect_right_def)
qed

lemma known_times_filter:
  "length (filter P (known_times env rows)) = length (filter (\<lambda>row. case raw_event_time env row of None \<Rightarrow> False | Some t \<Rightarrow> P t) rows)"
  by (induction rows) (auto simp: known_times_def split: option.splits)

lemma known_times_length:
  "length rows - length (known_times env rows) = length (filter (\<lambda>row. raw_event_time env row = None) rows)"
proof -
  have "length rows = length (known_times env rows) + length (filter (\<lambda>row. raw_event_time env row = None) rows)"
    by (induction rows) (auto simp: known_times_def)
  then show ?thesis by simp
qed

definition period_counts :: "json_env \<Rightarrow> int option \<Rightarrow> json_fields list \<Rightarrow> (string \<times> nat) list" where
  "period_counts env anchor rows =
     filter (\<lambda>(_, n). n \<noteq> 0) (map (\<lambda>name. (name, length (filter (\<lambda>row. relation_to env anchor row = name) rows)))
       [''before'', ''at'', ''after'', ''unknown''])"

lemma periods_counted:
  assumes "sorted (known_times env rows)"
  shows "map (\<lambda>p. (pe_name p, pe_count p)) (periods_of env anchor rows) = period_counts env anchor rows"
proof (cases anchor)
  case None
  have "filter (\<lambda>row. relation_to env None row = name) rows = (if name = ''unknown'' then rows else [])" for name
    by (induction rows) (simp_all add: relation_to_def)
  then show ?thesis using None by (simp add: periods_of_def period_counts_def Let_def)
next
  case (Some a)
  let ?n = "\<lambda>name. length (filter (\<lambda>row. relation_to env anchor row = name) rows)"
  note counts = bisect_counts [OF assms, of a]
  have rel: "relation_to env anchor row = ''before'' \<longleftrightarrow> (case raw_event_time env row of None \<Rightarrow> False | Some t \<Rightarrow> t < a)"
      "relation_to env anchor row = ''at'' \<longleftrightarrow> (case raw_event_time env row of None \<Rightarrow> False | Some t \<Rightarrow> t = a)"
      "relation_to env anchor row = ''after'' \<longleftrightarrow> (case raw_event_time env row of None \<Rightarrow> False | Some t \<Rightarrow> a < t)"
      "relation_to env anchor row = ''unknown'' \<longleftrightarrow> raw_event_time env row = None" for row
    by (auto simp: relation_to_def Some split: option.splits)
  have n: "?n ''before'' = bisect_left (known_times env rows) a"
      "?n ''at'' = bisect_right (known_times env rows) a - bisect_left (known_times env rows) a"
      "?n ''after'' = length (known_times env rows) - bisect_right (known_times env rows) a"
      "?n ''unknown'' = length rows - length (known_times env rows)"
    unfolding rel by (simp_all only: counts [symmetric] known_times_filter [symmetric] known_times_length [symmetric])
  show ?thesis
    unfolding period_counts_def list.map n by (simp add: periods_of_def Some Let_def)
qed

lemma by_time_known_sorted: "sorted (known_times env (filter P (by_time env rows)))"
proof -
  let ?key = "\<lambda>row. time_key (raw_event_time env row)"
  have s: "sorted (map ?key (filter P (by_time env rows)))" by (simp add: by_time_def sorted_filter)
  have "sorted (map ?key xs) \<Longrightarrow> sorted (known_times env xs)" for xs
  proof (induction xs)
    case (Cons x xs)
    have "the (raw_event_time env x) \<le> the (raw_event_time env y)"
      if "y \<in> set xs" "raw_event_time env x \<noteq> None" "raw_event_time env y \<noteq> None" for y
      using Cons.prems that by (auto simp: time_key_def less_eq_prod_def split: option.splits)
    then show ?case using Cons by (auto simp: known_times_def)
  qed (simp add: known_times_def)
  then show ?thesis using s by blast
qed

lemma last_named_only:
  assumes "distinct (map key rows)" and "row \<in> set rows"
  shows "last_named key rows (key row) = Some row"
proof -
  obtain pre post where rows: "rows = pre @ row # post" using assms(2) by (meson split_list)
  have "find (\<lambda>r. key r = key row) (rev post) = None" using assms(1) by (auto simp: rows find_None_iff image_iff)
  then show ?thesis by (simp add: last_named_def rows find_append)
qed

lemma last_named_none: "k \<notin> key ` set rows \<Longrightarrow> last_named key rows k = None"
  by (auto simp: last_named_def find_None_iff)

lemma timeline_rows_filter:
  assumes "list_all2 (\<lambda>row entry. get_or entry ''evidence_id'' JNull = JStr (key row)) rows timeline"
    and "\<And>row. row \<in> set rows \<Longrightarrow> find_row (key row) = (if ok row then Some row else None)"
  shows "timeline_rows find_row timeline = filter ok rows"
  using assms by (induction rule: list_all2_induct) (simp_all add: timeline_rows_def)

text \<open>When identifiers are unique, reading the records back by the timeline gives those with an event, in order.\<close>

lemma timeline_rows_read_back:
  assumes "stored_list results ''evidence'' = Inr evidence" and "retained_timeline env results = Inr timeline"
    and "distinct (map (key_text env ''evidence_id'') (filter raw_record (objects evidence)))"
    and "list_all (\<lambda>row. map_of row ''evidence_id'' \<noteq> None) (objects evidence)"
  shows "timeline_rows (last_named (key_text env ''evidence_id'') (evidence_rows evidence)) timeline
    = filter (\<lambda>row. object_json (get_or row ''selected_result'' JNull)) (observations env evidence)"
proof -
  let ?key = "key_text env ''evidence_id''" and ?ok = "\<lambda>row. object_json (get_or row ''selected_result'' JNull)"
  let ?raw = "filter raw_record (objects evidence)"
  have rows: "evidence_rows evidence = filter ?ok ?raw" by (simp add: evidence_rows_def conj_commute)
  have d: "distinct (map ?key (evidence_rows evidence))" using assms(3) unfolding rows by (rule distinct_map_filter)
  have found: "last_named ?key (evidence_rows evidence) (?key row) = (if ?ok row then Some row else None)" if "row \<in> set ?raw" for row
  proof (cases "?ok row")
    case True
    then show ?thesis using last_named_only [OF d, of row] that by (simp add: rows)
  next
    case False
    have "?key row \<notin> ?key ` set (evidence_rows evidence)"
      using assms(3) that False unfolding rows distinct_map by (auto dest: inj_onD)
    then show ?thesis using False last_named_none by auto
  qed
  have "list_all2 (\<lambda>row entry. get_or entry ''evidence_id'' JNull = JStr (?key row)) (observations env evidence) timeline"
  proof -
    have f: "list_all2 (\<lambda>row entry. get_or entry ''evidence_id'' JNull = JStr (named env ''evidence_id'' ''unknown'' row))
        (observations env evidence) timeline"
      using assms(1,2) by (auto simp: retained_timeline_def bindR_eq_Inr Let_def mapR_Inr get_or_def elim!: list_all2_mono)
    have "named env ''evidence_id'' ''unknown'' row = ?key row" if "row \<in> set (observations env evidence)" for row
    proof -
      have "map_of row ''evidence_id'' \<noteq> None" using assms(4) that by (auto simp: observations_def list_all_iff)
      then show ?thesis by (auto simp: named_def key_text_def get_or_def)
    qed
    then show ?thesis using f by (auto simp: list_all2_conv_all_nth)
  qed
  then show ?thesis by (rule timeline_rows_filter) (use found in \<open>simp add: observations_def\<close>)
qed


subsection \<open>An example\<close>

text \<open>Two copies of a matching event from two queries, a later event of the same process, and an aggregate row.\<close>

definition view_env :: json_env where
  "view_env = \<lparr>container_text = (\<lambda>_. []), instant_of = (\<lambda>s. if s = ''t1'' then Some 1 else if s = ''t2'' then Some 2 else None)\<rparr>"

definition view_event :: "string \<Rightarrow> json" where
  "view_event act = JObj [(''_cd'', JStr act), (''host'', JStr ''h''), (''process_guid'', JStr ''p''), (''action'', JStr act)]"

definition view_row :: "string \<Rightarrow> string \<Rightarrow> string \<Rightarrow> string \<Rightarrow> json" where
  "view_row i q t act =
     JObj [(''evidence_id'', JStr i), (''query_id'', JStr q), (''event_time_utc'', JStr t), (''selected_result'', view_event act),
       (''advisory_ioc_comparison'', JObj [(''matched_domain_literals'', JList (if act = ''dns'' then [JStr ''d''] else []))])]"

definition view_results :: json_fields where
  "view_results =
     [(''queries'', JList [JObj [(''query_id'', JStr ''q1''), (''status'', JStr ''completed'')], JObj [(''query_id'', JStr ''q2''), (''status'', JStr ''completed'')]]),
      (''evidence'', JList [view_row ''e3'' ''q2'' ''t2'' ''exec'', view_row ''e1'' ''q1'' ''t1'' ''dns'', view_row ''e2'' ''q1'' ''t1'' ''dns'',
         JObj [(''evidence_id'', JStr ''a''), (''query_id'', JStr ''q1''), (''evidence_kind'', JStr ''aggregate_row'')]])]"

definition view_request :: lookup_request where
  "view_request = \<lparr>lr_query_ids = [''q1'', ''q2''], lr_filters = [(''host'', JStr ''h'')], lr_earliest = None, lr_latest = None,
     lr_offset = 0, lr_limit = 1, lr_max_rows = 500, lr_distinct = [''host''], lr_include = True\<rparr>"

definition view_records :: "json_fields list" where
  "view_records = objects (elements (get_or view_results ''evidence'' JNull))"

definition view_completed :: "(string \<times> json_fields) list" where
  "view_completed = map (\<lambda>i. (i, [(''query_id'', JStr i), (''status'', JStr ''completed'')])) [''q1'', ''q2'']"

definition view_matching :: "json_fields list" where
  "view_matching = map object_fields [view_row ''e1'' ''q1'' ''t1'' ''dns'', view_row ''e2'' ''q1'' ''t1'' ''dns'', view_row ''e3'' ''q2'' ''t2'' ''exec'']"

lemma view_parts:
  "completed_queries view_env view_results = Inr view_completed"
  "check_lookup view_completed view_request = Inr (None, None)"
  "matching_rows view_env (lr_filters view_request) (None, None) (retained_rows view_env (lr_query_ids view_request)
     (elements (get_or view_results ''evidence'' JNull))) = view_matching"
  "is_ok (retained_field_counts view_matching (lr_distinct view_request))"
  "case compact_evidence_records view_env view_matching (map (\<lambda>kv. JObj (snd kv)) view_completed) of Inr gs \<Rightarrow> length gs = 2 | Inl _ \<Rightarrow> False"
  by code_simp+

lemma view_lists:
  "stored_list view_results ''evidence'' = Inr (elements (get_or view_results ''evidence'' JNull))"
  "list_all unmerged (objects (elements (get_or view_results ''evidence'' JNull)))"
  "list_all (\<lambda>row. map_of row ''evidence_id'' \<noteq> None) (objects (elements (get_or view_results ''evidence'' JNull)))"
  "distinct (map (key_text view_env ''evidence_id'') (filter raw_record (objects (elements (get_or view_results ''evidence'' JNull)))))"
  by code_simp+

lemma page_groups: "rp_groups (page_of rq inventory groups) = length groups"
  by (simp add: page_of_def Let_def)

lemma view_lookup: "\<exists>page. lookup_retained_evidence view_env view_results view_request = Inr (Inr page) \<and> rp_groups page = 2"
proof -
  obtain counts where c: "retained_field_counts view_matching (lr_distinct view_request) = Inr counts"
    using view_parts(4) by (auto simp: is_ok_iff)
  obtain gs where g: "compact_evidence_records view_env view_matching (map (\<lambda>kv. JObj (snd kv)) view_completed) = Inr gs" "length gs = 2"
    using view_parts(5) by (auto split: sum.splits)
  have "lr_include view_request" by (simp add: view_request_def)
  then show ?thesis
    unfolding lookup_retained_evidence_def Let_def by (simp add: view_parts(1-3) view_lists(1) c g page_groups)
qed


lemma view_groups: "case advisory_lead_groups view_env view_records of Inr gs \<Rightarrow> map lg_evidence gs = [[''e1'', ''e2'']] | Inl _ \<Rightarrow> False"
  by code_simp

theorem lead_groups_by_identity_witness:
  "\<exists>gs. advisory_lead_groups view_env view_records = Inr gs
     \<and> (\<Union>row \<in> {row \<in> set view_records. advisory_match row = Inr True}. set (lead_ids view_env row)) = {''e1'', ''e2''}"
proof -
  obtain gs where g: "advisory_lead_groups view_env view_records = Inr gs" "map lg_evidence gs = [[''e1'', ''e2'']]"
    using view_groups by (auto split: sum.splits)
  have "(\<Union>g \<in> set gs. set (lg_evidence g)) = \<Union> (set ` set (map lg_evidence gs))" by auto
  also have "\<dots> = {''e1'', ''e2''}" unfolding g(2) by auto
  finally have e: "(\<Union>g \<in> set gs. set (lg_evidence g)) = {''e1'', ''e2''}" .
  have "(\<Union>row \<in> {row \<in> set view_records. advisory_match row = Inr True}. set (lead_ids view_env row)) = {''e1'', ''e2''}"
    using lead_groups_by_identity [OF g(1)] unfolding e by (rule conjunct2 [THEN sym])
  then show ?thesis using g(1) by blast
qed

definition view_key :: json_fields where
  "view_key = [(''host'', JStr ''h''), (''process_guid'', JStr ''p'')]"

lemma is_ok_mapR: "(\<And>x. x \<in> set xs \<Longrightarrow> is_ok (f x)) \<Longrightarrow> is_ok (mapR f xs)"
  by (induction xs) (simp_all add: is_ok_bindR)

lemma last_named_member: "last_named key rows k = Some row \<Longrightarrow> row \<in> set rows"
proof -
  have "find P xs = Some x \<Longrightarrow> x \<in> set xs" for P and xs :: "json_fields list" and x by (induction xs) (auto split: if_splits)
  then show "last_named key rows k = Some row \<Longrightarrow> row \<in> set rows" unfolding last_named_def by fastforce
qed

lemma view_queries:
  "stored_list view_results ''queries'' = Inr (elements (get_or view_results ''queries'' JNull))"
  "list_all (\<lambda>q. is_ok (retrieval_status (Some q))) (objects (elements (get_or view_results ''queries'' JNull)))"
  by code_simp+

lemma view_timeline: "is_ok (retained_timeline view_env view_results)"
proof -
  have "is_ok (retrieval_status (last_named key (objects (elements (get_or view_results ''queries'' JNull))) k))" for key k
  proof (cases "last_named key (objects (elements (get_or view_results ''queries'' JNull))) k")
    case None
    then show ?thesis by (simp add: retrieval_status_def)
  next
    case (Some q)
    then have "q \<in> set (objects (elements (get_or view_results ''queries'' JNull)))"
      by (rule last_named_member)
    then show ?thesis using Some view_queries(2) by (simp add: list_all_iff)
  qed
  then show ?thesis
    unfolding retained_timeline_def view_queries(1) view_lists(1) bindR_simps by (intro is_ok_mapR) (simp add: Let_def is_ok_bindR)
qed


end
