(* ===== verification/LeadSessions.thy ===== *)
theory LeadSessions
  imports EvidenceViews "HOL-Library.Sublist"
begin

text \<open>
  The sessions of advisory leads in \<^verbatim>\<open>services/evidence.py\<close>: which questions ask for them, the
  search text that selects them, the test whether a search covers them, and the rewriting of a
  narrow search into one that covers all of them.  Regular expressions are written out as
  scanners.  A widened search passes the test for every session whose texts have no run of white space.
\<close>

subsection \<open>Questions\<close>

definition mentions :: "string list \<Rightarrow> string \<Rightarrow> bool" where
  "mentions signals text \<longleftrightarrow> list_ex (\<lambda>s. sublist s text) signals"

definition question_requests_inventories :: "string \<Rightarrow> bool" where
  "question_requests_inventories question \<longleftrightarrow>
     mentions [''how many'', ''distinct'', ''count'', ''number of''] (casefold question)
     \<and> mentions [''host'', ''user'', ''ip'', ''process'', ''session'', ''spread'', ''entity'', ''scope''] (casefold question)"

definition question_requires_all_lead_coverage :: "string \<Rightarrow> bool" where
  "question_requires_all_lead_coverage question \<longleftrightarrow>
     (let text = casefold question in
      mentions [''each lead'', ''all leads'', ''every lead'', ''for each endpoint lead''] text
      \<or> sublist ''related'' text \<and> mentions [''host'', ''user'', ''session'', ''process'', ''ip''] text
        \<and> mentions [''authentication'', ''auth'', ''logon'', ''logoff'', ''dns'', ''network'', ''connection'', ''communicat'', ''spread''] text)"

subsection \<open>Sessions of leads\<close>

type_synonym session_filter = "(string \<times> string) list"

fun blank_free :: "json \<Rightarrow> string option" where
  "blank_free (JStr s) = (if strip s = [] then None else Some s)"
| "blank_free _ = None"

definition session_of :: "json_fields \<Rightarrow> session_filter" where
  "session_of identity =
     concat (map (\<lambda>k. case blank_free (get_or identity k JNull) of None \<Rightarrow> [] | Some s \<Rightarrow> [(k, s)]) SESSION_FIELDS)"

definition has_session :: "session_filter \<Rightarrow> bool" where
  "has_session session \<longleftrightarrow> map_of session ''session_id'' \<noteq> None"

text \<open>The filters keep the order of the fields, so equal dictionaries are equal lists.\<close>

definition retained_lead_session_filters :: "lead_group list \<Rightarrow> session_filter list" where
  "retained_lead_session_filters leads = fromkeys (filter has_session (map (\<lambda>lead. session_of (lg_identity lead)) leads))"

definition session_scope :: "string list \<Rightarrow> session_filter \<Rightarrow> RetainedEvidenceScope" where
  "session_scope query_ids session =
     \<lparr>rs_query_ids = sort (remdups query_ids), rs_filters = map (\<lambda>(k, v). \<lparr>rf_field = k, rf_value = VStr v\<rparr>) session,
      rs_earliest = None, rs_latest = None\<rparr>"

definition lead_session_inventory_scopes :: "lead_group list \<Rightarrow> string list \<Rightarrow> RetainedEvidenceScope list result" where
  "lead_session_inventory_scopes leads query_ids =
     bindR (mapR (\<lambda>session. bindR (validate_lookup (session_scope query_ids session)) (\<lambda>_. Inr (session_scope query_ids session)))
              (filter has_session (map (\<lambda>lead. session_of (lg_identity lead)) leads))) (\<lambda>scopes. Inr (fromkeys scopes))"

definition question_completed_query_ids :: "json_env \<Rightarrow> json_fields \<Rightarrow> string \<Rightarrow> string list outcome" where
  "question_completed_query_ids env results question_id =
     bindR (stored_list results ''queries'') (\<lambda>queries.
       mapR (\<lambda>q. bindR (field_of q ''query_id'') (\<lambda>i. Inr (json_str env i)))
         (filter (\<lambda>q. get_or q ''status'' JNull = JStr ''completed'' \<and> key_text env ''question_id'' q = question_id) (objects queries)))"

subsection \<open>Search text\<close>

definition replace_one :: "char \<Rightarrow> string \<Rightarrow> string \<Rightarrow> string" where
  "replace_one c new s = concat (map (\<lambda>x. if x = c then new else [x]) s)"

definition spl_literal :: "string \<Rightarrow> string" where
  "spl_literal s = dquote # replace_one dquote [backslash, dquote] (replace_one backslash [backslash, backslash] s) @ [dquote]"

definition predicate_of :: "string \<times> string \<Rightarrow> string" where
  "predicate_of kv = fst kv @ ''='' @ spl_literal (snd kv)"

definition in_order :: "session_filter \<Rightarrow> session_filter" where
  "in_order session =
     concat (map (\<lambda>k. case map_of session k of None \<Rightarrow> [] | Some v \<Rightarrow> [(k, v)]) SESSION_FIELDS)"

definition and_branch :: "(string \<times> string) list \<Rightarrow> string" where
  "and_branch kvs = ''('' @ join '' AND '' (map predicate_of kvs) @ '')''"

definition lead_session_and_branch :: "session_filter \<Rightarrow> string" where
  "lead_session_and_branch session = and_branch (in_order session)"

definition lead_session_spl_disjunction :: "session_filter list \<Rightarrow> string result" where
  "lead_session_spl_disjunction sessions =
     (let branches = map lead_session_and_branch (filter has_session sessions) in
      if branches = [] then Inl (ValueError ''no session-scoped advisory leads'')
      else if length branches > 64 then Inl (ValueError ''too many lead sessions for one bounded query'')
      else Inr (case branches of [b] \<Rightarrow> b | _ \<Rightarrow> ''('' @ join '' OR '' branches @ '')''))"

text \<open>\<open>re.sub(r"\s+", " ", s)\<close>.\<close>

fun collapse :: "bool \<Rightarrow> string \<Rightarrow> string" where
  "collapse prev [] = []"
| "collapse prev (c # cs) =
     (if py_isspace c then (if prev then collapse True cs else CHR '' '' # collapse True cs) else c # collapse False cs)"

fun inserted :: "'a \<Rightarrow> 'a list \<Rightarrow> 'a list list" where
  "inserted x [] = [[x]]"
| "inserted x (y # ys) = (x # y # ys) # map ((#) y) (inserted x ys)"

fun orders :: "'a list \<Rightarrow> 'a list list" where
  "orders [] = [[]]"
| "orders (x # xs) = concat (map (inserted x) (orders xs))"

definition spl_covers_lead_session :: "string \<Rightarrow> session_filter \<Rightarrow> bool" where
  "spl_covers_lead_session spl session \<longleftrightarrow>
     (let text = strip (collapse False spl) in
      has_session session
      \<and> (sublist (lead_session_and_branch session) text
         \<or> list_ex (\<lambda>kvs. sublist (and_branch kvs) text) (orders (in_order session))))"

definition spl_covers_all_lead_sessions :: "string \<Rightarrow> session_filter list \<Rightarrow> bool" where
  "spl_covers_all_lead_sessions spl sessions \<longleftrightarrow> list_all (spl_covers_lead_session spl) sessions"

subsection \<open>Removing identity predicates\<close>

definition ignoring_case :: "string \<Rightarrow> string \<Rightarrow> string option" where
  "ignoring_case word s = (if lower (take (length word) s) = word then Some (drop (length word) s) else None)"

fun first_word :: "string list \<Rightarrow> string \<Rightarrow> string option" where
  "first_word [] s = None"
| "first_word (w # ws) s = (case ignoring_case w s of None \<Rightarrow> first_word ws s | Some rest \<Rightarrow> Some rest)"

definition IDENTITY_NAMES :: "string list" where
  "IDENTITY_NAMES = [''host'', ''user'', ''session_id'', ''process_guid'']"

text \<open>\<open>(?:host|user|session_id|process_guid)\s*=\s*"(?:\\.|[^"\\])*"\<close>: what follows the match.\<close>

definition match_identity :: "string \<Rightarrow> string option" where
  "match_identity s =
     (case first_word IDENTITY_NAMES s of
        None \<Rightarrow> None
      | Some rest \<Rightarrow>
          (case lstrip rest of
             e # after_equals \<Rightarrow>
               (case lstrip after_equals of
                  q # body \<Rightarrow> if e = CHR ''='' \<and> q = dquote then map_option snd (quoted_body dquote body) else None
                | [] \<Rightarrow> None)
           | [] \<Rightarrow> None))"

text \<open>\<open>(?:(?:AND|OR)\s+ identity \s*)+\)\<close>; each round consumes text, so the length of the text is enough fuel.\<close>

fun match_rounds :: "nat \<Rightarrow> bool \<Rightarrow> string \<Rightarrow> string option" where
  "match_rounds 0 seen s = None"
| "match_rounds (Suc fuel) seen s =
     (case first_word [''and'', ''or''] s of
        Some rest \<Rightarrow>
          (if lstrip rest = rest then None
           else case match_identity (lstrip rest) of None \<Rightarrow> None | Some rest' \<Rightarrow> match_rounds fuel True (lstrip rest'))
      | None \<Rightarrow> (case s of c # cs \<Rightarrow> if seen \<and> c = CHR '')'' then Some cs else None | [] \<Rightarrow> None))"

definition match_identity_group :: "char option \<Rightarrow> string \<Rightarrow> string option" where
  "match_identity_group prev s =
     (case s of
        c # cs \<Rightarrow>
          (if c = CHR ''('' then (case match_identity (lstrip cs) of
                                None \<Rightarrow> None
                              | Some rest \<Rightarrow> match_rounds (Suc (length rest)) False (lstrip rest))
           else None)
      | [] \<Rightarrow> None)"

definition match_identity_word :: "char option \<Rightarrow> string \<Rightarrow> string option" where
  "match_identity_word prev s =
     (if (case prev of None \<Rightarrow> True | Some c \<Rightarrow> \<not> py_word c) then match_identity s else None)"

definition match_empty_parens :: "char option \<Rightarrow> string \<Rightarrow> string option" where
  "match_empty_parens prev s =
     (case s of
        c # cs \<Rightarrow> if c = CHR ''('' then (case lstrip cs of d # ds \<Rightarrow> if d = CHR '')'' then Some ds else None | [] \<Rightarrow> None) else None
      | [] \<Rightarrow> None)"

text \<open>\<open>\s+WORD\s+WORD\s+\<close> and \<open>\s{2,}\<close>.\<close>

definition after_space :: "string \<Rightarrow> string option" where
  "after_space s = (if lstrip s = s then None else Some (lstrip s))"

definition match_doubled :: "string \<Rightarrow> char option \<Rightarrow> string \<Rightarrow> string option" where
  "match_doubled word prev s =
     Option.bind (after_space s) (\<lambda>a. Option.bind (ignoring_case word a) (\<lambda>b. Option.bind (after_space b) (\<lambda>c.
     Option.bind (ignoring_case word c) after_space)))"

definition match_gap :: "char option \<Rightarrow> string \<Rightarrow> string option" where
  "match_gap prev s = (case s of c # d # cs \<Rightarrow> if py_isspace c \<and> py_isspace d then Some (lstrip s) else None | _ \<Rightarrow> None)"

text \<open>\<open>re.sub\<close>: leftmost matches that do not overlap.  A matcher returns what follows its match and sees the
  character before it; \<open>n\<close> bounds the characters still to read.\<close>

fun sub_matches :: "nat \<Rightarrow> (char option \<Rightarrow> string \<Rightarrow> string option) \<Rightarrow> string \<Rightarrow> char option \<Rightarrow> string \<Rightarrow> string" where
  "sub_matches 0 m new prev s = []"
| "sub_matches (Suc n) m new prev s =
     (case s of
        [] \<Rightarrow> []
      | c # cs \<Rightarrow>
          (case m prev s of
             Some rest \<Rightarrow> new @ sub_matches n m new (Some (s ! (length s - length rest - 1))) rest
           | None \<Rightarrow> c # sub_matches n m new (Some c) cs))"

definition re_sub :: "(char option \<Rightarrow> string \<Rightarrow> string option) \<Rightarrow> string \<Rightarrow> string \<Rightarrow> string" where
  "re_sub m new s = sub_matches (length s) m new None s"

definition strip_lead_identity_predicates :: "string \<Rightarrow> string" where
  "strip_lead_identity_predicates args =
     (let cleaned = re_sub match_identity_group '' '' args;
          cleaned = re_sub match_identity_word '' '' cleaned;
          cleaned = re_sub match_empty_parens '' '' cleaned;
          cleaned = re_sub (match_doubled ''and'') '' AND '' cleaned;
          cleaned = re_sub (match_doubled ''or'') '' OR '' cleaned in
      strip (re_sub match_gap '' '' cleaned))"

definition widen_spl_for_lead_sessions :: "string \<Rightarrow> session_filter list \<Rightarrow> string result" where
  "widen_spl_for_lead_sessions spl sessions =
     bindR (parse_spl spl) (\<lambda>parsed.
     bindR (lead_session_spl_disjunction sessions) (\<lambda>disjunction.
       (let stripped = strip_lead_identity_predicates (snd (hd (command_segments parsed)));
            args = (if stripped = [] then disjunction else strip (stripped @ '' AND '' @ disjunction)) in
        Inr (join '' | '' (rstrip (''search '' @ args) # map render_segment (tl (command_segments parsed)))))))"

subsection \<open>A widened search covers the sessions\<close>

definition solid :: "string \<Rightarrow> bool" where
  "solid b \<longleftrightarrow> b \<noteq> [] \<and> \<not> py_isspace (hd b) \<and> \<not> py_isspace (last b)"

definition settled :: "string \<Rightarrow> bool" where
  "settled s \<longleftrightarrow> collapse False s = s"

lemma collapse_append: "collapse p (s @ t) = collapse p s @ collapse (if s = [] then p else py_isspace (last s)) t"
  by (induction s arbitrary: p) auto

definition starts_solid :: "string \<Rightarrow> bool" where
  "starts_solid b \<longleftrightarrow> b \<noteq> [] \<and> \<not> py_isspace (hd b)"

lemma collapse_starts: "starts_solid b \<Longrightarrow> collapse p b = collapse False b"
  by (cases b) (auto simp: starts_solid_def)

lemma collapse_solid: "solid b \<Longrightarrow> collapse p b = collapse False b"
  by (rule collapse_starts) (simp add: solid_def starts_solid_def)

lemma sublist_collapse:
  assumes "sublist b t" and "solid b" and "settled b"
  shows "sublist b (collapse p t)"
proof -
  obtain x y where t: "t = x @ b @ y" using assms(1) by (auto simp: sublist_def)
  show ?thesis unfolding t collapse_append using collapse_solid [OF assms(2)] assms(3) by (simp add: settled_def)
qed

lemma sublist_lstrip:
  assumes "sublist b t" and "solid b"
  shows "sublist b (lstrip t)"
proof -
  obtain x y where t: "t = x @ b @ y" using assms(1) by (auto simp: sublist_def)
  have b: "dropWhile py_isspace (b @ y) = b @ y" using assms(2) by (cases b) (auto simp: solid_def)
  show ?thesis
  proof (cases "\<forall>c \<in> set x. py_isspace c")
    case True
    then show ?thesis using b by (simp add: t lstrip_def dropWhile_append2)
  next
    case False
    then obtain c where "c \<in> set x" "\<not> py_isspace c" by blast
    then show ?thesis by (simp add: t lstrip_def dropWhile_append1)
  qed
qed

lemma sublist_rstrip:
  assumes "sublist b t" and "solid b"
  shows "sublist b (rstrip t)"
proof -
  have "sublist (rev b) (rev t)" using assms(1) by (simp add: sublist_rev)
  moreover have "solid (rev b)" using assms(2) by (simp add: solid_def hd_rev last_rev)
  ultimately have "sublist (rev b) (lstrip (rev t))" by (rule sublist_lstrip)
  then show ?thesis by (simp add: rstrip_def lstrip_def sublist_rev_right)
qed

lemma sublist_strip: "sublist b t \<Longrightarrow> solid b \<Longrightarrow> sublist b (strip t)"
  by (simp add: strip_def sublist_lstrip sublist_rstrip)

lemma sublist_after: "sublist b t \<Longrightarrow> sublist b (x @ t)" and sublist_before: "sublist b t \<Longrightarrow> sublist b (t @ y)"
  by (metis append.assoc sublist_def)+

lemma sublist_inside: "sublist b t \<Longrightarrow> sublist b (x @ t @ y)"
  by (intro sublist_after sublist_before)

lemma sublist_join: "x \<in> set xs \<Longrightarrow> sublist x (join sep xs)"
proof (induction sep xs rule: join.induct)
  case (3 sep y z zs)
  show ?case
  proof (cases "x = y")
    case False
    then have "sublist x (join sep (z # zs))" using 3 by simp
    then show ?thesis using sublist_after [of x "join sep (z # zs)" "y @ sep"] by simp
  qed simp
qed simp_all

lemma sublist_inside_join: "sublist b x \<Longrightarrow> sublist b (join sep (x # xs))"
  by (cases xs) (auto intro: sublist_before)

lemma settled_append:
  assumes "settled s" and "settled t" and "s = [] \<or> \<not> py_isspace (last s)"
  shows "settled (s @ t)"
proof -
  have "(if s = [] then False else py_isspace (last s)) = False" using assms(3) by auto
  then have "collapse False (s @ t) = collapse False s @ collapse False t" unfolding collapse_append by (rule arg_cong)
  then show ?thesis using assms(1,2) unfolding settled_def by metis
qed

lemma settled_then:
  assumes "settled s" and "starts_solid b" and "settled b"
  shows "settled (s @ b)"
  using assms(1,3) unfolding settled_def collapse_append collapse_starts [OF assms(2), of "if s = [] then False else py_isspace (last s)"]
  by metis

text \<open>Escaping puts a backslash before characters that are not white space.\<close>

definition escaped :: "string \<Rightarrow> string" where
  "escaped s = concat (map (\<lambda>c. if c = dquote \<or> c = backslash then [backslash, c] else [c]) s)"

lemma spl_literal_escaped: "spl_literal s = dquote # escaped s @ [dquote]"
  by (induction s) (simp_all add: spl_literal_def escaped_def replace_one_def)

lemma not_space: "\<not> py_isspace dquote" "\<not> py_isspace backslash" "\<not> py_isspace (CHR ''='')" "\<not> py_isspace (CHR ''('')" "\<not> py_isspace (CHR '')'')"
  by code_simp+

lemma collapse_escaped: "collapse p (escaped s) = escaped (collapse p s)"
proof (induction s arbitrary: p)
  case (Cons c s)
  have "escaped (c # s) = escaped [c] @ escaped s" "escaped (CHR '' '' # s) = CHR '' '' # escaped s" for s by (simp_all add: escaped_def)
  then show ?case using Cons not_space by (cases "c = dquote \<or> c = backslash") (auto simp: escaped_def)
qed (simp add: escaped_def)

lemma predicate_settled:
  assumes "k \<in> set SESSION_FIELDS" and "settled v"
  shows "solid (predicate_of (k, v))" and "settled (predicate_of (k, v))"
proof -
  have k: "k \<noteq> []" "\<not> py_isspace (hd k)" "settled (k @ ''='')" "\<not> py_isspace (last (k @ ''=''))"
    using assms(1) unfolding SESSION_FIELDS_def by (auto simp: settled_def py_isspace_def)
  show "solid (predicate_of (k, v))" using k(1,2) not_space by (simp add: predicate_of_def spl_literal_escaped solid_def)
  have "settled (spl_literal v)"
    using assms(2) not_space by (simp add: spl_literal_escaped settled_def collapse_append collapse_escaped)
  then show "settled (predicate_of (k, v))" using settled_append [OF k(3)] k(4) by (simp add: predicate_of_def)
qed

lemma and_branch_settled:
  assumes "\<And>k v. (k, v) \<in> set kvs \<Longrightarrow> k \<in> set SESSION_FIELDS \<and> settled v"
  shows "solid (and_branch kvs)" and "settled (and_branch kvs)"
proof -
  show "solid (and_branch kvs)" using not_space by (simp add: and_branch_def solid_def)
  have p: "solid x \<and> settled x" if "x \<in> set (map predicate_of kvs)" for x using that assms predicate_settled by auto
  have "settled (join '' AND '' xs) \<and> (xs \<noteq> [] \<longrightarrow> starts_solid (join '' AND '' xs))" if "\<And>x. x \<in> set xs \<Longrightarrow> solid x \<and> settled x" for xs
    using that
  proof (induction xs rule: remdups_adj.induct)
    case (3 x y ys)
    have x: "solid x" "settled x" using "3.prems" by auto
    have and_word: "settled '' AND ''" by code_simp
    have "settled (x @ '' AND '')" using x by (intro settled_append and_word) (simp_all add: solid_def)
    moreover have "settled (join '' AND '' (y # ys)) \<and> starts_solid (join '' AND '' (y # ys))"
      using "3.IH" "3.prems" by (cases "x = y") auto
    ultimately have "settled ((x @ '' AND '') @ join '' AND '' (y # ys))"
      using settled_then [of "x @ '' AND ''" "join '' AND '' (y # ys)"] by blast
    then show ?case using x(1) by (simp add: starts_solid_def solid_def)
  qed (auto simp: settled_def solid_def starts_solid_def)
  from this [of "map predicate_of kvs"] have s: "settled (join '' AND '' (map predicate_of kvs))" using p by blast
  have "settled (''('' @ join '' AND '' (map predicate_of kvs))"
    using s not_space by (simp add: settled_def)
  then show "settled (and_branch kvs)"
    unfolding and_branch_def append_assoc [symmetric] by (rule settled_then) (simp_all add: starts_solid_def settled_def not_space)
qed

lemma disjunction_text:
  assumes "lead_session_spl_disjunction sessions = Inr d"
  shows "map lead_session_and_branch (filter has_session sessions) = [d]
    \<or> d = ''('' @ join '' OR '' (map lead_session_and_branch (filter has_session sessions)) @ '')''"
  using assms unfolding lead_session_spl_disjunction_def Let_def by (simp split: if_splits list.splits)

text \<open>A widened search covers every session.  When the texts of the sessions have no white space other
  than single blanks, the rewriting always ends in a search that passes the coverage test for all of them.\<close>

theorem widened_search_covers_the_sessions:
  assumes "widen_spl_for_lead_sessions spl sessions = Inr w"
    and "list_all has_session sessions" and "list_all (\<lambda>session. list_all (\<lambda>(k, v). settled v) session) sessions"
  shows "spl_covers_all_lead_sessions w sessions"
proof -
  have "spl_covers_lead_session w s" if "s \<in> set sessions" for s
  proof -
    let ?b = "lead_session_and_branch s"
    have hs: "has_session s" and vs: "\<And>k v. (k, v) \<in> set s \<Longrightarrow> settled v" using assms(2,3) that by (auto simp: list_all_iff)
    have "k \<in> set SESSION_FIELDS \<and> settled v" if kv: "(k, v) \<in> set (in_order s)" for k v
    proof -
      obtain k' where k': "k' \<in> set SESSION_FIELDS" "(k, v) \<in> set (case map_of s k' of None \<Rightarrow> [] | Some v \<Rightarrow> [(k', v)])"
        using kv by (auto simp: in_order_def)
      then have "k = k'" "map_of s k = Some v" by (simp_all split: option.splits)
      then show ?thesis using k'(1) vs map_of_SomeD by metis
    qed
    note b = and_branch_settled [of "in_order s", OF this, folded lead_session_and_branch_def]
    obtain parsed d where d: "lead_session_spl_disjunction sessions = Inr d" and p: "parse_spl spl = Inr parsed"
        and w: "w = join '' | '' (rstrip (''search '' @ (if strip_lead_identity_predicates (snd (hd (command_segments parsed))) = [] then d
            else strip (strip_lead_identity_predicates (snd (hd (command_segments parsed))) @ '' AND '' @ d)))
          # map render_segment (tl (command_segments parsed)))"
      using assms(1) by (auto simp: widen_spl_for_lead_sessions_def result_simps Let_def)
    have mem: "?b \<in> set (map lead_session_and_branch (filter has_session sessions))" using that hs by simp
    have "sublist ?b (join '' OR '' (map lead_session_and_branch (filter has_session sessions)))" using mem by (rule sublist_join)
    then have "sublist ?b d" using disjunction_text [OF d] mem sublist_inside by fastforce
    then have "sublist ?b (if strip_lead_identity_predicates (snd (hd (command_segments parsed))) = [] then d
            else strip (strip_lead_identity_predicates (snd (hd (command_segments parsed))) @ '' AND '' @ d))"
      using sublist_strip [OF sublist_after [of ?b d "strip_lead_identity_predicates (snd (hd (command_segments parsed))) @ '' AND ''"] b(1)]
      by simp
    from sublist_after [OF this, of "''search ''"] have "sublist ?b (''search '' @ (if strip_lead_identity_predicates (snd (hd (command_segments parsed))) = [] then d
            else strip (strip_lead_identity_predicates (snd (hd (command_segments parsed))) @ '' AND '' @ d)))" .
    then have "sublist ?b w" unfolding w by (intro sublist_inside_join sublist_rstrip b) simp
    then have "sublist ?b (strip (collapse False w))" by (intro sublist_strip sublist_collapse b)
    then show ?thesis using hs by (simp add: spl_covers_lead_session_def)
  qed
  then show ?thesis by (simp add: spl_covers_all_lead_sessions_def list_all_iff)
qed

subsection \<open>Examples\<close>

definition two_sessions :: "session_filter list" where
  "two_sessions = [[(''host'', ''h1''), (''session_id'', ''s1'')], [(''host'', ''h2''), (''session_id'', ''s2'')]]"

definition two_branches :: string where
  "two_branches = ''('' @ lead_session_and_branch (two_sessions ! 0) @ '' OR '' @ lead_session_and_branch (two_sessions ! 1) @ '')''"

text \<open>The rewriting removes an identity predicate but not the \<open>AND\<close> before it, so the search that results has two in a row.\<close>

definition narrow_search :: string where
  "narrow_search = ''search index=auth AND host='' @ [dquote] @ ''h1'' @ [dquote]"

lemma narrow_parsed: "\<exists>n. parse_spl narrow_search = Inr \<lparr>normalized = n, command_segments = [(''search'', ''index=auth AND host='' @ [dquote] @ ''h1'' @ [dquote])]\<rparr>"
proof -
  have "strip narrow_search \<noteq> []" "backtick \<notin> set narrow_search" "CHR ''['' \<notin> set narrow_search" "CHR '']'' \<notin> set narrow_search"
      "CHR 0x00 \<notin> set narrow_search" "map strip (split_on (CHR ''|'') narrow_search) = [narrow_search]" "narrow_search \<noteq> []"
      "parse_segments 0 [narrow_search] = Inr [(''search'', ''index=auth AND host='' @ [dquote] @ ''h1'' @ [dquote])]"
    by code_simp+
  moreover have "length narrow_search \<le> 20000" by (simp add: narrow_search_def)
  ultimately show ?thesis unfolding parse_spl_def Let_def by auto
qed

lemma widening_leaves_a_dangling_and:
  "widen_spl_for_lead_sessions narrow_search two_sessions = Inr (''search index=auth AND AND '' @ two_branches)"
proof -
  have "lead_session_spl_disjunction two_sessions = Inr two_branches"
      "strip_lead_identity_predicates (''index=auth AND host='' @ [dquote] @ ''h1'' @ [dquote]) = ''index=auth AND''"
      "rstrip (''search '' @ strip (''index=auth AND'' @ '' AND '' @ two_branches)) = ''search index=auth AND AND '' @ two_branches"
    by code_simp+
  then show ?thesis using narrow_parsed by (auto simp: widen_spl_for_lead_sessions_def Let_def)
qed

text \<open>A text with two blanks is collapsed in the search but not in the branch it is compared with.\<close>

lemma double_blank_is_never_covered:
  "lead_session_spl_disjunction [[(''session_id'', ''a  b'')]] = Inr (lead_session_and_branch [(''session_id'', ''a  b'')])
   \<and> \<not> spl_covers_lead_session (lead_session_and_branch [(''session_id'', ''a  b'')]) [(''session_id'', ''a  b'')]"
  by code_simp

theorem widened_search_covers_the_sessions_witness:
  "\<exists>w. widen_spl_for_lead_sessions narrow_search two_sessions = Inr w \<and> spl_covers_all_lead_sessions w two_sessions"
proof -
  have "list_all has_session two_sessions" "list_all (\<lambda>session. list_all (\<lambda>(k, v). settled v) session) two_sessions"
    by code_simp+
  from widened_search_covers_the_sessions [OF widening_leaves_a_dangling_and this] show ?thesis
    using widening_leaves_a_dangling_and by blast
qed

end
