(* ===== verification/EvidenceSample.thy ===== *)
theory EvidenceSample
  imports EvidenceViews "HOL-Library.Multiset" "HOL-Library.Sublist"
begin

text \<open>
  The bounded sample of retained evidence that a model call is given (\<^verbatim>\<open>services/investigation.py\<close>,
  \<open>_spread_evidence_in_time\<close> and \<open>_balanced_evidence_sample\<close>).  Within a query the rows are put in an order that
  has early, late and interior observations first; between queries rows are taken in rounds until the
  limit.  The sample never exceeds the limit, holds retained rows only, and gives every query its share;
  the coverage entries count exactly what was supplied and omitted.
\<close>

subsection \<open>Taking rows in rounds\<close>

text \<open>\<open>[group[position] for position in range(longest) for group in groups if position < len(group)]\<close>\<close>

definition interleave :: "'a list list \<Rightarrow> 'a list" where
  "interleave groups =
     concat (map (\<lambda>position. map (\<lambda>group. group ! position) (filter (\<lambda>group. position < length group) groups))
       [0..<foldr max (map length groups) 0])"

text \<open>The inner loop of the sampling: each query gives its next row until there is no room; what is left of the groups.\<close>

fun one_pass :: "nat \<Rightarrow> 'a list list \<Rightarrow> 'a list \<times> 'a list list" where
  "one_pass 0 groups = ([], groups)"
| "one_pass (Suc room) [] = ([], [])"
| "one_pass (Suc room) ([] # groups) = (let (taken, rest) = one_pass (Suc room) groups in (taken, [] # rest))"
| "one_pass (Suc room) ((x # xs) # groups) = (let (taken, rest) = one_pass room groups in (x # taken, xs # rest))"

text \<open>The outer loop stops when the limit is reached or a pass added nothing.\<close>

function fill_rounds :: "nat \<Rightarrow> 'a list list \<Rightarrow> 'a list" where
  "fill_rounds room groups =
     (let (taken, rest) = one_pass room groups in
      if taken = [] then [] else taken @ fill_rounds (room - length taken) rest)"
  by auto

lemma one_pass_length: "length (fst (one_pass room groups)) \<le> room"
  by (induction room groups rule: one_pass.induct) (auto simp: Let_def split: prod.splits)

termination fill_rounds
proof (relation "measure fst")
  fix room :: nat and groups :: "'a list list" and p taken rest
  assume a: "p = one_pass room groups" "(taken, rest) = p" "taken \<noteq> []"
  then have "length taken \<le> room" using one_pass_length[of room groups] by (metis fst_conv)
  then show "((room - length taken, rest), room, groups) \<in> measure fst" using a(3) by (cases taken) auto
qed simp

declare fill_rounds.simps [simp del]

subsection \<open>Early, late and interior observations\<close>

text \<open>The queue of intervals whose middle row comes next, the widest first.\<close>

function bisect_queue :: "(nat \<times> nat) list \<Rightarrow> nat list" where
  "bisect_queue [] = []"
| "bisect_queue ((left, right) # intervals) =
     (if left \<ge> right then bisect_queue intervals
      else (let middle = (left + right) div 2 in middle # bisect_queue (intervals @ [(left, middle), (middle + 1, right)])))"
  by pat_completeness auto

termination
proof (relation "measure (\<lambda>intervals. sum_list (map (\<lambda>(l, r). 2 * (r - l) + 1) intervals))")
  fix left right middle :: nat and intervals :: "(nat \<times> nat) list"
  assume a: "\<not> right \<le> left" "middle = (left + right) div 2"
  then have "2 * (middle - left) + 1 + (2 * (right - (middle + 1)) + 1) < 2 * (right - left) + 1" by linarith
  then show "(intervals @ [(left, middle), (middle + 1, right)], (left, right) # intervals)
      \<in> measure (\<lambda>intervals. sum_list (map (\<lambda>(l, r). 2 * (r - l) + 1) intervals))" by simp
qed auto

declare bisect_queue.simps(2) [simp del]

definition timed_rows :: "json_env \<Rightarrow> json_fields list \<Rightarrow> json_fields list" where
  "timed_rows env rows = sort_key (\<lambda>row. the (raw_event_time env row)) (filter (\<lambda>row. raw_event_time env row \<noteq> None) rows)"

definition untimed_rows :: "json_env \<Rightarrow> json_fields list \<Rightarrow> json_fields list" where
  "untimed_rows env rows = filter (\<lambda>row. raw_event_time env row = None) rows"

definition spread_evidence_in_time :: "json_env \<Rightarrow> json_fields list \<Rightarrow> json_fields list" where
  "spread_evidence_in_time env rows =
     (let timed = timed_rows env rows in
      if length timed < 2 then rows
      else interleave [hd timed # last timed # map ((!) timed) (bisect_queue [(1, length timed - 1)]), untimed_rows env rows])"

subsection \<open>Lemmas on interleaving\<close>

lemma max_length: "g \<in> set groups \<Longrightarrow> length g \<le> foldr max (map length groups) 0"
  by (induction groups) (auto simp: max_def)

definition bounded_interleave :: "nat \<Rightarrow> 'a list list \<Rightarrow> 'a list" where
  "bounded_interleave n groups =
     concat (map (\<lambda>i. map (\<lambda>g. g ! i) (filter (\<lambda>g. i < length g) groups)) [0..<n])"

lemma bounded_interleave_Suc:
  "bounded_interleave (Suc n) groups = map hd (filter (\<lambda>g. g \<noteq> []) groups) @ bounded_interleave n (map tl groups)"
proof -
  have "map (\<lambda>g. g ! 0) (filter (\<lambda>g. 0 < length g) groups) = map hd (filter (\<lambda>g. g \<noteq> []) groups)"
    by (auto simp: hd_conv_nth)
  moreover have "map (\<lambda>g. g ! Suc i) (filter (\<lambda>g. Suc i < length g) groups)
      = map (\<lambda>g. g ! i) (filter (\<lambda>g. i < length g) (map tl groups))" for i
    by (auto simp: filter_map o_def nth_tl less_diff_conv intro!: map_cong filter_cong)
  moreover have "[0..<Suc n] = 0 # map Suc [0..<n]" by (simp add: upt_conv_Cons map_Suc_upt)
  ultimately show ?thesis by (simp add: bounded_interleave_def o_def)
qed

lemma bounded_interleave_stable:
  assumes "\<And>g. g \<in> set groups \<Longrightarrow> length g \<le> n" and "n \<le> m"
  shows "bounded_interleave m groups = bounded_interleave n groups"
proof -
  have "filter (\<lambda>g. i < length g) groups = []" if "n \<le> i" for i
    using assms(1) that by (auto simp: filter_empty_conv not_less intro: order_trans)
  then have "concat (map (\<lambda>i. map (\<lambda>g. g ! i) (filter (\<lambda>g. i < length g) groups)) [n..<m]) = []" by simp
  then show ?thesis using assms(2) upt_add_eq_append[of 0 n "m - n"] by (simp add: bounded_interleave_def)
qed

lemma interleave_bounded:
  "(\<And>g. g \<in> set groups \<Longrightarrow> length g \<le> n) \<Longrightarrow> interleave groups = bounded_interleave n groups"
proof -
  assume a: "\<And>g. g \<in> set groups \<Longrightarrow> length g \<le> n"
  let ?m = "foldr max (map length groups) 0"
  have "bounded_interleave (max ?m n) groups = bounded_interleave ?m groups"
    by (rule bounded_interleave_stable) (auto simp: max_length)
  moreover have "bounded_interleave (max ?m n) groups = bounded_interleave n groups"
    by (rule bounded_interleave_stable) (auto simp: a)
  ultimately show ?thesis by (simp add: interleave_def bounded_interleave_def)
qed

lemma mset_bounded_interleave:
  "(\<And>g. g \<in> set groups \<Longrightarrow> length g \<le> n) \<Longrightarrow> mset (bounded_interleave n groups) = mset (concat groups)"
proof (induction n arbitrary: groups)
  case 0
  then have "concat groups = []" by auto
  then show ?case by (simp add: bounded_interleave_def)
next
  case (Suc n)
  have "mset (map hd (filter (\<lambda>g. g \<noteq> []) gs)) + mset (concat (map tl gs)) = mset (concat gs)" for gs :: "'a list list"
  proof (induction gs)
    case (Cons g gs)
    then show ?case by (cases g) (auto simp: ac_simps)
  qed simp
  moreover have "mset (bounded_interleave n (map tl groups)) = mset (concat (map tl groups))"
    using Suc.prems by (intro Suc.IH) fastforce
  ultimately show ?case by (simp add: bounded_interleave_Suc)
qed

lemma mset_interleave: "mset (interleave groups) = mset (concat groups)"
  using interleave_bounded[OF max_length] mset_bounded_interleave[OF max_length] by metis

lemma upt_middle: "left \<le> middle \<Longrightarrow> middle < right \<Longrightarrow> [left..<right] = [left..<middle] @ middle # [middle + 1..<right]"
  using upt_add_eq_append[of left middle "right - middle"] by (simp add: upt_conv_Cons)

lemma mset_bisect_queue: "mset (bisect_queue intervals) = mset (concat (map (\<lambda>(l, r). [l..<r]) intervals))"
proof (induction intervals rule: bisect_queue.induct)
  case (2 left right intervals)
  show ?case
  proof (cases "right \<le> left")
    case False
    define middle where "middle = (left + right) div 2"
    have "[left..<right] = [left..<middle] @ middle # [middle + 1..<right]"
      using False by (intro upt_middle) (auto simp: middle_def)
    then show ?thesis using "2.IH"(2)[OF False middle_def] False by (simp add: bisect_queue.simps(2) middle_def Let_def)
  qed (use 2 in \<open>simp add: bisect_queue.simps(2)\<close>)
qed simp

lemma mset_extremes_and_middles:
  assumes "length xs \<ge> 2"
  shows "mset (hd xs # last xs # map ((!) xs) (bisect_queue [(1, length xs - 1)])) = mset xs"
proof -
  obtain x ys y where xs: "xs = x # ys @ [y]"
    using assms by (cases xs; cases "tl xs" rule: rev_cases) auto
  have "[1..<length xs - 1] = map Suc [0..<length ys]" unfolding map_Suc_upt by (simp add: xs)
  then have "map ((!) xs) [1..<length xs - 1] = map (\<lambda>i. (ys @ [y]) ! i) [0..<length ys]" by (simp add: xs o_def)
  also have "\<dots> = map ((!) ys) [0..<length ys]" by (auto simp: nth_append)
  also have "\<dots> = ys" by (rule map_nth)
  finally have "map ((!) xs) [1..<length xs - 1] = ys" .
  then have "image_mset ((!) xs) (mset [1..<length xs - 1]) = mset ys" by (metis mset_map)
  then show ?thesis using mset_bisect_queue[of "[(1, length xs - 1)]"] by (simp add: xs)
qed

lemma mset_timed: "mset (timed_rows env rows) + mset (untimed_rows env rows) = mset rows"
  using multiset_partition[of "mset rows" "\<lambda>row. raw_event_time env row \<noteq> None"] by (simp add: timed_rows_def untimed_rows_def)

lemma mset_spread: "mset (spread_evidence_in_time env rows) = mset rows"
proof (cases "length (timed_rows env rows) < 2")
  case False
  then have "mset (spread_evidence_in_time env rows) = mset (timed_rows env rows) + mset (untimed_rows env rows)"
    using mset_extremes_and_middles[of "timed_rows env rows"]
    by (simp add: spread_evidence_in_time_def Let_def mset_interleave not_less add_mset_commute)
  then show ?thesis by (simp add: mset_timed)
qed (simp add: spread_evidence_in_time_def)

lemma length_spread [simp]: "length (spread_evidence_in_time env rows) = length rows"
  using mset_spread mset_eq_length by metis

subsection \<open>The loop takes a prefix of the interleaving\<close>

lemma one_pass_taken: "fst (one_pass room groups) = take room (map hd (filter (\<lambda>g. g \<noteq> []) groups))"
  by (induction room groups rule: one_pass.induct) (auto simp: Let_def split: prod.splits)

lemma one_pass_rest:
  "length (filter (\<lambda>g. g \<noteq> []) groups) \<le> room \<Longrightarrow> snd (one_pass room groups) = map tl groups"
proof (induction room groups rule: one_pass.induct)
  case (1 groups)
  then have "\<forall>g \<in> set groups. g = []" by (auto simp: filter_empty_conv)
  then have "map tl groups = groups" by (intro map_idI) auto
  then show ?case by simp
qed (auto simp: Let_def split: prod.splits)

lemma fill_rounds_full [simp]: "fill_rounds 0 groups = []"
  by (simp add: fill_rounds.simps)

lemma fill_rounds_bounded:
  "(\<And>g. g \<in> set groups \<Longrightarrow> length g \<le> n) \<Longrightarrow> fill_rounds room groups = take room (bounded_interleave n groups)"
proof (induction n arbitrary: room groups)
  case 0
  then have "filter (\<lambda>g. g \<noteq> []) groups = []" by (auto simp: filter_empty_conv)
  then have "fst (one_pass room groups) = []" using one_pass_taken[of room groups] by simp
  then show ?case by (cases "one_pass room groups") (simp add: fill_rounds.simps[of room groups] bounded_interleave_def)
next
  case (Suc n)
  define heads where "heads = map hd (filter (\<lambda>g. g \<noteq> []) groups)"
  obtain taken rest where pass: "one_pass room groups = (taken, rest)" by fastforce
  have taken: "taken = take room heads" using one_pass_taken[of room groups] pass by (simp add: heads_def)
  have tails: "fill_rounds r (map tl groups) = take r (bounded_interleave n (map tl groups))" for r
    using Suc.prems by (intro Suc.IH) fastforce
  have step: "bounded_interleave (Suc n) groups = heads @ bounded_interleave n (map tl groups)"
    by (simp add: bounded_interleave_Suc heads_def)
  show ?case
  proof (cases "length heads \<le> room")
    case True
    then have "rest = map tl groups" using one_pass_rest[of groups room] pass by (simp add: heads_def)
    moreover have "bounded_interleave n (map tl groups) = []" if "heads = []"
    proof -
      have "\<forall>g \<in> set groups. tl g = []" using that by (auto simp: heads_def filter_empty_conv)
      then have "mset (bounded_interleave n (map tl groups)) = mset (concat (map tl groups))"
        by (intro mset_bounded_interleave) auto
      also have "concat (map tl groups) = []" using \<open>\<forall>g \<in> set groups. tl g = []\<close> by simp
      finally show ?thesis by simp
    qed
    ultimately show ?thesis using True
      by (auto simp: fill_rounds.simps[of room groups] pass taken step tails)
  next
    case False
    then show ?thesis by (simp add: fill_rounds.simps[of room groups] pass taken step)
  qed
qed

lemma fill_rounds_take: "fill_rounds room groups = take room (interleave groups)"
  using fill_rounds_bounded[OF max_length] interleave_bounded[OF max_length] by metis

subsection \<open>Every group gets its share\<close>

lemma mset_bounded_take: "mset (bounded_interleave k groups) = mset (concat (map (take k) groups))"
proof -
  have "bounded_interleave k groups = bounded_interleave k (map (take k) groups)"
    by (auto simp: bounded_interleave_def filter_map o_def intro!: arg_cong[where f = concat] map_cong filter_cong)
  moreover have "mset (bounded_interleave k (map (take k) groups)) = mset (concat (map (take k) groups))"
    by (rule mset_bounded_interleave) auto
  ultimately show ?thesis by simp
qed

lemma share_of_group:
  assumes "k * length groups \<le> limit" and "g \<in> set groups" and "\<forall>x \<in> set g. P x"
  shows "min k (length g) \<le> length (filter P (fill_rounds limit groups))"
proof -
  let ?n = "foldr max (map length groups) 0"
  let ?all = "bounded_interleave (max k ?n) groups"
  have all: "fill_rounds limit groups = take limit ?all"
    by (rule fill_rounds_bounded) (auto dest: max_length)
  have "?all = bounded_interleave k groups @ concat (map (\<lambda>i. map (\<lambda>g. g ! i) (filter (\<lambda>g. i < length g) groups)) [k..<max k ?n])"
    using upt_add_eq_append[of 0 k "max k ?n - k"] by (simp add: bounded_interleave_def)
  moreover have "length (bounded_interleave k groups) \<le> limit"
  proof -
    have "length (bounded_interleave k groups) = sum_list (map (\<lambda>g. min (length g) k) groups)"
      using arg_cong[OF mset_bounded_take[of k groups], of size] by (simp add: length_concat o_def)
    also have "\<dots> \<le> sum_list (map (\<lambda>g. k) groups)" by (rule sum_list_mono) simp
    finally show ?thesis using assms(1) by (simp add: sum_list_triv mult.commute)
  qed
  ultimately obtain more where "fill_rounds limit groups = bounded_interleave k groups @ more" unfolding all by auto
  then have "length (filter P (bounded_interleave k groups)) \<le> length (filter P (fill_rounds limit groups))" by simp
  moreover have "length (filter P (bounded_interleave k groups)) = length (filter P (concat (map (take k) groups)))"
    using mset_bounded_take[of k groups] by (metis mset_filter mset_eq_length)
  moreover have "length (filter P (take k g)) \<le> length (filter P (concat (map (take k) groups)))"
    using split_list[OF assms(2)] by fastforce
  moreover have "filter P (take k g) = take k g" using assms(3) by (auto intro: filter_True dest: in_set_takeD)
  ultimately show ?thesis by simp
qed

subsection \<open>The balanced sample\<close>

record sample_request =
  sm_query_ids :: "string list option"
  sm_limit :: int
  sm_preferred :: "string list"
  sm_requested :: "string list list"

text \<open>A completed query or a row whose \<open>query_id\<close> is set and allowed.\<close>

definition allowed_row :: "json_env \<Rightarrow> string list option \<Rightarrow> json_fields \<Rightarrow> bool" where
  "allowed_row env allowed row \<longleftrightarrow>
     get_or row ''query_id'' JNull \<noteq> JNull
     \<and> (case allowed of None \<Rightarrow> True | Some ids \<Rightarrow> key_text env ''query_id'' row \<in> set ids)"

definition sample_queries :: "json_env \<Rightarrow> sample_request \<Rightarrow> json \<Rightarrow> json_fields list" where
  "sample_queries env rq queries =
     filter (allowed_row env (sm_query_ids rq)) (filter (\<lambda>q. get_or q ''status'' JNull = JStr ''completed'') (objects (elements queries)))"

definition sample_evidence :: "json_env \<Rightarrow> sample_request \<Rightarrow> json \<Rightarrow> json_fields list" where
  "sample_evidence env rq evidence = filter (allowed_row env (sm_query_ids rq)) (objects (elements evidence))"

definition query_order :: "json_env \<Rightarrow> json_fields list \<Rightarrow> json_fields list \<Rightarrow> string list" where
  "query_order env queries rows = fromkeys (map (key_text env ''query_id'') queries @ map (key_text env ''query_id'') rows)"

definition rows_of_query :: "json_env \<Rightarrow> json_fields list \<Rightarrow> string \<Rightarrow> json_fields list" where
  "rows_of_query env rows query_id = filter (\<lambda>row. key_text env ''query_id'' row = query_id) rows"

definition query_record :: "json_env \<Rightarrow> json_fields list \<Rightarrow> string \<Rightarrow> json_fields" where
  "query_record env queries query_id = (case last_named (key_text env ''query_id'') queries query_id of None \<Rightarrow> [] | Some q \<Rightarrow> q)"

definition pairs_or_none :: "json_env \<Rightarrow> json_fields \<Rightarrow> (string \<times> string) list outcome" where
  "pairs_or_none env query =
     (case source_pairs (json_str env (get_or query ''spl'' (JStr []))) of
        Inl (ValueError _) \<Rightarrow> Inr [] | r \<Rightarrow> crashing r)"

text \<open>\<open>result_source(row.get("selected_result", {}), pairs)\<close> with two pairs or more: \<open>in\<close> looks for a key, an element or
  a part of a text, and a subscript by name works on a dictionary only.\<close>

fun row_source :: "(string \<times> string) list \<Rightarrow> json \<Rightarrow> (string \<times> string) outcome" where
  "row_source pairs (JObj event) = Inr (result_source event pairs)"
| "row_source pairs (JList xs) =
     (if JStr ''index'' \<in> set xs \<or> JStr ''sourcetype'' \<in> set xs then Inl (Crash (TypeError ''list indices must be integers''))
      else Inr (''unknown'', ''unknown''))"
| "row_source pairs (JStr s) =
     (if sublist ''index'' s \<or> sublist ''sourcetype'' s then Inl (Crash (TypeError ''string indices must be integers''))
      else Inr (''unknown'', ''unknown''))"
| "row_source pairs _ = Inl (Crash (TypeError ''argument is not iterable''))"

definition by_source :: "(string \<times> string) list \<Rightarrow> json_fields list \<Rightarrow> json_fields list outcome" where
  "by_source pairs rows =
     (if length (remdups pairs) \<le> 1 then Inr rows
      else bindR (mapR (\<lambda>row. row_source pairs (get_or row ''selected_result'' (JObj []))) rows) (\<lambda>sources.
             Inr (interleave (map (\<lambda>part. map fst (snd part)) (grouped snd (zip rows sources))))))"

definition row_id :: "json_env \<Rightarrow> json_fields \<Rightarrow> string" where
  "row_id env row = key_text env ''evidence_id'' row"

definition arrange_rows :: "json_env \<Rightarrow> string list \<Rightarrow> json_fields \<Rightarrow> json_fields list \<Rightarrow> json_fields list outcome" where
  "arrange_rows env preferred query rows =
     (let spread = spread_evidence_in_time env rows;
          sorted = (if preferred = [] then spread else sort_key (\<lambda>row. row_id env row \<notin> set preferred) spread) in
      bindR (pairs_or_none env query) (\<lambda>pairs. by_source pairs sorted))"

text \<open>One round of sampling per requested group, the last one unrestricted.\<close>

definition open_rows :: "json_env \<Rightarrow> json_fields list \<Rightarrow> string list option \<Rightarrow> json_fields list \<Rightarrow> json_fields list" where
  "open_rows env sampled requested rows =
     filter (\<lambda>row. row_id env row \<notin> set (map (row_id env) sampled)
       \<and> (case requested of None \<Rightarrow> True | Some ids \<Rightarrow> row_id env row \<in> set ids)) rows"

fun sample_rounds :: "json_env \<Rightarrow> nat \<Rightarrow> json_fields list list \<Rightarrow> string list option list \<Rightarrow> json_fields list \<Rightarrow> json_fields list" where
  "sample_rounds env limit groups [] sampled = sampled"
| "sample_rounds env limit groups (requested # later) sampled =
     sample_rounds env limit groups later
       (sampled @ fill_rounds (limit - length sampled) (map (open_rows env sampled requested) groups))"

subsection \<open>Coverage of the sample\<close>

fun count_value :: "json \<Rightarrow> int option" where
  "count_value (JInt i) = Some i"
| "count_value (JBool b) = Some (if b then 1 else 0)"
| "count_value _ = None"

definition coverage_status :: "json_fields \<Rightarrow> int \<Rightarrow> int \<Rightarrow> string" where
  "coverage_status query retained omitted =
     (let count = count_value (get_or query ''result_count'' JNull);
          gap = (case count of None \<Rightarrow> 0 | Some c \<Rightarrow> max 0 (c - retained)) in
      if truthy (map_of query ''truncated'') \<and> retained = 0 then ''retrieval_incomplete''
      else if count = Some 0 \<and> retained = 0 then ''no_results''
      else if gap \<noteq> 0 then ''retention_gap''
      else if omitted \<noteq> 0 then ''sampled''
      else ''complete'')"

definition coverage_note :: "json_fields \<Rightarrow> int \<Rightarrow> int \<Rightarrow> string" where
  "coverage_note query retained omitted =
     (let count = count_value (get_or query ''result_count'' JNull); status = coverage_status query retained omitted in
      if omitted \<noteq> 0 then ''Only a bounded sample was supplied; omitted retained records may contain relevant activity.''
      else if status = ''retrieval_incomplete''
      then ''Retrieval stopped before evidence could be retained; this does not establish zero matching events.''
      else if status = ''no_results'' then ''The query returned no results; no evidence was supplied.''
      else if retained = 0 \<and> count \<noteq> None \<and> count \<noteq> Some 0 then ''No retained evidence was supplied for this query.''
      else ''The supplied evidence covers all retained records for this query.'')"

definition coverage_entry :: "json_env \<Rightarrow> json_fields \<Rightarrow> string \<Rightarrow> json_fields list \<Rightarrow> json_fields list \<Rightarrow> json_fields" where
  "coverage_entry env query query_id rows sampled =
     (let retained = int (length rows); supplied = int (length (rows_of_query env sampled query_id));
          omitted = max 0 (retained - supplied);
          count = get_or query ''result_count'' JNull in
      [(''query_id'', JStr query_id), (''result_count'', if count_value count = None then JNull else count),
       (''retained_evidence_count'', JInt retained), (''supplied_evidence_count'', JInt supplied),
       (''omitted_evidence_count'', JInt omitted), (''sample_omitted'', JBool (omitted \<noteq> 0)),
       (''query_truncated'', get_or query ''truncated'' JNull), (''available_result_count'', get_or query ''available_result_count'' JNull),
       (''retrieval_stop_reason'', get_or query ''retrieval_stop_reason'' JNull),
       (''coverage_status'', JStr (coverage_status query retained omitted)),
       (''observed_time_bounds'', JObj (evidence_time_bounds env rows)),
       (''coverage_note'', JStr (coverage_note query retained omitted))])"

definition balanced_evidence_sample :: "json_env \<Rightarrow> sample_request \<Rightarrow> json \<Rightarrow> json \<Rightarrow> (json_fields list \<times> json_fields list) outcome" where
  "balanced_evidence_sample env rq evidence queries =
     bindR (ensure (0 < sm_limit rq) (Crash (ValueError ''evidence sample limit must be positive''))) (\<lambda>_.
     (let qs = sample_queries env rq queries; rows = sample_evidence env rq evidence;
          order = query_order env qs rows in
      bindR (mapR (\<lambda>i. arrange_rows env (sm_preferred rq) (query_record env qs i) (rows_of_query env rows i)) order) (\<lambda>groups.
        (let sampled = sample_rounds env (nat (sm_limit rq)) groups (map Some (sm_requested rq) @ [None]) [] in
         Inr (sampled, map2 (\<lambda>i group. coverage_entry env (query_record env qs i) i group sampled) order groups)))))"

subsection \<open>Arranging keeps the rows of a query\<close>

lemma mset_parts:
  assumes "distinct ks"
  shows "mset (concat (map (\<lambda>k. filter (\<lambda>x. f x = k) xs) ks)) = {#x \<in># mset xs. f x \<in> set ks#}"
  using assms
proof (induction ks)
  case (Cons k ks)
  then have "{#x \<in># mset xs. f x = k#} + {#x \<in># mset xs. f x \<in> set ks#} = {#x \<in># mset xs. f x \<in> set (k # ks)#}"
    by (intro multiset_eqI) auto
  then show ?case using Cons by simp
qed simp

lemma mset_all_parts:
  assumes "distinct ks" and "\<And>x. x \<in> set xs \<Longrightarrow> f x \<in> set ks"
  shows "mset (concat (map (\<lambda>k. filter (\<lambda>x. f x = k) xs) ks)) = mset xs"
  using assms(2) by (simp only: mset_parts[OF assms(1)] filter_mset_eq_conv) simp

lemma mset_grouped: "mset (concat (map snd (grouped f xs))) = mset xs"
  using mset_all_parts[of "fromkeys (map f xs)" xs f] by (simp add: grouped_def o_def)

lemma concat_parts: "concat (map (\<lambda>part. map fst (snd part)) gs) = map fst (concat (map snd gs))"
  by (induction gs) auto

lemma mset_by_source: "by_source pairs rows = Inr arranged \<Longrightarrow> mset arranged = mset rows"
proof -
  assume a: "by_source pairs rows = Inr arranged"
  show ?thesis
  proof (cases "length (remdups pairs) \<le> 1")
    case False
    then obtain sources where s: "list_all2 (\<lambda>row source. row_source pairs (get_or row ''selected_result'' (JObj [])) = Inr source) rows sources"
        and arranged: "arranged = interleave (map (\<lambda>part. map fst (snd part)) (grouped snd (zip rows sources)))"
      using a by (auto simp: by_source_def result_simps)
    have "mset arranged = image_mset fst (mset (concat (map snd (grouped snd (zip rows sources)))))"
      unfolding arranged mset_interleave concat_parts by simp
    also have "\<dots> = mset rows" using list_all2_lengthD[OF s] by (simp add: mset_grouped flip: mset_map)
    finally show ?thesis .
  qed (use a in \<open>simp add: by_source_def\<close>)
qed

lemma mset_arrange: "arrange_rows env preferred query rows = Inr arranged \<Longrightarrow> mset arranged = mset rows"
  by (auto simp: arrange_rows_def Let_def result_simps mset_spread dest!: mset_by_source split: if_splits)

subsection \<open>Rounds select retained rows\<close>

lemma mset_open: "mset (concat (map (open_rows env sampled requested) groups)) \<subseteq># {#row \<in># mset (concat groups). row_id env row \<notin> row_id env ` set sampled#}"
proof (induction groups)
  case (Cons rows groups)
  have "mset (open_rows env sampled requested rows) \<subseteq># {#row \<in># mset rows. row_id env row \<notin> row_id env ` set sampled#}"
    by (auto simp: open_rows_def subseteq_mset_def)
  then show ?case using Cons by (simp add: subset_mset.add_mono)
qed simp

lemma mset_round: "mset (fill_rounds room groups) \<subseteq># mset (concat groups)"
  by (metis fill_rounds_take mset_interleave mset_subset_eq_add_left append_take_drop_id mset_append)

lemma sample_rounds_select:
  assumes "mset sampled \<subseteq># mset (concat groups)" and "length sampled \<le> limit"
  shows "mset (sample_rounds env limit groups requests sampled) \<subseteq># mset (concat groups)"
    and "length (sample_rounds env limit groups requests sampled) \<le> limit"
proof -
  have "mset (sample_rounds env limit groups requests sampled) \<subseteq># mset (concat groups)
      \<and> length (sample_rounds env limit groups requests sampled) \<le> limit"
    using assms
  proof (induction requests arbitrary: sampled)
    case (Cons requested later)
    let ?P = "\<lambda>row. row_id env row \<in> row_id env ` set sampled"
    let ?new = "fill_rounds (limit - length sampled) (map (open_rows env sampled requested) groups)"
    have "mset ?new \<subseteq># {#row \<in># mset (concat groups). \<not> ?P row#}"
      using subset_mset.order_trans[OF mset_round mset_open] .
    moreover have "mset sampled \<subseteq># {#row \<in># mset (concat groups). ?P row#}"
    proof -
      have "{#row \<in># mset sampled. ?P row#} = mset sampled" by (rule filter_mset_eq_conv[THEN iffD2]) auto
      then show ?thesis using multiset_filter_mono[OF Cons.prems(1), of ?P] by simp
    qed
    ultimately have "mset (sampled @ ?new) \<subseteq># {#row \<in># mset (concat groups). ?P row#} + {#row \<in># mset (concat groups). \<not> ?P row#}"
      unfolding mset_append by (rule subset_mset.add_mono[rotated])
    then have "mset (sampled @ ?new) \<subseteq># mset (concat groups)" by (simp flip: multiset_partition)
    moreover have "length (sampled @ ?new) \<le> limit" using Cons.prems(2) by (simp add: fill_rounds_take)
    ultimately show ?case using Cons.IH by simp
  qed simp
  then show "mset (sample_rounds env limit groups requests sampled) \<subseteq># mset (concat groups)"
    and "length (sample_rounds env limit groups requests sampled) \<le> limit" by auto
qed

lemma sample_rounds_append:
  "sample_rounds env limit groups (earlier @ later) sampled
     = sample_rounds env limit groups later (sample_rounds env limit groups earlier sampled)"
  by (induction earlier arbitrary: sampled) auto

lemma filter_by_ids:
  assumes "mset xs \<subseteq># mset ys" and "distinct (map f ys)"
  shows "mset xs + {#y \<in># mset ys. f y \<notin> f ` set xs#} = mset ys"
proof -
  obtain rest where rest: "mset ys = mset xs + rest" using assms(1) by (auto simp: mset_subset_eq_exists_conv)
  have "f y \<notin> f ` set xs" if "y \<in># rest" for y
  proof -
    obtain zs where zs: "rest = mset zs" using ex_mset by metis
    then have "mset (map f ys) = mset (map f xs @ map f zs)" by (simp add: rest)
    then have "distinct (map f xs @ map f zs)" using assms(2) mset_eq_imp_distinct_iff by metis
    then show ?thesis using that zs by auto
  qed
  then have "{#y \<in># rest. f y \<notin> f ` set xs#} = rest" by (simp add: filter_mset_eq_conv)
  moreover have "{#y \<in># mset xs. f y \<notin> f ` set xs#} = {#}" by (rule multiset_eqI) auto
  ultimately show ?thesis by (simp add: rest)
qed

lemma last_round_completes:
  assumes "mset sampled \<subseteq># mset (concat groups)" and "distinct (map (row_id env) (concat groups))"
    and "length (concat groups) \<le> limit"
  shows "mset (sample_rounds env limit groups [None] sampled) = mset (concat groups)"
proof -
  let ?open = "map (open_rows env sampled None) groups"
  have "mset (concat ?open) = {#row \<in># mset (concat groups). row_id env row \<notin> row_id env ` set sampled#}"
    by (induction groups) (auto simp: open_rows_def)
  then have total: "mset sampled + mset (concat ?open) = mset (concat groups)"
    using filter_by_ids[OF assms(1,2)] by simp
  then have "size (mset sampled + mset (concat ?open)) = length (concat groups)" by simp
  then have "length (interleave ?open) \<le> limit - length sampled"
    using assms(3) mset_eq_length[OF mset_interleave[of ?open]] by simp
  then have "fill_rounds (limit - length sampled) ?open = interleave ?open" by (simp add: fill_rounds_take)
  then show ?thesis using total by (simp add: mset_interleave)
qed

subsection \<open>What a sample is\<close>

lemma balanced_evidence_sampleE:
  assumes "balanced_evidence_sample env rq evidence queries = Inr (sampled, coverage)"
  obtains qs rows order groups where
    "qs = sample_queries env rq queries" "rows = sample_evidence env rq evidence" "order = query_order env qs rows"
    "list_all2 (\<lambda>i group. arrange_rows env (sm_preferred rq) (query_record env qs i) (rows_of_query env rows i) = Inr group) order groups"
    "sampled = sample_rounds env (nat (sm_limit rq)) groups (map Some (sm_requested rq) @ [None]) []"
    "coverage = map2 (\<lambda>i group. coverage_entry env (query_record env qs i) i group sampled) order groups"
  using assms by (auto simp: balanced_evidence_sample_def Let_def result_simps)

lemma order_covers: "row \<in> set rows \<Longrightarrow> key_text env ''query_id'' row \<in> set (query_order env qs rows)"
  by (simp add: query_order_def)

lemma distinct_order [simp]: "distinct (query_order env qs rows)"
  by (simp add: query_order_def)

lemma mset_groups:
  assumes "list_all2 (\<lambda>i group. arrange_rows env preferred (query_record env qs i) (rows_of_query env rows i) = Inr group) order groups"
    and "distinct order" and "\<And>row. row \<in> set rows \<Longrightarrow> key_text env ''query_id'' row \<in> set order"
  shows "mset (concat groups) = mset rows"
proof -
  from assms(1) have "mset (concat groups) = mset (concat (map (rows_of_query env rows) order))"
    by (induction rule: list_all2_induct) (auto dest: mset_arrange)
  also have "\<dots> = mset rows"
    using mset_all_parts[OF assms(2), of rows "key_text env ''query_id''"] assms(3) by (simp add: rows_of_query_def[abs_def])
  finally show ?thesis .
qed

text \<open>The numbers of a coverage entry.\<close>

definition entry_counts :: "json_fields \<Rightarrow> string \<Rightarrow> nat \<Rightarrow> nat \<Rightarrow> bool" where
  "entry_counts entry query_id retained supplied \<longleftrightarrow>
     supplied \<le> retained
     \<and> get_or entry ''query_id'' JNull = JStr query_id
     \<and> get_or entry ''retained_evidence_count'' JNull = JInt (int retained)
     \<and> get_or entry ''supplied_evidence_count'' JNull = JInt (int supplied)
     \<and> get_or entry ''omitted_evidence_count'' JNull = JInt (int (retained - supplied))
     \<and> get_or entry ''sample_omitted'' JNull = JBool (supplied < retained)"

text \<open>C40. A model call gets at most the configured number of rows, each of them a retained row of an allowed query and
  none more often than it is retained; all of them when they fit and no two share an identifier.  Each coverage
  entry states how many rows of its query are retained, how many were supplied and how many were omitted.\<close>

theorem sample_is_bounded_and_accounted:
  assumes "balanced_evidence_sample env rq evidence queries = Inr (sampled, coverage)"
  shows "length sampled \<le> nat (sm_limit rq)
    \<and> mset sampled \<subseteq># mset (sample_evidence env rq evidence)
    \<and> (distinct (map (row_id env) (sample_evidence env rq evidence)) \<and> length (sample_evidence env rq evidence) \<le> nat (sm_limit rq)
        \<longrightarrow> mset sampled = mset (sample_evidence env rq evidence))
    \<and> list_all2 (\<lambda>i entry. entry_counts entry i (length (rows_of_query env (sample_evidence env rq evidence) i)) (length (rows_of_query env sampled i)))
           (query_order env (sample_queries env rq queries) (sample_evidence env rq evidence)) coverage"
proof (intro conjI impI; (elim conjE)?)
  obtain qs rows order groups where
    names: "qs = sample_queries env rq queries" "rows = sample_evidence env rq evidence" "order = query_order env qs rows" and
    groups: "list_all2 (\<lambda>i group. arrange_rows env (sm_preferred rq) (query_record env qs i) (rows_of_query env rows i) = Inr group) order groups" and
    sampled: "sampled = sample_rounds env (nat (sm_limit rq)) groups (map Some (sm_requested rq) @ [None]) []" and
    coverage: "coverage = map2 (\<lambda>i group. coverage_entry env (query_record env qs i) i group sampled) order groups"
    by (rule balanced_evidence_sampleE[OF assms])
  have all: "mset (concat groups) = mset rows"
    by (rule mset_groups[OF groups]) (simp_all add: names(3) order_covers)
  have earlier: "mset (sample_rounds env (nat (sm_limit rq)) groups (map Some (sm_requested rq)) []) \<subseteq># mset (concat groups)"
    by (rule sample_rounds_select) simp_all
  show "length sampled \<le> nat (sm_limit rq)" unfolding sampled by (rule sample_rounds_select) simp_all
  show chosen: "mset sampled \<subseteq># mset (sample_evidence env rq evidence)"
    unfolding sampled names(2)[symmetric] all[symmetric] by (rule sample_rounds_select) simp_all
  show "mset sampled = mset (sample_evidence env rq evidence)"
    if "distinct (map (row_id env) (sample_evidence env rq evidence))" "length (sample_evidence env rq evidence) \<le> nat (sm_limit rq)"
  proof -
    have "distinct (map (row_id env) (concat groups))"
      using that(1) arg_cong[OF all, of "image_mset (row_id env)"] names(2) by (metis mset_map mset_eq_imp_distinct_iff)
    then show ?thesis
      using last_round_completes[OF earlier] that(2) mset_eq_length[OF all] all names(2) by (simp add: sampled sample_rounds_append)
  qed
  have "length (rows_of_query env sampled i) \<le> length (rows_of_query env rows i)" for i
    using size_mset_mono[OF multiset_filter_mono[OF chosen, of "\<lambda>row. key_text env ''query_id'' row = i"]]
    by (simp add: rows_of_query_def names(2) flip: mset_filter)
  moreover from groups have "list_all2 (\<lambda>i group. length group = length (rows_of_query env rows i)) order groups"
    by (rule list_all2_mono) (auto dest!: mset_arrange mset_eq_length)
  ultimately show "list_all2 (\<lambda>i entry. entry_counts entry i (length (rows_of_query env (sample_evidence env rq evidence) i)) (length (rows_of_query env sampled i)))
      (query_order env (sample_queries env rq queries) (sample_evidence env rq evidence)) coverage"
    unfolding coverage names(1,2)[symmetric] names(3)[symmetric]
    by (auto simp: list_all2_conv_all_nth entry_counts_def coverage_entry_def Let_def get_or_def of_nat_diff nat_less_le)
qed

text \<open>C39. Without requested pages every query with retained rows is given its share: the limit divided by the number
  of queries, or all its rows when it has fewer; a large query cannot hide another one.\<close>

theorem every_query_gets_its_share:
  assumes "balanced_evidence_sample env rq evidence queries = Inr (sampled, coverage)" and "sm_requested rq = []"
    and "query_id \<in> set (query_order env (sample_queries env rq queries) (sample_evidence env rq evidence))"
  shows "min (nat (sm_limit rq) div length (query_order env (sample_queries env rq queries) (sample_evidence env rq evidence)))
             (length (rows_of_query env (sample_evidence env rq evidence) query_id))
         \<le> length (rows_of_query env sampled query_id)"
proof -
  obtain qs rows order groups where
    names: "qs = sample_queries env rq queries" "rows = sample_evidence env rq evidence" "order = query_order env qs rows" and
    groups: "list_all2 (\<lambda>i group. arrange_rows env (sm_preferred rq) (query_record env qs i) (rows_of_query env rows i) = Inr group) order groups" and
    sampled: "sampled = sample_rounds env (nat (sm_limit rq)) groups (map Some (sm_requested rq) @ [None]) []" and
    coverage: "coverage = map2 (\<lambda>i group. coverage_entry env (query_record env qs i) i group sampled) order groups"
    by (rule balanced_evidence_sampleE[OF assms(1)])
  have "open_rows env [] None = (\<lambda>rows. rows)" by (simp add: open_rows_def fun_eq_iff)
  then have taken: "sampled = fill_rounds (nat (sm_limit rq)) groups" by (simp add: sampled assms(2))
  obtain n where n: "n < length order" "order ! n = query_id"
    using assms(3) by (auto simp: in_set_conv_nth names)
  have lengths: "length groups = length order" using groups by (simp add: list_all2_lengthD)
  have "arrange_rows env (sm_preferred rq) (query_record env qs query_id) (rows_of_query env rows query_id) = Inr (groups ! n)"
    using list_all2_nthD[OF groups n(1)] n(2) by simp
  then have same: "mset (groups ! n) = mset (rows_of_query env rows query_id)" by (rule mset_arrange)
  have "\<forall>row \<in> set (groups ! n). key_text env ''query_id'' row = query_id"
    using mset_eq_setD[OF same] by (simp add: rows_of_query_def)
  moreover have "groups ! n \<in> set groups" using n(1) lengths by simp
  moreover have "(nat (sm_limit rq) div length order) * length groups \<le> nat (sm_limit rq)" by (simp add: lengths)
  ultimately have "min (nat (sm_limit rq) div length order) (length (groups ! n)) \<le> length (rows_of_query env sampled query_id)"
    unfolding taken rows_of_query_def by (intro share_of_group)
  then show ?thesis using mset_eq_length[OF same] by (simp add: names)
qed

subsection \<open>The bounds of time come first\<close>

lemma interleave_two:
  "interleave [x # y # xs, us] = x # take 1 us @ y # take 1 (drop 1 us) @ interleave [xs, drop 2 us]"
proof -
  let ?n = "max (length xs) (length us)"
  have "interleave [x # y # xs, us] = bounded_interleave (Suc (Suc ?n)) [x # y # xs, us]"
    by (rule interleave_bounded) auto
  moreover have "interleave [xs, drop 2 us] = bounded_interleave ?n [xs, drop 2 us]"
    by (rule interleave_bounded) auto
  moreover have "drop 2 us = tl (tl us)" by (cases us; cases "tl us") auto
  ultimately show ?thesis by (cases us; cases "tl us") (auto simp: bounded_interleave_Suc)
qed

lemma timed_rows_sorted: "sorted (map (\<lambda>row. the (raw_event_time env row)) (timed_rows env rows))"
  by (simp add: timed_rows_def)

lemma timed_rows_set: "set (timed_rows env rows) = {row \<in> set rows. raw_event_time env row \<noteq> None}"
  by (auto simp: timed_rows_def)

lemma known_times_timed: "set (known_times env rows) = (\<lambda>row. the (raw_event_time env row)) ` set (timed_rows env rows)"
  by (auto simp: known_times_def timed_rows_set image_iff)

lemma sorted_extremes:
  assumes "sorted (map f xs)" and "xs \<noteq> []"
  shows "f (hd xs) = Min (f ` set xs)" and "f (last xs) = Max (f ` set xs)"
proof -
  obtain x ys where xs: "xs = x # ys" using assms(2) by (cases xs) auto
  show "f (hd xs) = Min (f ` set xs)" using assms(1) by (intro Min_eqI[symmetric]) (auto simp: xs)
  obtain zs z where zs: "xs = zs @ [z]" using assms(2) by (cases xs rule: rev_cases) auto
  show "f (last xs) = Max (f ` set xs)" using assms(1) by (intro Max_eqI[symmetric]) (auto simp: zs sorted_append)
qed

text \<open>Spreading rows in time neither drops nor repeats a row; when two known times are retained the first row of
  the result has the earliest of them and one of the first three has the latest, so that even a small sample
  spans the observed period.\<close>

theorem spread_starts_with_the_bounds:
  assumes "2 \<le> length (known_times env rows)"
  shows "mset (spread_evidence_in_time env rows) = mset rows
    \<and> raw_event_time env (hd (spread_evidence_in_time env rows)) = Some (Min (set (known_times env rows)))
    \<and> Some (Max (set (known_times env rows))) \<in> raw_event_time env ` set (take 3 (spread_evidence_in_time env rows))"
proof (intro conjI)
  let ?timed = "timed_rows env rows"
  show "mset (spread_evidence_in_time env rows) = mset rows" by (rule mset_spread)
  have "length (known_times env rows) = length ?timed"
    by (simp add: known_times_def timed_rows_def filter_map o_def)
  then have two: "2 \<le> length ?timed" using assms by simp
  then have "spread_evidence_in_time env rows
      = interleave [hd ?timed # last ?timed # map ((!) ?timed) (bisect_queue [(1, length ?timed - 1)]), untimed_rows env rows]"
    by (simp add: spread_evidence_in_time_def Let_def)
  then have spread: "hd (spread_evidence_in_time env rows) = hd ?timed" "last ?timed \<in> set (take 3 (spread_evidence_in_time env rows))"
    by (cases "untimed_rows env rows"; simp add: interleave_two numeral_3_eq_3)+
  have "?timed \<noteq> []" using two by auto
  note ends = sorted_extremes[OF timed_rows_sorted this, folded known_times_timed]
  have "raw_event_time env row = Some (the (raw_event_time env row))" if "row \<in> set ?timed" for row
    using that by (auto simp: timed_rows_set)
  then have "raw_event_time env (hd ?timed) = Some (Min (set (known_times env rows)))"
    "raw_event_time env (last ?timed) = Some (Max (set (known_times env rows)))"
    using ends \<open>?timed \<noteq> []\<close> by (metis hd_in_set, metis last_in_set)
  then show "raw_event_time env (hd (spread_evidence_in_time env rows)) = Some (Min (set (known_times env rows)))"
    "Some (Max (set (known_times env rows))) \<in> raw_event_time env ` set (take 3 (spread_evidence_in_time env rows))"
    using spread by (auto simp: image_iff) (metis)
qed

subsection \<open>An example\<close>

text \<open>Three rows of one query and one of another; with a limit of two each query gives one row.\<close>

definition sample_example :: "int \<Rightarrow> sample_request" where
  "sample_example limit = \<lparr>sm_query_ids = Some [''q1'', ''q2''], sm_limit = limit, sm_preferred = [], sm_requested = []\<rparr>"

definition sample_order :: "string list" where
  "sample_order = query_order view_env (sample_queries view_env (sample_example 4) (get_or view_results ''queries'' JNull))
     (sample_evidence view_env (sample_example 4) (get_or view_results ''evidence'' JNull))"

lemma sample_facts:
  "sample_order = [''q1'', ''q2'']"
  "is_ok (mapR (\<lambda>i. arrange_rows view_env []
      (query_record view_env (sample_queries view_env (sample_example 4) (get_or view_results ''queries'' JNull)) i)
      (rows_of_query view_env (sample_evidence view_env (sample_example 4) (get_or view_results ''evidence'' JNull)) i)) sample_order)"
  "distinct (map (row_id view_env) (sample_evidence view_env (sample_example 4) (get_or view_results ''evidence'' JNull)))"
  "length (sample_evidence view_env (sample_example 4) (get_or view_results ''evidence'' JNull)) = 4"
  "length (rows_of_query view_env (sample_evidence view_env (sample_example 4) (get_or view_results ''evidence'' JNull)) ''q2'') = 1"
  by code_simp+

lemma sample_example_inputs:
  "sample_queries view_env (sample_example limit) queries = sample_queries view_env (sample_example 4) queries"
  "sample_evidence view_env (sample_example limit) evidence = sample_evidence view_env (sample_example 4) evidence"
  by (simp_all add: sample_queries_def sample_evidence_def sample_example_def)

lemma sample_runs:
  assumes "0 < limit"
  shows "\<exists>sampled coverage. balanced_evidence_sample view_env (sample_example limit)
     (get_or view_results ''evidence'' JNull) (get_or view_results ''queries'' JNull) = Inr (sampled, coverage)"
proof -
  have fields: "sm_limit (sample_example limit) = limit" "sm_preferred (sample_example limit) = []"
    by (simp_all add: sample_example_def)
  obtain groups where "mapR (\<lambda>i. arrange_rows view_env []
      (query_record view_env (sample_queries view_env (sample_example 4) (get_or view_results ''queries'' JNull)) i)
      (rows_of_query view_env (sample_evidence view_env (sample_example 4) (get_or view_results ''evidence'' JNull)) i)) sample_order = Inr groups"
    using sample_facts(2) by (auto simp: is_ok_iff)
  then show ?thesis
    unfolding balanced_evidence_sample_def fields sample_example_inputs[of limit] sample_order_def using assms by (simp add: Let_def)
qed

theorem sample_is_bounded_and_accounted_witness:
  "\<exists>sampled coverage. balanced_evidence_sample view_env (sample_example 4)
     (get_or view_results ''evidence'' JNull) (get_or view_results ''queries'' JNull) = Inr (sampled, coverage)
     \<and> mset sampled = mset (sample_evidence view_env (sample_example 4) (get_or view_results ''evidence'' JNull))
     \<and> length sampled = 4"
proof -
  obtain sampled coverage where run: "balanced_evidence_sample view_env (sample_example 4)
     (get_or view_results ''evidence'' JNull) (get_or view_results ''queries'' JNull) = Inr (sampled, coverage)"
    using sample_runs[of 4] by auto
  have "sm_limit (sample_example 4) = 4" by (simp add: sample_example_def)
  then have "mset sampled = mset (sample_evidence view_env (sample_example 4) (get_or view_results ''evidence'' JNull))"
    using sample_is_bounded_and_accounted [OF run] sample_facts(3,4) by simp
  then show ?thesis using run sample_facts(4) by (metis mset_eq_length)
qed

theorem every_query_gets_its_share_witness:
  "\<exists>sampled coverage. balanced_evidence_sample view_env (sample_example 2)
     (get_or view_results ''evidence'' JNull) (get_or view_results ''queries'' JNull) = Inr (sampled, coverage)
     \<and> 1 \<le> length (rows_of_query view_env sampled ''q2'')"
proof -
  obtain sampled coverage where run: "balanced_evidence_sample view_env (sample_example 2)
     (get_or view_results ''evidence'' JNull) (get_or view_results ''queries'' JNull) = Inr (sampled, coverage)"
    using sample_runs[of 2] by auto
  have "sm_requested (sample_example 2) = []" "sm_limit (sample_example 2) = 2" by (simp_all add: sample_example_def)
  then show ?thesis
    using every_query_gets_its_share [OF run, of "''q2''"] run sample_facts(1,5)
    by (simp add: sample_example_inputs[of 2] sample_order_def numeral_2_eq_2)
qed

theorem spread_starts_with_the_bounds_witness:
  "raw_event_time view_env (hd (spread_evidence_in_time view_env view_records)) = Some 1"
proof -
  have "known_times view_env view_records = [2, 1, 1]" by code_simp
  then show ?thesis using spread_starts_with_the_bounds [of view_env view_records] by simp
qed

end
