(* ===== verification/Grounding.thy ===== *)
theory Grounding
  imports LeadSessions EvidenceSample
begin

text \<open>
  Grounding of what the model proposes (\<^verbatim>\<open>services/investigation.py\<close>): findings, assessments of completed queries
  with their follow-up questions, the questions still pending, and the answers with their lead coverage; and
  the exact comparison of retained values with advisory indicators (\<^verbatim>\<open>services/threat_intel.py\<close>).  Nothing that
  refers to evidence or queries outside the retained results is accepted.  Fresh identifiers are a function of a counter.
\<close>

subsection \<open>Scalar values of a result\<close>

text \<open>\<open>loads\<close> is \<open>json.loads\<close>, \<open>None\<close> when it raises.  A text is read as JSON once per level of nesting; the fuel counts the levels.\<close>

fun flatten_values :: "(string \<Rightarrow> json option) \<Rightarrow> nat \<Rightarrow> json \<Rightarrow> json list" where
  "flatten_values loads n (JObj kvs) = concat (map (\<lambda>kv. flatten_values loads n (snd kv)) kvs)"
| "flatten_values loads n (JList xs) = concat (map (flatten_values loads n) xs)"
| "flatten_values loads 0 (JStr s) = [JStr s]"
| "flatten_values loads (Suc n) (JStr s) =
     (case loads s of
        Some (JObj kvs) \<Rightarrow> JStr s # concat (map (\<lambda>kv. flatten_values loads n (snd kv)) kvs)
      | Some (JList xs) \<Rightarrow> JStr s # concat (map (flatten_values loads n) xs)
      | _ \<Rightarrow> [JStr s])"
| "flatten_values loads n JNull = []"
| "flatten_values loads n j = [j]"

fun longest_text :: "json \<Rightarrow> nat" where
  "longest_text (JStr s) = length s"
| "longest_text (JList xs) = foldr max (map longest_text xs) 0"
| "longest_text (JObj kvs) = foldr max (map (\<lambda>kv. longest_text (snd kv)) kvs) 0"
| "longest_text _ = 0"

text \<open>The longest text is fuel enough, because the texts inside a JSON container are shorter than its own text.\<close>

definition flatten_scalar_values :: "(string \<Rightarrow> json option) \<Rightarrow> json \<Rightarrow> json list" where
  "flatten_scalar_values loads j = flatten_values loads (longest_text j) j"

subsection \<open>Advisory indicators\<close>

record advisory_iocs =
  ai_file_hashes :: "string list"
  ai_file_names :: "string list"
  ai_domains :: "string list"

definition hex_char :: "char \<Rightarrow> bool" where
  "hex_char c \<longleftrightarrow> c \<in> set ''0123456789ABCDEFabcdef''"

definition hash_literal :: "string \<Rightarrow> bool" where
  "hash_literal s \<longleftrightarrow> list_all hex_char s \<and> length s \<in> {64, 40, 32}"

text \<open>\<open>str.upper\<close> as far as it matters for hexadecimal texts.\<close>

definition upper_text :: "string \<Rightarrow> string" where
  "upper_text s = map (\<lambda>c. if c \<in> set ''abcdefghijklmnopqrstuvwxyz'' then char_of (of_char c - 32 :: nat) else c) s"

definition texts_of :: "json list \<Rightarrow> string list" where
  "texts_of js = concat (map (\<lambda>j. case j of JStr s \<Rightarrow> [s] | _ \<Rightarrow> []) js)"

definition compare_advisory_iocs :: "(string \<Rightarrow> json option) \<Rightarrow> json \<Rightarrow> advisory_iocs \<Rightarrow> json_fields" where
  "compare_advisory_iocs loads selected iocs =
     (let observed = fromkeys (texts_of (flatten_scalar_values loads selected)); hashes = map upper_text (ai_file_hashes iocs) in
      [(''hash_literals'', JList (map (\<lambda>v. JObj [(''observed_value'', JStr v),
          (''matches_extracted_advisory_hash'', JBool (upper_text v \<in> set hashes))]) (filter hash_literal observed))),
       (''matched_file_name_literals'', JList (map JStr (filter (\<lambda>v. v \<in> set (ai_file_names iocs)) observed))),
       (''matched_domain_literals'', JList (map JStr (filter (\<lambda>v. v \<in> set (ai_domains iocs)) observed)))])"

subsection \<open>Findings\<close>

definition result_rows :: "json_fields \<Rightarrow> string \<Rightarrow> json_fields list" where
  "result_rows results k = objects (elements (get_or results k (JList [])))"

definition is_completed :: "json_fields \<Rightarrow> bool" where
  "is_completed q \<longleftrightarrow> get_or q ''status'' JNull = JStr ''completed''"

definition retained_ids :: "json_env \<Rightarrow> json_fields \<Rightarrow> string list" where
  "retained_ids env results = map (key_text env ''evidence_id'') (result_rows results ''evidence'')"

definition completed_ids :: "json_env \<Rightarrow> json_fields \<Rightarrow> string list" where
  "completed_ids env results = map (key_text env ''query_id'') (filter is_completed (result_rows results ''queries''))"

definition incomplete_ids :: "json_env \<Rightarrow> json_fields \<Rightarrow> string list outcome" where
  "incomplete_ids env results =
     bindR (mapR (\<lambda>q. bindR (crashing (query_results_incomplete q)) (\<lambda>b. Inr (b, key_text env ''query_id'' q)))
              (result_rows results ''queries'')) (\<lambda>marked. Inr (map snd (filter fst marked)))"

definition check_finding :: "string list \<Rightarrow> string list \<Rightarrow> string list \<Rightarrow> FindingProposal \<Rightarrow> unit outcome" where
  "check_finding evidence queries incomplete p =
     bindR (ensure (set (fp_evidence_ids p) \<subseteq> set evidence) (Validation ''synthesis referenced unavailable evidence'')) (\<lambda>_.
     bindR (ensure (set (fp_query_ids p) \<subseteq> set queries) (Validation ''synthesis referenced unavailable completed query'')) (\<lambda>_.
       ensure (\<not> (fp_classification p = NOT_SUPPORTED_FINDING \<and> set incomplete \<inter> set (fp_query_ids p) \<noteq> {}))
         (Validation ''negative findings require complete query results'')))"

definition bounds_limitation :: "json_env \<Rightarrow> json_fields list \<Rightarrow> string" where
  "bounds_limitation env rows = json_str env (get_or (evidence_time_bounds env rows) ''limitation'' JNull)"

definition finding_of :: "json_env \<Rightarrow> json_fields \<Rightarrow> string \<Rightarrow> FindingProposal \<Rightarrow> Finding" where
  "finding_of env results fresh_id p =
     FindingProposal.extend
       (p\<lparr>fp_evidence_ids := fromkeys (fp_evidence_ids p), fp_query_ids := fromkeys (fp_query_ids p),
          fp_limitations := fp_limitations p @
            (if fp_evidence_ids p = [] then []
             else [bounds_limitation env (filter (\<lambda>row. key_text env ''evidence_id'' row \<in> set (fp_evidence_ids p)) (result_rows results ''evidence''))])\<rparr>)
       (Finding.fields fresh_id)"

fun check_findings :: "json_env \<Rightarrow> json_fields \<Rightarrow> (nat \<Rightarrow> string) \<Rightarrow> string list \<Rightarrow> nat \<Rightarrow> FindingProposal list \<Rightarrow> Finding list outcome" where
  "check_findings env results fresh incomplete n [] = Inr []"
| "check_findings env results fresh incomplete n (p # ps) =
     bindR (check_finding (retained_ids env results) (completed_ids env results) incomplete p) (\<lambda>_.
     bindR (check_findings env results fresh incomplete (Suc n) ps) (\<lambda>rest. Inr (finding_of env results (fresh n) p # rest)))"

definition materialize_findings :: "json_env \<Rightarrow> (nat \<Rightarrow> string) \<Rightarrow> nat \<Rightarrow> FindingProposal list \<Rightarrow> json_fields \<Rightarrow> Finding list outcome" where
  "materialize_findings env fresh n proposals results =
     bindR (incomplete_ids env results) (\<lambda>incomplete. check_findings env results fresh incomplete n proposals)"

subsection \<open>Assessments and follow-up questions\<close>

definition set_key :: "json_fields \<Rightarrow> string \<Rightarrow> bool" where
  "set_key kvs k \<longleftrightarrow> truthy (map_of kvs k)"

definition ledger_links :: "json_env \<Rightarrow> json_fields \<Rightarrow> (string \<times> string) list" where
  "ledger_links env results =
     concat (map (\<lambda>entry. case get_or entry ''proposal'' JNull of
         JObj proposal \<Rightarrow> (if set_key entry ''query_id'' \<and> set_key proposal ''question_id''
           then [(key_text env ''query_id'' entry, key_text env ''question_id'' proposal)] else [])
       | _ \<Rightarrow> []) (result_rows results ''query_ledger''))"

definition query_links :: "json_env \<Rightarrow> json_fields \<Rightarrow> (string \<times> string) list" where
  "query_links env results =
     map (\<lambda>q. (key_text env ''query_id'' q, key_text env ''question_id'' q))
       (filter (\<lambda>q. is_completed q \<and> set_key q ''query_id'' \<and> set_key q ''question_id'') (result_rows results ''queries''))"

definition completed_query_questions :: "json_env \<Rightarrow> json_fields \<Rightarrow> (string \<times> string) list" where
  "completed_query_questions env results =
     fold (\<lambda>(query_id, question_id). AList.update query_id question_id) (ledger_links env results @ query_links env results) []"

definition MAX_FOLLOW_UP_QUESTIONS :: nat where "MAX_FOLLOW_UP_QUESTIONS = 3"

record follow_up =
  fq_question_id :: string
  fq_source_query :: string
  fq_source_question :: string
  fq_source_evidence :: "string list"
  fq_entities :: "AssessmentEntity list"
  fq_question :: ProposedNextQuestion

definition supplied_questions :: "json_env \<Rightarrow> json_fields \<Rightarrow> string list option \<Rightarrow> (string \<times> string) list" where
  "supplied_questions env results query_ids =
     filter (\<lambda>(query_id, _). query_id \<in> set (map (key_text env ''query_id'')
           (filter (\<lambda>q. is_completed q \<and> set_key q ''query_id'') (result_rows results ''queries'')))
       \<and> (case query_ids of None \<Rightarrow> True | Some ids \<Rightarrow> query_id \<in> set ids)) (completed_query_questions env results)"

definition rows_for :: "json_env \<Rightarrow> json_fields \<Rightarrow> string \<Rightarrow> json_fields list" where
  "rows_for env results query_id = filter (\<lambda>row. key_text env ''query_id'' row = query_id) (result_rows results ''evidence'')"

text \<open>\<open>repr\<close> of a text, read off the text of a list of one element.\<close>

definition repr_text :: "json_env \<Rightarrow> string \<Rightarrow> string" where
  "repr_text env s = butlast (tl (json_str env (JList [JStr s])))"

definition list_text :: "json_env \<Rightarrow> string list \<Rightarrow> string" where
  "list_text env ss = json_str env (JList (map JStr (sort (remdups ss))))"

definition observed_values :: "json_env \<Rightarrow> (string \<Rightarrow> json option) \<Rightarrow> json_fields list \<Rightarrow> string list \<Rightarrow> string list" where
  "observed_values env loads rows refs =
     concat (map (\<lambda>ref. case last_named (key_text env ''evidence_id'') rows ref of None \<Rightarrow> []
       | Some row \<Rightarrow> map (json_str env) (flatten_scalar_values loads (get_or row ''selected_result'' JNull))) refs)"

text \<open>The positions of entities whose value no cited row has.\<close>

fun check_entities :: "json_env \<Rightarrow> (string \<Rightarrow> json option) \<Rightarrow> string \<Rightarrow> json_fields list \<Rightarrow> nat \<Rightarrow> AssessmentEntity list \<Rightarrow> nat list outcome" where
  "check_entities env loads query_id rows position [] = Inr []"
| "check_entities env loads query_id rows position (entity # entities) =
     (let refs = ae_row_refs entity; available = map (key_text env ''evidence_id'') rows in
      bindR (ensure (refs \<noteq> [] \<and> set refs \<subseteq> set available)
         (Validation (''query assessment entity referenced unavailable evidence for query_id='' @ query_id @ '': entity=''
            @ repr_text env (ae_value entity) @ '', result_row_refs='' @ list_text env refs @ ''; allowed_evidence_ids='' @ list_text env available
            @ ''; nonempty citations required for entities''))) (\<lambda>_.
      bindR (check_entities env loads query_id rows (Suc position) entities) (\<lambda>later.
        Inr (if ae_value entity \<in> set (observed_values env loads rows refs) then later else position # later))))"

definition ENTITY_MESSAGE :: string where
  "ENTITY_MESSAGE = ''. Copy an observed value suitable for the entity type or remove that entity. Substrings and parsed command-line paths are not accepted as entity values; keep useful interpretations in the evidence-backed summary.''"

definition check_assessment :: "json_env \<Rightarrow> (string \<Rightarrow> json option) \<Rightarrow> json_fields \<Rightarrow> (string \<times> string) list \<Rightarrow> QueryAssessment \<Rightarrow> unit outcome" where
  "check_assessment env loads results completed a =
     (let query_id = qa_query_id a; rows = rows_for env results query_id;
          available = map (key_text env ''evidence_id'') rows; refs = qa_candidate_row_refs a in
      bindR (ensure (map_of completed query_id = Some (qa_question_id a))
         (Validation ''query assessment question does not match its completed query'')) (\<lambda>_.
      bindR (ensure (set refs \<subseteq> set available)
         (Validation (''query assessment referenced unavailable evidence for query_id='' @ query_id @ '': invalid evidence_candidate_row_refs=''
            @ list_text env (filter (\<lambda>r. r \<notin> set available) refs) @ ''; allowed_evidence_ids='' @ list_text env available))) (\<lambda>_.
      bindR (check_entities env loads query_id rows 0 (qa_new_entities a)) (\<lambda>wrong.
        ensure (wrong = [])
          (Validation (''query assessment entity was not present as a complete scalar field value or list element in cited evidence: ''
             @ join '', '' (map (\<lambda>i. ''new_entities['' @ nat_text i @ ''].value'') wrong) @ ENTITY_MESSAGE))))))"

definition follow_up_of :: "string \<Rightarrow> QueryAssessment \<Rightarrow> ProposedNextQuestion \<Rightarrow> follow_up" where
  "follow_up_of fresh_id a question =
     \<lparr>fq_question_id = fresh_id, fq_source_query = qa_query_id a, fq_source_question = qa_question_id a,
      fq_source_evidence = sort (remdups (qa_candidate_row_refs a @ concat (map ae_row_refs (qa_new_entities a)))),
      fq_entities = qa_new_entities a, fq_question = question\<rparr>"

fun assess :: "json_env \<Rightarrow> (string \<Rightarrow> json option) \<Rightarrow> (nat \<Rightarrow> string) \<Rightarrow> json_fields \<Rightarrow> (string \<times> string) list \<Rightarrow> QueryAssessment list \<Rightarrow> follow_up list
    \<Rightarrow> follow_up list outcome" where
  "assess env loads fresh results completed [] follow_ups = Inr follow_ups"
| "assess env loads fresh results completed (a # as) follow_ups =
     bindR (check_assessment env loads results completed a) (\<lambda>_.
       assess env loads fresh results completed as
         (case qa_next_question a of
            Some question \<Rightarrow> if length follow_ups < MAX_FOLLOW_UP_QUESTIONS
              then follow_ups @ [follow_up_of (fresh (length follow_ups)) a question] else follow_ups
          | None \<Rightarrow> follow_ups))"

definition materialize_follow_up_questions :: "json_env \<Rightarrow> (string \<Rightarrow> json option) \<Rightarrow> (nat \<Rightarrow> string) \<Rightarrow> QueryAssessment list \<Rightarrow> json_fields \<Rightarrow> string list option
    \<Rightarrow> (QueryAssessment list \<times> follow_up list) outcome" where
  "materialize_follow_up_questions env loads fresh assessments results query_ids =
     (let completed = supplied_questions env results query_ids in
      bindR (ensure (length assessments = length completed \<and> set (map qa_query_id assessments) = set (map fst completed))
         (Validation ''query assessments must cover every supplied completed query exactly once'')) (\<lambda>_.
      bindR (assess env loads fresh results completed assessments []) (\<lambda>follow_ups. Inr (assessments, follow_ups))))"

subsection \<open>Pending questions\<close>

definition plan_question_json :: "PlanQuestion \<Rightarrow> json_fields" where
  "plan_question_json q =
     [(''question_id'', JStr (pq_question_id q)), (''question'', JStr (pq_question q)), (''rationale'', JStr (pq_rationale q)),
      (''expected_information_gain'', JStr (pq_gain q)), (''approved_question'', JBool True)]"

definition skips :: "string list \<Rightarrow> json_fields \<Rightarrow> bool outcome" where
  "skips completed decision =
     (if \<not> set_key decision ''skip_reason'' then Inr False
      else case map_of decision ''considered_query_ids'' of
        None \<Rightarrow> Inr True
      | Some considered \<Rightarrow>
          if get_or decision ''decision_source'' JNull = JStr ''application_duplicate_suppression'' then Inr True
          else bindR (iterate considered) (\<lambda>ids.
               bindR (ensure (list_all hashable ids) (Crash (TypeError ''unhashable type''))) (\<lambda>_.
                 Inr (set ids = JStr ` set completed))))"

definition latest_decisions :: "json_env \<Rightarrow> json_fields list \<Rightarrow> (string \<times> json_fields) list" where
  "latest_decisions env decisions =
     map (\<lambda>i. (i, the (last_named (key_text env ''question_id'') decisions i))) (fromkeys (map (key_text env ''question_id'') decisions))"

definition skipped_questions :: "json_env \<Rightarrow> json_fields \<Rightarrow> string list \<Rightarrow> string list outcome" where
  "skipped_questions env results completed =
     bindR (stored_list results ''follow_up_decisions'') (\<lambda>decisions.
     bindR (mapR (\<lambda>(i, decision). bindR (skips completed decision) (\<lambda>b. Inr (b, i))) (latest_decisions env (objects decisions))) (\<lambda>marked.
       Inr (map snd (filter fst marked))))"

definition question_key :: "json_env \<Rightarrow> json_fields \<Rightarrow> string outcome" where
  "question_key env question = bindR (field_of question ''question_id'') (\<lambda>i. Inr (json_str env i))"

definition open_questions :: "json_env \<Rightarrow> string list \<Rightarrow> json_fields list \<Rightarrow> json_fields list outcome" where
  "open_questions env closed questions =
     bindR (mapR (\<lambda>question. bindR (question_key env question) (\<lambda>i. Inr (i, question))) questions) (\<lambda>tagged.
       Inr (map snd (first_wins (filter (\<lambda>(i, _). i \<notin> set closed) tagged))))"

definition completed_questions :: "json_env \<Rightarrow> json list \<Rightarrow> string list" where
  "completed_questions env queries = map (key_text env ''question_id'') (filter is_completed (objects queries))"

definition named_queries :: "json_env \<Rightarrow> json list \<Rightarrow> string list" where
  "named_queries env queries = map (key_text env ''query_id'') (filter (\<lambda>q. set_key q ''query_id'') (filter is_completed (objects queries)))"

definition pending_investigation_questions :: "json_env \<Rightarrow> HuntPlan \<Rightarrow> json_fields \<Rightarrow> json_fields list \<Rightarrow> json_fields list outcome" where
  "pending_investigation_questions env plan results new_questions =
     bindR (stored_list results ''queries'') (\<lambda>queries.
     bindR (skipped_questions env results (named_queries env queries)) (\<lambda>skipped.
     bindR (bindR (stored_list results ''follow_up_questions'') (mapR fields_of)) (\<lambda>stored.
       open_questions env (completed_questions env queries @ skipped)
         (map plan_question_json (hp_questions plan) @ stored @ new_questions))))"

subsection \<open>Answers and their lead coverage\<close>

definition completed_query_keys :: "json_env \<Rightarrow> json_fields \<Rightarrow> string list outcome" where
  "completed_query_keys env results =
     bindR (bindR (stored_list results ''queries'') (mapR fields_of)) (\<lambda>queries.
       mapR (\<lambda>q. bindR (field_of q ''query_id'') (\<lambda>i. Inr (json_str env i))) (filter is_completed queries))"

definition compared_row :: "(string \<Rightarrow> json option) \<Rightarrow> advisory_iocs \<Rightarrow> json_fields \<Rightarrow> json_fields" where
  "compared_row loads iocs row =
     AList.update ''advisory_ioc_comparison'' (JObj (compare_advisory_iocs loads (get_or row ''selected_result'' JNull) iocs)) row"

definition retained_leads :: "json_env \<Rightarrow> (string \<Rightarrow> json option) \<Rightarrow> advisory_iocs \<Rightarrow> json_fields \<Rightarrow> lead_group list outcome" where
  "retained_leads env loads iocs results =
     bindR (completed_query_keys env results) (\<lambda>completed.
     bindR (bindR (stored_list results ''evidence'') (mapR fields_of)) (\<lambda>rows.
       advisory_lead_groups env (map (compared_row loads iocs)
         (filter (\<lambda>row. key_text env ''query_id'' row \<in> set completed) rows))))"

definition lead_by_evidence :: "lead_group list \<Rightarrow> string \<Rightarrow> lead_group option" where
  "lead_by_evidence leads identifier = find (\<lambda>lead. identifier \<in> set (lg_evidence lead)) (rev leads)"

record lead_disposition =
  ld_evidence :: "string list"
  ld_identity :: json_fields
  ld_findings :: "string list"
  ld_limitation :: "string option"

definition disposition_of :: "lead_group \<Rightarrow> string list \<Rightarrow> string option \<Rightarrow> lead_disposition" where
  "disposition_of lead linked limitation =
     \<lparr>ld_evidence = lg_evidence lead, ld_identity = lg_identity lead, ld_findings = linked, ld_limitation = limitation\<rparr>"

definition link_finding :: "Finding list \<Rightarrow> lead_group \<Rightarrow> int \<Rightarrow> string outcome" where
  "link_finding materialized lead number =
     bindR (ensure (1 \<le> number \<and> number \<le> int (length materialized)) (Validation ''lead coverage references an unavailable finding'')) (\<lambda>_.
       (let finding = materialized ! nat (number - 1) in
        bindR (ensure (fp_classification finding = NOT_SUPPORTED_FINDING \<or> set (fp_evidence_ids finding) \<inter> set (lg_evidence lead) \<noteq> {})
           (Validation ''lead coverage finding must cite that advisory lead'')) (\<lambda>_. Inr (fd_finding_id finding))))"

fun cover_leads :: "lead_group list \<Rightarrow> Finding list \<Rightarrow> LeadCoverage list \<Rightarrow> string list \<Rightarrow> (lead_disposition list \<times> string list) outcome" where
  "cover_leads leads materialized [] covered = Inr ([], covered)"
| "cover_leads leads materialized (d # ds) covered =
     (case lead_by_evidence leads (lc_evidence_id d) of
        None \<Rightarrow> Inl (Validation ''lead coverage must reference distinct retained advisory leads'')
      | Some lead \<Rightarrow>
          bindR (ensure (lg_lead lead \<notin> set covered) (Validation ''lead coverage must reference distinct retained advisory leads'')) (\<lambda>_.
          bindR (mapR (link_finding materialized lead) (lc_finding_numbers d)) (\<lambda>linked.
          bindR (cover_leads leads materialized ds (covered @ [lg_lead lead])) (\<lambda>(later, all_covered).
            Inr (disposition_of lead linked (lc_limitation d) # later, all_covered)))))"

definition UNACCOUNTED :: string where
  "UNACCOUNTED = ''This retained advisory lead was not accounted for in the supplied model context.''"

definition lead_coverage_of :: "lead_group list \<Rightarrow> Finding list \<Rightarrow> LeadCoverage list \<Rightarrow> lead_disposition list outcome" where
  "lead_coverage_of leads materialized dispositions =
     bindR (cover_leads leads materialized dispositions []) (\<lambda>(coverage, covered).
       Inr (coverage @ map (\<lambda>lead. disposition_of lead [] (Some UNACCOUNTED)) (filter (\<lambda>lead. lg_lead lead \<notin> set covered) leads)))"

record stored_answer =
  st_question_id :: string
  st_question :: string
  st_summary :: string
  st_finding_ids :: "string list"
  st_limitations :: "string list"
  st_inventories :: "RetainedInventory list option"
  st_coverage :: "lead_disposition list option"

definition MAX_STORED_QUESTION_INVENTORIES :: nat where "MAX_STORED_QUESTION_INVENTORIES = 500"

definition question_inventory_scopes :: "json_env \<Rightarrow> PlanQuestion \<Rightarrow> 'a QuestionAnswer_scheme \<Rightarrow> lead_group list \<Rightarrow> json_fields
    \<Rightarrow> RetainedEvidenceScope list outcome" where
  "question_inventory_scopes env question item leads results =
     (if \<not> question_requests_inventories (pq_question question) then Inr (fromkeys (an_inventory_scopes item))
      else bindR (question_completed_query_ids env results (pq_question_id question)) (\<lambda>ids.
        if ids = [] then Inr (fromkeys (an_inventory_scopes item))
        else bindR (crashing (lead_session_inventory_scopes leads ids)) (\<lambda>scopes. Inr (fromkeys (an_inventory_scopes item @ scopes)))))"

definition validate_retained_scope :: "HuntPlan \<Rightarrow> 'a RetainedEvidenceScope_scheme \<Rightarrow> unit result" where
  "validate_retained_scope plan request =
     (let earliest = (case rs_earliest request of Some t \<Rightarrow> t | None \<Rightarrow> hs_earliest (hp_scope plan));
          latest = (case rs_latest request of Some t \<Rightarrow> t | None \<Rightarrow> hs_latest (hp_scope plan)) in
      ensure (\<not> (earliest < hs_earliest (hp_scope plan) \<or> latest > hs_latest (hp_scope plan) \<or> earliest \<ge> latest))
        (ValueError ''retained evidence lookup exceeds the approved time window''))"

text \<open>\<open>tabulate\<close> gives the table of a scope inside the approved window.\<close>

definition measure_inventory :: "(RetainedEvidenceScope \<Rightarrow> RetainedInventory outcome) \<Rightarrow> HuntPlan \<Rightarrow> RetainedEvidenceScope \<Rightarrow> RetainedInventory outcome" where
  "measure_inventory tabulate plan scope = bindR (crashing (validate_retained_scope plan scope)) (\<lambda>_. tabulate scope)"

definition unanswered_limitation :: "lead_disposition list \<Rightarrow> string list" where
  "unanswered_limitation coverage =
     (let unanswered = length (filter (\<lambda>d. ld_findings d = []) coverage) in
      if unanswered = 0 then []
      else [nat_text unanswered @ '' of '' @ nat_text (length coverage) @ '' retained advisory lead groups remain unanswered for this question.''])"

definition answer_question :: "json_env \<Rightarrow> (nat \<Rightarrow> string) \<Rightarrow> (RetainedEvidenceScope \<Rightarrow> RetainedInventory outcome) \<Rightarrow> HuntPlan \<Rightarrow> json_fields \<Rightarrow> lead_group list
    \<Rightarrow> nat \<Rightarrow> PlanQuestion \<Rightarrow> QuestionAnswerStep \<Rightarrow> (Finding list \<times> stored_answer) outcome" where
  "answer_question env fresh tabulate plan results leads n question item =
     bindR (materialize_findings env fresh n (an_findings item) results) (\<lambda>materialized.
     bindR (question_inventory_scopes env question item leads results) (\<lambda>scopes.
     bindR (ensure (length scopes \<le> MAX_STORED_QUESTION_INVENTORIES)
        (Validation ''question inventories exceed the supported application-owned limit'')) (\<lambda>_.
     bindR (mapR (measure_inventory tabulate plan) scopes) (\<lambda>inventories.
     bindR (if leads \<noteq> [] then bindR (lead_coverage_of leads materialized (an_lead_coverage item)) (\<lambda>c. Inr (Some c))
            else if an_lead_coverage item \<noteq> [] then Inl (Validation ''lead coverage has no retained advisory support'')
            else Inr None) (\<lambda>coverage.
       Inr (materialized,
         \<lparr>st_question_id = pq_question_id question, st_question = pq_question question, st_summary = an_summary item,
          st_finding_ids = map fd_finding_id materialized,
          st_limitations = an_limitations item @ (case coverage of None \<Rightarrow> [] | Some c \<Rightarrow> unanswered_limitation c),
          st_inventories = (if scopes = [] then None else Some inventories), st_coverage = coverage\<rparr>))))))"

text \<open>Questions whose answer asks for more evidence are left open; an answer has one slot per question.\<close>

fun answer_questions :: "json_env \<Rightarrow> (nat \<Rightarrow> string) \<Rightarrow> (RetainedEvidenceScope \<Rightarrow> RetainedInventory outcome) \<Rightarrow> HuntPlan \<Rightarrow> json_fields \<Rightarrow> lead_group list
    \<Rightarrow> nat \<Rightarrow> PlanQuestion list \<Rightarrow> QuestionAnswerStep list \<Rightarrow> (Finding list \<times> stored_answer list) outcome" where
  "answer_questions env fresh tabulate plan results leads n [] items = Inr ([], [])"
| "answer_questions env fresh tabulate plan results leads n (question # questions) [] =
     Inl (Crash (TypeError ''object has no attribute''))"
| "answer_questions env fresh tabulate plan results leads n (question # questions) (item # items) =
     (if as_requests item \<noteq> [] then answer_questions env fresh tabulate plan results leads n questions items
      else bindR (answer_question env fresh tabulate plan results leads n question item) (\<lambda>(findings, stored).
           bindR (answer_questions env fresh tabulate plan results leads (n + length findings) questions items) (\<lambda>(more_findings, later).
             Inr (findings @ more_findings, stored # later))))"

definition materialize_question_answers :: "json_env \<Rightarrow> (string \<Rightarrow> json option) \<Rightarrow> (nat \<Rightarrow> string) \<Rightarrow> (RetainedEvidenceScope \<Rightarrow> RetainedInventory outcome)
    \<Rightarrow> advisory_iocs \<Rightarrow> HuntPlan \<Rightarrow> json_fields \<Rightarrow> QuestionAnswerStep list \<Rightarrow> (Finding list \<times> stored_answer list) outcome" where
  "materialize_question_answers env loads fresh tabulate iocs plan results items =
     bindR (retained_leads env loads iocs results) (\<lambda>leads.
       answer_questions env fresh tabulate plan results leads 0 (hp_questions plan) items)"

subsection \<open>Follow-up decisions and proposals\<close>

definition question_named :: "json_env \<Rightarrow> json_fields list \<Rightarrow> (string \<times> json_fields) list outcome" where
  "question_named env questions = mapR (\<lambda>q. bindR (question_key env q) (\<lambda>i. Inr (i, q))) questions"

definition session_leads :: "json_env \<Rightarrow> (string \<Rightarrow> json option) \<Rightarrow> advisory_iocs \<Rightarrow> string list \<Rightarrow> json list \<Rightarrow> lead_group list outcome" where
  "session_leads env loads iocs completed evidence =
     advisory_lead_groups env (map (compared_row loads iocs)
       (filter (\<lambda>row. key_text env ''query_id'' row \<in> set completed) (objects evidence)))"

definition widen_decision :: "json_env \<Rightarrow> (string \<times> json_fields) list \<Rightarrow> session_filter list \<Rightarrow> FollowUpDecision \<Rightarrow> FollowUpDecision outcome" where
  "widen_decision env questions sessions decision =
     (case fu_proposal decision of
        None \<Rightarrow> Inr decision
      | Some proposal \<Rightarrow>
          (let question = (case map_of (rev questions) (fu_question_id decision) of None \<Rightarrow> [] | Some q \<Rightarrow> q) in
           if \<not> question_requires_all_lead_coverage (json_str env (get_or question ''question'' (JStr []))) then Inr decision
           else if spl_covers_all_lead_sessions (qp_spl proposal) sessions then Inr decision
           else case widen_spl_for_lead_sessions (qp_spl proposal) sessions of
               Inl (ValueError m) \<Rightarrow> Inl (Validation (''follow-up query cannot cover all retained advisory lead sessions: '' @ m))
             | Inl e \<Rightarrow> Inl (Crash e)
             | Inr spl \<Rightarrow> Inr (decision\<lparr>fu_proposal := Some (proposal\<lparr>qp_spl := spl\<rparr>)\<rparr>)))"

definition widen_follow_up_decisions :: "json_env \<Rightarrow> (string \<Rightarrow> json option) \<Rightarrow> advisory_iocs \<Rightarrow> FollowUpDecision list \<Rightarrow> json_fields list \<Rightarrow> json list \<Rightarrow> string list
    \<Rightarrow> FollowUpDecision list outcome" where
  "widen_follow_up_decisions env loads iocs decisions follow_up_questions evidence completed =
     bindR (question_named env follow_up_questions) (\<lambda>questions.
     bindR (session_leads env loads iocs completed evidence) (\<lambda>leads.
       (let sessions = retained_lead_session_filters leads in
        if length sessions < 2 then Inr decisions else mapR (widen_decision env questions sessions) decisions)))"

definition pivot_values :: "json_env \<Rightarrow> (string \<Rightarrow> json option) \<Rightarrow> json_fields \<Rightarrow> json_fields list \<Rightarrow> string list outcome" where
  "pivot_values env loads question evidence =
     bindR (stored_list question ''grounded_entities'') (\<lambda>entities.
     bindR (stored_list question ''source_evidence_ids'') (\<lambda>sources.
     bindR (ensure (list_all hashable sources \<and> list_all (\<lambda>row. hashable (get_or row ''evidence_id'' JNull)) evidence)
              (Crash (TypeError ''unhashable type''))) (\<lambda>_.
       Inr (map (key_text env ''value'') (filter (\<lambda>e. set_key e ''value'') (objects entities))
         @ concat (map (\<lambda>row. map (json_str env) (flatten_scalar_values loads (get_or row ''selected_result'' JNull)))
             (filter (\<lambda>row. list_ex (json_equal (get_or row ''evidence_id'' JNull)) sources
                \<and> key_text env ''query_id'' row = key_text env ''source_query_id'' question) evidence))))))"

definition uses_pivot :: "string list \<Rightarrow> string \<Rightarrow> bool" where
  "uses_pivot pivots spl \<longleftrightarrow> pivots = [] \<or> mentions (map casefold pivots) (casefold (strip spl))"

fun proposal_errors :: "json_env \<Rightarrow> (string \<Rightarrow> json option) \<Rightarrow> (string \<times> json_fields) list \<Rightarrow> json_fields list \<Rightarrow> string list \<Rightarrow> (string \<times> string) list
    \<Rightarrow> QueryProposal list \<Rightarrow> (string \<times> string) list outcome" where
  "proposal_errors env loads questions evidence seen errors [] = Inr errors"
| "proposal_errors env loads questions evidence seen errors (p # ps) =
     (case map_of (rev questions) (qp_question_id p) of
        None \<Rightarrow> proposal_errors env loads questions evidence seen
          (AList.update (qp_question_id p) ''follow-up query must reference one unique generated question'' errors) ps
      | Some question \<Rightarrow>
          if qp_question_id p \<in> set seen then proposal_errors env loads questions evidence seen
            (AList.update (qp_question_id p) ''follow-up query must reference one unique generated question'' errors) ps
          else bindR (pivot_values env loads question evidence) (\<lambda>pivots.
            if uses_pivot pivots (qp_spl p) then proposal_errors env loads questions evidence (qp_question_id p # seen) errors ps
            else proposal_errors env loads questions evidence seen
              (AList.update (qp_question_id p) ''follow-up query did not use an evidence-grounded pivot value'' errors) ps))"

definition follow_up_proposal_errors :: "json_env \<Rightarrow> (string \<Rightarrow> json option) \<Rightarrow> QueryProposal list \<Rightarrow> json_fields list \<Rightarrow> json_fields list
    \<Rightarrow> (string \<times> string) list outcome" where
  "follow_up_proposal_errors env loads proposals follow_up_questions evidence =
     bindR (question_named env follow_up_questions) (\<lambda>questions. proposal_errors env loads questions evidence [] [] proposals)"

subsection \<open>Fuel of the flattening\<close>

text \<open>What is used of \<open>json.loads\<close>: the texts inside a container are shorter than its own text.\<close>

definition shrinking :: "(string \<Rightarrow> json option) \<Rightarrow> bool" where
  "shrinking loads \<longleftrightarrow> (\<forall>s j. loads s = Some j \<and> (list_json j \<or> object_json j) \<longrightarrow> longest_text j < length s)"

lemma longest_text_list: "x \<in> set xs \<Longrightarrow> longest_text x \<le> longest_text (JList xs)"
  by (induction xs) (auto simp: max_def)

lemma longest_text_fields: "kv \<in> set kvs \<Longrightarrow> longest_text (snd kv) \<le> longest_text (JObj kvs)"
  by (induction kvs) (auto simp: max_def)

text \<open>More fuel than the longest text changes nothing.\<close>

lemma flatten_fuel:
  assumes "shrinking loads" and "longest_text j \<le> n"
  shows "flatten_values loads (Suc n) j = flatten_values loads n j"
  using assms(2)
proof (induction n arbitrary: j rule: less_induct)
  case (less n)
  show ?case using less.prems
  proof (induction j)
    case (JStr s)
    have "flatten_values loads (Suc n) (JStr s) = flatten_values loads n (JStr s)"
    proof (cases n)
      case 0
      then have "s = []" using JStr by simp
      moreover have "\<not> (list_json j \<or> object_json j)" if "loads [] = Some j" for j
        using assms(1) that by (force simp: shrinking_def)
      ultimately show ?thesis using 0 by (auto split: option.splits json.splits)
    next
      case (Suc k)
      have deeper: "flatten_values loads (Suc k) x = flatten_values loads k x" if "longest_text x < length s" for x
        using less.IH[of k x] that JStr Suc by simp
      have "longest_text j < length s" if "loads s = Some j" "list_json j \<or> object_json j" for j
        using assms(1) that by (simp add: shrinking_def)
      then show ?thesis unfolding Suc
        by (auto simp del: longest_text.simps split: option.splits json.splits intro!: arg_cong[where f = concat] map_cong deeper
            dest: longest_text_list longest_text_fields intro: le_less_trans)
    qed
    then show ?case .
  next
    case (JList xs)
    then show ?case
      by (auto simp del: longest_text.simps intro!: arg_cong[where f = concat] map_cong intro: order_trans longest_text_list)
  next
    case (JObj kvs)
    then have "flatten_values loads (Suc n) (snd kv) = flatten_values loads n (snd kv)" if "kv \<in> set kvs" for kv
      using that longest_text_fields[OF that] by (cases kv) (auto simp del: longest_text.simps simp: snds.simps)
    then show ?case by (auto simp del: longest_text.simps intro!: arg_cong[where f = concat] map_cong)
  qed simp_all
qed

subsection \<open>Grounded findings\<close>

definition grounded_finding :: "json_env \<Rightarrow> json_fields \<Rightarrow> 'a FindingProposal_scheme \<Rightarrow> bool" where
  "grounded_finding env results f \<longleftrightarrow>
     set (fp_evidence_ids f) \<subseteq> set (retained_ids env results)
     \<and> set (fp_query_ids f) \<subseteq> set (completed_ids env results)
     \<and> (fp_classification f = NOT_SUPPORTED_FINDING \<longrightarrow>
          list_all (\<lambda>q. key_text env ''query_id'' q \<notin> set (fp_query_ids f) \<or> query_results_incomplete q = Inr False)
            (result_rows results ''queries''))"

lemma crashing_Inr [result_simps]: "crashing r = Inr x \<longleftrightarrow> r = Inr x"
  by (auto simp: crashing_def split: sum.splits)

lemma incomplete_ids_complete:
  assumes "incomplete_ids env results = Inr incomplete"
  shows "set incomplete = {key_text env ''query_id'' q | q. q \<in> set (result_rows results ''queries'') \<and> query_results_incomplete q = Inr True}"
    and "\<And>q. q \<in> set (result_rows results ''queries'') \<Longrightarrow> \<exists>b. query_results_incomplete q = Inr b"
proof -
  have "mapR (\<lambda>q. bindR (crashing (query_results_incomplete q)) (\<lambda>b. Inr (b, key_text env ''query_id'' q))) rows = Inr marked \<Longrightarrow>
      set (map snd (filter fst marked)) = {key_text env ''query_id'' q | q. q \<in> set rows \<and> query_results_incomplete q = Inr True}
      \<and> (\<forall>q \<in> set rows. \<exists>b. query_results_incomplete q = Inr b)" for rows marked
  proof (induction rows arbitrary: marked)
    case (Cons q rows)
    then obtain b rest where b: "query_results_incomplete q = Inr b" "marked = (b, key_text env ''query_id'' q) # rest"
        "mapR (\<lambda>q. bindR (crashing (query_results_incomplete q)) (\<lambda>b. Inr (b, key_text env ''query_id'' q))) rows = Inr rest"
      by (auto simp: bindR_eq_Inr crashing_Inr)
    show ?case using Cons.IH[OF b(3)] b(1,2) by auto
  qed simp
  then show "set incomplete = {key_text env ''query_id'' q | q. q \<in> set (result_rows results ''queries'') \<and> query_results_incomplete q = Inr True}"
    and "\<And>q. q \<in> set (result_rows results ''queries'') \<Longrightarrow> \<exists>b. query_results_incomplete q = Inr b"
    using assms by (auto simp: incomplete_ids_def bindR_eq_Inr)
qed

text \<open>A finding says what was proposed.\<close>

definition same_claim :: "FindingProposal \<Rightarrow> Finding \<Rightarrow> bool" where
  "same_claim p f \<longleftrightarrow>
     fp_title f = fp_title p \<and> fp_classification f = fp_classification p \<and> fp_statement f = fp_statement p
     \<and> fp_confidence f = fp_confidence p \<and> fp_inference f = fp_inference p
     \<and> fp_evidence_ids f = fromkeys (fp_evidence_ids p) \<and> fp_query_ids f = fromkeys (fp_query_ids p)
     \<and> take (length (fp_limitations p)) (fp_limitations f) = fp_limitations p"

lemma finding_of_fields:
  "same_claim p (finding_of env results i p)" "fd_finding_id (finding_of env results i p) = i"
  by (simp_all add: same_claim_def finding_of_def FindingProposal.defs Finding.defs)

lemma check_finding_grounded:
  assumes "incomplete_ids env results = Inr incomplete"
  shows "check_finding (retained_ids env results) (completed_ids env results) incomplete p = Inr () \<longleftrightarrow> grounded_finding env results p"
proof -
  have "set incomplete \<inter> set (fp_query_ids p) = {} \<longleftrightarrow>
      list_all (\<lambda>q. key_text env ''query_id'' q \<notin> set (fp_query_ids p) \<or> query_results_incomplete q = Inr False) (result_rows results ''queries'')"
    unfolding list_all_iff incomplete_ids_complete(1)[OF assms]
    using incomplete_ids_complete(2)[OF assms] by (auto simp: set_eq_iff) (metis (full_types))+
  then show ?thesis by (auto simp: check_finding_def grounded_finding_def result_simps)
qed

lemma grounded_same_claim: "same_claim p f \<Longrightarrow> grounded_finding env results f = grounded_finding env results p"
  by (simp add: same_claim_def grounded_finding_def)

lemma check_findings_grounded:
  assumes "incomplete_ids env results = Inr incomplete"
  shows "check_findings env results fresh incomplete n ps = Inr fs \<Longrightarrow>
     list_all2 same_claim ps fs \<and> list_all (grounded_finding env results) fs \<and> map fd_finding_id fs = map fresh [n..<n + length ps]"
proof (induction ps arbitrary: n fs)
  case (Cons p ps)
  then obtain rest where p: "check_finding (retained_ids env results) (completed_ids env results) incomplete p = Inr ()"
      and rest: "check_findings env results fresh incomplete (Suc n) ps = Inr rest" "fs = finding_of env results (fresh n) p # rest"
    by (auto simp: result_simps)
  have "[n..<n + length (p # ps)] = n # [Suc n..<Suc n + length ps]" by (simp add: upt_conv_Cons del: upt_Suc)
  then show ?case
    using Cons.IH[OF rest(1)] p check_finding_grounded[OF assms] grounded_same_claim[OF finding_of_fields(1)] rest(2)
    by (simp add: finding_of_fields del: upt_Suc)
qed simp

lemma materialize_findings_grounded:
  assumes "materialize_findings env fresh n ps results = Inr fs"
  shows "list_all2 same_claim ps fs" "list_all (grounded_finding env results) fs" "map fd_finding_id fs = map fresh [n..<n + length ps]"
  using assms by (auto simp: materialize_findings_def result_simps dest: check_findings_grounded)

lemma check_findings_ok:
  "is_ok (check_findings env results fresh incomplete n ps)
     \<longleftrightarrow> list_all (\<lambda>p. check_finding (retained_ids env results) (completed_ids env results) incomplete p = Inr ()) ps"
proof (induction ps arbitrary: n)
  case (Cons p ps)
  have "is_ok (check_findings env results fresh incomplete n (p # ps)) \<longleftrightarrow>
      check_finding (retained_ids env results) (completed_ids env results) incomplete p = Inr ()
      \<and> is_ok (check_findings env results fresh incomplete (Suc n) ps)"
    by (auto simp: is_ok_iff bindR_eq_Inr)
  then show ?case using Cons by simp
qed simp

text \<open>C10. The model's findings become findings of the hunt exactly when each cites retained evidence and completed
  queries only, and a negative one complete searches only; they keep what they claim, their citations lose
  repetitions only, and they get distinct identifiers when fresh ones are distinct.\<close>

theorem findings_accepted_iff_grounded:
  assumes "is_ok (incomplete_ids env results)" and "inj fresh"
  shows "is_ok (materialize_findings env fresh n ps results) = list_all (grounded_finding env results) ps
         \<and> (\<forall>fs. materialize_findings env fresh n ps results = Inr fs \<longrightarrow>
              list_all2 same_claim ps fs \<and> list_all (grounded_finding env results) fs \<and> distinct (map fd_finding_id fs))"
proof (intro conjI allI impI)
  obtain incomplete where i: "incomplete_ids env results = Inr incomplete" using assms(1) by (auto simp: is_ok_iff)
  show "is_ok (materialize_findings env fresh n ps results) = list_all (grounded_finding env results) ps"
    by (simp add: materialize_findings_def i check_findings_ok check_finding_grounded[OF i])
next
  fix fs assume "materialize_findings env fresh n ps results = Inr fs"
  note fs = materialize_findings_grounded[OF this]
  show "list_all2 same_claim ps fs" "list_all (grounded_finding env results) fs" by (fact fs)+
  show "distinct (map fd_finding_id fs)" unfolding fs(3) using inj_on_subset[OF assms(2)] by (simp add: distinct_map)
qed

subsection \<open>Grounded assessments\<close>

definition has_value :: "json_env \<Rightarrow> (string \<Rightarrow> json option) \<Rightarrow> json_fields \<Rightarrow> string \<Rightarrow> bool" where
  "has_value env loads row v \<longleftrightarrow> v \<in> set (map (json_str env) (flatten_scalar_values loads (get_or row ''selected_result'' JNull)))"

definition grounded_entity :: "json_env \<Rightarrow> (string \<Rightarrow> json option) \<Rightarrow> json_fields list \<Rightarrow> AssessmentEntity \<Rightarrow> bool" where
  "grounded_entity env loads rows e \<longleftrightarrow>
     ae_row_refs e \<noteq> [] \<and> set (ae_row_refs e) \<subseteq> key_text env ''evidence_id'' ` set rows
     \<and> list_ex (\<lambda>row. key_text env ''evidence_id'' row \<in> set (ae_row_refs e) \<and> has_value env loads row (ae_value e)) rows"

definition grounded_assessment :: "json_env \<Rightarrow> (string \<Rightarrow> json option) \<Rightarrow> json_fields \<Rightarrow> QueryAssessment \<Rightarrow> bool" where
  "grounded_assessment env loads results a \<longleftrightarrow>
     (let rows = rows_for env results (qa_query_id a) in
      set (qa_candidate_row_refs a) \<subseteq> key_text env ''evidence_id'' ` set rows
      \<and> list_all (grounded_entity env loads rows) (qa_new_entities a))"

definition grounded_follow_up :: "json_env \<Rightarrow> (string \<Rightarrow> json option) \<Rightarrow> json_fields \<Rightarrow> follow_up \<Rightarrow> bool" where
  "grounded_follow_up env loads results f \<longleftrightarrow>
     (let rows = rows_for env results (fq_source_query f) in
      set (fq_source_evidence f) \<subseteq> key_text env ''evidence_id'' ` set rows
      \<and> list_all (grounded_entity env loads rows) (fq_entities f))"

lemma last_named_Some: "last_named key rows k = Some row \<Longrightarrow> row \<in> set rows \<and> key row = k"
  by (auto simp: last_named_def find_Some_iff) (metis nth_mem set_rev length_rev)

lemma observed_value_row:
  "v \<in> set (observed_values env loads rows refs) \<Longrightarrow>
     \<exists>row \<in> set rows. key_text env ''evidence_id'' row \<in> set refs \<and> has_value env loads row v"
proof -
  assume "v \<in> set (observed_values env loads rows refs)"
  then obtain ref where "ref \<in> set refs" and v: "v \<in> set (case last_named (key_text env ''evidence_id'') rows ref of None \<Rightarrow> []
      | Some row \<Rightarrow> map (json_str env) (flatten_scalar_values loads (get_or row ''selected_result'' JNull)))"
    unfolding observed_values_def set_concat set_map by blast
  moreover from v obtain row where "last_named (key_text env ''evidence_id'') rows ref = Some row" "has_value env loads row v"
    unfolding has_value_def by (cases "last_named (key_text env ''evidence_id'') rows ref") auto
  ultimately have "ref \<in> set refs" "last_named (key_text env ''evidence_id'') rows ref = Some row" "has_value env loads row v" by blast+
  then show ?thesis using last_named_Some[of "key_text env ''evidence_id''" rows ref row] by auto
qed

lemma check_entities_grounded:
  "check_entities env loads query_id rows position entities = Inr [] \<Longrightarrow> list_all (grounded_entity env loads rows) entities"
proof (induction entities arbitrary: position)
  case (Cons e entities)
  then have e: "ae_row_refs e \<noteq> []" "set (ae_row_refs e) \<subseteq> key_text env ''evidence_id'' ` set rows"
      "ae_value e \<in> set (observed_values env loads rows (ae_row_refs e))"
      "check_entities env loads query_id rows (Suc position) entities = Inr []"
    by (auto simp: Let_def result_simps split: if_splits)
  then show ?case using Cons.IH[OF e(4)] observed_value_row[OF e(3)]
    by (auto simp: grounded_entity_def list_ex_iff)
qed simp

lemma check_assessment_grounded:
  assumes "check_assessment env loads results completed a = Inr ()"
  shows "grounded_assessment env loads results a" "map_of completed (qa_query_id a) = Some (qa_question_id a)"
  using assms by (auto simp: check_assessment_def grounded_assessment_def Let_def result_simps dest: check_entities_grounded)

lemma follow_up_grounded:
  "grounded_assessment env loads results a \<Longrightarrow> grounded_follow_up env loads results (follow_up_of i a question)"
  by (fastforce simp: grounded_assessment_def grounded_follow_up_def follow_up_of_def Let_def list_all_iff grounded_entity_def)

lemma assess_follow_ups:
  assumes "assess env loads fresh results completed as follow_ups = Inr out"
  shows "list_all (\<lambda>a. check_assessment env loads results completed a = Inr ()) as"
    and "list_all (grounded_follow_up env loads results) follow_ups \<Longrightarrow> list_all (grounded_follow_up env loads results) out"
    and "length follow_ups \<le> MAX_FOLLOW_UP_QUESTIONS \<Longrightarrow> length out \<le> MAX_FOLLOW_UP_QUESTIONS"
    and "map fq_question_id follow_ups = map fresh [0..<length follow_ups] \<Longrightarrow> map fq_question_id out = map fresh [0..<length out]"
proof -
  have "list_all (\<lambda>a. check_assessment env loads results completed a = Inr ()) as
    \<and> (list_all (grounded_follow_up env loads results) follow_ups \<longrightarrow> list_all (grounded_follow_up env loads results) out)
    \<and> (length follow_ups \<le> MAX_FOLLOW_UP_QUESTIONS \<longrightarrow> length out \<le> MAX_FOLLOW_UP_QUESTIONS)
    \<and> (map fq_question_id follow_ups = map fresh [0..<length follow_ups] \<longrightarrow> map fq_question_id out = map fresh [0..<length out])"
    using assms
  proof (induction as arbitrary: follow_ups)
    case (Cons a as)
    define next_ups where "next_ups = (case qa_next_question a of
        Some question \<Rightarrow> if length follow_ups < MAX_FOLLOW_UP_QUESTIONS
          then follow_ups @ [follow_up_of (fresh (length follow_ups)) a question] else follow_ups
      | None \<Rightarrow> follow_ups)"
    have a: "check_assessment env loads results completed a = Inr ()" "assess env loads fresh results completed as next_ups = Inr out"
      using Cons.prems by (auto simp: bindR_eq_Inr next_ups_def)
    have "list_all (grounded_follow_up env loads results) follow_ups \<Longrightarrow> list_all (grounded_follow_up env loads results) next_ups"
      using follow_up_grounded[OF check_assessment_grounded(1)[OF a(1)]] by (auto simp: next_ups_def split: option.splits)
    moreover have "length follow_ups \<le> MAX_FOLLOW_UP_QUESTIONS \<Longrightarrow> length next_ups \<le> MAX_FOLLOW_UP_QUESTIONS"
      by (auto simp: next_ups_def split: option.splits)
    moreover have "map fq_question_id follow_ups = map fresh [0..<length follow_ups] \<Longrightarrow> map fq_question_id next_ups = map fresh [0..<length next_ups]"
      by (auto simp: next_ups_def follow_up_of_def split: option.splits)
    ultimately show ?case using Cons.IH[OF a(2)] a(1) by auto
  qed simp
  then show "list_all (\<lambda>a. check_assessment env loads results completed a = Inr ()) as"
    and "list_all (grounded_follow_up env loads results) follow_ups \<Longrightarrow> list_all (grounded_follow_up env loads results) out"
    and "length follow_ups \<le> MAX_FOLLOW_UP_QUESTIONS \<Longrightarrow> length out \<le> MAX_FOLLOW_UP_QUESTIONS"
    and "map fq_question_id follow_ups = map fresh [0..<length follow_ups] \<Longrightarrow> map fq_question_id out = map fresh [0..<length out]" by auto
qed

lemma distinct_questions: "distinct (map fst (completed_query_questions env results))"
proof -
  have "distinct (map fst d) \<Longrightarrow> distinct (map fst (fold (\<lambda>(k, v). AList.update k v) links d))" for links and d :: "(string \<times> string) list"
    by (induction links arbitrary: d) (auto simp: distinct_update)
  then show ?thesis by (simp add: completed_query_questions_def)
qed

lemma distinct_supplied: "distinct (map fst (supplied_questions env results query_ids))"
  unfolding supplied_questions_def by (rule distinct_map_filter) (rule distinct_questions)

text \<open>C11. Assessments are stored only when there is exactly one for every supplied completed query, under the question of
  that query, citing rows of that query only, each entity a complete value of a cited row.  At most three follow-up
  questions arise, with distinct identifiers, each resting on retained rows of its source query.\<close>

theorem stored_assessments_are_grounded:
  assumes "materialize_follow_up_questions env loads fresh assessments results query_ids = Inr (stored, follow_ups)" and "inj fresh"
  shows "stored = assessments
    \<and> distinct (map qa_query_id stored)
    \<and> map_of (map (\<lambda>a. (qa_query_id a, qa_question_id a)) stored) = map_of (supplied_questions env results query_ids)
    \<and> list_all (grounded_assessment env loads results) stored
    \<and> length follow_ups \<le> 3 \<and> distinct (map fq_question_id follow_ups)
    \<and> list_all (grounded_follow_up env loads results) follow_ups"
proof -
  let ?completed = "supplied_questions env results query_ids"
  have run: "length assessments = length ?completed" "set (map qa_query_id assessments) = set (map fst ?completed)"
      "assess env loads fresh results ?completed assessments [] = Inr follow_ups" "stored = assessments"
    using assms(1) by (auto simp: materialize_follow_up_questions_def Let_def bindR_eq_Inr ensure_eq_Inr)
  have "card (set (map qa_query_id assessments)) = length assessments"
    using run(1,2) distinct_card[OF distinct_supplied[of env results query_ids]] by simp
  then have once: "distinct (map qa_query_id assessments)" by (metis card_distinct length_map)
  note checked = assess_follow_ups(1)[OF run(3), unfolded list_all_iff]
  have same: "map_of (map (\<lambda>a. (qa_query_id a, qa_question_id a)) assessments) i = map_of ?completed i" for i
  proof (cases "i \<in> set (map fst ?completed)")
    case True
    then have "i \<in> set (map qa_query_id assessments)" unfolding run(2) .
    then obtain a where a: "a \<in> set assessments" "qa_query_id a = i" by auto
    then have "(i, qa_question_id a) \<in> set (map (\<lambda>a. (qa_query_id a, qa_question_id a)) assessments)" by force
    moreover have "distinct (map fst (map (\<lambda>a. (qa_query_id a, qa_question_id a)) assessments))" using once by (simp add: o_def)
    ultimately have "map_of (map (\<lambda>a. (qa_query_id a, qa_question_id a)) assessments) i = Some (qa_question_id a)" by simp
    then show ?thesis using check_assessment_grounded(2)[of env loads results ?completed a] checked a by auto
  next
    case False
    then have "map_of ?completed i = None" by (simp add: map_of_eq_None_iff)
    moreover have "map_of (map (\<lambda>a. (qa_query_id a, qa_question_id a)) assessments) i = None"
      using False unfolding run(2)[symmetric] by (auto simp: map_of_eq_None_iff)
    ultimately show ?thesis by simp
  qed
  have "map fq_question_id follow_ups = map fresh [0..<length follow_ups]" by (rule assess_follow_ups(4)[OF run(3)]) simp
  then have "distinct (map fq_question_id follow_ups)" using inj_on_subset[OF assms(2)] by (simp add: distinct_map)
  moreover have "list_all (grounded_assessment env loads results) assessments"
    using checked check_assessment_grounded(1) by (auto simp: list_all_iff)
  moreover have "list_all (grounded_follow_up env loads results) follow_ups" "length follow_ups \<le> 3"
    using assess_follow_ups(2,3)[OF run(3)] by (simp_all add: MAX_FOLLOW_UP_QUESTIONS_def)
  ultimately show ?thesis using once same run(4) by auto
qed

subsection \<open>Pending questions are the open ones\<close>

lemma first_wins_keys: "map fst (first_wins xs) = fromkeys (map fst xs)"
proof (induction xs)
  case (Cons x xs)
  have "map fst (filter (\<lambda>y. fst y \<noteq> a) ys) = filter (\<lambda>k. k \<noteq> a) (map fst ys)" for a and ys :: "('a \<times> 'b) list"
    by (simp add: filter_map o_def)
  then show ?case using Cons by simp
qed simp

lemma first_wins_subset: "set (first_wins xs) \<subseteq> set xs"
  by (induction xs) auto

lemma mapR_fields: "mapR fields_of js = Inr kvss \<Longrightarrow> kvss = map object_fields js"
  by (induction js arbitrary: kvss) (auto simp: bindR_eq_Inr fields_of_def split: json.splits)

lemma mapR_keyed:
  "mapR (\<lambda>question. bindR (question_key env question) (\<lambda>i. Inr (i, question))) qs = Inr tagged
     \<Longrightarrow> tagged = map (\<lambda>q. (key_text env ''question_id'' q, q)) qs"
  by (induction qs arbitrary: tagged) (auto simp: bindR_eq_Inr question_key_def field_of_def key_text_def get_or_def split: option.splits)

lemma open_questions_keys:
  assumes "open_questions env closed questions = Inr pending"
  shows "map (key_text env ''question_id'') pending = fromkeys (filter (\<lambda>i. i \<notin> set closed) (map (key_text env ''question_id'') questions))"
proof -
  let ?tagged = "map (\<lambda>q. (key_text env ''question_id'' q, q)) questions"
  have pending: "pending = map snd (first_wins (filter (\<lambda>(i, _). i \<notin> set closed) ?tagged))"
  proof -
    obtain tagged where t: "mapR (\<lambda>question. bindR (question_key env question) (\<lambda>i. Inr (i, question))) questions = Inr tagged"
      and p: "pending = map snd (first_wins (filter (\<lambda>(i, _). i \<notin> set closed) tagged))"
      using assms unfolding open_questions_def bindR_eq_Inr by blast
    show ?thesis using p unfolding mapR_keyed[OF t] .
  qed
  have "key_text env ''question_id'' (snd iq) = fst iq" if iq: "iq \<in> set (first_wins (filter (\<lambda>(i, _). i \<notin> set closed) ?tagged))" for iq
  proof -
    have "iq \<in> set ?tagged" by (rule subsetD[OF filter_is_subset subsetD[OF first_wins_subset iq]])
    then show ?thesis by force
  qed
  then have "map (key_text env ''question_id'') pending = map fst (first_wins (filter (\<lambda>(i, _). i \<notin> set closed) ?tagged))"
    unfolding pending map_map by (intro map_cong refl) (simp only: o_def)
  also have "\<dots> = fromkeys (filter (\<lambda>i. i \<notin> set closed) (map (key_text env ''question_id'') questions))"
    unfolding first_wins_keys by (simp add: filter_map o_def split_beta)
  finally show ?thesis .
qed

text \<open>C37. The pending questions are, each once and in this order, the approved questions, the stored follow-ups and the
  new ones that have no completed query and no standing decision to skip them; no approved question is lost.\<close>

theorem pending_questions_are_the_open_ones:
  assumes "pending_investigation_questions env plan results new_questions = Inr pending"
    and "stored_list results ''queries'' = Inr queries" and "stored_list results ''follow_up_questions'' = Inr stored"
    and "skipped_questions env results (named_queries env queries) = Inr skipped"
  shows "map (key_text env ''question_id'') pending
     = fromkeys (filter (\<lambda>i. i \<notin> set (completed_questions env queries) \<and> i \<notin> set skipped)
         (map pq_question_id (hp_questions plan) @ map (key_text env ''question_id'') (map object_fields stored @ new_questions)))"
proof -
  obtain fqs where fqs: "mapR fields_of stored = Inr fqs" and
    pending: "open_questions env (completed_questions env queries @ skipped) (map plan_question_json (hp_questions plan) @ fqs @ new_questions) = Inr pending"
    using assms(1) unfolding pending_investigation_questions_def assms(2) bindR_simps assms(4) assms(3) bindR_eq_Inr by blast
  have "key_text env ''question_id'' \<circ> plan_question_json = pq_question_id"
    by (rule ext) (simp add: key_text_def plan_question_json_def get_or_def)
  then show ?thesis using open_questions_keys[OF pending] mapR_fields[OF fqs] by (simp add: conj_commute)
qed

subsection \<open>Every lead is accounted for\<close>

definition linked_to :: "lead_group \<Rightarrow> Finding list \<Rightarrow> string \<Rightarrow> bool" where
  "linked_to lead findings i \<longleftrightarrow>
     list_ex (\<lambda>f. fd_finding_id f = i \<and> (fp_classification f = NOT_SUPPORTED_FINDING \<or> set (fp_evidence_ids f) \<inter> set (lg_evidence lead) \<noteq> {})) findings"

definition disposes :: "Finding list \<Rightarrow> lead_disposition \<Rightarrow> lead_group \<Rightarrow> bool" where
  "disposes findings d lead \<longleftrightarrow>
     ld_evidence d = lg_evidence lead \<and> ld_identity d = lg_identity lead \<and> list_all (linked_to lead findings) (ld_findings d)"

lemma link_finding_linked: "link_finding materialized lead number = Inr i \<Longrightarrow> linked_to lead materialized i"
  by (force simp: link_finding_def linked_to_def Let_def result_simps list_ex_iff intro!: bexI[of _ "materialized ! nat (number - 1)"])

lemma link_findings_linked: "mapR (link_finding materialized lead) numbers = Inr ids \<Longrightarrow> list_all (linked_to lead materialized) ids"
  by (induction numbers arbitrary: ids) (auto simp: bindR_eq_Inr dest: link_finding_linked)

lemma lead_by_evidence_in: "lead_by_evidence leads i = Some lead \<Longrightarrow> lead \<in> set leads"
  by (auto simp: lead_by_evidence_def find_Some_iff) (metis nth_mem set_rev length_rev)

lemma cover_leads_picks:
  "cover_leads leads materialized ds covered = Inr (coverage, all_covered) \<Longrightarrow> distinct covered \<Longrightarrow>
     \<exists>picked. set picked \<subseteq> set leads \<and> all_covered = covered @ map lg_lead picked \<and> distinct all_covered
       \<and> list_all2 (disposes materialized) coverage picked"
proof (induction ds arbitrary: covered coverage all_covered)
  case (Cons d ds)
  from Cons.prems(1) obtain lead linked later where
    lead: "lead_by_evidence leads (lc_evidence_id d) = Some lead" "lg_lead lead \<notin> set covered" and
    linked: "mapR (link_finding materialized lead) (lc_finding_numbers d) = Inr linked" and
    later: "cover_leads leads materialized ds (covered @ [lg_lead lead]) = Inr (later, all_covered)" and
    coverage: "coverage = disposition_of lead linked (lc_limitation d) # later"
    by (auto simp: bindR_eq_Inr ensure_eq_Inr split: option.splits)
  obtain picked where "set picked \<subseteq> set leads" "all_covered = (covered @ [lg_lead lead]) @ map lg_lead picked" "distinct all_covered"
      "list_all2 (disposes materialized) later picked"
    using Cons.IH[OF later] Cons.prems(2) lead(2) by auto
  moreover have "disposes materialized (disposition_of lead linked (lc_limitation d)) lead"
    using link_findings_linked[OF linked] by (simp add: disposes_def disposition_of_def)
  ultimately show ?case using coverage lead_by_evidence_in[OF lead(1)] by (intro exI[of _ "lead # picked"]) auto
qed simp

definition accounts_for :: "lead_group list \<Rightarrow> Finding list \<Rightarrow> lead_disposition list \<Rightarrow> bool" where
  "accounts_for leads findings coverage \<longleftrightarrow>
     (\<exists>listed. mset listed = mset leads \<and> list_all2 (disposes findings) coverage listed)"

lemma lead_coverage_accounts:
  assumes "lead_coverage_of leads materialized dispositions = Inr coverage" and "distinct (map lg_lead leads)"
  shows "accounts_for leads materialized coverage"
proof -
  obtain first covered where run: "cover_leads leads materialized dispositions [] = Inr (first, covered)"
      "coverage = first @ map (\<lambda>lead. disposition_of lead [] (Some UNACCOUNTED)) (filter (\<lambda>lead. lg_lead lead \<notin> set covered) leads)"
    using assms(1) by (auto simp: lead_coverage_of_def bindR_eq_Inr)
  obtain picked where p: "set picked \<subseteq> set leads" "covered = map lg_lead picked" "distinct covered"
      "list_all2 (disposes materialized) first picked"
    using cover_leads_picks[OF run(1)] by auto
  let ?rest = "filter (\<lambda>lead. lg_lead lead \<notin> lg_lead ` set picked) leads"
  have "distinct picked" using p(2,3) by (auto simp: distinct_map)
  then have "mset picked \<subseteq># mset leads" using p(1)
    by (metis distinct_count_atmost_1 mset_subset_eqI set_mset_mset count_mset_0_iff le0 subsetD One_nat_def count_greater_eq_one_iff)
  then have "mset (picked @ ?rest) = mset leads" using filter_by_ids[OF _ assms(2)] by simp
  moreover have "list_all2 (disposes materialized) (map (\<lambda>lead. disposition_of lead [] (Some UNACCOUNTED)) ls) ls" for ls
    by (induction ls) (auto simp: disposes_def disposition_of_def)
  then have "list_all2 (disposes materialized) coverage (picked @ ?rest)"
    unfolding run(2) p(2) using p(4) by (auto intro!: list_all2_appendI)
  ultimately show ?thesis unfolding accounts_for_def by blast
qed

text \<open>What a stored answer says is grounded: its findings are among those stored, and its leads are all there.\<close>

definition answer_grounded :: "lead_group list \<Rightarrow> Finding list \<Rightarrow> stored_answer \<Rightarrow> bool" where
  "answer_grounded leads findings a \<longleftrightarrow>
     set (st_finding_ids a) \<subseteq> fd_finding_id ` set findings
     \<and> (case st_coverage a of None \<Rightarrow> leads = [] | Some coverage \<Rightarrow> accounts_for leads findings coverage)"

lemma disposes_more: "disposes fs d lead \<Longrightarrow> set fs \<subseteq> set fs' \<Longrightarrow> disposes fs' d lead"
  unfolding disposes_def linked_to_def list_all_iff list_ex_iff by blast

lemma accounts_more: "accounts_for leads fs coverage \<Longrightarrow> set fs \<subseteq> set fs' \<Longrightarrow> accounts_for leads fs' coverage"
  by (auto simp: accounts_for_def intro: list_all2_mono disposes_more)

lemma answer_more: "answer_grounded leads fs a \<Longrightarrow> set fs \<subseteq> set fs' \<Longrightarrow> answer_grounded leads fs' a"
  unfolding answer_grounded_def by (cases "st_coverage a") (use image_mono[of "set fs" "set fs'" fd_finding_id] accounts_more in auto)

lemma answer_question_grounded:
  assumes "answer_question env fresh tabulate plan results leads n question item = Inr (fs, a)" and "distinct (map lg_lead leads)"
  shows "answer_grounded leads fs a" "list_all (grounded_finding env results) fs" "map fd_finding_id fs = map fresh [n..<n + length fs]"
    "st_question_id a = pq_question_id question"
proof -
  obtain coverage where fs: "materialize_findings env fresh n (an_findings item) results = Inr fs" and
    coverage: "(if leads \<noteq> [] then bindR (lead_coverage_of leads fs (an_lead_coverage item)) (\<lambda>c. Inr (Some c))
       else if an_lead_coverage item \<noteq> [] then Inl (Validation ''lead coverage has no retained advisory support'')
       else Inr None) = Inr coverage" and
    a: "st_finding_ids a = map fd_finding_id fs" "st_coverage a = coverage" "st_question_id a = pq_question_id question"
    using assms(1) by (auto simp: answer_question_def bindR_eq_Inr)
  show "st_question_id a = pq_question_id question" by (fact a)
  show "list_all (grounded_finding env results) fs" by (rule materialize_findings_grounded[OF fs])
  show "map fd_finding_id fs = map fresh [n..<n + length fs]"
    using materialize_findings_grounded(1,3)[OF fs] by (simp add: list_all2_lengthD)
  show "answer_grounded leads fs a"
    using coverage lead_coverage_accounts[OF _ assms(2)]
    by (auto simp: answer_grounded_def a bindR_eq_Inr split: if_splits option.splits)
qed

lemma answer_questions_grounded:
  assumes "distinct (map lg_lead leads)"
  shows "answer_questions env fresh tabulate plan results leads n questions items = Inr (fs, answers) \<Longrightarrow>
     list_all (answer_grounded leads fs) answers \<and> list_all (grounded_finding env results) fs
     \<and> map fd_finding_id fs = map fresh [n..<n + length fs]
     \<and> map st_question_id answers = map (\<lambda>(question, item). pq_question_id question) (filter (\<lambda>(question, item). as_requests item = []) (zip questions items))"
proof (induction questions arbitrary: n items fs answers)
  case (Cons question questions)
  then obtain item rest where items: "items = item # rest" by (cases items) auto
  show ?case
  proof (cases "as_requests item = []")
    case False
    then show ?thesis using Cons.IH[of n rest fs answers] Cons.prems by (simp add: items)
  next
    case True
    then obtain first a more_fs later where
      run: "answer_question env fresh tabulate plan results leads n question item = Inr (first, a)"
        "answer_questions env fresh tabulate plan results leads (n + length first) questions rest = Inr (more_fs, later)"
        "fs = first @ more_fs" "answers = a # later"
      using Cons.prems by (auto simp: items bindR_eq_Inr)
    note one = answer_question_grounded[OF run(1) assms] and others = Cons.IH[OF run(2)]
    have "answer_grounded leads fs a" using one(1) by (rule answer_more) (simp add: run(3))
    moreover have "list_all (answer_grounded leads fs) later"
      using others by (auto simp: list_all_iff run(3) intro: answer_more)
    moreover have "map fd_finding_id fs = map fresh [n..<n + length fs]"
    proof -
      have "[n..<n + length fs] = [n..<n + length first] @ [n + length first..<n + length first + length more_fs]"
        using upt_add_eq_append[of n "n + length first" "length more_fs"] by (simp add: run(3) add.assoc)
      then show ?thesis using one(3) others by (simp add: run(3))
    qed
    ultimately show ?thesis using one(2,4) others True by (simp add: run(3,4) items)
  qed
qed auto

text \<open>C12. When the answers of the model are stored, every finding is grounded in the retained results and has an
  identifier of its own, there is one answer for every question that did not ask for more evidence, its findings are
  stored ones, and every lead of the retained evidence is listed exactly once, linked only to findings that cite
  it or are negative.\<close>

theorem stored_answers_account_for_every_lead:
  assumes "materialize_question_answers env loads fresh tabulate iocs plan results items = Inr (fs, answers)"
    and "retained_leads env loads iocs results = Inr leads" and "distinct (map lg_lead leads)" and "inj fresh"
  shows "list_all (answer_grounded leads fs) answers \<and> list_all (grounded_finding env results) fs
    \<and> distinct (map fd_finding_id fs)
    \<and> map st_question_id answers
        = map (\<lambda>(question, item). pq_question_id question) (filter (\<lambda>(question, item). as_requests item = []) (zip (hp_questions plan) items))"
proof -
  have run: "answer_questions env fresh tabulate plan results leads 0 (hp_questions plan) items = Inr (fs, answers)"
    using assms(1,2) by (simp add: materialize_question_answers_def)
  note grounded = answer_questions_grounded[OF assms(3) run]
  then have "distinct (map fd_finding_id fs)" using inj_on_subset[OF assms(4)] by (simp add: distinct_map)
  then show ?thesis using grounded by blast
qed

subsection \<open>Widened and pivoted follow-ups\<close>

text \<open>What the widening may change: the search text of a proposal.\<close>

definition widens :: "FollowUpDecision \<Rightarrow> FollowUpDecision \<Rightarrow> bool" where
  "widens d w \<longleftrightarrow>
     w = d \<or> (case (fu_proposal d, fu_proposal w) of
               (Some p, Some q) \<Rightarrow> w = d\<lparr>fu_proposal := Some (p\<lparr>qp_spl := qp_spl q\<rparr>)\<rparr>
             | _ \<Rightarrow> False)"

definition covered_decision :: "json_env \<Rightarrow> (string \<times> json_fields) list \<Rightarrow> session_filter list \<Rightarrow> FollowUpDecision \<Rightarrow> bool" where
  "covered_decision env questions sessions d \<longleftrightarrow>
     (case fu_proposal d of
        None \<Rightarrow> True
      | Some p \<Rightarrow>
          spl_covers_all_lead_sessions (qp_spl p) sessions
          \<or> (case map_of (rev questions) (fu_question_id d) of
               None \<Rightarrow> \<not> question_requires_all_lead_coverage []
             | Some q \<Rightarrow> \<not> question_requires_all_lead_coverage (json_str env (get_or q ''question'' (JStr [])))))"

lemma retained_sessions_have_session: "list_all has_session (retained_lead_session_filters leads)"
  by (auto simp: retained_lead_session_filters_def list_all_iff)

lemma widen_decision_covers:
  assumes "widen_decision env questions sessions d = Inr w"
    and "list_all has_session sessions" and "list_all (\<lambda>session. list_all (\<lambda>(k, v). settled v) session) sessions"
  shows "widens d w \<and> covered_decision env questions sessions w"
proof (cases "fu_proposal d")
  case None
  then show ?thesis using assms(1) by (simp add: widen_decision_def widens_def covered_decision_def)
next
  case (Some p)
  let ?question = "case map_of (rev questions) (fu_question_id d) of None \<Rightarrow> [] | Some q \<Rightarrow> q"
  let ?wanted = "question_requires_all_lead_coverage (json_str env (get_or ?question ''question'' (JStr [])))"
  show ?thesis
  proof (cases "?wanted \<and> \<not> spl_covers_all_lead_sessions (qp_spl p) sessions")
    case True
    then obtain spl where w: "widen_spl_for_lead_sessions (qp_spl p) sessions = Inr spl" "w = d\<lparr>fu_proposal := Some (p\<lparr>qp_spl := spl\<rparr>)\<rparr>"
      using assms(1) Some by (auto simp: widen_decision_def Let_def split: sum.splits py_error.splits)
    then show ?thesis using Some widened_search_covers_the_sessions[OF w(1) assms(2,3)] by (simp add: widens_def covered_decision_def)
  next
    case False
    then have "w = d" using assms(1) Some by (auto simp: widen_decision_def Let_def split: if_splits)
    moreover have "covered_decision env questions sessions d"
      using False Some by (auto simp: covered_decision_def get_or_def split: option.splits)
    ultimately show ?thesis by (simp add: widens_def)
  qed
qed


lemma update_not_empty [simp]: "AList.update k v errors \<noteq> []"
  by (cases errors) (auto split: if_splits)

text \<open>Proposals without an error use a pivot each, for distinct known questions.\<close>

definition pivoted :: "json_env \<Rightarrow> (string \<Rightarrow> json option) \<Rightarrow> (string \<times> json_fields) list \<Rightarrow> json_fields list \<Rightarrow> QueryProposal \<Rightarrow> bool" where
  "pivoted env loads questions evidence p \<longleftrightarrow>
     (case map_of (rev questions) (qp_question_id p) of
        None \<Rightarrow> False
      | Some question \<Rightarrow> (case pivot_values env loads question evidence of Inl _ \<Rightarrow> False | Inr pivots \<Rightarrow> uses_pivot pivots (qp_spl p)))"

lemma proposal_errors_kept:
  "proposal_errors env loads questions evidence seen errors ps = Inr [] \<Longrightarrow> errors = []"
proof (induction ps arbitrary: seen errors)
  case (Cons p ps)
  show ?case
  proof (cases "map_of (rev questions) (qp_question_id p)")
    case None
    then show ?thesis using Cons.prems Cons.IH update_not_empty by fastforce
  next
    case (Some question)
    then show ?thesis using Cons.prems Cons.IH update_not_empty
      by (cases "pivot_values env loads question evidence") (fastforce split: if_splits)+
  qed
qed simp

lemma proposal_errors_none:
  "proposal_errors env loads questions evidence seen [] ps = Inr [] \<longleftrightarrow>
     list_all (pivoted env loads questions evidence) ps \<and> distinct (map qp_question_id ps) \<and> set (map qp_question_id ps) \<inter> set seen = {}"
proof (induction ps arbitrary: seen)
  case (Cons p ps)
  have no: "proposal_errors env loads questions evidence seen [(k, v)] ps \<noteq> Inr []" for k v seen
    by (rule notI) (drule proposal_errors_kept, simp)
  show ?case
  proof (cases "map_of (rev questions) (qp_question_id p)")
    case None
    then show ?thesis using no by (simp add: pivoted_def)
  next
    case (Some question)
    then show ?thesis using no Cons.IH[of "qp_question_id p # seen"]
      by (cases "pivot_values env loads question evidence") (auto simp: pivoted_def)
  qed
qed simp


subsection \<open>An example\<close>

text \<open>One completed search with one row that matches an advisory domain; the second question asks for more evidence.\<close>

definition fresh_text :: "nat \<Rightarrow> string" where
  "fresh_text n = replicate n (CHR ''x'')"

lemma inj_fresh_text: "inj fresh_text"
  by (rule injI) (metis fresh_text_def length_replicate)

definition no_json :: "string \<Rightarrow> json option" where
  "no_json s = None"

definition ground_results :: json_fields where
  "ground_results =
     [(''queries'', JList [JObj [(''query_id'', JStr ''q1''), (''status'', JStr ''completed''), (''question_id'', JStr ''k1'')]]),
      (''evidence'', JList [JObj [(''evidence_id'', JStr ''e1''), (''query_id'', JStr ''q1''),
         (''selected_result'', JObj [(''host'', JStr ''h''), (''process_guid'', JStr ''p''), (''domain'', JStr ''d'')])]])]"

definition ground_plan :: HuntPlan where
  "ground_plan =
     \<lparr>hp_plan_id = ''pl'', hp_plan_version = 1, hp_hunt_id = ''hu'', hp_discovery_snapshot_id = ''ds'', hp_execution_config_snapshot_id = ''cs'',
      hp_hypothesis = ''hy'', hp_objective = ''ob'', hp_scope = \<lparr>hs_earliest = 0, hs_latest = 9, hs_indexes = [''i''], hs_sourcetypes = [''s'']\<rparr>,
      hp_intelligence_refs = [], hp_data_sources = [],
      hp_questions = map (\<lambda>k. \<lparr>pq_question_id = k, pq_question = ''why'', pq_rationale = ''r'', pq_gain = ''g''\<rparr>) [''k1'', ''k2''],
      hp_query_strategy = [], hp_coverage_limitations = [], hp_created_at = 0\<rparr>"

definition ground_iocs :: advisory_iocs where
  "ground_iocs = \<lparr>ai_file_hashes = [], ai_file_names = [], ai_domains = [''d'']\<rparr>"

definition ground_proposal :: FindingProposal where
  "ground_proposal =
     \<lparr>fp_title = ''t'', fp_classification = SUPPORTED_OBSERVATION, fp_statement = ''s'', fp_confidence = LOW, fp_evidence_ids = [''e1'', ''e1''],
      fp_query_ids = [''q1''], fp_inference = [], fp_limitations = []\<rparr>"

definition ground_answer :: QuestionAnswerStep where
  "ground_answer =
     \<lparr>an_summary = ''a'', an_findings = [ground_proposal], an_inventory_scopes = [],
      an_lead_coverage = [\<lparr>lc_evidence_id = ''e1'', lc_finding_numbers = [1], lc_limitation = None\<rparr>], an_limitations = [], as_requests = []\<rparr>"

definition ground_request :: QuestionAnswerStep where
  "ground_request =
     \<lparr>an_summary = ''a'', an_findings = [], an_inventory_scopes = [], an_lead_coverage = [], an_limitations = [''l''],
      as_requests = [\<lparr>rs_query_ids = [''q1''], rs_filters = [], rs_earliest = None, rs_latest = None, rr_offset = 0, rr_limit = 1\<rparr>]\<rparr>"

definition ground_assessment :: QueryAssessment where
  "ground_assessment =
     \<lparr>qa_query_id = ''q1'', qa_question_id = ''k1'', qa_answered = False, qa_material_progress = True, qa_summary = ''s'',
      qa_new_entities = [\<lparr>ae_entity_type = DOMAIN, ae_value = ''d'', ae_row_refs = [''e1'']\<rparr>], qa_candidate_row_refs = [''e1''],
      qa_coverage_changes = [], qa_limitations = [],
      qa_next_question = Some \<lparr>nq_question = ''q'', nq_rationale = ''r'', nq_gain = ''g''\<rparr>\<rparr>"

definition no_tables :: "RetainedEvidenceScope \<Rightarrow> RetainedInventory outcome" where
  "no_tables scope = Inl (Crash (TypeError []))"

lemma ground_facts:
  "is_ok (incomplete_ids view_env ground_results)"
  "list_all (grounded_finding view_env ground_results) [ground_proposal]"
  "case materialize_follow_up_questions view_env no_json fresh_text [ground_assessment] ground_results None of
     Inr (stored, follow_ups) \<Rightarrow> length follow_ups = 1 | Inl _ \<Rightarrow> False"
  "stored_list ground_results ''queries'' = Inr (elements (get_or ground_results ''queries'' JNull))"
  "stored_list ground_results ''follow_up_questions'' = Inr []"
  "skipped_questions view_env ground_results (named_queries view_env (elements (get_or ground_results ''queries'' JNull))) = Inr []"
  "completed_questions view_env (elements (get_or ground_results ''queries'' JNull)) = [''k1'']"
  "is_ok (pending_investigation_questions view_env ground_plan ground_results [])"
  "map pq_question_id (hp_questions ground_plan) = [''k1'', ''k2'']"
  "case retained_leads view_env no_json ground_iocs ground_results of Inr leads \<Rightarrow> map lg_lead leads = [''e1''] | Inl _ \<Rightarrow> False"
  "is_ok (materialize_question_answers view_env no_json fresh_text no_tables ground_iocs ground_plan ground_results [ground_answer, ground_request])"
  by code_simp+

theorem findings_accepted_iff_grounded_witness:
  "is_ok (materialize_findings view_env fresh_text 0 [ground_proposal] ground_results)"
  using findings_accepted_iff_grounded [OF ground_facts(1) inj_fresh_text, of 0 "[ground_proposal]"] ground_facts(2) by blast

theorem stored_assessments_are_grounded_witness:
  "\<exists>stored follow_ups. materialize_follow_up_questions view_env no_json fresh_text [ground_assessment] ground_results None = Inr (stored, follow_ups)
     \<and> length follow_ups = 1 \<and> list_all (grounded_follow_up view_env no_json ground_results) follow_ups"
proof -
  obtain stored follow_ups where run: "materialize_follow_up_questions view_env no_json fresh_text [ground_assessment] ground_results None = Inr (stored, follow_ups)"
      "length follow_ups = 1"
    using ground_facts(3) by (auto split: sum.splits prod.splits)
  then show ?thesis using stored_assessments_are_grounded [OF run(1) inj_fresh_text] by blast
qed

theorem pending_questions_are_the_open_ones_witness:
  "\<exists>pending. pending_investigation_questions view_env ground_plan ground_results [] = Inr pending
     \<and> map (key_text view_env ''question_id'') pending = [''k2'']"
proof -
  obtain pending where "pending_investigation_questions view_env ground_plan ground_results [] = Inr pending"
    using ground_facts(8) by (auto simp: is_ok_iff)
  then show ?thesis
    using pending_questions_are_the_open_ones [OF _ ground_facts(4,5,6), of ground_plan "[]" pending]
    by (simp add: ground_facts(7,9))
qed

theorem stored_answers_account_for_every_lead_witness:
  "\<exists>fs answers. materialize_question_answers view_env no_json fresh_text no_tables ground_iocs ground_plan ground_results [ground_answer, ground_request]
       = Inr (fs, answers)
     \<and> map st_question_id answers = [''k1''] \<and> list_all (grounded_finding view_env ground_results) fs"
proof -
  obtain fs answers where run: "materialize_question_answers view_env no_json fresh_text no_tables ground_iocs ground_plan ground_results
      [ground_answer, ground_request] = Inr (fs, answers)"
    using ground_facts(11) by (auto simp: is_ok_iff)
  obtain leads where leads: "retained_leads view_env no_json ground_iocs ground_results = Inr leads" "map lg_lead leads = [''e1'']"
    using ground_facts(10) by (auto split: sum.splits)
  have "distinct (map lg_lead leads)" by (simp add: leads(2))
  from stored_answers_account_for_every_lead [OF run leads(1) this inj_fresh_text]
  show ?thesis using run by (simp add: ground_plan_def ground_answer_def ground_request_def)
qed

text \<open>A question about each lead whose proposal names one host only, with two retained lead sessions.\<close>

definition narrow_proposal :: QueryProposal where
  "narrow_proposal =
     \<lparr>qp_question_id = ''k3'', qp_purpose = ''p'', qp_gain = ''g'', qp_spl = narrow_search, qp_earliest = 0, qp_latest = 9, qp_indexes = [''auth''],
      qp_sourcetypes = [''s''], qp_requested_fields = [], qp_result_mode = TARGETED, qp_max_results = 1\<rparr>"

definition narrow_decision :: FollowUpDecision where
  "narrow_decision = \<lparr>fu_question_id = ''k3'', fu_proposal = Some narrow_proposal, fu_skip_reason = None\<rparr>"

definition lead_question :: json_fields where
  "lead_question =
     [(''question_id'', JStr ''k3''), (''question'', JStr ''What did each lead do?''), (''source_query_id'', JStr ''q1''),
      (''source_evidence_ids'', JList [JStr ''e1'']), (''grounded_entities'', JList [JObj [(''value'', JStr ''H1'')]])]"

definition lead_rows :: "json list" where
  "lead_rows =
     map (\<lambda>(i, h, s). JObj [(''evidence_id'', JStr i), (''query_id'', JStr ''q1''),
        (''selected_result'', JObj [(''host'', JStr h), (''session_id'', JStr s), (''domain'', JStr ''d'')])])
       [(''e1'', ''h1'', ''s1''), (''e2'', ''h2'', ''s2'')]"

lemma narrow_facts:
  "question_named view_env [lead_question] = Inr [(''k3'', lead_question)]"
  "case session_leads view_env no_json ground_iocs [''q1''] lead_rows of Inr leads \<Rightarrow> retained_lead_session_filters leads = two_sessions | Inl _ \<Rightarrow> False"
  "list_all (\<lambda>session. list_all (\<lambda>(k, v). settled v) session) two_sessions"
  "length two_sessions = 2"
  "question_requires_all_lead_coverage (json_str view_env (get_or lead_question ''question'' (JStr [])))"
  "\<not> spl_covers_all_lead_sessions narrow_search two_sessions"
  "list_all (pivoted view_env no_json [(''k3'', lead_question)] (objects lead_rows)) [narrow_proposal]"
  by code_simp+



text \<open>A value with a backslash is compared with the search as written, where \<open>spl_literal\<close> has doubled it.\<close>

lemma escaped_pivot_is_not_recognised:
  "\<not> uses_pivot [''d'' @ [backslash] @ ''u''] (''search index=i user='' @ spl_literal (''d'' @ [backslash] @ ''u''))"
  by code_simp

end
