(* ===== verification/ReportContent.thy ===== *)
theory ReportContent
  imports EvidenceViews
begin

text \<open>
  The bounded report contract of \<^verbatim>\<open>services/reports.py\<close>: \<open>validate_report_payload\<close> is \<open>_validate_report_content\<close>, the
  check of every report that the workflow stores or finalizes, \<open>observed_activity_report\<close> the excerpt of
  the retained activity a report must repeat, and \<open>pdf_document\<close> the second half of \<open>_formatted_pdf\<close>, from
  the lines of the report to the bytes of the file.  The results of a hunt are the fields of a
  JSON object, with the empty object for a missing one.
\<close>

subsection \<open>Limits\<close>

definition REPORT_LIST_LIMITS :: "(string \<times> nat) list" where
  "REPORT_LIST_LIMITS = [(''selected_evidence'', 20), (''entities'', 20), (''timeline'', 20), (''query_appendix'', 12)]"

definition REPORT_FINDING_DETAIL_TARGET :: nat where "REPORT_FINDING_DETAIL_TARGET = 10"

definition REPORT_EVIDENCE_FIELDS :: "string list" where
  "REPORT_EVIDENCE_FIELDS = [''evidence_id'', ''query_id'', ''index'', ''sourcetype'', ''event_time_utc'']"

definition REPORT_QUERY_FIELDS :: "string list" where
  "REPORT_QUERY_FIELDS = [''query_id'', ''purpose'', ''spl'', ''status'', ''result_count'', ''truncated'']"

definition REPORT_SECTIONS :: "string list" where
  "REPORT_SECTIONS = [''hypothesis'', ''objective_and_scope'', ''data_sources_used'', ''findings'', ''selected_evidence'',
     ''entities'', ''timeline'', ''coverage_and_limitations'', ''conclusion_and_disposition'', ''query_appendix'']"

definition TEXT_SECTIONS :: "string list" where
  "TEXT_SECTIONS = [''hypothesis'', ''objective_and_scope'', ''conclusion_and_disposition'']"

definition LIST_SECTIONS :: "string list" where
  "LIST_SECTIONS = [''data_sources_used'', ''findings'', ''selected_evidence'', ''entities'', ''timeline'',
     ''coverage_and_limitations'', ''query_appendix'']"

subsection \<open>Observed activity\<close>

definition ACTIVITY_LIMITATION :: string where
  "ACTIVITY_LIMITATION = ''Application-calculated retained observations, independent of model findings. Exact literal matches are review context, not proven identity or causation. Counts describe raw representations, not unique events or affected entities. Unknown times do not establish a temporal relationship. Each search has its own retrieval scope; no retained match does not prove source absence. Do not add overlapping scope counts. The full activity view is available in hunt results.''"

definition scope_excerpt :: "json_fields \<Rightarrow> json" where
  "scope_excerpt scope =
     (let actions = elements (get_or scope ''actions'' (JList [])) in
      JObj (filter (\<lambda>kv. fst kv \<notin> {''evidence_ids'', ''actions''}) scope
        @ [(''actions'', JList (take (the (map_of REPORT_LIST_LIMITS ''timeline'')) actions)), (''total_action_groups'', JInt (int (length actions)))]))"

definition observed_activity_report :: "json_env \<Rightarrow> json_fields \<Rightarrow> json outcome" where
  "observed_activity_report env results =
     bindR (retained_lead_activity env results) (\<lambda>(leads, scopes).
       (let shown = take REPORT_FINDING_DETAIL_TARGET leads;
            selected = concat (map (\<lambda>lead. map (\<lambda>s. get_or (object_fields s) ''scope_id'' JNull)
               (elements (get_or (object_fields lead) ''scopes'' (JList [])))) shown) in
        Inr (JObj [(''leads'', JList shown),
          (''scopes'', JList (map (\<lambda>s. scope_excerpt (object_fields s))
             (filter (\<lambda>s. get_or (object_fields s) ''scope_id'' JNull \<in> set selected) scopes))),
          (''total_lead_count'', JInt (int (length leads))), (''limitation'', JStr ACTIVITY_LIMITATION)])))"

subsection \<open>Question answers\<close>

definition ANSWER_KEYS :: "string set" where
  "ANSWER_KEYS = {''question_id'', ''question'', ''summary'', ''finding_ids'', ''limitations''}"

text \<open>The stored answers by question, the last one of a question winning.\<close>

definition expected_item :: "json \<Rightarrow> (json \<times> json_fields) outcome" where
  "expected_item item =
     (case item of
        JObj kvs \<Rightarrow> (case map_of kvs ''question_id'' of
                      None \<Rightarrow> Inl (Crash (KeyError ''question_id''))
                    | Some q \<Rightarrow> if hashable q then Inr (q, kvs) else Inl (Crash (TypeError ''unhashable type'')))
      | _ \<Rightarrow> Inl (Crash (TypeError ''indices must be integers'')))"

definition expected_answers :: "json_fields \<Rightarrow> (json \<times> json_fields) list outcome" where
  "expected_answers results =
     bindR (iterate (get_or results ''question_answers'' (JList []))) (\<lambda>items.
     bindR (mapR expected_item items) (\<lambda>pairs. Inr (rev pairs)))"

definition known_findings :: "json_env \<Rightarrow> json_fields \<Rightarrow> json_fields \<Rightarrow> string list outcome" where
  "known_findings env results content =
     bindR (iterate (get_or results ''findings'' (get_or content ''findings'' (JList [])))) (\<lambda>items.
       Inr (map (\<lambda>item. json_str env (get_or (object_fields item) ''finding_id'' JNull)) (filter object_json items)))"

text \<open>One iteration of the loop over the answers; \<open>expected\<close> is the dictionary of stored answers and
  \<open>answered\<close> the questions seen so far.\<close>

definition answer_question :: "(json \<times> json_fields) list \<Rightarrow> json list \<Rightarrow> json_fields \<Rightarrow> json outcome" where
  "answer_question expected answered answer =
     (let q = get_or answer ''question_id'' JNull; t = get_or answer ''question'' JNull;
          mismatch = Inl (Validation ''report question answer does not match an approved question'') in
      if \<not> text_json q \<or> q \<in> set answered \<or> \<not> text_json t then mismatch
      else if expected = [] then Inr q
      else (case map_of expected q of
              None \<Rightarrow> mismatch
            | Some stored \<Rightarrow> bindR (field_of stored ''question'') (\<lambda>t'. if json_equal t' t then Inr q else mismatch)))"

definition text_list :: "(string \<Rightarrow> bool) \<Rightarrow> json \<Rightarrow> bool" where
  "text_list ok j \<longleftrightarrow> list_json j \<and> list_all (\<lambda>v. case v of JStr s \<Rightarrow> ok s | _ \<Rightarrow> False) (elements j)"

definition check_references :: "string list \<Rightarrow> json_fields \<Rightarrow> unit outcome" where
  "check_references findings answer =
     (let ids = get_or answer ''finding_ids'' JNull; limitations = get_or answer ''limitations'' JNull in
      ensure (text_list (\<lambda>s. s \<in> set findings) ids \<and> text_json (get_or answer ''summary'' JNull)
              \<and> text_list (\<lambda>s. strip s \<noteq> []) limitations \<and> (elements ids \<noteq> [] \<or> elements limitations \<noteq> []))
        (Validation ''each report question requires finding references or an explicit limitation''))"

definition check_retained_ids :: "(json \<times> json_fields) list \<Rightarrow> json \<Rightarrow> json_fields \<Rightarrow> unit outcome" where
  "check_retained_ids expected q answer =
     (let ids = elements (get_or answer ''finding_ids'' JNull);
          mismatch = Validation ''report question finding references must match the retained question answer'' in
      bindR (ensure (distinct ids) mismatch) (\<lambda>_.
      case map_of expected q of
        None \<Rightarrow> Inr ()
      | Some stored \<Rightarrow>
          bindR (field_of stored ''finding_ids'') (\<lambda>kept.
          bindR (iterate kept) (\<lambda>kept.
          bindR (ensure (list_all hashable kept) (Crash (TypeError ''unhashable type''))) (\<lambda>_.
            ensure (set ids = set kept) mismatch)))))"

definition check_copied :: "(json \<Rightarrow> json \<Rightarrow> bool) \<Rightarrow> string \<Rightarrow> string \<Rightarrow> (json \<times> json_fields) list \<Rightarrow> json \<Rightarrow> json_fields \<Rightarrow> unit outcome" where
  "check_copied same name message expected q answer =
     (let stored = (case map_of expected q of None \<Rightarrow> [] | Some kvs \<Rightarrow> kvs) in
      ensure (map_of answer name = None \<and> map_of stored name = None
              \<or> expected \<noteq> [] \<and> same (get_or answer name JNull) (get_or stored name JNull)) (Validation message))"

definition check_answer ::
  "(json \<times> json_fields) list \<Rightarrow> string list \<Rightarrow> json list \<Rightarrow> json \<Rightarrow> json outcome" where
  "check_answer expected findings answered answer =
     (case answer of
        JObj kvs \<Rightarrow>
          bindR (ensure (fst ` set kvs - {''lead_coverage'', ''inventories''} = ANSWER_KEYS)
                   (Validation ''report question answer has invalid fields'')) (\<lambda>_.
          bindR (answer_question expected answered kvs) (\<lambda>q.
          bindR (check_references findings kvs) (\<lambda>_.
          bindR (check_retained_ids expected q kvs) (\<lambda>_.
          bindR (check_copied json_equal ''lead_coverage'' ''report lead coverage must match the retained question answer''
                   expected q kvs) (\<lambda>_.
          bindR (check_copied (\<lambda>a b. sorted_text a = sorted_text b) ''inventories''
                   ''report inventories must match the retained question answer'' expected q kvs) (\<lambda>_.
            Inr q))))))
      | _ \<Rightarrow> Inl (Validation ''report question answer has invalid fields''))"

fun check_answers ::
  "(json \<times> json_fields) list \<Rightarrow> string list \<Rightarrow> json list \<Rightarrow> json list \<Rightarrow> json list outcome" where
  "check_answers expected findings answered [] = Inr answered"
| "check_answers expected findings answered (a # as) =
     bindR (check_answer expected findings answered a) (\<lambda>q. check_answers expected findings (answered @ [q]) as)"

definition check_questions :: "json_env \<Rightarrow> json_fields \<Rightarrow> json_fields \<Rightarrow> unit outcome" where
  "check_questions env results content =
     (if map_of results ''question_answers'' = None \<and> map_of content ''question_answers'' = None then Inr ()
      else
        bindR (ensure (list_json (get_or content ''question_answers'' JNull))
                 (Validation ''report question_answers must contain every approved question'')) (\<lambda>_.
        bindR (expected_answers results) (\<lambda>expected.
        bindR (known_findings env results content) (\<lambda>findings.
        bindR (check_answers expected findings [] (elements (get_or content ''question_answers'' JNull))) (\<lambda>answered.
          ensure (expected = [] \<or> set answered = fst ` set expected)
            (Validation ''report question_answers must contain every approved question''))))))"

subsection \<open>The whole check\<close>

text \<open>A loop that raises at the first element that fails its test; \<open>repr\<close> of a plain text.\<close>

fun each_ok :: "('a \<Rightarrow> bool) \<Rightarrow> ('a \<Rightarrow> 'e) \<Rightarrow> 'a list \<Rightarrow> 'e + unit" where
  "each_ok ok err [] = Inr ()"
| "each_ok ok err (x # xs) = (if ok x then each_ok ok err xs else Inl (err x))"

definition quoted_key :: "string \<Rightarrow> string" where
  "quoted_key k = [CHR 0x27] @ k @ [CHR 0x27]"

definition check_sections :: "json_fields \<Rightarrow> unit outcome" where
  "check_sections content =
     bindR (ensure (list_all (\<lambda>k. map_of content k \<noteq> None) REPORT_SECTIONS) (Validation ''report is missing required sections'')) (\<lambda>_.
     bindR (ensure (int (length (encode (dumps_text escape_raw (JObj content)))) \<le> 1024 * 1024)
              (Validation ''report content exceeds the 1 MiB limit'')) (\<lambda>_.
     bindR (each_ok (\<lambda>k. text_json (get_or content k JNull))
              (\<lambda>k. Validation (''report section '' @ quoted_key k @ '' must contain text'')) TEXT_SECTIONS) (\<lambda>_.
     bindR (each_ok (\<lambda>k. list_json (get_or content k JNull))
              (\<lambda>k. Validation (''report section '' @ quoted_key k @ '' must be an array'')) LIST_SECTIONS) (\<lambda>_.
       each_ok (\<lambda>(k, limit). length (elements (get_or content k JNull)) \<le> limit)
         (\<lambda>(k, limit). Validation (''report section '' @ quoted_key k @ '' exceeds the '' @ nat_text limit @ ''-item limit''))
         REPORT_LIST_LIMITS))))"

definition check_activity :: "json_env \<Rightarrow> json_fields \<Rightarrow> json_fields \<Rightarrow> unit outcome" where
  "check_activity env results content =
     (case map_of content ''observed_activity'' of
        None \<Rightarrow> Inr ()
      | Some a \<Rightarrow> bindR (observed_activity_report env results) (\<lambda>activity.
                    ensure (sorted_text a = sorted_text activity) (Validation ''report observed activity must match the retained records'')))"

definition evidence_name :: "json_env \<Rightarrow> json \<Rightarrow> string outcome" where
  "evidence_name env item =
     (case item of
        JObj kvs \<Rightarrow> Inr (json_str env (get_or kvs ''evidence_id'' JNull))
      | _ \<Rightarrow> Inl (Crash (TypeError ''object has no attribute get'')))"

definition only_fields :: "string list \<Rightarrow> json \<Rightarrow> bool" where
  "only_fields names item \<longleftrightarrow> (case item of JObj kvs \<Rightarrow> fst ` set kvs \<subseteq> set names | _ \<Rightarrow> False)"

definition check_citations :: "json_env \<Rightarrow> json_fields \<Rightarrow> json_fields \<Rightarrow> unit outcome" where
  "check_citations env results content =
     (let selected = elements (get_or content ''selected_evidence'' JNull) in
      bindR (iterate (get_or results ''evidence'' (JList []))) (\<lambda>items.
      bindR (mapR (evidence_name env) items) (\<lambda>available.
      bindR (ensure (list_all (only_fields REPORT_EVIDENCE_FIELDS) selected)
               (Validation ''selected evidence must contain citations only, not raw events'')) (\<lambda>_.
      bindR (mapR (evidence_name env) selected) (\<lambda>cited.
      bindR (ensure (set cited \<subseteq> set available) (Validation ''report references unavailable evidence'')) (\<lambda>_.
        ensure (list_all (only_fields REPORT_QUERY_FIELDS) (elements (get_or content ''query_appendix'' JNull)))
          (Validation ''query appendix must contain query summaries only'')))))))"

definition validate_report_payload :: "json_env \<Rightarrow> json \<Rightarrow> json_fields \<Rightarrow> json_fields outcome" where
  "validate_report_payload env content results =
     (case content of
        JObj kvs \<Rightarrow>
          bindR (check_sections kvs) (\<lambda>_.
          bindR (check_activity env results kvs) (\<lambda>_.
          bindR (check_questions env results kvs) (\<lambda>_.
          bindR (check_citations env results kvs) (\<lambda>_. Inr kvs))))
      | _ \<Rightarrow> Inl (Validation ''report is missing required sections''))"

subsection \<open>What an accepted report guarantees\<close>

lemma each_ok_Inr [simp]: "each_ok ok err xs = Inr u \<longleftrightarrow> list_all ok xs"
  by (induction xs) simp_all

lemma evidence_name_object: "evidence_name env item = Inr n \<longleftrightarrow> object_json item \<and> n = json_str env (get_or (object_fields item) ''evidence_id'' JNull)"
  by (cases item) (auto simp: evidence_name_def)

lemma named_elements:
  assumes "iterate j = Inr items" and "mapR (evidence_name env) items = Inr names"
  shows "items = elements j"
proof -
  have "\<forall>item \<in> set items. object_json item"
    using assms(2) by (auto simp: mapR_Inr evidence_name_object list_all2_conv_all_nth in_set_conv_nth)
  then show ?thesis using assms(1)
  proof (cases j)
    case (JObj kvs)
    with \<open>\<forall>item \<in> set items. object_json item\<close> assms(1) show ?thesis by (cases kvs) auto
  qed (auto intro: ccontr)
qed

lemma mapR_names:
  "mapR (evidence_name env) items = Inr names \<Longrightarrow>
     names = map (\<lambda>item. json_str env (get_or (object_fields item) ''evidence_id'' JNull)) items"
  by (induction items arbitrary: names) (auto simp: result_simps evidence_name_object)

lemma only_fields_object: "only_fields names item \<longleftrightarrow> object_json item \<and> fst ` set (object_fields item) \<subseteq> set names"
  by (cases item) (auto simp: only_fields_def)

definition cites :: "json_env \<Rightarrow> json \<Rightarrow> string" where
  "cites env item = json_str env (get_or (object_fields item) ''evidence_id'' JNull)"

lemma check_citations_Inr:
  assumes "check_citations env results content = Inr u"
  shows "cites env ` set (elements (get_or content ''selected_evidence'' JNull))
           \<subseteq> cites env ` set (elements (get_or results ''evidence'' (JList [])))"
    and "list_all (only_fields REPORT_EVIDENCE_FIELDS) (elements (get_or content ''selected_evidence'' JNull))"
    and "list_all (only_fields REPORT_QUERY_FIELDS) (elements (get_or content ''query_appendix'' JNull))"
proof -
  obtain items available cited where i: "iterate (get_or results ''evidence'' (JList [])) = Inr items"
      "mapR (evidence_name env) items = Inr available"
      "mapR (evidence_name env) (elements (get_or content ''selected_evidence'' JNull)) = Inr cited"
      "set cited \<subseteq> set available"
      "list_all (only_fields REPORT_EVIDENCE_FIELDS) (elements (get_or content ''selected_evidence'' JNull))"
      "list_all (only_fields REPORT_QUERY_FIELDS) (elements (get_or content ''query_appendix'' JNull))"
    using assms unfolding check_citations_def Let_def bindR_eq_Inr ensure_eq_Inr by blast
  show "list_all (only_fields REPORT_EVIDENCE_FIELDS) (elements (get_or content ''selected_evidence'' JNull))"
    "list_all (only_fields REPORT_QUERY_FIELDS) (elements (get_or content ''query_appendix'' JNull))" by (fact i)+
  show "cites env ` set (elements (get_or content ''selected_evidence'' JNull))
           \<subseteq> cites env ` set (elements (get_or results ''evidence'' (JList [])))"
    using i(4) unfolding mapR_names [OF i(3)] mapR_names [OF i(2)] named_elements [OF i(1,2)] cites_def by simp
qed

definition question_of :: "json \<Rightarrow> json" where
  "question_of answer = get_or (object_fields answer) ''question_id'' JNull"

definition finding_ids_of :: "json \<Rightarrow> json list" where
  "finding_ids_of answer = elements (get_or (object_fields answer) ''finding_ids'' JNull)"

lemma check_answer_Inr:
  assumes "check_answer expected findings answered answer = Inr q"
  shows "q = question_of answer" "q \<notin> set answered" "expected \<noteq> [] \<Longrightarrow> q \<in> fst ` set expected"
    and "map_of expected q = Some stored \<Longrightarrow> \<exists>kept. map_of stored ''finding_ids'' = Some kept \<and> (\<exists>ids. iterate kept = Inr ids \<and> set (finding_ids_of answer) = set ids)"
    and "set (finding_ids_of answer) \<subseteq> JStr ` set findings" "distinct (finding_ids_of answer)"
proof -
  obtain kvs where a: "answer = JObj kvs" using assms by (cases answer) (auto simp: check_answer_def)
  have q: "answer_question expected answered kvs = Inr q" and r: "check_references findings kvs = Inr ()"
    and k: "check_retained_ids expected q kvs = Inr ()"
    using assms unfolding a check_answer_def json.case bindR_eq_Inr by auto
  show "q = question_of answer" "q \<notin> set answered"
    using q by (auto simp: answer_question_def a question_of_def Let_def result_simps split: if_splits option.splits)
  show "expected \<noteq> [] \<Longrightarrow> q \<in> fst ` set expected"
    using q by (force simp: answer_question_def Let_def result_simps dest: map_of_SomeD split: if_splits option.splits)
  show "set (finding_ids_of answer) \<subseteq> JStr ` set findings"
    using r by (auto simp: check_references_def text_list_def Let_def result_simps a finding_ids_of_def list_all_iff split: json.splits)
  show "distinct (finding_ids_of answer)"
    using k by (auto simp: check_retained_ids_def Let_def result_simps a finding_ids_of_def)
  show "map_of expected q = Some stored \<Longrightarrow> \<exists>kept. map_of stored ''finding_ids'' = Some kept \<and> (\<exists>ids. iterate kept = Inr ids \<and> set (finding_ids_of answer) = set ids)"
    using k by (auto simp: check_retained_ids_def field_of_def Let_def result_simps a finding_ids_of_def split: option.splits)
qed

lemma check_answers_Inr:
  assumes "check_answers expected findings answered as = Inr qs"
  shows "qs = answered @ map question_of as" and "distinct answered \<Longrightarrow> distinct qs"
    and "list_all (\<lambda>a. \<exists>seen. check_answer expected findings seen a = Inr (question_of a)) as"
  using assms
proof (induction as arbitrary: answered)
  case (Cons a as)
  {
    case 1
    then show ?case using Cons.IH(1) check_answer_Inr(1) by (force simp: result_simps)
  next
    case 2
    then obtain q where q: "check_answer expected findings answered a = Inr q" "check_answers expected findings (answered @ [q]) as = Inr qs"
      by (auto simp: result_simps)
    show ?case using Cons.IH(2) [OF _ q(2)] check_answer_Inr(2) [OF q(1)] 2(1) by simp
  next
    case 3
    then show ?case using Cons.IH(3) check_answer_Inr(1) by (force simp: result_simps)
  }
qed auto

definition answers_of :: "json_fields \<Rightarrow> json list" where
  "answers_of content = elements (get_or content ''question_answers'' JNull)"

definition repeats_findings :: "json \<Rightarrow> json \<Rightarrow> bool" where
  "repeats_findings stored answer \<longleftrightarrow> question_of answer = question_of stored
     \<and> (case iterate (get_or (object_fields stored) ''finding_ids'' JNull) of
          Inr ids \<Rightarrow> set (finding_ids_of answer) = set ids
        | Inl _ \<Rightarrow> False)"

lemma expected_item_object: "expected_item s = Inr (q, kvs) \<longleftrightarrow> s = JObj kvs \<and> map_of kvs ''question_id'' = Some q \<and> hashable q"
  by (cases s) (auto simp: expected_item_def split: option.splits)

lemma mapR_member: "mapR f xs = Inr ys \<Longrightarrow> y \<in> set ys \<Longrightarrow> \<exists>x \<in> set xs. f x = Inr y"
  by (induction xs arbitrary: ys) (fastforce simp: bindR_eq_Inr)+

lemma check_questions_Inr:
  assumes "check_questions env results content = Inr u" and "get_or results ''question_answers'' (JList []) = JList stored" "stored \<noteq> []"
  shows "distinct (map question_of (answers_of content))" and "set (map question_of (answers_of content)) = question_of ` set stored"
    and "list_all (\<lambda>a. distinct (finding_ids_of a) \<and> (\<exists>s \<in> set stored. repeats_findings s a)) (answers_of content)"
proof -
  have present: "map_of results ''question_answers'' \<noteq> None" using assms(2,3) by (auto simp: get_or_def split: option.splits)
  obtain expected findings answered where e: "expected_answers results = Inr expected"
      and c: "check_answers expected findings [] (answers_of content) = Inr answered"
      and eq: "expected = [] \<or> set answered = fst ` set expected"
    using assms(1) present unfolding check_questions_def answers_of_def by (auto simp only: if_False simp_thms bindR_eq_Inr ensure_eq_Inr)
  obtain pairs where p: "mapR expected_item stored = Inr pairs" "expected = rev pairs"
    using e assms(2) by (auto simp: expected_answers_def result_simps)
  have item: "expected_item s = Inr pair \<Longrightarrow> fst pair = question_of s" for s pair
    by (cases s) (auto simp: expected_item_def question_of_def get_or_def split: option.splits if_splits)
  have "map fst pairs = map question_of stored"
    using p(1) item by (induction stored arbitrary: pairs) (auto simp: result_simps)
  then have keys: "fst ` set expected = question_of ` set stored" "expected \<noteq> []"
    using p(2) assms(3) by (auto simp flip: set_map)
  show "distinct (map question_of (answers_of content))" using check_answers_Inr(1,2) [OF c] by simp
  show "set (map question_of (answers_of content)) = question_of ` set stored"
    using eq keys check_answers_Inr(1) [OF c] by simp
  show "list_all (\<lambda>a. distinct (finding_ids_of a) \<and> (\<exists>s \<in> set stored. repeats_findings s a)) (answers_of content)"
    unfolding list_all_iff
  proof
    fix a
    assume "a \<in> set (answers_of content)"
    then obtain seen where ok: "check_answer expected findings seen a = Inr (question_of a)"
      using check_answers_Inr(3) [OF c] unfolding list_all_iff by blast
    obtain kvs where kvs: "map_of expected (question_of a) = Some kvs"
      using check_answer_Inr(3) [OF ok keys(2)] by (metis map_of_eq_None_iff not_None_eq)
    have "(question_of a, kvs) \<in> set pairs" using map_of_SomeD [OF kvs] p(2) by simp
    then obtain s where s: "s \<in> set stored" "expected_item s = Inr (question_of a, kvs)"
      using mapR_member [OF p(1)] by blast
    obtain kept ids where kept: "map_of kvs ''finding_ids'' = Some kept" "iterate kept = Inr ids" "set (finding_ids_of a) = set ids"
      using check_answer_Inr(4) [OF ok kvs] by blast
    have stored: "s = JObj kvs" "map_of kvs ''question_id'' = Some (question_of a)"
      using s(2) unfolding expected_item_object by simp_all
    have "question_of s = question_of a" "get_or (object_fields s) ''finding_ids'' JNull = kept"
      unfolding stored(1) question_of_def [of "JObj kvs"] get_or_def object_fields.simps stored(2) kept(1) by simp_all
    then have "repeats_findings s a" unfolding repeats_findings_def by (simp add: kept(2,3))
    then show "distinct (finding_ids_of a) \<and> (\<exists>s \<in> set stored. repeats_findings s a)"
      using check_answer_Inr(6) [OF ok] s(1) by blast
  qed
qed


definition example_env :: json_env where
  "example_env = \<lparr>container_text = (\<lambda>_. []), instant_of = (\<lambda>_. None)\<rparr>"

definition example_answer :: json where
  "example_answer = JObj [(''question_id'', JStr ''q1''), (''question'', JStr ''Who?''), (''summary'', JStr ''One lead''),
     (''finding_ids'', JList [JStr ''f1'']), (''limitations'', JList [])]"

definition example_results :: json_fields where
  "example_results = [(''evidence'', JList [JObj [(''evidence_id'', JStr ''e1''), (''selected_result'', JStr ''raw'')]]),
     (''findings'', JList [JObj [(''finding_id'', JStr ''f1'')]]), (''question_answers'', JList [example_answer])]"

definition example_report :: json_fields where
  "example_report = [(''hypothesis'', JStr ''h''), (''objective_and_scope'', JStr ''o''), (''data_sources_used'', JList []),
     (''findings'', JList []), (''selected_evidence'', JList [JObj [(''evidence_id'', JStr ''e1'')]]), (''entities'', JList []),
     (''timeline'', JList []), (''coverage_and_limitations'', JList []), (''conclusion_and_disposition'', JStr ''c''),
     (''query_appendix'', JList []), (''question_answers'', JList [example_answer])]"

lemma example_report_accepted: "validate_report_payload example_env (JObj example_report) example_results = Inr example_report"
  by code_simp


end
