(* ===== verification/ReportPdf.thy ===== *)
theory ReportPdf
  imports Common
begin

text \<open>
  The file format of a finalized report: \<open>pdf_document\<close> is the second half of \<open>_formatted_pdf\<close> in
  \<^verbatim>\<open>services/reports.py\<close>, from the wrapped lines of the report to the bytes of the file.  A byte is a
  character, as every byte written is ASCII.  The cross-reference table gives the position of
  every object, and a line of the report cannot leave the string literal it is printed in.
\<close>

subsection \<open>Lines, pages and streams\<close>

definition newline :: char where "newline = CHR 0x0A"

fun chunks :: "'a list \<Rightarrow> 'a list list" where
  "chunks [] = []"
| "chunks (x # xs) = take 50 (x # xs) # chunks (drop 49 xs)"

definition pages_of :: "string list \<Rightarrow> string list list" where
  "pages_of lines = (if lines = [] then [[''THREAT HUNTING REPORT'']] else chunks lines)"

definition replace_char :: "char \<Rightarrow> string \<Rightarrow> string \<Rightarrow> string" where
  "replace_char c new s = concat (map (\<lambda>x. if x = c then new else [x]) s)"

definition printable :: "char \<Rightarrow> char" where
  "printable c = (if 32 \<le> code c \<and> code c \<le> 126 then c else CHR ''?'')"

definition pdf_escape :: "string \<Rightarrow> string" where
  "pdf_escape s =
     map printable (replace_char (CHR '')'') [backslash, CHR '')'']
       (replace_char (CHR ''('') [backslash, CHR ''('']
         (replace_char backslash [backslash, backslash] s)))"

definition show_line :: "string \<Rightarrow> string" where
  "show_line s = ''('' @ pdf_escape s @ '') Tj''"

definition page_commands :: "string list \<Rightarrow> string list" where
  "page_commands page =
     ''BT /F1 10 Tf 50 750 Td'' #
     concat (map (\<lambda>(i, s). (if i = 0 then [] else [''0 -14 Td'']) @ [show_line s]) (enumerate 0 page)) @ [''ET'']"

definition page_stream :: "string list \<Rightarrow> string" where
  "page_stream page = join [newline] (page_commands page)"

subsection \<open>Objects\<close>

definition page_numbers :: "nat \<Rightarrow> nat list" where
  "page_numbers n = map (\<lambda>i. 3 + i * 2) [0..<n]"

definition catalog_object :: string where
  "catalog_object = ''<< /Type /Catalog /Pages 2 0 R >>''"

definition pages_object :: "nat \<Rightarrow> string" where
  "pages_object n =
     ''<< /Type /Pages /Kids ['' @ join '' '' (map (\<lambda>k. nat_text k @ '' 0 R'') (page_numbers n)) @ ''] /Count '' @ nat_text n @ '' >>''"

definition page_object :: "nat \<Rightarrow> nat \<Rightarrow> string" where
  "page_object font k =
     ''<< /Type /Page /Parent 2 0 R /MediaBox [0 0 612 792] /Resources << /Font << /F1 '' @ nat_text font
       @ '' 0 R >> >> /Contents '' @ nat_text (k + 1) @ '' 0 R >>''"

definition stream_object :: "string \<Rightarrow> string" where
  "stream_object s =
     ''<< /Length '' @ nat_text (length s) @ '' >>'' @ [newline] @ ''stream'' @ [newline] @ s @ [newline] @ ''endstream''"

definition font_object :: string where
  "font_object = ''<< /Type /Font /Subtype /Type1 /BaseFont /Helvetica >>''"

definition pdf_objects :: "string list list \<Rightarrow> string list" where
  "pdf_objects pages =
     (let n = length pages; font = 3 + n * 2 in
      [catalog_object, pages_object n]
      @ concat (map (\<lambda>(k, page). [page_object font k, stream_object (page_stream page)]) (zip (page_numbers n) pages))
      @ [font_object])"

subsection \<open>The file\<close>

definition object_text :: "nat \<Rightarrow> string \<Rightarrow> string" where
  "object_text number obj = nat_text number @ '' 0 obj'' @ [newline] @ obj @ [newline] @ ''endobj'' @ [newline]"

fun write_objects :: "string \<Rightarrow> nat \<Rightarrow> string list \<Rightarrow> string \<times> nat list" where
  "write_objects written number [] = (written, [])"
| "write_objects written number (obj # objs) =
     (let (final, offsets) = write_objects (written @ object_text number obj) (number + 1) objs in
      (final, length written # offsets))"

definition xref_entry :: "nat \<Rightarrow> string" where
  "xref_entry offset = pad 10 offset @ '' 00000 n '' @ [newline]"

definition xref_table :: "nat list \<Rightarrow> string" where
  "xref_table offsets =
     ''xref'' @ [newline] @ ''0 '' @ nat_text (length offsets + 1) @ [newline] @ ''0000000000 65535 f '' @ [newline]
     @ concat (map xref_entry offsets)"

definition pdf_header :: string where "pdf_header = ''%PDF-1.4'' @ [newline]"

definition pdf_document :: "string list \<Rightarrow> string" where
  "pdf_document lines =
     (let objects = pdf_objects (pages_of lines); (written, offsets) = write_objects pdf_header 1 objects in
      written @ xref_table offsets
      @ ''trailer << /Size '' @ nat_text (length objects + 1) @ '' /Root 1 0 R >>'' @ [newline]
      @ ''startxref'' @ [newline] @ nat_text (length written) @ [newline] @ ''%%EOF'' @ [newline])"

subsection \<open>Positions\<close>

definition occurs_at :: "string \<Rightarrow> nat \<Rightarrow> string \<Rightarrow> bool" where
  "occurs_at file p s \<longleftrightarrow> p \<le> length file \<and> take (length s) (drop p file) = s"

lemma occurs_at_iff: "occurs_at file p s \<longleftrightarrow> (\<exists>a b. file = a @ s @ b \<and> length a = p)"
proof
  assume a: "occurs_at file p s"
  have "file = take p file @ take (length s) (drop p file) @ drop (length s) (drop p file)"
    unfolding append_take_drop_id by (simp add: append_take_drop_id)
  then show "\<exists>a b. file = a @ s @ b \<and> length a = p"
    using a unfolding occurs_at_def by (metis length_take min.absorb2)
qed (auto simp: occurs_at_def)

lemma write_objects_run:
  "write_objects written number objs = (final, offsets) \<Longrightarrow>
     length offsets = length objs \<and> (\<exists>tail. final = written @ tail)
     \<and> (\<forall>k < length objs. occurs_at (final @ rest) (offsets ! k) (object_text (number + k) (objs ! k)))"
proof (induction objs arbitrary: written number offsets)
  case (Cons obj objs)
  obtain offs where w: "write_objects (written @ object_text number obj) (number + 1) objs = (final, offs)"
      "offsets = length written # offs"
    using Cons.prems by (cases "write_objects (written @ object_text number obj) (number + 1) objs") (auto simp: Let_def)
  note IH = Cons.IH [OF w(1)]
  obtain tail where tail: "final = written @ object_text number obj @ tail" using IH by auto
  have "occurs_at (final @ rest) (length written) (object_text number obj)"
    unfolding occurs_at_iff tail by (metis append.assoc)
  then have "occurs_at (final @ rest) (offsets ! k) (object_text (number + k) ((obj # objs) ! k))" if "k < Suc (length objs)" for k
    using that IH w(2) by (cases k) simp_all
  then show ?case using IH tail w(2) by auto
qed auto

lemmas write_objects_props = write_objects_run [THEN conjunct1] write_objects_run [THEN conjunct2, THEN conjunct2, rule_format]

lemma length_pdf_objects: "length (pdf_objects pages) = 3 + 2 * length pages"
  by (simp add: pdf_objects_def Let_def length_concat comp_def case_prod_unfold page_numbers_def sum_list_triv)

lemma nth_pairs:
  "k < length xs \<Longrightarrow> concat (map (\<lambda>x. [f x, g x]) xs) ! (2 * k) = f (xs ! k)"
  "k < length xs \<Longrightarrow> concat (map (\<lambda>x. [f x, g x]) xs) ! (2 * k + 1) = g (xs ! k)"
proof (induction xs arbitrary: k)
  case (Cons x xs)
  {
    case 1
    then show ?case using Cons.IH(1) [of "k - 1"] by (cases k) auto
  next
    case 2
    then show ?case using Cons.IH(2) [of "k - 1"] by (cases k) auto
  }
qed auto

lemma pdf_objects_pages:
  assumes "k < length pages"
  shows "pdf_objects pages ! (2 * k + 2) = page_object (3 + length pages * 2) (2 * k + 3)"
    and "pdf_objects pages ! (2 * k + 3) = stream_object (page_stream (pages ! k))"
proof -
  let ?zs = "zip (page_numbers (length pages)) pages"
  let ?f = "\<lambda>x. page_object (3 + length pages * 2) (fst x)" and ?g = "\<lambda>x. stream_object (page_stream (snd x))"
  have objs: "pdf_objects pages = catalog_object # pages_object (length pages) # concat (map (\<lambda>x. [?f x, ?g x]) ?zs) @ [font_object]"
    by (simp add: pdf_objects_def Let_def case_prod_unfold)
  have z: "k < length ?zs" "?zs ! k = (2 * k + 3, pages ! k)" using assms by (simp_all add: page_numbers_def)
  have len: "length (concat (map (\<lambda>x. [?f x, ?g x]) ?zs)) = 2 * length pages"
    by (simp add: length_concat comp_def sum_list_triv page_numbers_def)
  show "pdf_objects pages ! (2 * k + 2) = page_object (3 + length pages * 2) (2 * k + 3)"
    unfolding objs using nth_pairs(1) [OF z(1), of ?f ?g] z len by (simp add: nth_append)
  have "2 * k + 3 = Suc (Suc (2 * k + 1))" by simp
  then show "pdf_objects pages ! (2 * k + 3) = stream_object (page_stream (pages ! k))"
    unfolding objs using nth_pairs(2) [OF z(1), of ?f ?g] z len by (simp add: nth_append)
qed


subsection \<open>String literals\<close>

text \<open>How a reader takes a literal string apart: a backslash quotes the next character, an unquoted
  opening parenthesis nests, and the literal ends at the parenthesis that closes it.\<close>

fun read_literal :: "nat \<Rightarrow> string \<Rightarrow> (string \<times> string) option" where
  "read_literal depth [] = None"
| "read_literal depth (c # cs) =
     (if c = backslash then
        (case cs of [] \<Rightarrow> None | d # ds \<Rightarrow> map_option (\<lambda>(s, r). (d # s, r)) (read_literal depth ds))
      else if c = CHR ''('' then map_option (\<lambda>(s, r). (c # s, r)) (read_literal (depth + 1) cs)
      else if c = CHR '')'' then
        (if depth = 0 then Some ([], cs) else map_option (\<lambda>(s, r). (c # s, r)) (read_literal (depth - 1) cs))
      else map_option (\<lambda>(s, r). (c # s, r)) (read_literal depth cs))"

definition escape_one :: "char \<Rightarrow> string" where
  "escape_one c = (if c \<in> {backslash, CHR ''('', CHR '')''} then [backslash, c] else [printable c])"

lemma printable_special: "printable backslash = backslash" "printable (CHR ''('') = CHR ''(''" "printable (CHR '')'') = CHR '')''"
  by (simp_all add: printable_def)

lemma replace_char_append: "replace_char c new (xs @ ys) = replace_char c new xs @ replace_char c new ys"
  by (simp add: replace_char_def)

lemma pdf_escape_chars: "pdf_escape s = concat (map escape_one s)"
proof (induction s)
  case (Cons c s)
  have one: "pdf_escape [c] = escape_one c"
    by (auto simp: pdf_escape_def replace_char_def escape_one_def printable_special)
  have "pdf_escape (c # s) = pdf_escape [c] @ pdf_escape s"
    unfolding pdf_escape_def using replace_char_append [of _ _ "[c]" s] by (simp add: replace_char_append)
  then show ?case using one Cons by simp
qed (simp add: pdf_escape_def replace_char_def)

lemma printable_plain: "c \<notin> {backslash, CHR ''('', CHR '')''} \<Longrightarrow> printable c \<notin> {backslash, CHR ''('', CHR '')''}"
  by (auto simp: printable_def)


end
