(* ===== verification/Workflow.thy ===== *)
theory Workflow
  imports HuntState Jobs Contracts Auth ReportContent ReportPdf "HOL-Library.AList" "HOL-Library.Product_Lexorder"
begin

text \<open>
  The workflow service of \<^verbatim>\<open>services/workflow.py\<close> in production mode: the table of hunts, the guarded
  update with its audit record, and the operations on a hunt from its creation to the finalized
  report.  An operation is an \<open>action\<close>, a function from the store to the store and an outcome, since
  it may have committed one transaction when a later one raises.  Between two transactions of an
  operation other requests may run; what they do is the argument \<open>others\<close>, the identity for an operation that
  runs alone.  Model calls, the Splunk connector, Pydantic and the clock are arguments.  JSON
  columns hold JSON values; a column that the code writes with a dictionary holds its fields.
\<close>

subsection \<open>Tables\<close>

record hunt_row =
  h_hunt_id :: string
  h_owner_id :: string
  h_title :: string
  h_hypothesis :: string
  h_objective :: string
  h_threat_intelligence :: string
  h_synthetic_data :: string
  h_state :: HuntState
  h_plan_version :: "int option"
  h_plan :: "json option"
  h_discovery :: "json_fields option"
  h_approval :: "json_fields option"
  h_results :: "json_fields option"
  h_report_id :: "string option"
  h_report_version :: "int option"
  h_report_state :: "HuntState option"
  h_report_content :: "json_fields option"
  h_report_pdf :: "string option"
  h_created :: utc
  h_updated :: utc

text \<open>The audit record of a hunt, without its random key.\<close>

record hunt_audit =
  ha_hunt_id :: string
  ha_owner_id :: string
  ha_actor_type :: string
  ha_action :: string
  ha_prior :: "HuntState option"
  ha_resulting :: HuntState
  ha_outcome :: string
  ha_detail :: "string option"
  ha_changed :: "string list"
  ha_at :: utc

record store =
  hunts :: "hunt_row list"
  audits :: "hunt_audit list"
  job_table :: table

subsection \<open>Actions\<close>

type_synonym 'a action = "store \<Rightarrow> store \<times> 'a outcome"

definition returnS :: "'a \<Rightarrow> 'a action" where "returnS x st = (st, Inr x)"

definition failS :: "workflow_error \<Rightarrow> 'a action" where "failS e st = (st, Inl e)"

definition liftS :: "'a outcome \<Rightarrow> 'a action" where "liftS r st = (st, r)"

definition readS :: "(store \<Rightarrow> 'a outcome) \<Rightarrow> 'a action" where "readS f st = (st, f st)"

definition bindS :: "'a action \<Rightarrow> ('a \<Rightarrow> 'b action) \<Rightarrow> 'b action" where
  "bindS m f st = (case m st of (st', Inl e) \<Rightarrow> (st', Inl e) | (st', Inr x) \<Rightarrow> f x st')"

definition modifyS :: "(store \<Rightarrow> store) \<Rightarrow> unit action" where "modifyS f st = (f st, Inr ())"

definition guardS :: "bool \<Rightarrow> workflow_error \<Rightarrow> unit action" where
  "guardS b e = (if b then returnS () else failS e)"

subsection \<open>Reading and updating a hunt\<close>

definition owned :: "string \<Rightarrow> string \<Rightarrow> hunt_row \<Rightarrow> bool" where
  "owned owner hunt r \<longleftrightarrow> h_hunt_id r = hunt \<and> h_owner_id r = owner"

definition owned_row :: "string \<Rightarrow> string \<Rightarrow> store \<Rightarrow> hunt_row outcome" where
  "owned_row owner hunt st =
     (case find (owned owner hunt) (hunts st) of None \<Rightarrow> Inl (NotFound ''hunt not found'') | Some r \<Rightarrow> Inr r)"

text \<open>What the API shows of a row: everything but its owner and the stored file.\<close>

definition public_hunt :: "hunt_row \<Rightarrow> hunt_row" where
  "public_hunt r = r\<lparr>h_owner_id := [], h_report_pdf := None\<rparr>"

definition get_hunt :: "string \<Rightarrow> string \<Rightarrow> store \<Rightarrow> hunt_row outcome" where
  "get_hunt owner hunt st = bindR (owned_row owner hunt st) (\<lambda>r. Inr (public_hunt r))"

record expectation =
  ex_state :: "HuntState option"
  ex_plan_version :: "int option"
  ex_report_state :: "HuntState option"
  ex_report_version :: "int option"

definition anything :: expectation where
  "anything = \<lparr>ex_state = None, ex_plan_version = None, ex_report_state = None, ex_report_version = None\<rparr>"

definition in_state :: "HuntState \<Rightarrow> expectation" where
  "in_state s = anything\<lparr>ex_state := Some s\<rparr>"

definition expected :: "expectation \<Rightarrow> hunt_row \<Rightarrow> bool" where
  "expected ex r \<longleftrightarrow> ex_state ex \<in> {None, Some (h_state r)}
     \<and> (ex_plan_version ex = None \<or> ex_plan_version ex = h_plan_version r)
     \<and> (ex_report_state ex = None \<or> ex_report_state ex = h_report_state r)
     \<and> (ex_report_version ex = None \<or> ex_report_version ex = h_report_version r)"

datatype change =
    SetState HuntState | SetPlanVersion int | SetPlan json | SetDiscovery json_fields | SetApproval "json_fields option"
  | SetResults json_fields | SetReportId string | SetReportVersion int | SetReportState HuntState
  | SetReportContent json_fields | SetReportPdf string | SetUpdated utc

fun apply_change :: "change \<Rightarrow> hunt_row \<Rightarrow> hunt_row" where
  "apply_change (SetState s) r = r\<lparr>h_state := s\<rparr>"
| "apply_change (SetPlanVersion v) r = r\<lparr>h_plan_version := Some v\<rparr>"
| "apply_change (SetPlan p) r = r\<lparr>h_plan := Some p\<rparr>"
| "apply_change (SetDiscovery d) r = r\<lparr>h_discovery := Some d\<rparr>"
| "apply_change (SetApproval a) r = r\<lparr>h_approval := a\<rparr>"
| "apply_change (SetResults x) r = r\<lparr>h_results := Some x\<rparr>"
| "apply_change (SetReportId i) r = r\<lparr>h_report_id := Some i\<rparr>"
| "apply_change (SetReportVersion v) r = r\<lparr>h_report_version := Some v\<rparr>"
| "apply_change (SetReportState s) r = r\<lparr>h_report_state := Some s\<rparr>"
| "apply_change (SetReportContent c) r = r\<lparr>h_report_content := Some c\<rparr>"
| "apply_change (SetReportPdf b) r = r\<lparr>h_report_pdf := Some b\<rparr>"
| "apply_change (SetUpdated t) r = r\<lparr>h_updated := t\<rparr>"

text \<open>The field of the audited five that a change alters.  The code compares with a row that was
  selected without its results, so new results always count as a change.\<close>

fun alters :: "hunt_row \<Rightarrow> change \<Rightarrow> string option" where
  "alters r (SetState s) = (if s \<noteq> h_state r then Some ''state'' else None)"
| "alters r (SetPlanVersion v) = (if Some v \<noteq> h_plan_version r then Some ''plan_version'' else None)"
| "alters r (SetReportState s) = (if Some s \<noteq> h_report_state r then Some ''report_state'' else None)"
| "alters r (SetReportVersion v) = (if Some v \<noteq> h_report_version r then Some ''report_version'' else None)"
| "alters r (SetResults x) = Some ''results''"
| "alters r _ = None"

definition changed_fields :: "hunt_row \<Rightarrow> change list \<Rightarrow> string list" where
  "changed_fields r cs =
     filter (\<lambda>f. Some f \<in> alters r ` set cs) [''state'', ''plan_version'', ''report_state'', ''report_version'', ''results'']"

definition default_action :: "string list \<Rightarrow> string" where
  "default_action changed =
     (if ''state'' \<in> set changed then ''hunt_state_changed''
      else if ''plan_version'' \<in> set changed then ''plan_updated''
      else if ''report_version'' \<in> set changed then ''report_updated''
      else ''execution_checkpoint'')"

definition update_audit :: "string \<Rightarrow> string \<Rightarrow> hunt_row \<Rightarrow> change list \<Rightarrow> hunt_audit list" where
  "update_audit owner hunt previous cs =
     (let changed = changed_fields previous cs; after = fold apply_change cs previous in
      if changed = [] then []
      else [\<lparr>ha_hunt_id = hunt, ha_owner_id = owner, ha_actor_type = ''system'', ha_action = default_action changed,
             ha_prior = Some (h_state previous), ha_resulting = h_state after, ha_outcome = ''success'', ha_detail = None,
             ha_changed = changed, ha_at = h_updated after\<rparr>])"

definition update_hunt :: "string \<Rightarrow> string \<Rightarrow> expectation \<Rightarrow> change list \<Rightarrow> unit action" where
  "update_hunt owner hunt ex cs st =
     (let p = (\<lambda>r. owned owner hunt r \<and> expected ex r) in
      case find p (hunts st) of
        None \<Rightarrow> (st, Inl (Conflict ''hunt changed before the operation completed''))
      | Some previous \<Rightarrow>
          if length (filter p (hunts st)) \<noteq> 1 then (st, Inl (Conflict ''hunt changed before the operation completed''))
          else (st\<lparr>hunts := map (\<lambda>r. if p r then fold apply_change cs r else r) (hunts st),
                  audits := audits st @ update_audit owner hunt previous cs\<rparr>, Inr ()))"

text \<open>Read, let others run, then commit.\<close>

definition elsewhere :: "(store \<Rightarrow> store) \<Rightarrow> unit action" where "elsewhere others = modifyS others"

subsection \<open>What the service is composed of\<close>

record discovery =
  dc_at :: utc
  dc_indexes :: "string list"
  dc_sourcetypes :: "string list"
  dc_fields :: "string list"
  dc_schemas :: json
  dc_limitations :: "string list"
  dc_dict :: json_fields

datatype provider_failure = BudgetExhausted string | ProviderFailed

record workflow_env =
  we_report :: json_env
  report_lines :: "string \<Rightarrow> json_fields \<Rightarrow> string list"
  parse_plan :: "json \<Rightarrow> HuntPlan option"
  dump_plan :: "HuntPlan \<Rightarrow> json"
  dump_scope :: "HuntScope \<Rightarrow> json"
  ioc_context :: "string \<Rightarrow> json"
  execution_config :: json
  budget_limits :: json
  integrations :: bool
  splunk_discover :: "HuntPlan option \<Rightarrow> provider_failure + discovery"
  draft_plan :: "bool \<Rightarrow> json_fields \<Rightarrow> provider_failure + HuntPlan"
  job_service :: JobService

subsection \<open>Snapshots\<close>

definition sha256_json :: "json \<Rightarrow> string" where
  "sha256_json j = sha256_hex (encode (dumps_raw j))"

definition snapshot_sha256 :: "string \<Rightarrow> json \<Rightarrow> string" where
  "snapshot_sha256 kind payload = sha256_json (JObj [(''kind'', JStr kind), (''payload'', payload)])"

definition snapshot_dict :: "string \<Rightarrow> string \<Rightarrow> utc \<Rightarrow> json \<Rightarrow> json_fields" where
  "snapshot_dict snapshot_id kind created payload =
     [(''snapshot_id'', JStr snapshot_id), (''kind'', JStr kind), (''created_at_utc'', JStr (serialize_utc created)),
      (''sha256'', JStr (snapshot_sha256 kind payload)), (''payload'', payload)]"

definition dict_or :: "json_fields \<Rightarrow> json_fields \<Rightarrow> json_fields" where
  "dict_or a b = fold (\<lambda>(k, v). AList.update k v) b a"

definition plan_pairs :: "HuntPlan \<Rightarrow> (string \<times> string) list" where
  "plan_pairs plan = fromkeys (concat (map (\<lambda>s. map (Pair (pd_index s)) (pd_sourcetypes s)) (hp_data_sources plan)))"

definition pairs_json :: "(string \<times> string) list \<Rightarrow> json" where
  "pairs_json ps = JList (map (\<lambda>(i, k). JList [JStr i, JStr k]) ps)"

definition sampling :: "workflow_env \<Rightarrow> HuntPlan option \<Rightarrow> json_fields" where
  "sampling env plan =
     (case plan of
        None \<Rightarrow> []
      | Some p \<Rightarrow>
          (let earliest = max (hs_earliest (hp_scope p)) (hs_latest (hp_scope p) - 604800000000) in
           [(''schema_requested_scope'', dump_scope env (hp_scope p)),
            (''schema_sampling_scope'', JObj [(''earliest_utc'', JStr (isoformat earliest)),
               (''latest_utc'', JStr (isoformat (hs_latest (hp_scope p)))), (''source_pairs'', pairs_json (plan_pairs p))])]))"

definition orchestrator_discover :: "workflow_env \<Rightarrow> HuntPlan option \<Rightarrow> string \<Rightarrow> provider_failure + discovery \<times> json_fields" where
  "orchestrator_discover env plan snapshot_id =
     bindR (splunk_discover env plan) (\<lambda>d.
       Inr (d, snapshot_dict snapshot_id ''splunk_discovery'' (dc_at d) (JObj (dict_or (dc_dict d) (sampling env plan)))))"

definition execution_binding_payload :: "workflow_env \<Rightarrow> json" where
  "execution_binding_payload env = JObj [(''execution_config'', execution_config env), (''budget_limits'', budget_limits env)]"

definition validate_execution_snapshot :: "workflow_env \<Rightarrow> json_fields \<Rightarrow> unit outcome" where
  "validate_execution_snapshot env snapshot =
     bindR (ensure (json_equal (get_or snapshot ''payload'' JNull) (execution_binding_payload env))
              (Conflict ''approved execution configuration content no longer matches current settings'')) (\<lambda>_.
       ensure (get_or snapshot ''sha256'' JNull = JStr (snapshot_sha256 ''execution_configuration'' (execution_binding_payload env)))
         (Conflict ''approved execution configuration hash is invalid''))"

subsection \<open>Plans\<close>

definition plan_of :: "hunt_row \<Rightarrow> json" where
  "plan_of r = (case h_plan r of None \<Rightarrow> JNull | Some p \<Rightarrow> p)"

definition PLAN_KEYS :: "string list" where
  "PLAN_KEYS = [''hypothesis'', ''objective'', ''scope'', ''questions'', ''query_strategy'', ''coverage_limitations'']"

fun question_id_ok :: "json \<Rightarrow> bool" where
  "question_id_ok (JStr s) \<longleftrightarrow> strip s \<noteq> [] \<and> s = strip s \<and> casefold s \<noteq> ''unknown''"
| "question_id_ok _ \<longleftrightarrow> False"

definition validate_plan_payload :: "json \<Rightarrow> json_fields outcome" where
  "validate_plan_payload plan =
     (case plan of
        JObj kvs \<Rightarrow>
          (let questions = get_or kvs ''questions'' JNull; ids = map question_of (elements questions) in
           bindR (ensure (list_all (\<lambda>k. map_of kvs k \<noteq> None) PLAN_KEYS) (Validation ''plan is missing required fields'')) (\<lambda>_.
           bindR (ensure (list_json questions \<and> elements questions \<noteq> [] \<and> object_json (get_or kvs ''scope'' JNull))
                    (Validation ''plan requires scope and at least one question'')) (\<lambda>_.
           bindR (ensure (list_all question_id_ok ids \<and> distinct ids)
                    (Validation ''plan question IDs must be nonempty, unique, and not unknown'')) (\<lambda>_.
             Inr kvs))))
      | _ \<Rightarrow> Inl (Validation ''plan is missing required fields''))"

definition source_id :: "json \<Rightarrow> json outcome" where
  "source_id source =
     (case source of
        JObj kvs \<Rightarrow> field_of kvs ''source_id''
      | _ \<Rightarrow> Inl (Crash (TypeError ''indices must be integers'')))"

definition validate_intelligence_refs :: "json \<Rightarrow> json \<Rightarrow> unit outcome" where
  "validate_intelligence_refs refs sources =
     bindR (iterate sources) (\<lambda>items.
     bindR (mapR source_id items) (\<lambda>allowed.
       ensure (text_list (\<lambda>s. JStr s \<in> set allowed) refs)
         (Crash (ValueError ''plan intelligence reference is not among the supplied sources''))))"

definition intelligence_sources_of :: "json_fields \<Rightarrow> json outcome" where
  "intelligence_sources_of snapshot =
     (case get_or snapshot ''input_context'' (JObj []) of
        JObj kvs \<Rightarrow> Inr (get_or kvs ''intelligence_sources'' (JList []))
      | _ \<Rightarrow> Inl (Crash (TypeError ''object has no attribute get'')))"

text \<open>\<open>except ValueError\<close>.\<close>

definition on_value_error :: "workflow_error \<Rightarrow> 'a outcome \<Rightarrow> 'a outcome" where
  "on_value_error e r = (case r of Inl (Crash (ValueError _)) \<Rightarrow> Inl e | _ \<Rightarrow> r)"

definition check_refs :: "workflow_error \<Rightarrow> json \<Rightarrow> json_fields \<Rightarrow> unit outcome" where
  "check_refs e refs snapshot =
     bindR (intelligence_sources_of snapshot) (\<lambda>sources. on_value_error e (validate_intelligence_refs refs sources))"

definition intelligence_sources :: "string \<Rightarrow> string \<Rightarrow> json" where
  "intelligence_sources hunt advisory =
     JList (if strip advisory = [] then []
       else [JObj [(''source_id'', JStr (''analyst-intelligence:'' @ sha256_hex (encode (hunt @ [CHR 0x00] @ advisory)))),
                   (''kind'', JStr ''analyst_supplied_context''), (''content_field'', JStr ''threat_intelligence''),
                   (''content_sha256'', JStr (sha256_hex (encode advisory)))]])"

definition model_validate :: "workflow_env \<Rightarrow> json \<Rightarrow> HuntPlan outcome" where
  "model_validate env j = (case parse_plan env j of None \<Rightarrow> Inl (Crash (ValueError ''HuntPlan'')) | Some p \<Rightarrow> Inr p)"

definition outside_scope :: "HuntPlan \<Rightarrow> bool" where
  "outside_scope plan \<longleftrightarrow>
     list_ex (\<lambda>(index, kind). index \<notin> set (hs_indexes (hp_scope plan)) \<or> kind \<notin> set (hs_sourcetypes (hp_scope plan))) (plan_pairs plan)"

subsection \<open>Creating and cancelling\<close>

definition CONTEXT_INPUT_MAX_LENGTH :: nat where "CONTEXT_INPUT_MAX_LENGTH = 50000"

definition new_hunt :: "string \<Rightarrow> string \<Rightarrow> string \<Rightarrow> string \<Rightarrow> string \<Rightarrow> string \<Rightarrow> string \<Rightarrow> utc \<Rightarrow> hunt_row" where
  "new_hunt hunt owner title hypothesis objective intelligence synthetic now =
     \<lparr>h_hunt_id = hunt, h_owner_id = owner, h_title = title, h_hypothesis = hypothesis, h_objective = objective,
      h_threat_intelligence = intelligence, h_synthetic_data = synthetic, h_state = CREATED, h_plan_version = None,
      h_plan = None, h_discovery = None, h_approval = None, h_results = None, h_report_id = None, h_report_version = None,
      h_report_state = None, h_report_content = None, h_report_pdf = None, h_created = now, h_updated = now\<rparr>"

definition analyst_audit :: "string \<Rightarrow> string \<Rightarrow> string \<Rightarrow> HuntState option \<Rightarrow> HuntState \<Rightarrow> string \<Rightarrow> utc \<Rightarrow> hunt_audit" where
  "analyst_audit owner hunt act prior resulting result now =
     \<lparr>ha_hunt_id = hunt, ha_owner_id = owner, ha_actor_type = ''analyst'', ha_action = act, ha_prior = prior,
      ha_resulting = resulting, ha_outcome = result, ha_detail = None, ha_changed = [], ha_at = now\<rparr>"

definition create_hunt :: "string \<Rightarrow> string \<Rightarrow> string \<Rightarrow> string \<Rightarrow> string \<Rightarrow> string \<Rightarrow> string \<Rightarrow> utc \<Rightarrow> unit action" where
  "create_hunt hunt owner title hypothesis objective intelligence synthetic now =
     bindS (guardS (length intelligence \<le> CONTEXT_INPUT_MAX_LENGTH)
              (Validation ''threat intelligence exceeds the 50000 character limit'')) (\<lambda>_.
     bindS (guardS (length synthetic \<le> CONTEXT_INPUT_MAX_LENGTH)
              (Validation ''synthetic data exceeds the 50000 character limit'')) (\<lambda>_.
     bindS (readS (\<lambda>st. ensure (hunt \<notin> h_hunt_id ` set (hunts st)) (Crash integrity_error))) (\<lambda>_.
       modifyS (\<lambda>st. st\<lparr>hunts := hunts st @ [new_hunt hunt owner title hypothesis objective intelligence synthetic now],
                        audits := audits st @ [analyst_audit owner hunt ''hunt_created'' None CREATED ''success'' now]\<rparr>))))"

definition cancel :: "(store \<Rightarrow> store) \<Rightarrow> string \<Rightarrow> string \<Rightarrow> utc \<Rightarrow> unit action" where
  "cancel others owner hunt now =
     bindS (readS (owned_row owner hunt)) (\<lambda>row.
     if h_state row = CANCELLED then
       modifyS (\<lambda>st. st\<lparr>audits := audits st
         @ [analyst_audit owner hunt ''hunt_cancel_requested'' (Some CANCELLED) CANCELLED ''already_cancelled'' now]\<rparr>)
     else bindS (guardS (h_state row \<notin> {FINALIZED, HuntState.FAILED}) (Conflict ''terminal hunts cannot be cancelled'')) (\<lambda>_.
     bindS (elsewhere others) (\<lambda>_.
     bindS (update_hunt owner hunt (in_state (h_state row)) [SetState CANCELLED, SetUpdated now]) (\<lambda>_.
     bindS (elsewhere others) (\<lambda>_.
       modifyS (\<lambda>st. st\<lparr>job_table := fst (request_cancel (job_table st) owner hunt now)\<rparr>))))))"

definition job_status :: "string \<Rightarrow> string \<Rightarrow> store \<Rightarrow> job outcome" where
  "job_status owner hunt st =
     bindR (owned_row owner hunt st) (\<lambda>_.
     case get_for_owner (job_table st) owner hunt of
       None \<Rightarrow> Inl (NotFound ''execution job not found'')
     | Some j \<Rightarrow> Inr (j\<lparr>j_payload := []\<rparr>))"

subsection \<open>Planning\<close>

text \<open>The two drafting rounds of \<open>discover\<close>.  \<open>ids\<close> are the application's plan and configuration
  identifiers; a first draft fixes the scope, the sources are sampled inside it, and a second draft, needed
  only when the sample changed the known fields, must keep scope and sources.\<close>

definition draft_ok :: "hunt_row \<Rightarrow> string \<Rightarrow> string \<Rightarrow> string \<Rightarrow> discovery \<Rightarrow> HuntPlan \<Rightarrow> bool" where
  "draft_ok row plan_id snapshot_id config_id d plan \<longleftrightarrow>
     hp_plan_id plan = plan_id \<and> hp_hunt_id plan = h_hunt_id row \<and> hp_discovery_snapshot_id plan = snapshot_id
     \<and> hp_execution_config_snapshot_id plan = config_id \<and> hp_plan_version plan = 1
     \<and> set (hs_indexes (hp_scope plan)) \<subseteq> set (dc_indexes d) \<and> set (hs_sourcetypes (hp_scope plan)) \<subseteq> set (dc_sourcetypes d)
     \<and> \<not> outside_scope plan"

definition same_scope :: "HuntPlan \<Rightarrow> HuntPlan \<Rightarrow> bool" where
  "same_scope first plan \<longleftrightarrow>
     hs_earliest (hp_scope plan) = hs_earliest (hp_scope first) \<and> hs_latest (hp_scope plan) = hs_latest (hp_scope first)
     \<and> set (hs_indexes (hp_scope plan)) = set (hs_indexes (hp_scope first))
     \<and> set (hs_sourcetypes (hp_scope plan)) = set (hs_sourcetypes (hp_scope first))
     \<and> set (plan_pairs plan) = set (plan_pairs first)"

definition fields_changed :: "discovery \<Rightarrow> discovery \<Rightarrow> bool" where
  "fields_changed old new \<longleftrightarrow> set (dc_fields new) \<noteq> set (dc_fields old) \<or> \<not> json_equal (dc_schemas new) (dc_schemas old)"

record plan_draws =
  pd_plan_id :: string
  pd_catalog_id :: string
  pd_sample_id :: string
  pd_config_id :: string

definition draft_plans ::
  "workflow_env \<Rightarrow> hunt_row \<Rightarrow> plan_draws \<Rightarrow> provider_failure + HuntPlan \<times> discovery \<times> json_fields" where
  "draft_plans env row draws =
     bindR (orchestrator_discover env None (pd_catalog_id draws)) (\<lambda>(catalog, snapshot).
     bindR (draft_plan env False snapshot) (\<lambda>first.
     bindR (ensure (draft_ok row (pd_plan_id draws) (pd_catalog_id draws) (pd_config_id draws) catalog first) ProviderFailed) (\<lambda>_.
     bindR (orchestrator_discover env (Some first) (pd_sample_id draws)) (\<lambda>(sampled, scoped).
     if \<not> fields_changed catalog sampled then Inr (first\<lparr>hp_discovery_snapshot_id := pd_sample_id draws\<rparr>, sampled, scoped)
     else bindR (draft_plan env True scoped) (\<lambda>second.
          bindR (ensure (draft_ok row (pd_plan_id draws) (pd_sample_id draws) (pd_config_id draws) sampled second) ProviderFailed) (\<lambda>_.
          bindR (ensure (same_scope first second) ProviderFailed) (\<lambda>_.
            Inr (second, sampled, scoped))))))))"

definition number_questions :: "PlanQuestion list \<Rightarrow> PlanQuestion list" where
  "number_questions qs = map (\<lambda>(n, q). q\<lparr>pq_question_id := ''q'' @ nat_text n\<rparr>) (enumerate 1 qs)"

definition input_context :: "workflow_env \<Rightarrow> hunt_row \<Rightarrow> json" where
  "input_context env row =
     JObj [(''threat_intelligence'', JStr (h_threat_intelligence row)),
       (''intelligence_sources'', intelligence_sources (h_hunt_id row) (h_threat_intelligence row)),
       (''advisory_iocs'', ioc_context env (h_threat_intelligence row)), (''customer_context'', JStr (h_synthetic_data row))]"

definition finished_draft ::
  "workflow_env \<Rightarrow> hunt_row \<Rightarrow> plan_draws \<Rightarrow> utc \<Rightarrow> HuntPlan \<times> discovery \<times> json_fields \<Rightarrow> (json_fields \<times> json_fields) outcome" where
  "finished_draft env row draws now drafted =
     (let (plan, d, snapshot) = drafted;
          plan = plan\<lparr>hp_coverage_limitations := fromkeys (hp_coverage_limitations plan @ dc_limitations d),
                      hp_questions := number_questions (hp_questions plan)\<rparr>;
          config = snapshot_dict (pd_config_id draws) ''execution_configuration'' now (execution_binding_payload env) in
      bindR (validate_plan_payload (dump_plan env plan)) (\<lambda>payload.
        Inr (payload, dict_or snapshot [(''execution_config_snapshot'', JObj config), (''input_context'', input_context env row),
                                        (''mode'', JStr ''production'')])))"

definition discovery_failed :: "(store \<Rightarrow> store) \<Rightarrow> string \<Rightarrow> string \<Rightarrow> utc \<Rightarrow> provider_failure \<Rightarrow> unit action" where
  "discovery_failed others owner hunt now failure st =
     (let (st', _) = update_hunt owner hunt (in_state DISCOVERING) [SetState HuntState.FAILED, SetUpdated now] (others st) in
      (st', Inl (IntegrationUnavailable (case failure of
         BudgetExhausted m \<Rightarrow> ''production discovery failed: '' @ m
       | ProviderFailed \<Rightarrow> ''production discovery failed''))))"

definition store_draft :: "(store \<Rightarrow> store) \<Rightarrow> string \<Rightarrow> string \<Rightarrow> utc \<Rightarrow> json_fields \<times> json_fields \<Rightarrow> unit action" where
  "store_draft others owner hunt now draft =
     bindS (elsewhere others) (\<lambda>_.
     bindS (update_hunt owner hunt (in_state DISCOVERING)
       [SetState PLAN_DRAFT, SetDiscovery (snd draft), SetPlan (JObj (fst draft)), SetPlanVersion 1, SetUpdated now]) (\<lambda>_.
     bindS (elsewhere others) (\<lambda>_.
       update_hunt owner hunt (in_state PLAN_DRAFT) [SetState AWAITING_PLAN_REVIEW, SetUpdated now])))"

definition discover :: "workflow_env \<Rightarrow> (store \<Rightarrow> store) \<Rightarrow> string \<Rightarrow> string \<Rightarrow> plan_draws \<Rightarrow> utc \<Rightarrow> unit action" where
  "discover env others owner hunt draws now =
     bindS (guardS (integrations env) (IntegrationUnavailable ''production Splunk and model adapters are not configured'')) (\<lambda>_.
     bindS (readS (owned_row owner hunt)) (\<lambda>row.
     bindS (guardS (h_state row = CREATED) (Conflict ''discovery requires a newly created hunt'')) (\<lambda>_.
     bindS (elsewhere others) (\<lambda>_.
     bindS (update_hunt owner hunt (in_state CREATED) [SetState DISCOVERING, SetUpdated now]) (\<lambda>_.
     case draft_plans env row draws of
       Inl failure \<Rightarrow> discovery_failed others owner hunt now failure
     | Inr drafted \<Rightarrow>
         (case finished_draft env row draws now drafted of
            Inl _ \<Rightarrow> discovery_failed others owner hunt now ProviderFailed
          | Inr draft \<Rightarrow> store_draft others owner hunt now draft))))))"

subsection \<open>Editing a plan\<close>

definition catalog_names :: "json_fields \<Rightarrow> string \<Rightarrow> json list outcome" where
  "catalog_names snapshot k =
     bindR (field_of snapshot ''payload'') (\<lambda>payload.
     bindR (field_of (object_fields payload) k) iterate)"

definition refreshed_snapshot :: "json_fields \<Rightarrow> json_fields \<Rightarrow> json_fields outcome" where
  "refreshed_snapshot fresh original =
     bindR (mapR (\<lambda>k. bindR (field_of original k) (\<lambda>v. Inr (k, v))) [''execution_config_snapshot'', ''input_context'', ''mode'']) (\<lambda>kept.
       Inr (dict_or fresh kept))"

definition rediscover :: "workflow_env \<Rightarrow> json_fields \<Rightarrow> HuntPlan \<Rightarrow> string \<Rightarrow> (HuntPlan \<times> change list) outcome" where
  "rediscover env snapshot revised snapshot_id =
     bindR (ensure (integrations env) (IntegrationUnavailable ''scoped discovery is not configured'')) (\<lambda>_.
     bindR (catalog_names snapshot ''indexes'') (\<lambda>indexes.
     bindR (catalog_names snapshot ''sourcetypes'') (\<lambda>kinds.
     bindR (ensure (JStr ` set (hs_indexes (hp_scope revised)) \<subseteq> set indexes \<and> JStr ` set (hs_sourcetypes (hp_scope revised)) \<subseteq> set kinds)
              (Validation ''edited plan sources are outside the discovered catalog'')) (\<lambda>_.
     case orchestrator_discover env (Some revised) snapshot_id of
       Inl _ \<Rightarrow> Inl (IntegrationUnavailable ''scoped discovery failed; the previous plan is unchanged'')
     | Inr (d, fresh) \<Rightarrow>
         bindR (refreshed_snapshot fresh snapshot) (\<lambda>updated.
           Inr (revised\<lparr>hp_discovery_snapshot_id := snapshot_id,
                        hp_coverage_limitations := fromkeys (hp_coverage_limitations revised @ dc_limitations d)\<rparr>,
                [SetDiscovery updated]))))))"

definition same_identities :: "HuntPlan \<Rightarrow> HuntPlan \<Rightarrow> bool" where
  "same_identities revised previous \<longleftrightarrow>
     hp_hunt_id revised = hp_hunt_id previous \<and> hp_plan_id revised = hp_plan_id previous
     \<and> hp_discovery_snapshot_id revised = hp_discovery_snapshot_id previous
     \<and> hp_execution_config_snapshot_id revised = hp_execution_config_snapshot_id previous"

definition edited_plan :: "workflow_env \<Rightarrow> hunt_row \<Rightarrow> json_fields \<Rightarrow> string \<Rightarrow> int \<Rightarrow> (json \<times> change list) outcome" where
  "edited_plan env row payload snapshot_id version =
     (let contract = Validation ''edited plan does not satisfy the production plan contract or supplied intelligence reference boundary'' in
      bindR (model_validate env (plan_of row)) (\<lambda>previous.
      bindR (on_value_error contract (model_validate env (JObj payload))) (\<lambda>revised.
      bindR (case h_discovery row of None \<Rightarrow> Inl (Crash (TypeError ''object has no attribute get'')) | Some d \<Rightarrow> Inr d) (\<lambda>snapshot.
      bindR (check_refs contract (JList (map JStr (hp_intelligence_refs revised))) snapshot) (\<lambda>_.
      bindR (ensure (same_identities revised previous) (Validation ''plan editing cannot replace application-assigned identities'')) (\<lambda>_.
      bindR (ensure (\<not> outside_scope revised) (Validation ''edited plan data sources are outside its scope'')) (\<lambda>_.
      bindR (if hp_scope revised \<noteq> hp_scope previous \<or> set (plan_pairs revised) \<noteq> set (plan_pairs previous)
             then rediscover env snapshot revised snapshot_id else Inr (revised, [])) (\<lambda>(final, updates).
        Inr (dump_plan env (final\<lparr>hp_plan_version := version\<rparr>), updates)))))))))"

definition save_plan ::
  "workflow_env \<Rightarrow> (store \<Rightarrow> store) \<Rightarrow> string \<Rightarrow> string \<Rightarrow> int \<Rightarrow> json \<Rightarrow> string \<Rightarrow> utc \<Rightarrow> unit action" where
  "save_plan env others owner hunt expected_version plan snapshot_id now =
     bindS (readS (owned_row owner hunt)) (\<lambda>row.
     bindS (guardS (h_state row \<in> {AWAITING_PLAN_REVIEW, PLAN_DRAFT}) (Conflict ''plan editing is not allowed in the current state'')) (\<lambda>_.
     bindS (guardS (h_plan_version row = Some expected_version) (Conflict ''plan version is stale'')) (\<lambda>_.
     bindS (liftS (validate_plan_payload plan)) (\<lambda>payload.
     bindS (liftS (edited_plan env row payload snapshot_id (expected_version + 1))) (\<lambda>(edited, updates).
     bindS (elsewhere others) (\<lambda>_.
       update_hunt owner hunt (anything\<lparr>ex_plan_version := Some expected_version\<rparr>)
         ([SetState AWAITING_PLAN_REVIEW, SetPlan edited, SetPlanVersion (expected_version + 1), SetApproval None, SetUpdated now]
          @ updates)))))))"

definition with_limitation :: "json \<Rightarrow> string \<Rightarrow> json outcome" where
  "with_limitation plan note =
     (case plan of
        JObj kvs \<Rightarrow> bindR (iterate (get_or kvs ''coverage_limitations'' (JList []))) (\<lambda>old.
                       Inr (JObj (AList.update ''coverage_limitations'' (JList (old @ [JStr note])) kvs)))
      | _ \<Rightarrow> Inl (Crash (TypeError ''object has no attribute get'')))"

definition plan_version_of :: "hunt_row \<Rightarrow> int outcome" where
  "plan_version_of row = (case h_plan_version row of None \<Rightarrow> Inl (Crash (TypeError ''int() argument'')) | Some v \<Rightarrow> Inr v)"

definition revise_plan :: "(store \<Rightarrow> store) \<Rightarrow> string \<Rightarrow> string \<Rightarrow> string \<Rightarrow> utc \<Rightarrow> unit action" where
  "revise_plan others owner hunt instruction now =
     bindS (readS (owned_row owner hunt)) (\<lambda>row.
     bindS (guardS (h_state row \<in> {AWAITING_PLAN_REVIEW, PLAN_DRAFT}) (Conflict ''plan revision is not allowed in the current state'')) (\<lambda>_.
     bindS (liftS (with_limitation (plan_of row) (''Analyst revision request: '' @ instruction))) (\<lambda>plan.
     bindS (liftS (plan_version_of row)) (\<lambda>version.
     bindS (elsewhere others) (\<lambda>_.
       update_hunt owner hunt (anything\<lparr>ex_plan_version := Some version\<rparr>)
         [SetState AWAITING_PLAN_REVIEW, SetPlan plan, SetPlanVersion (version + 1), SetApproval None, SetUpdated now])))))"

definition reject :: "(store \<Rightarrow> store) \<Rightarrow> string \<Rightarrow> string \<Rightarrow> string \<Rightarrow> utc \<Rightarrow> unit action" where
  "reject others owner hunt note now =
     bindS (readS (owned_row owner hunt)) (\<lambda>row.
     bindS (guardS (h_state row = AWAITING_PLAN_REVIEW) (Conflict ''only a plan awaiting review can be rejected'')) (\<lambda>_.
     bindS (liftS (with_limitation (plan_of row) (''Rejected for revision: '' @ note))) (\<lambda>plan.
     bindS (liftS (plan_version_of row)) (\<lambda>version.
     bindS (elsewhere others) (\<lambda>_.
       update_hunt owner hunt ((in_state AWAITING_PLAN_REVIEW)\<lparr>ex_plan_version := Some version\<rparr>)
         [SetState PLAN_DRAFT, SetPlan plan, SetApproval None, SetUpdated now])))))"

subsection \<open>Approving a plan\<close>

definition snapshot_of :: "hunt_row \<Rightarrow> json_fields" where
  "snapshot_of row = (case h_discovery row of None \<Rightarrow> [] | Some d \<Rightarrow> d)"

definition sampled_pairs :: "json_fields \<Rightarrow> json list list outcome" where
  "sampled_pairs payload =
     bindR (field_of payload ''schema_sampling_scope'') (\<lambda>s.
     bindR (field_of (object_fields s) ''source_pairs'') (\<lambda>ps.
     bindR (iterate ps) (mapR iterate)))"

definition check_sampled_scope :: "workflow_env \<Rightarrow> json \<Rightarrow> json_fields \<Rightarrow> unit outcome" where
  "check_sampled_scope env plan snapshot =
     (case get_or snapshot ''payload'' (JObj []) of
        JObj payload \<Rightarrow>
          (let requested = get_or payload ''schema_requested_scope'' JNull in
           if requested = JNull then Inr ()
           else bindR (model_validate env plan) (\<lambda>reviewed.
                bindR (sampled_pairs payload) (\<lambda>pairs.
                  ensure (json_equal (dump_scope env (hp_scope reviewed)) requested
                          \<and> set (map (\<lambda>(i, k). [JStr i, JStr k]) (plan_pairs reviewed)) = set pairs)
                    (Conflict ''plan scope does not match its discovery snapshot; save the plan to refresh discovery''))))
      | _ \<Rightarrow> Inl (Crash (TypeError ''object has no attribute get'')))"

definition config_snapshot_of :: "json_fields \<Rightarrow> json_fields option" where
  "config_snapshot_of snapshot = (case get_or snapshot ''execution_config_snapshot'' JNull of JObj c \<Rightarrow> Some c | _ \<Rightarrow> None)"

definition version_json :: "int option \<Rightarrow> json" where
  "version_json v = (case v of None \<Rightarrow> JNull | Some n \<Rightarrow> JInt n)"

definition approval_fields :: "hunt_row \<Rightarrow> string \<Rightarrow> string \<Rightarrow> string option \<Rightarrow> utc \<Rightarrow> json_fields" where
  "approval_fields row approval_id owner note now =
     [(''approval_id'', JStr approval_id), (''plan_version'', version_json (h_plan_version row)),
      (''plan_sha256'', JStr (json_digest (plan_of row))), (''approved_by_user_id'', JStr owner),
      (''approved_at_utc'', JStr (serialize_utc now)),
      (''analyst_note'', JStr (case note of None \<Rightarrow> ''unknown'' | Some n \<Rightarrow> if n = [] then ''unknown'' else n))]
     @ (case config_snapshot_of (snapshot_of row) of
          None \<Rightarrow> []
        | Some c \<Rightarrow> [(''execution_config_snapshot_id'', get_or c ''snapshot_id'' JNull),
                     (''execution_config_sha256'', get_or c ''sha256'' JNull)])"

definition approve :: "workflow_env \<Rightarrow> (store \<Rightarrow> store) \<Rightarrow> string \<Rightarrow> string \<Rightarrow> string option \<Rightarrow> string \<Rightarrow> utc \<Rightarrow> unit action" where
  "approve env others owner hunt note approval_id now =
     bindS (readS (owned_row owner hunt)) (\<lambda>row.
     bindS (guardS (h_state row = AWAITING_PLAN_REVIEW) (Conflict ''only a plan awaiting review can be approved'')) (\<lambda>_.
     bindS (liftS (validate_plan_payload (plan_of row))) (\<lambda>plan.
     bindS (liftS (check_refs (Conflict ''plan intelligence reference is not bound to a supplied source; edit the plan before approval'')
              (get_or plan ''intelligence_refs'' (JList [])) (snapshot_of row))) (\<lambda>_.
     bindS (liftS (check_sampled_scope env (plan_of row) (snapshot_of row))) (\<lambda>_.
     bindS (liftS (plan_version_of row)) (\<lambda>version.
     bindS (elsewhere others) (\<lambda>_.
       update_hunt owner hunt ((in_state AWAITING_PLAN_REVIEW)\<lparr>ex_plan_version := Some version\<rparr>)
         [SetState APPROVED, SetApproval (Some (approval_fields row approval_id owner note now)), SetUpdated now])))))))"

subsection \<open>Queueing and executing\<close>

definition approval_of :: "hunt_row \<Rightarrow> json_fields" where
  "approval_of row = (case h_approval row of None \<Rightarrow> [] | Some a \<Rightarrow> a)"

definition check_config_binding :: "workflow_env \<Rightarrow> hunt_row \<Rightarrow> json_fields option outcome" where
  "check_config_binding env row =
     (case config_snapshot_of (snapshot_of row) of
        None \<Rightarrow> Inr None
      | Some c \<Rightarrow>
          bindR (ensure (json_equal (get_or (approval_of row) ''execution_config_snapshot_id'' JNull) (get_or c ''snapshot_id'' JNull)
                         \<and> json_equal (get_or (approval_of row) ''execution_config_sha256'' JNull) (get_or c ''sha256'' JNull))
                   (Conflict ''approved execution configuration binding is invalid'')) (\<lambda>_.
          bindR (validate_execution_snapshot env c) (\<lambda>_. Inr (Some c))))"

definition job_payload :: "string \<Rightarrow> hunt_row \<Rightarrow> string" where
  "job_payload hunt row =
     dumps (JObj [(''hunt_id'', JStr hunt), (''plan_version'', version_json (h_plan_version row)),
       (''plan_sha256'', get_or (approval_of row) ''plan_sha256'' JNull),
       (''execution_config_snapshot_id'', get_or (approval_of row) ''execution_config_snapshot_id'' JNull),
       (''execution_config_sha256'', get_or (approval_of row) ''execution_config_sha256'' JNull)])"

text \<open>The update and the job are one transaction: a failing insert leaves neither.\<close>

definition queue_hunt :: "workflow_env \<Rightarrow> string \<Rightarrow> string \<Rightarrow> hunt_row \<Rightarrow> int \<Rightarrow> string \<Rightarrow> utc \<Rightarrow> job action" where
  "queue_hunt env owner hunt row version job_id now st =
     (case update_hunt owner hunt ((in_state APPROVED)\<lparr>ex_plan_version := Some version\<rparr>) [SetState QUEUED, SetUpdated now] st of
        (_, Inl e) \<Rightarrow> (st, Inl e)
      | (st', Inr _) \<Rightarrow>
          (case enqueue (job_service env) (job_table st') owner hunt (''hunt:'' @ hunt @ '':execution'') (job_payload hunt row) None job_id now of
             Inl _ \<Rightarrow> (st, Inl (Crash integrity_error))
           | Inr (t, j) \<Rightarrow> (st'\<lparr>job_table := t\<rparr>, Inr (j\<lparr>j_payload := []\<rparr>))))"

definition execute :: "workflow_env \<Rightarrow> (store \<Rightarrow> store) \<Rightarrow> string \<Rightarrow> string \<Rightarrow> string \<Rightarrow> utc \<Rightarrow> job action" where
  "execute env others owner hunt job_id now =
     bindS (readS (owned_row owner hunt)) (\<lambda>row.
     bindS (guardS (h_state row = APPROVED \<and> approval_of row \<noteq> []) (Conflict ''execution requires approval of the current plan version'')) (\<lambda>_.
     bindS (liftS (field_of (approval_of row) ''plan_version'')) (\<lambda>approved.
     bindS (guardS (approved = version_json (h_plan_version row)) (Conflict ''approved plan version no longer matches the current plan'')) (\<lambda>_.
     bindS (liftS (validate_plan_payload (plan_of row))) (\<lambda>plan.
     bindS (liftS (check_refs (Conflict ''plan intelligence reference is not bound to a supplied source'')
              (get_or plan ''intelligence_refs'' (JList [])) (snapshot_of row))) (\<lambda>_.
     bindS (liftS (check_config_binding env row)) (\<lambda>config.
     bindS (guardS (config \<noteq> None) (Conflict ''approved execution configuration binding is invalid'')) (\<lambda>_.
     bindS (liftS (plan_version_of row)) (\<lambda>version.
     bindS (elsewhere others) (\<lambda>_.
       queue_hunt env owner hunt row version job_id now))))))))))"

definition lease_outcome :: "job_error + 'a \<Rightarrow> 'a outcome" where
  "lease_outcome r = (case r of
     Inr x \<Rightarrow> Inr x
   | Inl (JobConflict m) \<Rightarrow> Inl (Conflict m)
   | Inl (JobValueError m) \<Rightarrow> Inl (Crash (ValueError m))
   | Inl (IntegrityError m) \<Rightarrow> Inl (Crash (RuntimeError m)))"

definition start_execution :: "(store \<Rightarrow> store) \<Rightarrow> string \<Rightarrow> string \<Rightarrow> string \<Rightarrow> string \<Rightarrow> utc \<Rightarrow> unit action" where
  "start_execution others owner hunt job_id worker now =
     bindS (readS (\<lambda>st. lease_outcome (require_lease (job_table st) job_id worker None None now))) (\<lambda>lease.
     bindS (guardS (j_hunt_id lease = hunt \<and> j_owner_id lease = owner) (Conflict ''job lease is not scoped to this hunt'')) (\<lambda>_.
     bindS (elsewhere others) (\<lambda>_.
       update_hunt owner hunt (in_state QUEUED) [SetState RUNNING, SetUpdated now])))"

text \<open>What \<open>execute_job\<close> checks before it runs or resumes a job: nothing to do for a cancelled hunt or a finished
  draft, otherwise the row and its plan.\<close>

definition execution_binding :: "workflow_env \<Rightarrow> JobLease \<Rightarrow> utc \<Rightarrow> store \<Rightarrow> (hunt_row \<times> HuntPlan) option outcome" where
  "execution_binding env lease now st =
     bindR (ensure (integrations env) (IntegrationUnavailable ''production Splunk and model adapters are not configured'')) (\<lambda>_.
     bindR (lease_outcome (require_lease (job_table st) (l_job_id lease) (l_worker_id lease) (Some (l_generation lease)) (Some (l_scope lease)) now)) (\<lambda>_.
     bindR (owned_row (l_owner_id lease) (l_hunt_id lease) st) (\<lambda>row.
     if h_state row \<in> {CANCELLED, REPORT_DRAFT} then Inr None
     else
       bindR (ensure (h_state row \<in> {QUEUED, RUNNING, SYNTHESIZING}) (Conflict ''execution job is not recoverable'')) (\<lambda>_.
       bindR (ensure (get_or (approval_of row) ''plan_sha256'' JNull = JStr (json_digest (plan_of row))
                      \<and> get_or (approval_of row) ''plan_version'' JNull = version_json (h_plan_version row))
                (Conflict ''approved plan binding is invalid'')) (\<lambda>_.
       bindR (check_config_binding env row) (\<lambda>config.
       bindR (ensure (config \<noteq> None) (Conflict ''execution configuration snapshot is missing'')) (\<lambda>_.
       bindR (validate_plan_payload (plan_of row)) (\<lambda>payload.
       bindR (model_validate env (JObj payload)) (\<lambda>plan.
       bindR (ensure (JStr (hp_execution_config_snapshot_id plan) = get_or (the config) ''snapshot_id'' JNull)
                (Conflict ''plan execution configuration binding is invalid'')) (\<lambda>_.
         Inr (Some (row, plan))))))))))))"

definition MAX_RESULT_BYTES :: int where "MAX_RESULT_BYTES = 8 * 1024 * 1024"

definition report_changes :: "string \<Rightarrow> json_fields \<Rightarrow> utc \<Rightarrow> change list" where
  "report_changes report_id content now =
     [SetState REPORT_DRAFT, SetReportId report_id, SetReportVersion 1, SetReportState REPORT_DRAFT, SetReportContent content, SetUpdated now]"

definition persist_execution_result ::
  "workflow_env \<Rightarrow> (store \<Rightarrow> store) \<Rightarrow> string \<Rightarrow> string \<Rightarrow> json \<Rightarrow> json \<Rightarrow> string \<Rightarrow> utc \<Rightarrow> unit action" where
  "persist_execution_result env others owner hunt results report report_id now =
     bindS (guardS (object_json results \<and> object_json report) (Validation ''execution results and report content must be JSON objects'')) (\<lambda>_.
     bindS (guardS (int (length (encode (dumps_text escape_raw results))) \<le> MAX_RESULT_BYTES) (Validation ''execution results exceed the 8 MiB limit'')) (\<lambda>_.
     bindS (readS (owned_row owner hunt)) (\<lambda>row.
     bindS (guardS (h_state row \<noteq> CANCELLED) (Conflict ''cancelled hunts cannot accept late execution results'')) (\<lambda>_.
     bindS (liftS (validate_report_payload (we_report env) report (object_fields results))) (\<lambda>content.
     if h_state row = REPORT_DRAFT then returnS ()
     else
       bindS (if h_state row = RUNNING then
                bindS (elsewhere others) (\<lambda>_.
                  update_hunt owner hunt (in_state RUNNING) [SetState SYNTHESIZING, SetResults (object_fields results), SetUpdated now])
              else guardS (h_state row = SYNTHESIZING) (Conflict ''execution result is not valid for the current hunt state'')) (\<lambda>_.
       bindS (elsewhere others) (\<lambda>_.
         update_hunt owner hunt (in_state SYNTHESIZING) (report_changes report_id content now))))))))"

definition fail_execution :: "(store \<Rightarrow> store) \<Rightarrow> string \<Rightarrow> string \<Rightarrow> string \<Rightarrow> utc \<Rightarrow> unit action" where
  "fail_execution others owner hunt reason now =
     bindS (readS (owned_row owner hunt)) (\<lambda>row.
     if h_state row \<in> {CANCELLED, FINALIZED, HuntState.FAILED} then returnS ()
     else
       bindS (elsewhere others) (\<lambda>_.
         update_hunt owner hunt (in_state (h_state row))
           [SetState HuntState.FAILED, SetUpdated now,
            SetResults (AList.update ''failure'' (JStr (take 2000 (if reason = [] then ''execution failed'' else reason)))
                          (case h_results row of None \<Rightarrow> [] | Some x \<Rightarrow> x))]))"

subsection \<open>Reports\<close>

record report_view =
  rv_report_id :: string
  rv_version :: "int option"
  rv_state :: "HuntState option"
  rv_content :: "json_fields option"

definition report :: "string \<Rightarrow> string \<Rightarrow> store \<Rightarrow> report_view outcome" where
  "report owner hunt st =
     bindR (owned_row owner hunt st) (\<lambda>row.
     case h_report_id row of
       None \<Rightarrow> Inl (Conflict ''report is not available'')
     | Some i \<Rightarrow> Inr \<lparr>rv_report_id = i, rv_version = h_report_version row, rv_state = h_report_state row, rv_content = h_report_content row\<rparr>)"

definition results_of :: "hunt_row \<Rightarrow> json_fields" where
  "results_of row = (case h_results row of None \<Rightarrow> [] | Some x \<Rightarrow> x)"

definition draft_report :: "int \<Rightarrow> expectation" where
  "draft_report version = (in_state REPORT_DRAFT)\<lparr>ex_report_state := Some REPORT_DRAFT, ex_report_version := Some version\<rparr>"

definition save_report :: "workflow_env \<Rightarrow> (store \<Rightarrow> store) \<Rightarrow> string \<Rightarrow> string \<Rightarrow> int \<Rightarrow> json_fields \<Rightarrow> utc \<Rightarrow> unit action" where
  "save_report env others owner hunt expected_version content now =
     bindS (readS (owned_row owner hunt)) (\<lambda>row.
     bindS (guardS (h_report_state row = Some REPORT_DRAFT) (Conflict ''finalized reports cannot be edited'')) (\<lambda>_.
     bindS (guardS (h_report_version row = Some expected_version) (Conflict ''report version is stale'')) (\<lambda>_.
     bindS (guardS (\<not> (map_of (case h_report_content row of None \<Rightarrow> [] | Some c \<Rightarrow> c) ''observed_activity'' \<noteq> None
                       \<and> map_of content ''observed_activity'' = None)) (Validation ''report observed activity cannot be removed'')) (\<lambda>_.
     bindS (liftS (validate_report_payload (we_report env) (JObj content) (results_of row))) (\<lambda>normal.
     bindS (elsewhere others) (\<lambda>_.
       update_hunt owner hunt (draft_report expected_version)
         [SetReportContent normal, SetReportVersion (expected_version + 1), SetUpdated now]))))))"

definition formatted_pdf :: "workflow_env \<Rightarrow> string \<Rightarrow> json_fields \<Rightarrow> string" where
  "formatted_pdf env title content = pdf_document (report_lines env title content)"

definition finalize_report :: "workflow_env \<Rightarrow> (store \<Rightarrow> store) \<Rightarrow> string \<Rightarrow> string \<Rightarrow> int \<Rightarrow> utc \<Rightarrow> unit action" where
  "finalize_report env others owner hunt expected_version now =
     bindS (readS (owned_row owner hunt)) (\<lambda>row.
     bindS (guardS (h_report_state row = Some REPORT_DRAFT \<and> h_report_version row = Some expected_version)
              (Conflict ''report is finalized or its version is stale'')) (\<lambda>_.
     bindS (liftS (validate_report_payload (we_report env) (case h_report_content row of None \<Rightarrow> JNull | Some c \<Rightarrow> JObj c) (results_of row))) (\<lambda>content.
     bindS (elsewhere others) (\<lambda>_.
       update_hunt owner hunt (draft_report expected_version)
         [SetState FINALIZED, SetReportState FINALIZED, SetReportPdf (formatted_pdf env (h_title row) content), SetUpdated now]))))"

definition pdf :: "string \<Rightarrow> string \<Rightarrow> store \<Rightarrow> string outcome" where
  "pdf owner hunt st =
     bindR (owned_row owner hunt st) (\<lambda>row.
     case (h_report_state row = Some FINALIZED, h_report_pdf row) of
       (True, Some b) \<Rightarrow> Inr b
     | _ \<Rightarrow> Inl (Conflict ''report must be finalized before PDF download''))"

subsection \<open>Listing\<close>

record hunt_summary =
  hs_hunt_id :: string
  hs_title :: string
  hs_hypothesis :: string
  hs_state :: HuntState
  hs_created_at :: utc
  hs_updated_at :: utc

definition summary_of :: "hunt_row \<Rightarrow> hunt_summary" where
  "summary_of r = \<lparr>hs_hunt_id = h_hunt_id r, hs_title = h_title r, hs_hypothesis = take 500 (h_hypothesis r), hs_state = h_state r,
     hs_created_at = h_created r, hs_updated_at = h_updated r\<rparr>"

definition newest_first :: "hunt_row list \<Rightarrow> hunt_row list" where
  "newest_first rs = rev (sort_key (\<lambda>r. (h_created r, h_hunt_id r)) rs)"

definition list_hunts :: "string \<Rightarrow> int \<Rightarrow> string option \<Rightarrow> store \<Rightarrow> hunt_summary list outcome" where
  "list_hunts owner limit cursor st =
     (let mine = filter (\<lambda>r. h_owner_id r = owner) (hunts st) in
      bindR (ensure (1 \<le> limit \<and> limit \<le> 100) (Validation ''limit must be between 1 and 100'')) (\<lambda>_.
      bindR (case cursor of
               None \<Rightarrow> Inr mine
             | Some c \<Rightarrow>
                 (case find (\<lambda>r. h_hunt_id r = c) mine of
                    None \<Rightarrow> Inl (Validation ''invalid hunt page cursor'')
                  | Some at \<Rightarrow> Inr (filter (\<lambda>r. h_created r < h_created at \<or> h_created r = h_created at \<and> h_hunt_id r < c) mine))) (\<lambda>rows.
        Inr (map summary_of (take (nat limit) (newest_first rows))))))"

subsection \<open>Requests\<close>

text \<open>The operations as requests to the service, and the steps of the job queue, run one after the other.  A
  request that raises keeps what it had committed.\<close>

datatype request =
    Create string string string string string string string utc
  | Cancel string string utc
  | Discover string string plan_draws utc
  | SavePlan string string int json string utc
  | RevisePlan string string string utc
  | Reject string string string utc
  | Approve string string "string option" string utc
  | Execute string string string utc
  | StartExecution string string string string utc
  | PersistResult string string json json string utc
  | FailExecution string string string utc
  | SaveReport string string int json_fields utc
  | FinalizeReport string string int utc
  | Queue JobService job_op

fun perform :: "workflow_env \<Rightarrow> request \<Rightarrow> store \<Rightarrow> store" where
  "perform env (Create hunt owner title hyp obj intel syn now) st = fst (create_hunt hunt owner title hyp obj intel syn now st)"
| "perform env (Cancel owner hunt now) st = fst (cancel id owner hunt now st)"
| "perform env (Discover owner hunt draws now) st = fst (discover env id owner hunt draws now st)"
| "perform env (SavePlan owner hunt v plan sid now) st = fst (save_plan env id owner hunt v plan sid now st)"
| "perform env (RevisePlan owner hunt note now) st = fst (revise_plan id owner hunt note now st)"
| "perform env (Reject owner hunt note now) st = fst (reject id owner hunt note now st)"
| "perform env (Approve owner hunt note i now) st = fst (approve env id owner hunt note i now st)"
| "perform env (Execute owner hunt i now) st = fst (execute env id owner hunt i now st)"
| "perform env (StartExecution owner hunt i w now) st = fst (start_execution id owner hunt i w now st)"
| "perform env (PersistResult owner hunt x r i now) st = fst (persist_execution_result env id owner hunt x r i now st)"
| "perform env (FailExecution owner hunt m now) st = fst (fail_execution id owner hunt m now st)"
| "perform env (SaveReport owner hunt v c now) st = fst (save_report env id owner hunt v c now st)"
| "perform env (FinalizeReport owner hunt v now) st = fst (finalize_report env id owner hunt v now st)"
| "perform env (Queue svc op) st = st\<lparr>job_table := job_step svc (job_table st) op\<rparr>"

definition empty_store :: store where
  "empty_store = \<lparr>hunts = [], audits = [], job_table = []\<rparr>"

definition serve :: "workflow_env \<Rightarrow> request list \<Rightarrow> store" where
  "serve env rs = fold (perform env) rs empty_store"

subsection \<open>The life of a row\<close>

text \<open>The steps a stored hunt can take, with what the service has checked when it takes them.\<close>

inductive row_step :: "workflow_env \<Rightarrow> hunt_row \<Rightarrow> hunt_row \<Rightarrow> bool" for env where
  begin_discovery: "h_state r = CREATED \<Longrightarrow> row_step env r (r\<lparr>h_state := DISCOVERING, h_updated := t\<rparr>)"
| planned: "h_state r = DISCOVERING \<Longrightarrow> row_step env r
     (r\<lparr>h_state := PLAN_DRAFT, h_discovery := Some d, h_plan := Some p, h_plan_version := Some 1, h_updated := t\<rparr>)"
| submitted: "h_state r = PLAN_DRAFT \<Longrightarrow> row_step env r (r\<lparr>h_state := AWAITING_PLAN_REVIEW, h_updated := t\<rparr>)"
| edited: "h_state r \<in> {AWAITING_PLAN_REVIEW, PLAN_DRAFT} \<Longrightarrow> h_plan_version r = Some v \<Longrightarrow> row_step env r
     (r\<lparr>h_state := AWAITING_PLAN_REVIEW, h_plan := Some p, h_plan_version := Some (v + 1), h_approval := None,
        h_updated := t, h_discovery := d\<rparr>)"
| rejected: "h_state r = AWAITING_PLAN_REVIEW \<Longrightarrow> row_step env r
     (r\<lparr>h_state := PLAN_DRAFT, h_plan := Some p, h_approval := None, h_updated := t\<rparr>)"
| approved: "h_state r = AWAITING_PLAN_REVIEW \<Longrightarrow> row_step env r
     (r\<lparr>h_state := APPROVED, h_approval := Some (approval_fields r i owner note now), h_updated := t\<rparr>)"
| queued: "h_state r = APPROVED \<Longrightarrow> row_step env r (r\<lparr>h_state := QUEUED, h_updated := t\<rparr>)"
| started: "h_state r = QUEUED \<Longrightarrow> row_step env r (r\<lparr>h_state := RUNNING, h_updated := t\<rparr>)"
| investigated: "h_state r = RUNNING \<Longrightarrow> row_step env r
     (r\<lparr>h_state := SYNTHESIZING, h_results := Some x, h_updated := t\<rparr>)"
| reported: "h_state r = SYNTHESIZING \<Longrightarrow> row_step env r
     (r\<lparr>h_state := REPORT_DRAFT, h_report_id := Some i, h_report_version := Some 1, h_report_state := Some REPORT_DRAFT,
        h_report_content := Some c, h_updated := t\<rparr>)"
| report_saved: "h_state r = REPORT_DRAFT \<Longrightarrow> h_report_state r = Some REPORT_DRAFT \<Longrightarrow> h_report_version r = Some v \<Longrightarrow> row_step env r
     (r\<lparr>h_report_content := Some c, h_report_version := Some (v + 1), h_updated := t\<rparr>)"
| finalized: "h_state r = REPORT_DRAFT \<Longrightarrow> h_report_state r = Some REPORT_DRAFT \<Longrightarrow> h_report_content r = Some c \<Longrightarrow>
     validate_report_payload (we_report env) (JObj c) (results_of r) = Inr c \<Longrightarrow> row_step env r
     (r\<lparr>h_state := FINALIZED, h_report_state := Some FINALIZED, h_report_pdf := Some (formatted_pdf env (h_title r) c), h_updated := t\<rparr>)"
| failed: "h_state r \<notin> {CANCELLED, FINALIZED, HuntState.FAILED} \<Longrightarrow> row_step env r
     (r\<lparr>h_state := HuntState.FAILED, h_updated := t, h_results := x\<rparr>)"
| cancelled: "h_state r \<notin> {CANCELLED, FINALIZED, HuntState.FAILED} \<Longrightarrow> row_step env r
     (r\<lparr>h_state := CANCELLED, h_updated := t\<rparr>)"

text \<open>A step of the store writes one row together with the audit record of the change, adds a new
  row, or leaves the hunts alone.\<close>

inductive store_step :: "workflow_env \<Rightarrow> store \<Rightarrow> store \<Rightarrow> bool" for env where
  row: "hunts st = pre @ r # post \<Longrightarrow> row_step env r r' \<Longrightarrow> hunts st' = pre @ r' # post \<Longrightarrow>
     audits st' = audits st @ entry \<Longrightarrow>
     (entry = [] \<and> h_state r' = h_state r
      \<or> (\<exists>a. entry = [a] \<and> ha_hunt_id a = h_hunt_id r \<and> ha_prior a = Some (h_state r) \<and> ha_resulting a = h_state r'))
     \<Longrightarrow> store_step env st st'"
| new: "hunts st' = hunts st @ [r] \<Longrightarrow> h_hunt_id r \<notin> h_hunt_id ` set (hunts st) \<Longrightarrow>
     r = new_hunt hunt owner title hyp obj intel syn now \<Longrightarrow>
     audits st' = audits st @ [a] \<Longrightarrow> ha_hunt_id a = h_hunt_id r \<Longrightarrow> ha_prior a = None \<Longrightarrow> ha_resulting a = CREATED
     \<Longrightarrow> store_step env st st'"
| other: "hunts st' = hunts st \<Longrightarrow> audits st' = audits st @ entry \<Longrightarrow>
     list_all (\<lambda>a. ha_prior a = Some CANCELLED \<and> ha_resulting a = CANCELLED
        \<and> (\<exists>r \<in> set (hunts st). h_hunt_id r = ha_hunt_id a \<and> h_state r = CANCELLED)) entry
     \<Longrightarrow> store_step env st st'"

definition keyed_hunts :: "store \<Rightarrow> bool" where
  "keyed_hunts st \<longleftrightarrow> distinct (map h_hunt_id (hunts st))"

lemma row_step_id: "row_step env r r' \<Longrightarrow> h_hunt_id r' = h_hunt_id r \<and> h_owner_id r' = h_owner_id r \<and> h_title r' = h_title r \<and> h_created r' = h_created r"
  by (induction rule: row_step.induct) simp_all

lemma store_step_keyed: "store_step env st st' \<Longrightarrow> keyed_hunts st \<Longrightarrow> keyed_hunts st'"
  by (induction rule: store_step.induct) (simp_all add: keyed_hunts_def row_step_id)

abbreviation store_steps :: "workflow_env \<Rightarrow> store \<Rightarrow> store \<Rightarrow> bool" where
  "store_steps env \<equiv> (store_step env)\<^sup>*\<^sup>*"

lemma store_steps_keyed: "store_steps env st st' \<Longrightarrow> keyed_hunts st \<Longrightarrow> keyed_hunts st'"
  by (induction rule: rtranclp_induct) (auto intro: store_step_keyed)

subsection \<open>Requests take these steps\<close>

lemma bindS_steps:
  "bindS (readS f) g st = (case f st of Inl e \<Rightarrow> (st, Inl e) | Inr x \<Rightarrow> g x st)"
  "bindS (liftS r) g st = (case r of Inl e \<Rightarrow> (st, Inl e) | Inr x \<Rightarrow> g x st)"
  "bindS (guardS b e) h st = (if b then h () st else (st, Inl e))"
  "bindS (elsewhere others) h st = h () (others st)"
  by (simp_all add: bindS_def readS_def liftS_def guardS_def elsewhere_def modifyS_def returnS_def failS_def split: sum.splits)

lemma bindS_fst: "fst (bindS m f st) = (case snd (m st) of Inl e \<Rightarrow> fst (m st) | Inr x \<Rightarrow> fst (f x (fst (m st))))"
  by (simp add: bindS_def split: prod.splits sum.splits)

lemma length_filter_one:
  "length (filter p xs) = 1 \<Longrightarrow> \<exists>pre x post. xs = pre @ x # post \<and> p x \<and> (\<forall>y \<in> set pre \<union> set post. \<not> p y)"
proof (induction xs)
  case (Cons x xs)
  show ?case
  proof (cases "p x")
    case True
    then show ?thesis using Cons.prems by (intro exI [of _ "[]"] exI [of _ x] exI [of _ xs]) (auto simp: filter_empty_conv)
  next
    case False
    then obtain pre y post where "xs = pre @ y # post" "p y" "\<forall>z \<in> set pre \<union> set post. \<not> p z" using Cons by auto
    then show ?thesis using False by (intro exI [of _ "x # pre"] exI [of _ y] exI [of _ post]) auto
  qed
qed simp

lemma state_unaltered:
  assumes "''state'' \<notin> set (changed_fields r cs)"
  shows "h_state (fold apply_change cs r) = h_state r"
proof -
  have "s = h_state r" if "SetState s \<in> set cs" for s
  proof (rule ccontr)
    assume "s \<noteq> h_state r"
    then have "alters r (SetState s) = Some ''state''" by simp
    then have "Some ''state'' \<in> alters r ` set cs" using that by (metis image_eqI)
    then show False using assms by (simp add: changed_fields_def)
  qed
  moreover have "h_state (apply_change c x) = h_state x" if "\<And>s. c = SetState s \<Longrightarrow> s = h_state x" for c x
    using that by (cases c) auto
  then have "(\<And>s. SetState s \<in> set cs \<Longrightarrow> s = h_state x) \<Longrightarrow> h_state (fold apply_change cs x) = h_state x" for x
    by (induction cs arbitrary: x) auto
  ultimately show ?thesis by blast
qed

lemma update_hunt_cases:
  assumes "keyed_hunts st" and "owned_row owner hunt st = Inr r"
  obtains (conflict) e where "update_hunt owner hunt ex cs st = (st, Inl e)"
  | (written) pre post st' where "update_hunt owner hunt ex cs st = (st', Inr ())" "expected ex r" "hunts st = pre @ r # post"
      "hunts st' = pre @ fold apply_change cs r # post" "audits st' = audits st @ update_audit owner hunt r cs" "job_table st' = job_table st"
proof -
  let ?p = "\<lambda>r. owned owner hunt r \<and> expected ex r"
  show ?thesis
  proof (cases "length (filter ?p (hunts st)) = 1")
    case False
    then have "\<exists>e. update_hunt owner hunt ex cs st = (st, Inl e)"
      by (auto simp: update_hunt_def Let_def split: option.splits)
    then show ?thesis using conflict by blast
  next
    case True
    then obtain pre x post where x: "hunts st = pre @ x # post" "?p x" "\<forall>y \<in> set pre \<union> set post. \<not> ?p y"
      using length_filter_one by blast
    have r: "r \<in> set (hunts st)" "owned owner hunt r"
      using assms(2) by (auto simp: owned_row_def find_Some_iff split: option.splits)
    have "x = r"
      using assms(1) r x(1,2) unfolding keyed_hunts_def owned_def by (metis distinct_map in_set_conv_decomp inj_onD)
    have "find ?p (hunts st) = Some x"
      unfolding x(1) find_append using x(2,3) by (auto simp: find_None_iff split: option.splits dest: find_Some_iff [THEN iffD1])
    moreover have "map (\<lambda>r. if ?p r then fold apply_change cs r else r) (hunts st) = pre @ fold apply_change cs x # post"
      unfolding x(1) using x(2,3) by (auto intro!: map_idI)
    ultimately have "update_hunt owner hunt ex cs st =
        (st\<lparr>hunts := pre @ fold apply_change cs x # post, audits := audits st @ update_audit owner hunt x cs\<rparr>, Inr ())"
      using True by (simp add: update_hunt_def)
    then show ?thesis by (rule written) (use x \<open>x = r\<close> in simp_all)
  qed
qed

lemma update_audit_entry:
  "update_audit owner hunt r cs = [] \<and> h_state (fold apply_change cs r) = h_state r
   \<or> (\<exists>a. update_audit owner hunt r cs = [a] \<and> ha_hunt_id a = hunt \<and> ha_prior a = Some (h_state r)
        \<and> ha_resulting a = h_state (fold apply_change cs r))"
proof (cases "changed_fields r cs = []")
  case True
  then show ?thesis using state_unaltered [of r cs] by (simp add: update_audit_def)
qed (simp add: update_audit_def Let_def)

lemma owned_row_id: "owned_row owner hunt st = Inr r \<Longrightarrow> h_hunt_id r = hunt"
  by (auto simp: owned_row_def owned_def find_Some_iff split: option.splits)

lemma update_hunt_steps:
  assumes "keyed_hunts st" and "owned_row owner hunt st = Inr r"
    and "expected ex r \<Longrightarrow> row_step env r (fold apply_change cs r)"
  shows "store_steps env st (fst (update_hunt owner hunt ex cs st))"
  using assms(1,2)
proof (cases rule: update_hunt_cases [where ex = ex and cs = cs])
  case (written pre post st')
  have "store_step env st st'"
    by (rule store_step.row [OF written(3) assms(3) [OF written(2)] written(4,5)])
      (use update_audit_entry [of owner hunt r cs] owned_row_id [OF assms(2)] in simp)
  then show ?thesis using written(1) by simp
qed simp

lemma bindS_alone: "bindS (elsewhere id) h = h ()"
  by (rule ext) (simp add: bindS_steps)

lemma fold_changes_id: "h_hunt_id (fold apply_change cs r) = h_hunt_id r \<and> h_owner_id (fold apply_change cs r) = h_owner_id r"
proof -
  have "h_hunt_id (apply_change c x) = h_hunt_id x \<and> h_owner_id (apply_change c x) = h_owner_id x" for c x by (cases c) simp_all
  then show ?thesis by (induction cs arbitrary: r) simp_all
qed

lemma update_hunt_again:
  assumes "keyed_hunts st" and "owned_row owner hunt st = Inr r" and "update_hunt owner hunt ex cs st = (st', Inr ())"
    and "row_step env r (fold apply_change cs r)"
  shows "store_step env st st'" and "keyed_hunts st'" and "owned_row owner hunt st' = Inr (fold apply_change cs r)"
proof -
  obtain pre post where w: "hunts st = pre @ r # post" "hunts st' = pre @ fold apply_change cs r # post"
      "audits st' = audits st @ update_audit owner hunt r cs"
    using assms(1,2) by (cases rule: update_hunt_cases [where ex = ex and cs = cs]) (use assms(3) in simp_all)
  show step: "store_step env st st'"
    by (rule store_step.row [OF w(1) assms(4) w(2,3)]) (use update_audit_entry [of owner hunt r cs] owned_row_id [OF assms(2)] in simp)
  show "keyed_hunts st'" using store_step_keyed [OF step assms(1)] .
  have r: "owned owner hunt r" using assms(2) by (auto simp: owned_row_def find_Some_iff split: option.splits)
  have "\<forall>y \<in> set pre. \<not> owned owner hunt y"
    using assms(1) r unfolding keyed_hunts_def w(1) owned_def by (auto simp: image_iff)
  then have "find (owned owner hunt) pre = None" by (auto simp: find_None_iff)
  then show "owned_row owner hunt st' = Inr (fold apply_change cs r)"
    unfolding owned_row_def w(2) find_append using r fold_changes_id [of cs r] by (simp add: owned_def)
qed

lemma other_step: "hunts st' = hunts st \<Longrightarrow> audits st' = audits st \<Longrightarrow> store_step env st st'"
  by (rule store_step.other [where entry = "[]"]) simp_all

lemma expected_simps [simp]:
  "expected (in_state s) r \<longleftrightarrow> h_state r = s"
  "expected ((in_state s)\<lparr>ex_plan_version := Some v\<rparr>) r \<longleftrightarrow> h_state r = s \<and> h_plan_version r = Some v"
  "expected (anything\<lparr>ex_plan_version := Some v\<rparr>) r \<longleftrightarrow> h_plan_version r = Some v"
  "expected (draft_report v) r \<longleftrightarrow> h_state r = REPORT_DRAFT \<and> h_report_state r = Some REPORT_DRAFT \<and> h_report_version r = Some v"
  by (auto simp: expected_def in_state_def anything_def draft_report_def)

lemma create_steps: "store_steps env st (fst (create_hunt hunt owner title hyp obj intel syn now st))"
proof -
  have "store_step env st (st\<lparr>hunts := hunts st @ [new_hunt hunt owner title hyp obj intel syn now],
      audits := audits st @ [analyst_audit owner hunt ''hunt_created'' None CREATED ''success'' now]\<rparr>)"
    if "hunt \<notin> h_hunt_id ` set (hunts st)"
    by (rule store_step.new [where r = "new_hunt hunt owner title hyp obj intel syn now"
        and a = "analyst_audit owner hunt ''hunt_created'' None CREATED ''success'' now"])
      (use that in \<open>simp_all add: new_hunt_def analyst_audit_def\<close>)
  then show ?thesis
    by (auto simp: create_hunt_def bindS_steps ensure_def modifyS_def split: sum.splits if_splits)
qed

lemma cancel_steps:
  assumes "keyed_hunts st"
  shows "store_steps env st (fst (cancel id owner hunt now st))"
proof (cases "owned_row owner hunt st")
  case (Inr r)
  have audit: "store_step env st (fst (modifyS (\<lambda>st. st\<lparr>audits := audits st
      @ [analyst_audit owner hunt ''hunt_cancel_requested'' (Some CANCELLED) CANCELLED ''already_cancelled'' now]\<rparr>) st))"
    if "h_state r = CANCELLED"
    unfolding modifyS_def fst_conv
    by (rule store_step.other [where entry = "[analyst_audit owner hunt ''hunt_cancel_requested'' (Some CANCELLED) CANCELLED ''already_cancelled'' now]"])
      (use that Inr in \<open>auto simp: analyst_audit_def owned_row_def owned_def find_Some_iff split: option.splits intro!: bexI [of _ r]\<close>)
  have "store_steps env st (fst (bindS (update_hunt owner hunt (in_state (h_state r)) [SetState CANCELLED, SetUpdated now])
      (\<lambda>_. modifyS (\<lambda>st. st\<lparr>job_table := fst (request_cancel (job_table st) owner hunt now)\<rparr>)) st))"
    if "h_state r \<notin> {CANCELLED, FINALIZED, HuntState.FAILED}"
  proof -
    have "store_steps env st (fst (update_hunt owner hunt (in_state (h_state r)) [SetState CANCELLED, SetUpdated now] st))"
      by (rule update_hunt_steps [OF assms Inr]) (use row_step.cancelled [OF that] in simp)
    moreover have "store_step env s (s\<lparr>job_table := t\<rparr>)" for s t by (rule other_step) simp_all
    ultimately show ?thesis
      by (auto simp: bindS_fst modifyS_def split: sum.splits intro: rtranclp.rtrancl_into_rtrancl)
  qed
  then show ?thesis using audit r_into_rtranclp [of "store_step env" st]
    by (cases "h_state r = CANCELLED"; cases "h_state r \<in> {FINALIZED, HuntState.FAILED}")
      (simp_all add: cancel_def bindS_steps bindS_alone Inr)
qed (simp add: cancel_def bindS_steps)

text \<open>An update that ends a request: the request's checks have established what the step needs.\<close>

lemma read_then_steps:
  assumes "\<And>r. owned_row owner hunt st = Inr r \<Longrightarrow> store_steps env st (fst (f r st))"
  shows "store_steps env st (fst (bindS (readS (owned_row owner hunt)) f st))"
  using assms by (simp add: bindS_steps split: sum.splits)

lemma lift_then_steps:
  assumes "\<And>x. r = Inr x \<Longrightarrow> store_steps env st (fst (f x st))"
  shows "store_steps env st (fst (bindS (liftS r) f st))"
  using assms by (simp add: bindS_steps split: sum.splits)

lemma guard_then_steps:
  assumes "b \<Longrightarrow> store_steps env st (fst (f () st))"
  shows "store_steps env st (fst (bindS (guardS b e) f st))"
  using assms by (simp add: bindS_steps)

lemmas request_steps = read_then_steps lift_then_steps guard_then_steps

lemma save_plan_steps:
  assumes "keyed_hunts st"
  shows "store_steps env st (fst (save_plan env id owner hunt v plan sid now st))"
  unfolding save_plan_def bindS_alone
proof (intro request_steps, goal_cases)
  case (1 r payload drafted)
  obtain edited updates where e: "drafted = (edited, updates)" by fastforce
  have ups: "updates = [] \<or> (\<exists>d. updates = [SetDiscovery d])"
    using 1(5) unfolding e edited_plan_def Let_def rediscover_def
    by (auto simp: result_simps split: if_splits sum.splits prod.splits option.splits)
  show ?case unfolding e prod.case bindS_alone
    by (rule update_hunt_steps [OF assms 1(1)]) (use ups 1(2,3) row_step.edited [where r = r and d = "h_discovery r"] row_step.edited [where r = r] in auto)
qed

lemma revise_plan_steps:
  assumes "keyed_hunts st"
  shows "store_steps env st (fst (revise_plan id owner hunt note now st))"
  unfolding revise_plan_def bindS_alone
proof (intro request_steps, goal_cases)
  case (1 r plan version)
  show ?case
    by (rule update_hunt_steps [OF assms 1(1)]) (use 1(2) row_step.edited [where r = r and d = "h_discovery r"] in auto)
qed

lemma reject_steps:
  assumes "keyed_hunts st"
  shows "store_steps env st (fst (reject id owner hunt note now st))"
  unfolding reject_def bindS_alone
  by (intro request_steps update_hunt_steps [OF assms]) (auto intro: row_step.rejected)

lemma approve_steps:
  assumes "keyed_hunts st"
  shows "store_steps env st (fst (approve env id owner hunt note i now st))"
  unfolding approve_def bindS_alone
  by (intro request_steps update_hunt_steps [OF assms]) (auto intro: row_step.approved)

lemma start_steps:
  assumes "keyed_hunts st"
  shows "store_steps env st (fst (start_execution id owner hunt i w now st))"
proof (cases "owned_row owner hunt st")
  case (Inl e)
  then have "find (\<lambda>r. owned owner hunt r \<and> expected (in_state QUEUED) r) (hunts st) = None"
    by (auto simp: owned_row_def find_None_iff split: option.splits)
  then show ?thesis by (simp add: start_execution_def bindS_steps update_hunt_def split: sum.splits)
next
  case (Inr r)
  have "store_steps env st (fst (update_hunt owner hunt (in_state QUEUED) [SetState RUNNING, SetUpdated now] st))"
    by (rule update_hunt_steps [OF assms Inr]) (auto intro: row_step.started)
  then show ?thesis by (simp add: start_execution_def bindS_steps split: sum.splits)
qed

lemma fail_steps:
  assumes "keyed_hunts st"
  shows "store_steps env st (fst (fail_execution id owner hunt m now st))"
  unfolding fail_execution_def bindS_alone
proof (intro request_steps, goal_cases)
  case (1 r)
  show ?case
    by (auto simp: returnS_def intro!: update_hunt_steps [OF assms 1] row_step.failed)
qed

lemma save_report_steps:
  assumes "keyed_hunts st"
  shows "store_steps env st (fst (save_report env id owner hunt v c now st))"
  unfolding save_report_def bindS_alone
  by (intro request_steps update_hunt_steps [OF assms]) (auto intro: row_step.report_saved)

lemma execute_steps:
  assumes "keyed_hunts st"
  shows "store_steps env st (fst (execute env id owner hunt i now st))"
  unfolding execute_def bindS_alone
proof (intro request_steps, goal_cases)
  case (1 r approved plan u config version)
  have queued: "store_step env st st'" if "update_hunt owner hunt ((in_state APPROVED)\<lparr>ex_plan_version := Some version\<rparr>) [SetState QUEUED, SetUpdated now] st = (st', Inr u)" for st' u
  proof -
    have upd: "update_hunt owner hunt ((in_state APPROVED)\<lparr>ex_plan_version := Some version\<rparr>) [SetState QUEUED, SetUpdated now] st = (st', Inr ())"
      using that by simp
    show ?thesis by (rule update_hunt_again(1) [OF assms 1(1) upd]) (use 1(2) row_step.queued [where r = r and t = now] in simp)
  qed
  have "store_steps env st (s\<lparr>job_table := t\<rparr>)" if "store_step env st s" for s t
    using that other_step [of "s\<lparr>job_table := t\<rparr>" s env] by (simp add: converse_rtranclp_into_rtranclp)
  then show ?case
    unfolding queue_hunt_def by (auto split: prod.splits sum.splits dest!: queued)
qed

lemma persist_steps:
  assumes "keyed_hunts st"
  shows "store_steps env st (fst (persist_execution_result env id owner hunt x rep i now st))"
  unfolding persist_execution_result_def bindS_alone
proof (intro request_steps, goal_cases)
  case (1 r content)
  let ?u1 = "update_hunt owner hunt (in_state RUNNING) [SetState SYNTHESIZING, SetResults (object_fields x), SetUpdated now]"
  let ?u2 = "update_hunt owner hunt (in_state SYNTHESIZING) (report_changes i content now)"
  have second: "store_steps env s (fst (?u2 s))" if "keyed_hunts s" "owned_row owner hunt s = Inr q" for s q
    by (rule update_hunt_steps [OF that]) (use row_step.reported [where r = q and i = i and c = content and t = now] in \<open>simp add: report_changes_def\<close>)
  show ?case
  proof (cases "h_state r = RUNNING")
    case True
    have step: "row_step env r (fold apply_change [SetState SYNTHESIZING, SetResults (object_fields x), SetUpdated now] r)"
      using row_step.investigated [OF True] by simp
    have "store_steps env st (fst (bindS ?u1 (\<lambda>_. ?u2) st))"
      using assms 1(3)
    proof (cases rule: update_hunt_cases [where ex = "in_state RUNNING" and cs = "[SetState SYNTHESIZING, SetResults (object_fields x), SetUpdated now]"])
      case (conflict e)
      then show ?thesis by (simp add: bindS_fst)
    next
      case (written pre post st')
      note again = update_hunt_again [OF assms 1(3) written(1) step]
      show ?thesis unfolding bindS_fst written(1) using again(1) second [OF again(2,3)] by (simp add: converse_rtranclp_into_rtranclp)
    qed
    then show ?thesis using True by (simp add: bindS_alone)
  next
    case False
    then show ?thesis using second [OF assms 1(3)] by (simp add: bindS_alone bindS_steps returnS_def)
  qed
qed

lemma validate_report_same: "validate_report_payload env content results = Inr c \<Longrightarrow> content = JObj c"
  by (cases content) (auto simp: validate_report_payload_def result_simps)

lemma finalize_steps:
  assumes "keyed_hunts st"
  shows "store_steps env st (fst (finalize_report env id owner hunt v now st))"
  unfolding finalize_report_def bindS_alone
proof (intro request_steps, goal_cases)
  case (1 r content)
  have c: "h_report_content r = Some content"
    using validate_report_same [OF 1(3)] by (auto split: option.splits)
  have ok: "validate_report_payload (we_report env) (JObj content) (results_of r) = Inr content" using 1(3) c by simp
  show ?case
    by (rule update_hunt_steps [OF assms 1(1)]) (use row_step.finalized [OF _ _ c ok] in auto)
qed

lemma discover_steps:
  assumes "keyed_hunts st"
  shows "store_steps env st (fst (discover env id owner hunt draws now st))"
  unfolding discover_def bindS_alone
proof (intro request_steps, goal_cases)
  case (1 r)
  let ?cs = "[SetState DISCOVERING, SetUpdated now]"
  let ?u = "update_hunt owner hunt (in_state CREATED) ?cs"
  let ?r = "fold apply_change ?cs r"
  have begins: "row_step env r ?r" using row_step.begin_discovery [OF 1(3)] by simp
  have fails: "store_steps env s (fst (discovery_failed id owner hunt now f s))" if "keyed_hunts s" "owned_row owner hunt s = Inr q" for s q f
  proof -
    have "store_steps env s (fst (update_hunt owner hunt (in_state DISCOVERING) [SetState HuntState.FAILED, SetUpdated now] s))"
      by (rule update_hunt_steps [OF that]) (use row_step.failed [where r = q and t = now and x = "h_results q"] in auto)
    then show ?thesis by (simp add: discovery_failed_def case_prod_unfold)
  qed
  have stores: "store_steps env s (fst (store_draft id owner hunt now draft s))"
    if "keyed_hunts s" "owned_row owner hunt s = Inr q" for s q draft
  proof -
    let ?ds = "[SetState PLAN_DRAFT, SetDiscovery (snd draft), SetPlan (JObj (fst draft)), SetPlanVersion 1, SetUpdated now]"
    have last: "store_steps env s' (fst (update_hunt owner hunt (in_state PLAN_DRAFT) [SetState AWAITING_PLAN_REVIEW, SetUpdated now] s'))"
      if "keyed_hunts s'" "owned_row owner hunt s' = Inr q'" for s' q'
      by (rule update_hunt_steps [OF that]) (auto intro: row_step.submitted)
    show ?thesis
      using that
    proof (cases rule: update_hunt_cases [where ex = "in_state DISCOVERING" and cs = ?ds])
      case (conflict e)
      then show ?thesis by (simp add: store_draft_def bindS_alone bindS_fst)
    next
      case (written pre post s')
      have step: "row_step env q (fold apply_change ?ds q)"
        using row_step.planned [where r = q and d = "snd draft" and p = "JObj (fst draft)" and t = now] written(2) by simp
      note again = update_hunt_again [OF that written(1) step]
      show ?thesis unfolding store_draft_def bindS_alone bindS_fst written(1)
        using again(1) last [OF again(2,3)] by (simp add: converse_rtranclp_into_rtranclp)
    qed
  qed
  show ?case
    using assms 1(2)
  proof (cases rule: update_hunt_cases [where ex = "in_state CREATED" and cs = ?cs])
    case (conflict e)
    then show ?thesis by (simp add: bindS_fst)
  next
    case (written pre post s')
    note again = update_hunt_again [OF assms 1(2) written(1) begins]
    show ?thesis unfolding bindS_fst written(1)
      using again(1) fails [OF again(2,3)] stores [OF again(2,3)]
      by (simp add: converse_rtranclp_into_rtranclp split: sum.splits)
  qed
qed

text \<open>Every request is a sequence of such steps.\<close>

lemma queue_steps: "store_steps env st (st\<lparr>job_table := t\<rparr>)"
  by (rule r_into_rtranclp, rule other_step) simp_all

lemma perform_steps: "keyed_hunts st \<Longrightarrow> store_steps env st (perform env q st)"
  by (cases q) (simp_all add: queue_steps create_steps cancel_steps discover_steps save_plan_steps revise_plan_steps reject_steps approve_steps
      execute_steps start_steps persist_steps fail_steps save_report_steps finalize_steps)

lemma serve_steps: "store_steps env empty_store (serve env qs)"
proof -
  have "keyed_hunts st \<Longrightarrow> store_steps env st (fold (perform env) qs st)" for st
  proof (induction qs arbitrary: st)
    case (Cons q qs)
    have one: "store_steps env st (perform env q st)" using perform_steps Cons.prems by blast
    show ?case unfolding fold_Cons comp_apply
      by (rule rtranclp_trans [OF one Cons.IH [OF store_steps_keyed [OF one Cons.prems]]])
  qed simp
  then show ?thesis by (simp add: serve_def keyed_hunts_def empty_store_def)
qed

subsection \<open>Invariants of stored hunts\<close>

text \<open>A property of rows that new rows have and steps keep holds of every stored row.\<close>

lemma served_rows:
  assumes "r \<in> set (hunts (serve env qs))"
    and "\<And>hunt owner title hyp obj intel syn now. P (new_hunt hunt owner title hyp obj intel syn now)"
    and "\<And>r r'. P r \<Longrightarrow> row_step env r r' \<Longrightarrow> P r'"
  shows "P r"
proof -
  have "store_steps env st st' \<Longrightarrow> \<forall>r \<in> set (hunts st). P r \<Longrightarrow> \<forall>r \<in> set (hunts st'). P r" for st st'
  proof (induction rule: rtranclp_induct)
    case (step st1 st2)
    from step(2) show ?case using step.IH [OF step.prems] assms(2,3) by (cases rule: store_step.cases) auto
  qed
  from this [OF serve_steps [of env qs]] show ?thesis using assms(1) by (simp add: empty_store_def)
qed

definition APPROVED_STATES :: "HuntState set" where
  "APPROVED_STATES = {APPROVED, QUEUED, RUNNING, SYNTHESIZING, REPORT_DRAFT, FINALIZED}"

definition binds :: "json_fields \<Rightarrow> hunt_row \<Rightarrow> bool" where
  "binds a r \<longleftrightarrow> map_of a ''plan_sha256'' = Some (JStr (json_digest (plan_of r)))
     \<and> map_of a ''plan_version'' = Some (version_json (h_plan_version r))
     \<and> (case config_snapshot_of (snapshot_of r) of
          None \<Rightarrow> True
        | Some c \<Rightarrow> map_of a ''execution_config_snapshot_id'' = Some (get_or c ''snapshot_id'' JNull)
                   \<and> map_of a ''execution_config_sha256'' = Some (get_or c ''sha256'' JNull))"

lemma approval_fields_bind: "binds (approval_fields r i owner note now) r"
  by (simp add: binds_def approval_fields_def split: option.splits)

lemma binds_cong: "h_plan r' = h_plan r \<Longrightarrow> h_plan_version r' = h_plan_version r \<Longrightarrow> h_discovery r' = h_discovery r \<Longrightarrow> binds a r' = binds a r"
  by (simp add: binds_def plan_of_def snapshot_of_def)

definition approval_bound :: "hunt_row \<Rightarrow> bool" where
  "approval_bound r \<longleftrightarrow> (h_state r \<in> APPROVED_STATES \<longrightarrow> (\<exists>a. h_approval r = Some a \<and> binds a r))"

lemma row_step_approval:
  assumes "row_step env r r'" and "approval_bound r"
  shows "approval_bound r'"
  using assms
proof (induction rule: row_step.induct)
  case (approved r t i owner memo now)
  have "binds (approval_fields r i owner memo now) (r\<lparr>h_state := APPROVED, h_approval := Some (approval_fields r i owner memo now), h_updated := t\<rparr>)"
    using approval_fields_bind binds_cong [of _ r] by simp
  then show ?case by (simp add: approval_bound_def)
qed (auto simp: approval_bound_def APPROVED_STATES_def binds_def plan_of_def snapshot_of_def)

definition report_final :: "workflow_env \<Rightarrow> hunt_row \<Rightarrow> bool" where
  "report_final env r \<longleftrightarrow>
     (h_report_state r = Some FINALIZED \<longrightarrow>
        h_state r = FINALIZED \<and> (\<exists>c. h_report_content r = Some c
          \<and> validate_report_payload (we_report env) (JObj c) (results_of r) = Inr c \<and> h_report_pdf r = Some (formatted_pdf env (h_title r) c)))"

lemma row_step_report: "row_step env r r' \<Longrightarrow> report_final env r \<Longrightarrow> report_final env r'"
  by (induction rule: row_step.induct) (auto simp: report_final_def results_of_def)

lemma row_step_open: "row_step env r r' \<Longrightarrow> \<not> is_terminal_state (h_state r)"
  by (induction rule: row_step.induct) (auto simp: is_terminal_state_def TERMINAL_STATES_def)

lemma terminal_rows_stay:
  assumes "store_steps env st st'" and "r \<in> set (hunts st)" and "is_terminal_state (h_state r)"
  shows "r \<in> set (hunts st')"
  using assms(1)
proof (induction rule: rtranclp_induct)
  case (step st1 st2)
  from step(2) show ?case
  proof (cases rule: store_step.cases)
    case (row pre r0 post r0' entry)
    have "r \<noteq> r0" using row_step_open [OF row(2)] assms(3) by blast
    then show ?thesis using step.IH row by auto
  qed (use step.IH in auto)
qed (use assms in simp)

lemma serve_append: "keyed_hunts (serve env qs)" "store_steps env (serve env qs) (serve env (qs @ more_qs))"
proof -
  show k: "keyed_hunts (serve env qs)" for qs
    using store_steps_keyed [OF serve_steps] by (simp add: keyed_hunts_def empty_store_def)
  have "keyed_hunts st \<Longrightarrow> store_steps env st (fold (perform env) more_qs st)" for st
  proof (induction more_qs arbitrary: st)
    case (Cons q qs)
    have one: "store_steps env st (perform env q st)" using perform_steps Cons.prems by blast
    show ?case unfolding fold_Cons comp_apply
      by (rule rtranclp_trans [OF one Cons.IH [OF store_steps_keyed [OF one Cons.prems]]])
  qed simp
  then show "store_steps env (serve env qs) (serve env (qs @ more_qs))" using k by (simp add: serve_def)
qed

lemma keyed_owned_row:
  assumes "keyed_hunts st" and "r \<in> set (hunts st)" and "owned owner hunt r"
  shows "owned_row owner hunt st = Inr r"
proof -
  obtain pre post where h: "hunts st = pre @ r # post" using assms(2) by (meson split_list)
  have "find (owned owner hunt) pre = None"
    using assms(1,3) unfolding h keyed_hunts_def owned_def by (auto simp: find_None_iff image_iff)
  then show ?thesis using assms(3) by (simp add: owned_row_def h find_append)
qed

text \<open>C6. What runs is what was approved.  Whatever requests the service has answered, a hunt that
  is approved, queued, running or reported has an approval whose digest is that of the stored plan, whose
  version is the plan's, and whose configuration snapshot is the stored one.\<close>

theorem running_plan_is_the_approved_one:
  assumes "r \<in> set (hunts (serve env qs))" and "h_state r \<in> APPROVED_STATES"
  shows "\<exists>a. h_approval r = Some a \<and> binds a r"
proof -
  have "approval_bound r"
    by (rule served_rows [OF assms(1)]) (simp add: approval_bound_def new_hunt_def APPROVED_STATES_def, rule row_step_approval)
  then show ?thesis using assms(2) by (simp add: approval_bound_def)
qed

text \<open>C8. A finalized report is final.  A file that the service hands out is the rendering of the stored
  report, which is a valid report of the hunt's results, and after any further requests the same
  report and the same file are handed out.\<close>

theorem finalized_report_is_final:
  assumes "pdf owner hunt (serve env qs) = Inr b"
  shows "pdf owner hunt (serve env (qs @ later)) = Inr b \<and> report owner hunt (serve env (qs @ later)) = report owner hunt (serve env qs)
    \<and> (\<exists>r c. owned_row owner hunt (serve env qs) = Inr r \<and> h_report_content r = Some c
         \<and> validate_report_payload (we_report env) (JObj c) (results_of r) = Inr c \<and> b = formatted_pdf env (h_title r) c)"
proof -
  obtain r where r: "owned_row owner hunt (serve env qs) = Inr r" "h_report_state r = Some FINALIZED" "h_report_pdf r = Some b"
    using assms by (auto simp: pdf_def result_simps split: bool.splits option.splits)
  have mem: "r \<in> set (hunts (serve env qs))" "owned owner hunt r"
    using r(1) by (auto simp: owned_row_def find_Some_iff split: option.splits)
  have "report_final env r"
    by (rule served_rows [OF mem(1)]) (simp add: report_final_def new_hunt_def, rule row_step_report)
  then obtain c where c: "h_state r = FINALIZED" "h_report_content r = Some c"
      "validate_report_payload (we_report env) (JObj c) (results_of r) = Inr c" "h_report_pdf r = Some (formatted_pdf env (h_title r) c)"
    using r(2) by (auto simp: report_final_def)
  have "r \<in> set (hunts (serve env (qs @ later)))"
    by (rule terminal_rows_stay [OF serve_append(2) mem(1)]) (simp add: c(1) is_terminal_state_def TERMINAL_STATES_def)
  then have later: "owned_row owner hunt (serve env (qs @ later)) = Inr r"
    by (rule keyed_owned_row [OF serve_append(1)]) (rule mem(2))
  show ?thesis
    using later r c assms by (auto simp: pdf_def report_def)
qed

subsection \<open>The audit trail\<close>

text \<open>The state machine of \<^verbatim>\<open>domain/state.py\<close> as the abstract account of a hunt: its audit entries, in order, are
  moves the machine permits, from creation to the state the hunt is in.  An entry may also record a
  change that keeps the state; and the service fails a hunt that was only created, which the machine does not permit.\<close>

definition trail :: "store \<Rightarrow> string \<Rightarrow> hunt_audit list" where
  "trail st hunt = filter (\<lambda>a. ha_hunt_id a = hunt) (audits st)"

definition state_of :: "store \<Rightarrow> string \<Rightarrow> HuntState option" where
  "state_of st hunt = map_option h_state (find (\<lambda>r. h_hunt_id r = hunt) (hunts st))"

fun lawful :: "HuntState option \<Rightarrow> HuntState \<Rightarrow> bool" where
  "lawful None t \<longleftrightarrow> t = CREATED"
| "lawful (Some s) t \<longleftrightarrow> s = t \<or> can_transition s t \<or> s = CREATED \<and> t = HuntState.FAILED"

fun leads :: "HuntState option \<Rightarrow> hunt_audit list \<Rightarrow> HuntState option \<Rightarrow> bool" where
  "leads s [] t \<longleftrightarrow> s = t"
| "leads s (a # as) t \<longleftrightarrow> ha_prior a = s \<and> lawful s (ha_resulting a) \<and> leads (Some (ha_resulting a)) as t"

lemma leads_append: "leads s (as @ bs) u \<longleftrightarrow> (\<exists>t. leads s as t \<and> leads t bs u)"
  by (induction s as u rule: leads.induct) auto

lemma row_step_lawful: "row_step env r r' \<Longrightarrow> lawful (Some (h_state r)) (h_state r')"
  by (induction rule: row_step.induct) (auto simp: state_table_defs)

lemma find_keyed:
  "distinct (map h_hunt_id rs) \<Longrightarrow> r \<in> set rs \<Longrightarrow> find (\<lambda>x. h_hunt_id x = h_hunt_id r) rs = Some r"
  by (induction rs) (auto simp: image_iff)

lemma store_step_trail:
  assumes "store_step env st st'" and "keyed_hunts st" and "leads None (trail st hunt) (state_of st hunt)"
  shows "leads None (trail st' hunt) (state_of st' hunt)"
  using assms(1)
proof (cases rule: store_step.cases)
  case (row pre r post r' entry)
  have id: "h_hunt_id r' = h_hunt_id r" using row_step_id [OF row(2)] by simp
  show ?thesis
  proof (cases "hunt = h_hunt_id r")
    case True
    have pre: "find (\<lambda>x. h_hunt_id x = hunt) pre = None"
      using assms(2) True unfolding keyed_hunts_def row(1) by (auto simp: find_None_iff image_iff)
    have "state_of st hunt = Some (h_state r)" "state_of st' hunt = Some (h_state r')"
      using pre True id by (simp_all add: state_of_def row(1,3) find_append)
    then have before: "leads None (trail st hunt) (Some (h_state r))" and after: "state_of st' hunt = Some (h_state r')"
      using assms(3) by simp_all
    from row(5) show ?thesis
    proof (elim disjE exE conjE)
      assume "entry = []" "h_state r' = h_state r"
      then show ?thesis using before after by (simp add: trail_def row(4))
    next
      fix a assume a: "entry = [a]" "ha_hunt_id a = h_hunt_id r" "ha_prior a = Some (h_state r)" "ha_resulting a = h_state r'"
      have "trail st' hunt = trail st hunt @ [a]" using a(1,2) True by (simp add: trail_def row(4))
      moreover have "leads (Some (h_state r)) [a] (Some (h_state r'))" using a(3,4) row_step_lawful [OF row(2)] by simp
      ultimately show ?thesis unfolding after using before leads_append by metis
    qed
  next
    case False
    have "state_of st' hunt = state_of st hunt" using False id by (simp add: state_of_def row(1,3) find_append split: option.splits)
    moreover have "trail st' hunt = trail st hunt" using row(5) False by (auto simp: trail_def row(4))
    ultimately show ?thesis using assms(3) by simp
  qed
next
  case (new r h owner title hyp obj intel syn now a)
  show ?thesis
  proof (cases "hunt = h_hunt_id r")
    case True
    have "find (\<lambda>x. h_hunt_id x = hunt) (hunts st) = None" using new(2) True by (auto simp: find_None_iff image_iff)
    then show ?thesis
      using assms(3) new True by (auto simp: state_of_def trail_def find_append leads_append new_hunt_def)
  next
    case False
    then show ?thesis using assms(3) new by (auto simp: state_of_def trail_def find_append split: option.splits)
  qed
next
  case (other entry)
  have "leads (state_of st hunt) (filter (\<lambda>a. ha_hunt_id a = hunt) as) (state_of st hunt)"
    if "list_all (\<lambda>a. ha_prior a = Some CANCELLED \<and> ha_resulting a = CANCELLED
        \<and> (\<exists>r \<in> set (hunts st). h_hunt_id r = ha_hunt_id a \<and> h_state r = CANCELLED)) as" for as
    using that
  proof (induction as)
    case (Cons a as)
    have "state_of st hunt = Some CANCELLED" if "ha_hunt_id a = hunt"
      using Cons.prems that find_keyed assms(2) by (fastforce simp: state_of_def keyed_hunts_def)
    then show ?case using Cons by auto
  qed simp
  from this [OF other(3)] show ?thesis
    using assms(3) by (auto simp: trail_def other(2) leads_append state_of_def other(1))
qed


subsection \<open>A revision that lost a race\<close>

lemma only_owned:
  assumes "distinct (map h_hunt_id rs)" and "r \<in> set rs" and "owned owner hunt r" and "q r"
  shows "filter (\<lambda>x. owned owner hunt x \<and> q x) rs = [r] \<and> find (\<lambda>x. owned owner hunt x \<and> q x) rs = Some r"
proof -
  obtain pre post where rs: "rs = pre @ r # post" using assms(2) by (meson split_list)
  have no: "\<not> owned owner hunt y" if "y \<in> set pre \<union> set post" for y
    using that assms(1,3) by (auto simp: rs owned_def image_iff)
  have "filter (\<lambda>x. owned owner hunt x \<and> q x) pre = []" "filter (\<lambda>x. owned owner hunt x \<and> q x) post = []"
      "find (\<lambda>x. owned owner hunt x \<and> q x) pre = None"
    using no by (auto simp: filter_empty_conv find_None_iff)
  then show ?thesis using assms(3,4) by (simp add: rs find_append)
qed

lemma update_expected:
  assumes "keyed_hunts st" and "owned_row owner hunt st = Inr r" and "expected ex r"
  shows "snd (update_hunt owner hunt ex cs st) = Inr ()"
    and "keyed_hunts (fst (update_hunt owner hunt ex cs st))"
    and "owned_row owner hunt (fst (update_hunt owner hunt ex cs st)) = Inr (fold apply_change cs r)"
proof -
  let ?st = "fst (update_hunt owner hunt ex cs st)"
  have r: "r \<in> set (hunts st)" "owned owner hunt r"
    using assms(2) by (auto simp: owned_row_def find_Some_iff split: option.splits)
  note one = only_owned [where q = "expected ex", OF assms(1) [unfolded keyed_hunts_def] r assms(3)]
  show "snd (update_hunt owner hunt ex cs st) = Inr ()" using one by (simp add: update_hunt_def)
  have h: "hunts ?st = map (\<lambda>x. if owned owner hunt x \<and> expected ex x then fold apply_change cs x else x) (hunts st)"
    using one by (simp add: update_hunt_def)
  have "map h_hunt_id (hunts ?st) = map h_hunt_id (hunts st)" unfolding h using fold_changes_id by (simp cong: if_cong)
  then show k: "keyed_hunts ?st" using assms(1) by (simp add: keyed_hunts_def)
  have "fold apply_change cs r \<in> set (hunts ?st)" unfolding h using r assms(3) by force
  then show "owned_row owner hunt ?st = Inr (fold apply_change cs r)"
    by (rule keyed_owned_row [OF k]) (use r(2) fold_changes_id [of cs r] in \<open>simp add: owned_def\<close>)
qed

lemma cancel_open:
  assumes "keyed_hunts st" and "owned_row owner hunt st = Inr r" and "\<not> is_terminal_state (h_state r)"
  shows "keyed_hunts (fst (cancel id owner hunt t st))"
    and "owned_row owner hunt (fst (cancel id owner hunt t st)) = Inr (r\<lparr>h_state := CANCELLED, h_updated := t\<rparr>)"
proof -
  let ?u = "update_hunt owner hunt (in_state (h_state r)) [SetState CANCELLED, SetUpdated t] st"
  have s: "h_state r \<noteq> CANCELLED" "h_state r \<notin> {FINALIZED, HuntState.FAILED}"
    using assms(3) by (auto simp: is_terminal_state_def TERMINAL_STATES_def)
  have upd: "snd ?u = Inr ()" "keyed_hunts (fst ?u)" "owned_row owner hunt (fst ?u) = Inr (r\<lparr>h_state := CANCELLED, h_updated := t\<rparr>)"
    using update_expected [OF assms(1,2), of "in_state (h_state r)" "[SetState CANCELLED, SetUpdated t]"] by simp_all
  have "hunts (fst (cancel id owner hunt t st)) = hunts (fst ?u)"
    using s upd(1) by (simp add: cancel_def bindS_steps bindS_alone assms(2) bindS_fst modifyS_def)
  then show "keyed_hunts (fst (cancel id owner hunt t st))"
      "owned_row owner hunt (fst (cancel id owner hunt t st)) = Inr (r\<lparr>h_state := CANCELLED, h_updated := t\<rparr>)"
    using upd by (simp_all add: keyed_hunts_def owned_row_def)
qed

text \<open>C33. A revision and a cancellation that overlap.  \<open>revise_plan\<close> guards its write by the plan's version
  only, and a cancellation does not change the version: when the cancellation commits between the revision's read and its
  write, the cancellation has succeeded and yet the hunt is awaiting review again.\<close>

theorem stale_revision_revives_cancelled_hunt:
  assumes "keyed_hunts st" and "owned_row owner hunt st = Inr r" and "h_state r = AWAITING_PLAN_REVIEW"
    and "with_limitation (plan_of r) (''Analyst revision request: '' @ instruction) = Inr plan" and "h_plan_version r = Some v"
  shows "owned_row owner hunt (fst (cancel id owner hunt t st)) = Inr (r\<lparr>h_state := CANCELLED, h_updated := t\<rparr>)
    \<and> owned_row owner hunt (fst (revise_plan (\<lambda>s. fst (cancel id owner hunt t s)) owner hunt instruction now st))
       = Inr (r\<lparr>h_state := AWAITING_PLAN_REVIEW, h_plan := Some plan, h_plan_version := Some (v + 1), h_approval := None, h_updated := now\<rparr>)"
proof -
  let ?mid = "fst (cancel id owner hunt t st)"
  have open_state: "\<not> is_terminal_state (h_state r)" using assms(3) by (simp add: is_terminal_state_def TERMINAL_STATES_def)
  note mid = cancel_open [OF assms(1,2) open_state, of t]
  have "fst (revise_plan (\<lambda>s. fst (cancel id owner hunt t s)) owner hunt instruction now st)
      = fst (update_hunt owner hunt (anything\<lparr>ex_plan_version := Some v\<rparr>)
          [SetState AWAITING_PLAN_REVIEW, SetPlan plan, SetPlanVersion (v + 1), SetApproval None, SetUpdated now] ?mid)"
    using assms by (simp add: revise_plan_def bindS_steps plan_version_of_def)
  then show ?thesis
    using mid(2) update_expected(3) [OF mid, of "anything\<lparr>ex_plan_version := Some v\<rparr>"
        "[SetState AWAITING_PLAN_REVIEW, SetPlan plan, SetPlanVersion (v + 1), SetApproval None, SetUpdated now]"] assms(5)
    by simp
qed

subsection \<open>Pages of hunts\<close>

definition hunt_key :: "hunt_row \<Rightarrow> utc \<times> string" where
  "hunt_key r = (h_created r, h_hunt_id r)"

definition owned_hunts :: "string \<Rightarrow> store \<Rightarrow> hunt_row list" where
  "owned_hunts owner st = newest_first (filter (\<lambda>r. h_owner_id r = owner) (hunts st))"

lemma newest_first_filter: "newest_first (filter P rs) = filter P (newest_first rs)"
  by (simp add: newest_first_def filter_sort [symmetric] rev_filter)

lemma newest_first_descends:
  assumes "distinct (map h_hunt_id rs)"
  shows "sorted_wrt (\<lambda>a b. hunt_key b < hunt_key a) (newest_first rs)"
proof -
  have "distinct (map hunt_key rs)" using assms by (auto simp: distinct_map inj_on_def hunt_key_def)
  then have "distinct (map hunt_key (sort_key hunt_key rs))" by (simp add: distinct_map)
  then have "sorted_wrt (<) (map hunt_key (sort_key hunt_key rs))" using strict_sorted_iff sorted_sort_key by blast
  then show ?thesis unfolding newest_first_def sorted_wrt_rev sorted_wrt_map hunt_key_def .
qed

lemma below_nth:
  assumes "sorted_wrt (\<lambda>a b. hunt_key b < hunt_key a) xs" and "k < length xs"
  shows "filter (\<lambda>r. hunt_key r < hunt_key (xs ! k)) xs = drop (Suc k) xs"
proof -
  have xs: "xs = take k xs @ xs ! k # drop (Suc k) xs" using assms(2) by (rule id_take_nth_drop)
  have s: "\<forall>a \<in> set (take k xs). hunt_key (xs ! k) < hunt_key a" "\<forall>b \<in> set (drop (Suc k) xs). hunt_key b < hunt_key (xs ! k)"
    using assms(1) by (subst (asm) xs, simp add: sorted_wrt_append)+
  have "filter (\<lambda>r. hunt_key r < hunt_key (xs ! k)) (take k xs) = []" using s(1) by (auto simp: filter_empty_conv)
  moreover have "filter (\<lambda>r. hunt_key r < hunt_key (xs ! k)) (drop (Suc k) xs) = drop (Suc k) xs" using s(2) by (simp add: filter_id_conv)
  ultimately show ?thesis by (subst (2) xs) simp
qed

text \<open>C32. Following the cursor loses nothing and repeats nothing.  The first page is the beginning of the
  owner's hunts, newest first, and the page after the hunt at any position is what follows that position, whatever
  requests the service has answered and however many hunts share a creation time.\<close>

theorem page_continues_after_its_cursor:
  assumes "1 \<le> limit" and "limit \<le> 100" and "k < length (owned_hunts owner (serve env qs))"
  shows "list_hunts owner limit None (serve env qs) = Inr (map summary_of (take (nat limit) (owned_hunts owner (serve env qs))))
    \<and> list_hunts owner limit (Some (h_hunt_id (owned_hunts owner (serve env qs) ! k))) (serve env qs)
       = Inr (map summary_of (take (nat limit) (drop (Suc k) (owned_hunts owner (serve env qs)))))"
proof -
  define mine where "mine = filter (\<lambda>r. h_owner_id r = owner) (hunts (serve env qs))"
  let ?l = "newest_first mine" and ?at = "newest_first mine ! k"
  have own: "owned_hunts owner (serve env qs) = ?l" by (simp add: owned_hunts_def mine_def)
  have "keyed_hunts (serve env qs)" by (rule serve_append)
  then have d: "distinct (map h_hunt_id mine)" by (simp add: mine_def keyed_hunts_def distinct_map_filter)
  have k: "k < length ?l" using assms(3) own by simp
  have "?at \<in> set mine" using nth_mem [OF k] by (simp add: newest_first_def)
  then have at: "find (\<lambda>r. h_hunt_id r = h_hunt_id ?at) mine = Some ?at" by (rule find_keyed [OF d])
  have "newest_first (filter (\<lambda>r. h_created r < h_created ?at \<or> h_created r = h_created ?at \<and> h_hunt_id r < h_hunt_id ?at) mine)
      = filter (\<lambda>r. hunt_key r < hunt_key ?at) ?l"
    unfolding newest_first_filter by (simp add: hunt_key_def less_prod_def')
  also have "\<dots> = drop (Suc k) ?l" by (rule below_nth [OF newest_first_descends [OF d] k])
  finally show ?thesis
    using assms(1,2) at unfolding own list_hunts_def mine_def [symmetric] by (simp add: ensure_def)
qed

subsection \<open>A hunt from its creation to its report\<close>

definition example_scope :: HuntScope where
  "example_scope = \<lparr>hs_earliest = 1, hs_latest = 2, hs_indexes = [''main''], hs_sourcetypes = [''sysmon'']\<rparr>"

definition example_plan :: "string \<Rightarrow> HuntPlan" where
  "example_plan snapshot_id = \<lparr>hp_plan_id = ''p1'', hp_plan_version = 1, hp_hunt_id = ''h1'', hp_discovery_snapshot_id = snapshot_id,
     hp_execution_config_snapshot_id = ''c1'', hp_hypothesis = ''h'', hp_objective = ''o'', hp_scope = example_scope,
     hp_intelligence_refs = [], hp_data_sources = [], hp_questions = [], hp_query_strategy = [], hp_coverage_limitations = [], hp_created_at = 0\<rparr>"

definition example_plan_json :: json_fields where
  "example_plan_json = [(''hypothesis'', JStr ''h''), (''objective'', JStr ''o''), (''scope'', JObj []),
     (''questions'', JList [JObj [(''question_id'', JStr ''q1'')]]), (''query_strategy'', JList []), (''coverage_limitations'', JList [])]"

definition example_discovery :: discovery where
  "example_discovery = \<lparr>dc_at = 0, dc_indexes = [''main''], dc_sourcetypes = [''sysmon''], dc_fields = [], dc_schemas = JNull,
     dc_limitations = [], dc_dict = []\<rparr>"

definition example_wenv :: workflow_env where
  "example_wenv = \<lparr>we_report = example_env, report_lines = (\<lambda>title content. [title]), parse_plan = (\<lambda>_. Some (example_plan ''s2'')),
     dump_plan = (\<lambda>_. JObj example_plan_json), dump_scope = (\<lambda>_. JObj []), ioc_context = (\<lambda>_. JNull),
     execution_config = JObj [], budget_limits = JObj [], integrations = True, splunk_discover = (\<lambda>_. Inr example_discovery),
     draft_plan = (\<lambda>_ _. Inr (example_plan ''s1'')),
     job_service = \<lparr>s_lease_seconds = 60, s_scope = ''d'', s_max_active = None\<rparr>\<rparr>"

definition example_draws :: plan_draws where
  "example_draws = \<lparr>pd_plan_id = ''p1'', pd_catalog_id = ''s1'', pd_sample_id = ''s2'', pd_config_id = ''c1''\<rparr>"

definition example_created :: request where "example_created = Create ''h1'' ''u1'' ''t'' ''h'' ''o'' [] [] 10"
definition example_discovered :: request where "example_discovered = Discover ''u1'' ''h1'' example_draws 20"
definition example_approved :: request where "example_approved = Approve ''u1'' ''h1'' None ''a1'' 30"

definition example_row :: hunt_row where "example_row = new_hunt ''h1'' ''u1'' ''t'' ''h'' ''o'' [] [] 10"

lemmas store_eval = bindS_def readS_def liftS_def guardS_def elsewhere_def modifyS_def returnS_def failS_def owned_row_def owned_def
  update_hunt_def update_audit_def changed_fields_def expected_def in_state_def anything_def draft_report_def Let_def

lemma example_after_create: "hunts (serve example_wenv [example_created]) = [example_row]"
  by (simp add: serve_def example_created_def empty_store_def create_hunt_def store_eval CONTEXT_INPUT_MAX_LENGTH_def
      example_row_def new_hunt_def ensure_def)

lemma serve_snoc: "serve env (qs @ [q]) = perform env q (serve env qs)"
  by (simp add: serve_def)

lemma example_wenv_fields [simp]:
  "we_report example_wenv = example_env" "parse_plan example_wenv j = Some (example_plan ''s2'')"
  "dump_plan example_wenv p = JObj example_plan_json" "dump_scope example_wenv s = JObj []" "integrations example_wenv"
  "splunk_discover example_wenv q = Inr example_discovery" "draft_plan example_wenv b c = Inr (example_plan ''s1'')"
  by (simp_all add: example_wenv_def)

lemma example_plan_valid: "validate_plan_payload (JObj example_plan_json) = Inr example_plan_json"
  by code_simp

lemma example_sources: "plan_pairs (example_plan i) = []" "hp_scope (example_plan i) = example_scope"
  by (simp_all add: plan_pairs_def example_plan_def)

definition example_snapshot :: json_fields where
  "example_snapshot =
     dict_or (snapshot_dict ''s2'' ''splunk_discovery'' 0 (JObj (dict_or [] (sampling example_wenv (Some (example_plan ''s1''))))))
       [(''execution_config_snapshot'', JObj (snapshot_dict ''c1'' ''execution_configuration'' 20 (execution_binding_payload example_wenv))),
        (''input_context'', input_context example_wenv example_row), (''mode'', JStr ''production'')]"

lemma example_drafts:
  "draft_plans example_wenv example_row example_draws
     = Inr ((example_plan ''s1'')\<lparr>hp_discovery_snapshot_id := ''s2''\<rparr>, example_discovery,
            snapshot_dict ''s2'' ''splunk_discovery'' 0 (JObj (dict_or [] (sampling example_wenv (Some (example_plan ''s1''))))))"
proof -
  have ok: "draft_ok example_row ''p1'' ''s1'' ''c1'' example_discovery (example_plan ''s1'')"
    by (simp add: draft_ok_def example_plan_def example_row_def new_hunt_def example_scope_def example_discovery_def outside_scope_def plan_pairs_def)
  show ?thesis
    by (simp add: draft_plans_def orchestrator_discover_def example_draws_def ok fields_changed_def json_equal_def)
      (simp add: example_discovery_def)
qed

lemma example_finished:
  "finished_draft example_wenv example_row example_draws 20 ((example_plan ''s1'')\<lparr>hp_discovery_snapshot_id := ''s2''\<rparr>, example_discovery,
            snapshot_dict ''s2'' ''splunk_discovery'' 0 (JObj (dict_or [] (sampling example_wenv (Some (example_plan ''s1''))))))
     = Inr (example_plan_json, example_snapshot)"
  by (simp add: finished_draft_def example_plan_valid example_snapshot_def example_draws_def)

definition example_planned :: hunt_row where
  "example_planned = example_row\<lparr>h_state := AWAITING_PLAN_REVIEW, h_discovery := Some example_snapshot,
     h_plan := Some (JObj example_plan_json), h_plan_version := Some 1, h_updated := 20\<rparr>"

lemma example_row_fields: "h_hunt_id example_row = ''h1''" "h_owner_id example_row = ''u1''" "h_state example_row = CREATED"
  by (simp_all add: example_row_def new_hunt_def)

lemma example_after_discover: "hunts (serve example_wenv [example_created, example_discovered]) = [example_planned]"
proof -
  have "hunts (perform example_wenv example_discovered st) = [example_planned]" if "hunts st = [example_row]" for st
    using that unfolding example_discovered_def perform.simps
    by (simp add: discover_def bindS_steps bindS_alone owned_row_def owned_def example_row_fields bindS_fst update_hunt_def expected_simps
        example_drafts example_finished store_draft_def example_planned_def)
  then show ?thesis using example_after_create serve_snoc [of example_wenv "[example_created]" example_discovered] by simp
qed

lemma example_snapshot_fields:
  "get_or example_snapshot ''input_context'' (JObj []) = input_context example_wenv example_row"
  "get_or example_snapshot ''payload'' (JObj []) = JObj (sampling example_wenv (Some (example_plan ''s1'')))"
  by (simp_all add: example_snapshot_def dict_or_def snapshot_dict_def get_or_def sampling_def Let_def)

lemma example_refs: "check_refs e (JList []) example_snapshot = Inr ()"
  unfolding check_refs_def intelligence_sources_of_def example_snapshot_fields
  by (simp add: input_context_def intelligence_sources_def example_row_def
      new_hunt_def get_or_def validate_intelligence_refs_def text_list_def on_value_error_def
      strip_def lstrip_def rstrip_def)

lemma example_scope_kept: "check_sampled_scope example_wenv j example_snapshot = Inr ()"
  unfolding check_sampled_scope_def example_snapshot_fields
  by (simp add: sampling_def Let_def get_or_def model_validate_def sampled_pairs_def field_of_def
      pairs_json_def example_sources json_equal_def)

lemma example_after_approve:
  "hunts (serve example_wenv [example_created, example_discovered, example_approved])
     = [example_planned\<lparr>h_state := APPROVED, h_approval := Some (approval_fields example_planned ''a1'' ''u1'' None 30), h_updated := 30\<rparr>]"
proof -
  have row: "h_hunt_id example_planned = ''h1''" "h_owner_id example_planned = ''u1''" "h_state example_planned = AWAITING_PLAN_REVIEW"
      "plan_of example_planned = JObj example_plan_json" "snapshot_of example_planned = example_snapshot" "plan_version_of example_planned = Inr 1"
      "h_plan_version example_planned = Some 1"
    by (simp_all add: example_planned_def example_row_fields plan_of_def snapshot_of_def plan_version_of_def)
  have refs: "get_or example_plan_json ''intelligence_refs'' (JList []) = JList []" by (simp add: get_or_def example_plan_json_def)
  have "hunts (perform example_wenv example_approved st) =
      [example_planned\<lparr>h_state := APPROVED, h_approval := Some (approval_fields example_planned ''a1'' ''u1'' None 30), h_updated := 30\<rparr>]"
    if "hunts st = [example_planned]" for st
    using that unfolding example_approved_def perform.simps
    by (simp add: approve_def bindS_steps bindS_alone owned_row_def owned_def row example_plan_valid refs example_refs example_scope_kept
        update_hunt_def expected_simps)
  then show ?thesis
    using example_after_discover serve_snoc [of example_wenv "[example_created, example_discovered]" example_approved] by simp
qed

theorem running_plan_is_the_approved_one_witness:
  "\<exists>r a. r \<in> set (hunts (serve example_wenv [example_created, example_discovered, example_approved]))
     \<and> h_state r = APPROVED \<and> h_approval r = Some a \<and> binds a r"
proof -
  obtain r where r: "r \<in> set (hunts (serve example_wenv [example_created, example_discovered, example_approved]))" "h_state r = APPROVED"
    unfolding example_after_approve by simp
  then have "h_state r \<in> APPROVED_STATES" by (simp add: APPROVED_STATES_def)
  from running_plan_is_the_approved_one [OF r(1) this] show ?thesis using r by blast
qed

lemma example_two: "hunts (serve example_wenv [example_created, Create ''h2'' ''u1'' ''t'' ''h'' ''o'' [] [] 10])
    = [example_row, new_hunt ''h2'' ''u1'' ''t'' ''h'' ''o'' [] [] 10]"
  by (simp add: serve_def example_created_def empty_store_def create_hunt_def store_eval CONTEXT_INPUT_MAX_LENGTH_def
      example_row_def new_hunt_def ensure_def)

theorem page_continues_after_its_cursor_witness:
  "list_hunts ''u1'' 1 (Some ''h2'') (serve example_wenv [example_created, Create ''h2'' ''u1'' ''t'' ''h'' ''o'' [] [] 10])
     = Inr [summary_of example_row]"
proof -
  let ?st = "serve example_wenv [example_created, Create ''h2'' ''u1'' ''t'' ''h'' ''o'' [] [] 10]"
  have l: "owned_hunts ''u1'' ?st = [new_hunt ''h2'' ''u1'' ''t'' ''h'' ''o'' [] [] 10, example_row]"
    unfolding owned_hunts_def example_two by (simp add: newest_first_def example_row_def new_hunt_def)
  then show ?thesis
    using page_continues_after_its_cursor [of 1 0 "''u1''" example_wenv "[example_created, Create ''h2'' ''u1'' ''t'' ''h'' ''o'' [] [] 10]"]
    by (simp add: new_hunt_def)
qed

theorem stale_revision_revives_cancelled_hunt_witness:
  "\<exists>r. owned_row ''u1'' ''h1'' (fst (revise_plan (\<lambda>s. fst (cancel id ''u1'' ''h1'' 30 s)) ''u1'' ''h1'' ''x'' 31
       (serve example_wenv [example_created, example_discovered]))) = Inr r \<and> h_state r = AWAITING_PLAN_REVIEW \<and> h_plan_version r = Some 2"
proof -
  let ?st = "serve example_wenv [example_created, example_discovered]"
  have row: "owned_row ''u1'' ''h1'' ?st = Inr example_planned"
    by (simp add: owned_row_def example_after_discover owned_def example_planned_def example_row_fields)
  have lim: "\<exists>p. with_limitation (plan_of example_planned) (''Analyst revision request: '' @ ''x'') = Inr p"
    by (simp add: with_limitation_def plan_of_def example_planned_def example_plan_json_def get_or_def)
  then obtain p where p: "with_limitation (plan_of example_planned) (''Analyst revision request: '' @ ''x'') = Inr p" by blast
  have s: "h_state example_planned = AWAITING_PLAN_REVIEW" "h_plan_version example_planned = Some 1" by (simp_all add: example_planned_def)
  show ?thesis
    using stale_revision_revives_cancelled_hunt [OF serve_append(1) row s(1) p s(2), of 30 31] by simp
qed

text \<open>The same hunt further on: queued, claimed by a worker, run, reported and finalized.\<close>

definition example_running :: "hunt_row" where
  "example_running = example_planned\<lparr>h_state := RUNNING, h_approval := Some (approval_fields example_planned ''a1'' ''u1'' None 30), h_updated := 60\<rparr>"

definition example_requests :: "request list" where
  "example_requests = [example_created, example_discovered, example_approved, Execute ''u1'' ''h1'' ''j1'' 40,
     Queue \<lparr>s_lease_seconds = 60, s_scope = ''d'', s_max_active = None\<rparr> (Claim ''w1'' None 50), StartExecution ''u1'' ''h1'' ''j1'' ''w1'' 60]"

definition example_results_json :: json where "example_results_json = JObj example_results"

definition example_finish :: "request list" where
  "example_finish = [PersistResult ''u1'' ''h1'' example_results_json (JObj example_report) ''r1'' 70, FinalizeReport ''u1'' ''h1'' 1 80]"

lemma example_config: "config_snapshot_of example_snapshot =
    Some (snapshot_dict ''c1'' ''execution_configuration'' 20 (execution_binding_payload example_wenv))"
  by (simp add: config_snapshot_of_def example_snapshot_def dict_or_def get_or_def snapshot_dict_def)

lemma example_job_service [simp]: "job_service example_wenv = \<lparr>s_lease_seconds = 60, s_scope = ''d'', s_max_active = None\<rparr>"
  by (simp add: example_wenv_def)

lemma example_queued:
  "\<exists>j. j_status j = ''queued'' \<and> j_job_id j = ''j1'' \<and> j_hunt_id j = ''h1'' \<and> j_owner_id j = ''u1'' \<and> j_scope j = ''d'' \<and> j_attempts j = 0
     \<and> \<not> j_cancel_requested j
     \<and> hunts (perform example_wenv (Execute ''u1'' ''h1'' ''j1'' 40) st) = [r\<lparr>h_state := QUEUED, h_updated := 40\<rparr>]
     \<and> job_table (perform example_wenv (Execute ''u1'' ''h1'' ''j1'' 40) st) = [j]"
  if "hunts st = [r]" "job_table st = []"
    "r = example_planned\<lparr>h_state := APPROVED, h_approval := Some (approval_fields example_planned ''a1'' ''u1'' None 30), h_updated := 30\<rparr>"
proof -
  have row: "h_hunt_id r = ''h1''" "h_owner_id r = ''u1''" "h_state r = APPROVED" "plan_of r = JObj example_plan_json"
      "snapshot_of r = example_snapshot" "plan_version_of r = Inr 1" "h_plan_version r = Some 1"
      "approval_of r = approval_fields example_planned ''a1'' ''u1'' None 30" "snapshot_of example_planned = example_snapshot"
      "h_plan_version example_planned = Some 1"
    unfolding that(3) by (simp_all add: example_planned_def example_row_fields plan_of_def snapshot_of_def plan_version_of_def approval_of_def)
  have refs: "get_or example_plan_json ''intelligence_refs'' (JList []) = JList []" by (simp add: get_or_def example_plan_json_def)
  have approval: "approval_of r \<noteq> []" "field_of (approval_of r) ''plan_version'' = Inr (JInt 1)"
      "get_or (approval_of r) ''execution_config_snapshot_id'' JNull = JStr ''c1''"
      "get_or (approval_of r) ''execution_config_sha256'' JNull = JStr (snapshot_sha256 ''execution_configuration'' (execution_binding_payload example_wenv))"
    unfolding row(8) approval_fields_def row(9,10) example_config
    by (simp_all add: field_of_def get_or_def version_json_def snapshot_dict_def)
  have binding: "\<exists>c. check_config_binding example_wenv r = Inr (Some c)"
    unfolding check_config_binding_def row(5) example_config option.case approval
    by (simp add: json_equal_def get_or_def snapshot_dict_def validate_execution_snapshot_def)
  then obtain c where c: "check_config_binding example_wenv r = Inr (Some c)" by blast
  show ?thesis
    unfolding perform.simps using that(1,2)
    by (simp add: execute_def bindS_steps bindS_alone owned_row_def owned_def row(1-7) approval version_json_def example_plan_valid refs example_refs c
        queue_hunt_def update_hunt_def expected_simps enqueue_def Let_def or_default_def)
qed

lemma example_started:
  assumes "hunts st = [r]" "job_table st = [j]" "h_hunt_id r = ''h1''" "h_owner_id r = ''u1''" "h_state r = QUEUED"
    and "j_status j = ''queued''" "j_job_id j = ''j1''" "j_hunt_id j = ''h1''" "j_owner_id j = ''u1''" "j_scope j = ''d''" "\<not> j_cancel_requested j"
  shows "hunts (perform env (StartExecution ''u1'' ''h1'' ''j1'' ''w1'' 60)
           (perform env (Queue \<lparr>s_lease_seconds = 60, s_scope = ''d'', s_max_active = None\<rparr> (Claim ''w1'' None 50)) st))
         = [r\<lparr>h_state := RUNNING, h_updated := 60\<rparr>]"
  using assms
  by (simp add: claim_def at_capacity_def claimable_def or_default_def rowcount_def update_where_def Let_def
      start_execution_def bindS_steps bindS_alone require_lease_def lease_outcome_def update_hunt_def owned_def expected_simps)

lemma example_size: "int (length (encode (dumps_text escape_raw example_results_json))) \<le> MAX_RESULT_BYTES"
  by code_simp

lemma example_finished_report:
  assumes "hunts st = [r]" "h_hunt_id r = ''h1''" "h_owner_id r = ''u1''" "h_state r = RUNNING"
  shows "hunts (perform example_wenv (FinalizeReport ''u1'' ''h1'' 1 80)
           (perform example_wenv (PersistResult ''u1'' ''h1'' example_results_json (JObj example_report) ''r1'' 70) st))
         = [r\<lparr>h_state := FINALIZED, h_results := Some example_results, h_report_id := Some ''r1'', h_report_version := Some 1,
              h_report_state := Some FINALIZED, h_report_content := Some example_report,
              h_report_pdf := Some (formatted_pdf example_wenv (h_title r) example_report), h_updated := 80\<rparr>]"
proof -
  have "hunts (perform example_wenv (PersistResult ''u1'' ''h1'' example_results_json (JObj example_report) ''r1'' 70) st)
      = [r\<lparr>h_state := REPORT_DRAFT, h_results := Some example_results, h_report_id := Some ''r1'', h_report_version := Some 1,
           h_report_state := Some REPORT_DRAFT, h_report_content := Some example_report, h_updated := 70\<rparr>]"
    using assms example_size example_report_accepted
    by (simp add: persist_execution_result_def bindS_steps bindS_alone owned_row_def owned_def example_results_json_def bindS_fst
        update_hunt_def expected_simps report_changes_def)
  then show ?thesis
    using assms(2-4) example_report_accepted
    by (simp add: finalize_report_def bindS_steps bindS_alone owned_row_def owned_def results_of_def update_hunt_def expected_simps)
qed

lemma job_table_kept:
  "job_table (fst (update_hunt owner hunt ex cs st)) = job_table st"
  "job_table (fst (create_hunt hunt owner title hyp obj intel syn now st)) = job_table st"
  "job_table (fst (discover env id owner hunt draws now st)) = job_table st"
  "job_table (fst (approve env id owner hunt memo i now st)) = job_table st"
proof -
  show u: "job_table (fst (update_hunt owner hunt ex cs st)) = job_table st" for owner hunt ex cs st
    by (simp add: update_hunt_def Let_def split: option.splits)
  show "job_table (fst (create_hunt hunt owner title hyp obj intel syn now st)) = job_table st"
    by (simp add: create_hunt_def bindS_steps modifyS_def split: sum.splits)
  show "job_table (fst (discover env id owner hunt draws now st)) = job_table st"
    by (simp add: discover_def bindS_steps bindS_alone bindS_fst discovery_failed_def store_draft_def case_prod_unfold u split: sum.splits)
  show "job_table (fst (approve env id owner hunt memo i now st)) = job_table st"
    by (simp add: approve_def bindS_steps bindS_alone u split: sum.splits)
qed

lemma example_pdf: "\<exists>b. pdf ''u1'' ''h1'' (serve example_wenv (example_requests @ example_finish)) = Inr b"
proof -
  let ?s3 = "serve example_wenv [example_created, example_discovered, example_approved]"
  let ?r3 = "example_planned\<lparr>h_state := APPROVED, h_approval := Some (approval_fields example_planned ''a1'' ''u1'' None 30), h_updated := 30\<rparr>"
  let ?s4 = "perform example_wenv (Execute ''u1'' ''h1'' ''j1'' 40) ?s3"
  let ?s6 = "serve example_wenv example_requests"
  have jobs: "job_table ?s3 = []"
    unfolding serve_def example_created_def example_discovered_def example_approved_def fold_simps perform.simps job_table_kept
    by (simp add: empty_store_def)
  obtain j where j: "j_status j = ''queued''" "j_job_id j = ''j1''" "j_hunt_id j = ''h1''" "j_owner_id j = ''u1''" "j_scope j = ''d''"
      "\<not> j_cancel_requested j" "hunts ?s4 = [?r3\<lparr>h_state := QUEUED, h_updated := 40\<rparr>]" "job_table ?s4 = [j]"
    using example_queued [OF example_after_approve jobs refl] by blast
  have row: "h_hunt_id example_planned = ''h1''" "h_owner_id example_planned = ''u1''" by (simp_all add: example_planned_def example_row_fields)
  obtain r where s6: "hunts ?s6 = [r]" "h_hunt_id r = ''h1''" "h_owner_id r = ''u1''" "h_state r = RUNNING"
  proof
    have "?s6 = perform example_wenv (StartExecution ''u1'' ''h1'' ''j1'' ''w1'' 60)
        (perform example_wenv (Queue \<lparr>s_lease_seconds = 60, s_scope = ''d'', s_max_active = None\<rparr> (Claim ''w1'' None 50)) ?s4)"
      by (simp only: serve_def example_requests_def fold_simps)
    then show "hunts ?s6 = [?r3\<lparr>h_state := RUNNING, h_updated := 60\<rparr>]"
      using example_started [OF j(7,8) _ _ _ j(1-6), of example_wenv] row by simp
  qed (use row in simp_all)
  have "serve example_wenv (example_requests @ example_finish) = perform example_wenv (FinalizeReport ''u1'' ''h1'' 1 80)
      (perform example_wenv (PersistResult ''u1'' ''h1'' example_results_json (JObj example_report) ''r1'' 70) ?s6)"
    by (simp only: serve_def example_finish_def fold_append comp_apply fold_simps)
  then show ?thesis
    using example_finished_report [OF s6] s6(2,3) by (simp add: pdf_def owned_row_def owned_def del: perform.simps)
qed

theorem finalized_report_is_final_witness:
  "\<exists>b. pdf ''u1'' ''h1'' (serve example_wenv (example_requests @ example_finish)) = Inr b
     \<and> pdf ''u1'' ''h1'' (serve example_wenv ((example_requests @ example_finish) @ [Cancel ''u1'' ''h1'' 90])) = Inr b"
proof -
  obtain b where b: "pdf ''u1'' ''h1'' (serve example_wenv (example_requests @ example_finish)) = Inr b" using example_pdf by blast
  show ?thesis using finalized_report_is_final [OF b, of "[Cancel ''u1'' ''h1'' 90]"] b by blast
qed

end
