(* ===== verification/Spec2Isabelle.thy ===== *)
theory Spec2Isabelle
  imports HuntState Failures Budgets Jobs QueryStrategy Auth Retention Citations McpAuthorization Grounding Workflow
begin

text \<open>
  \<^bold>\<open>The program.\<close>  An analyst writes a hypothesis; a language model drafts a hunt plan; the analyst
  approves it; a worker then lets the model propose Splunk searches, checks each proposal against
  the approved scope, runs it within budgets, keeps selected rows as hashed evidence, and writes
  findings and a report whose statements must cite that evidence.  All sources are below
  \<^verbatim>\<open>src/src/threat_hunting/\<close>.  The API and the worker share one database; every record carries its
  owner and its hunt, and every read is scoped by both.

  \<^bold>\<open>Theories and sources.\<close>
  \<^item> \<open>Prelude\<close>: exceptions as values (\<open>py_error + 'a\<close>, \<open>bindR\<close>, \<open>ensure\<close>, \<open>mapR\<close>), first-occurrence
    de-duplication, first matches in a list, and the locales \<open>guarded_machine\<close> and \<open>total_machine\<close> for
    components whose operations raise or move their state.  They are interpreted on the model's own
    operations: the hunt state machine, the budget ledger, the job table and the evidence store.
  \<^item> \<open>HuntState\<close> (\<^verbatim>\<open>domain/state.py\<close>): the states of a hunt, the transition table and the machine with its
    pause target.  No history reaches a running state without plan approval, terminal states are
    final, a resumed hunt returns to the stage it left; a paused and re-planned hunt keeps a stale
    target.
  \<^item> \<open>Failures\<close> (\<^verbatim>\<open>domain/errors.py\<close>): categories, retry classes and limits; attempts are bounded.
  \<^item> \<open>Budgets\<close> (\<^verbatim>\<open>domain/budgets.py\<close>): limits, validators and the usage ledger; the ledger is exact, and
    requests that are guarded by it never exceed their budget.
  \<^item> \<open>Jobs\<close> (\<^verbatim>\<open>services/jobs.py\<close>): the durable queue with leases and generations; a superseded lease is
    fenced, a claim is exclusive, closed jobs stay closed, the active-hunt cap holds in every
    reachable table, and expired jobs are claimed again.
  \<^item> \<open>PyStr\<close>: the string methods, \<open>fnmatch\<close> and quoted tokens that the text analyses share.
    \<open>SPLText\<close>, \<open>SPLSource\<close>, \<open>SPLFields\<close>, \<open>SPLNormal\<close>, \<open>SPLPolicy\<close> (\<^verbatim>\<open>domain/spl_policy.py\<close>): the parser of the
    search language, the source branches of a search expression, field references and aliases,
    normalisation, the provenance rewrite, and the policy decision.  An allowed query can only match
    events of approved indexes and sourcetypes inside the approved window; the decision is always
    made; rendering a parsed query and parsing it again gives the same query.
  \<^item> \<open>Sha256\<close>, \<open>Json\<close>: SHA-256 and \<open>json.dumps\<close> with sorted keys.  The text of a value determines the
    value up to key order (locale \<open>escaping\<close>, interpreted for both escape modes), which is what
    lets hashes of cache keys and evidence be read as commitments to their fields.
  \<^item> \<open>Common\<close> (\<^verbatim>\<open>domain/common.py\<close>): UTC instants and their canonical text, which is injective.
  \<^item> \<open>Contracts\<close> (\<^verbatim>\<open>domain/contracts.py\<close>): every payload model with its validators.
  \<^item> \<open>QueryStrategy\<close> (\<^verbatim>\<open>domain/query_strategy.py\<close>): estimates, history reuse, scores and the ranking, which
    follows the plan, does not depend on the order of its input, and never raises on typed input.
  \<^item> \<open>Auth\<close> (\<^verbatim>\<open>auth/service.py\<close>): accounts, sessions and the login limiter; guesses per window are
    bounded, only live sessions that were issued authenticate, logging out ends a session.
  \<^item> \<open>Retention\<close> (\<^verbatim>\<open>services/retention.py\<close>): due dates and the restartable, cursor-driven deletion of a
    hunt; it stays inside one hunt, resumes where it failed and completes.
  \<^item> \<open>Evidence\<close> (\<^verbatim>\<open>services/evidence.py\<close>, \<^verbatim>\<open>services/schema.py\<close>): freezing of result rows, the canonical
    envelope and its hash, the replay key, and the repository, which refines a first-write-wins map
    from owner, hunt and replay key to records.
  \<^item> \<open>Findings\<close> (\<^verbatim>\<open>services/findings.py\<close>): entities, pivots, finding drafts and syntheses with their
    repository, including what happens when another transaction wins the race for a key.
  \<^item> \<open>Citations\<close> (\<^verbatim>\<open>services/citations.py\<close>): the validators of citations; a finding is accepted exactly when
    its citations exist for the owner and the hunt, are intact and come from completed queries.
  \<^item> \<open>McpAuthorization\<close> (\<^verbatim>\<open>mcp/authorization.py\<close>, digests of \<^verbatim>\<open>db.py\<close>): the decision whether a worker may run a
    tool, made from eight stored rows, and the ledger that reserves a request once per idempotency
    key.  Rows and requests are name-value lists; \<open>json.loads\<close>, \<open>fromisoformat\<close>, \<open>int\<close> of a text and \<open>str\<close> of a container are
    fields of the record \<open>python\<close>.  Three lemmas show what the decision does not look at.

  \<^item> \<open>JsonData\<close>: what the services do with decoded JSON: lookups, iteration, equality, errors of the workflow.
    \<open>json_env\<close> carries \<open>str\<close> of a container and \<open>fromisoformat\<close>.
  \<^item> \<open>EvidenceViews\<close> (\<^verbatim>\<open>services/evidence.py\<close>): what is shown of retained evidence: the timeline, time bounds, duplicate
    groups, advisory lead groups, field counts, activity around leads and the paged lookup.  The pages of a lookup cover
    its matches, lead groups are the grouping by identity, and the periods of a lead count the records of its scope.
  \<^item> \<open>LeadSessions\<close> (\<^verbatim>\<open>services/evidence.py\<close>): the sessions of the lead groups and the widening of a search to all of them,
    with the regular expressions of \<open>_strip_lead_identity_predicates\<close> as matchers on the rest of the text.  A widened search
    passes the coverage test for every session; two lemmas show a search the widening breaks and a session no search covers.
  \<^item> \<open>EvidenceSample\<close> (\<^verbatim>\<open>services/investigation.py\<close>): the bounded sample of evidence for a model call.  Its loops are
    shown to take a prefix of one interleaving, from which follow the bound, the share of every query and the exact
    coverage counts.
  \<^item> \<open>Grounding\<close> (\<^verbatim>\<open>services/investigation.py\<close>, \<open>compare_advisory_iocs\<close> of \<^verbatim>\<open>services/threat_intel.py\<close>): what is accepted
    of the model's findings, assessments, follow-ups and answers.  Findings are accepted exactly when grounded, entities are
    values of cited rows, every lead is accounted for once, no approved question is lost, and widened decisions
    cover every lead session.  \<open>json.loads\<close> is an argument; texts nest JSON at most as deep as the longest is long
    (\<open>flatten_fuel\<close>).  The indicators extracted from the advisory and the measured tables are arguments.
  \<^item> \<open>ReportContent\<close> (\<^verbatim>\<open>services/reports.py\<close>, \<open>_validate_report_content\<close>): the checks a report passes before it is stored or
    finalized; an accepted report cites retained evidence only, answers each approved question once with the
    retained findings and carries no raw events.
  \<^item> \<open>ReportPdf\<close> (\<^verbatim>\<open>services/reports.py\<close>, the writer in \<open>_formatted_pdf\<close>): pages, objects, offsets and trailer of the file.
    Every offset points at its object, every page is reached and holds its own lines, and no content leaves its
    string literal.
  \<^item> \<open>Workflow\<close> (\<^verbatim>\<open>services/workflow.py\<close> with the snapshots of \<^verbatim>\<open>services/orchestration.py\<close> and the references of
    \<^verbatim>\<open>services/threat_intel.py\<close>): the service that puts the components together, in production mode.  An operation is an
    \<open>action\<close> on a \<open>store\<close> of hunts, audit records and jobs, which may have committed a transaction when a later one raises;
    what other requests do between its transactions is its argument \<open>others\<close>.  \<open>serve\<close> answers a list of requests, each
    running alone.  Every request is simulated by \<open>store_step\<close>s, each of which moves one row by \<open>row_step\<close> and records it
    (\<open>perform_steps\<close>), and invariants of rows are proved on these steps (\<open>served_rows\<close>): what runs is the approved plan, a
    finalized report stays as it is, the audit trail is a history of the state machine of \<open>HuntState\<close>, and pages of hunts
    continue where they stopped.  With an interfering cancellation, a plan revision overwrites it.

  \<^bold>\<open>Conventions.\<close>  A Python exception is a value of a sum type, and the first exception wins.  A
  database transaction is one step on lists of rows; where the code selects and then inserts, the
  rows that others commit in between are an argument.  An operation reads the clock once.  Clocks, fresh identifiers, random tokens,
  Argon2 verification, path resolution and injected faults are arguments.  Identifiers are opaque
  strings.  Text is made of the characters with code points 0 to 255, without the case folding of
  U+00B5, which leaves that range.  Scores that the code computes as floats are exact rationals.  JSON values
  have no floats.  The parser of \<open>SPLSource\<close> takes fuel \<open>4 * length tokens + 3\<close>; its mutually recursive
  calls each consume a token within four calls, so the fuel is never used up (\<open>enough_fuel\<close>).

  \<^bold>\<open>Not modelled.\<close>  Code whose content is calls to other systems: the Splunk and MCP clients, the model
  SDK adapters, the HTTP routes, HTML rendering, process start-up, health probes, migrations and the
  browser application.  Of \<^verbatim>\<open>services/workflow.py\<close>, the demo mode and the investigation loop that \<open>execute_job\<close> enters after its
  checks; of \<^verbatim>\<open>services/reports.py\<close>, the assembly of draft content and its wrapping into lines, and the second report service
  with its file store; of \<^verbatim>\<open>services/investigation.py\<close>, \<^verbatim>\<open>services/orchestration.py\<close> and \<^verbatim>\<open>services/model_output.py\<close>, the assembly of
  prompts, the paging of evidence for the model, its evidence labels and the repair of its output.  Of \<^verbatim>\<open>services/evidence.py\<close>,
  \<open>query_source_coverage\<close> and \<open>compact_inventory_summary\<close>.
\<close>

end
